(* ===== verification/Prelude.thy ===== *)
theory Prelude
  imports Main "HOL-Library.Multiset"
begin

text \<open>
  Shared material of the development.

  \<^item> \<open>fault\<close> and \<open>'a res\<close>: how a Go function can fail to return. \<open>log.Fatal*\<close>
    ends the process, an index, slice, nil-pointer, division or type-assertion error panics, and so
    does closing a closed channel or a call of \<open>panic\<close>, and a loop may not end (\<open>Diverges\<close>, from a
    \<open>partial_function\<close> that is \<open>None\<close>). A definition whose source can fail returns \<open>Inl\<close> of the fault, and \<open>and_then\<close> stops at the first one.
  \<^item> \<open>majority\<close>: the counting test \<open>count > len(peers)/2\<close> of the source, and the
    locale of quorums it is an instance of.
  \<^item> generic facts on lists (indices, \<open>take\<close>/\<open>drop\<close>), shared by the components.

  Go's \<open>int\<close> is a 64-bit integer. Terms, log indices, request numbers and configuration
  numbers start near zero and grow by one per event, so they are modelled as \<open>int\<close>;
  values whose bits matter (the bit sets of the checker, the hash of the MapReduce
  worker) are modelled as words where they occur.
\<close>

section \<open>Failing computations\<close>

datatype fault = Fatal | IndexPanic | NilPanic | DivPanic | TypePanic | ClosePanic | ExplicitPanic | Diverges

type_synonym 'a res = "fault + 'a"

definition and_then :: "'a res \<Rightarrow> ('a \<Rightarrow> 'b res) \<Rightarrow> 'b res" where
  "and_then m f = (case m of Inl e \<Rightarrow> Inl e | Inr x \<Rightarrow> f x)"

lemma and_then_simps [simp]:
  "and_then (Inl e) f = Inl e"
  "and_then (Inr x) f = f x"
  by (simp_all add: and_then_def)

lemma and_then_Inr_iff [simp]:
  "and_then m f = Inr y \<longleftrightarrow> (\<exists>x. m = Inr x \<and> f x = Inr y)"
  by (cases m) simp_all

lemma and_then_split:
  "P (and_then m f) \<longleftrightarrow> (\<forall>e. m = Inl e \<longrightarrow> P (Inl e)) \<and> (\<forall>x. m = Inr x \<longrightarrow> P (f x))"
  by (cases m) simp_all

lemma and_then_assoc: "and_then (and_then m f) g = and_then m (\<lambda>x. and_then (f x) g)"
  by (cases m) simp_all

lemma and_then_cong [fundef_cong]:
  "m = m' \<Longrightarrow> (\<And>x. m' = Inr x \<Longrightarrow> f x = f' x) \<Longrightarrow> and_then m f = and_then m' f'"
  by (cases m') simp_all

text \<open>Reading and writing a slice at an index.\<close>

definition nth_res :: "'a list \<Rightarrow> nat \<Rightarrow> 'a res" where
  "nth_res xs i = (if i < length xs then Inr (xs ! i) else Inl IndexPanic)"

definition set_res :: "'a list \<Rightarrow> nat \<Rightarrow> 'a \<Rightarrow> 'a list res" where
  "set_res xs i v = (if i < length xs then Inr (xs[i := v]) else Inl IndexPanic)"

text \<open>The same with an index of type \<open>int\<close>.\<close>

definition index_res :: "'a list \<Rightarrow> int \<Rightarrow> 'a res" where
  "index_res xs i = (if i < 0 then Inl IndexPanic else nth_res xs (nat i))"

definition update_res :: "'a list \<Rightarrow> int \<Rightarrow> 'a \<Rightarrow> 'a list res" where
  "update_res xs i v = (if i < 0 then Inl IndexPanic else set_res xs (nat i) v)"

lemma nth_res_Inr [simp]: "i < length xs \<Longrightarrow> nth_res xs i = Inr (xs ! i)"
  by (simp add: nth_res_def)

lemma set_res_Inr [simp]: "i < length xs \<Longrightarrow> set_res xs i v = Inr (xs[i := v])"
  by (simp add: set_res_def)

lemma nth_res_InrD: "nth_res xs i = Inr x \<Longrightarrow> i < length xs \<and> x = xs ! i"
  by (simp add: nth_res_def split: if_splits)

lemma set_res_InrD: "set_res xs i v = Inr ys \<Longrightarrow> i < length xs \<and> ys = xs[i := v]"
  by (simp add: set_res_def split: if_splits)

lemma index_res_Inr [simp]: "0 \<le> i \<Longrightarrow> nat i < length xs \<Longrightarrow> index_res xs i = Inr (xs ! nat i)"
  by (simp add: index_res_def)

lemma update_res_Inr [simp]: "0 \<le> i \<Longrightarrow> nat i < length xs \<Longrightarrow> update_res xs i v = Inr (xs[nat i := v])"
  by (simp add: update_res_def)

lemma index_res_InrD: "index_res xs i = Inr x \<Longrightarrow> 0 \<le> i \<and> nat i < length xs \<and> x = xs ! nat i"
  by (auto simp: index_res_def dest: nth_res_InrD split: if_splits)

lemma update_res_InrD: "update_res xs i v = Inr ys \<Longrightarrow> 0 \<le> i \<and> nat i < length xs \<and> ys = xs[nat i := v]"
  by (auto simp: update_res_def dest: set_res_InrD split: if_splits)

text \<open>Running a computation on each element of a list, in order.\<close>

fun collect_res :: "('a \<Rightarrow> 'b option res) \<Rightarrow> 'a list \<Rightarrow> 'b list res" where
  "collect_res f [] = Inr []"
| "collect_res f (x # xs) =
     and_then (f x) (\<lambda>r. and_then (collect_res f xs) (\<lambda>rs.
       Inr (case r of None \<Rightarrow> rs | Some y \<Rightarrow> y # rs)))"

lemma collect_res_InrD:
  "collect_res f xs = Inr ys \<Longrightarrow> y \<in> set ys \<Longrightarrow> \<exists>x \<in> set xs. f x = Inr (Some y)"
  by (induction xs arbitrary: ys) (auto split: option.splits)

lemma collect_res_total:
  "(\<And>x. x \<in> set xs \<Longrightarrow> \<exists>r. f x = Inr r) \<Longrightarrow> \<exists>ys. collect_res f xs = Inr ys"
  by (induction xs) (fastforce)+

text \<open>Running a machine on a list of inputs.\<close>

fun fold_res :: "('a \<Rightarrow> 'b \<Rightarrow> 'a res) \<Rightarrow> 'a \<Rightarrow> 'b list \<Rightarrow> 'a res" where
  "fold_res f a [] = Inr a"
| "fold_res f a (x # xs) = and_then (f a x) (\<lambda>a'. fold_res f a' xs)"

lemma fold_res_append: "fold_res f a (xs @ ys) = and_then (fold_res f a xs) (\<lambda>b. fold_res f b ys)"
  by (induction xs arbitrary: a) (simp_all add: and_then_assoc)

lemma fold_res_snoc: "fold_res f a (xs @ [x]) = and_then (fold_res f a xs) (\<lambda>b. f b x)"
proof -
  have "and_then m Inr = m" for m :: "'a res" by (cases m) simp_all
  then show ?thesis by (simp add: fold_res_append)
qed

lemma fold_res_Inr: "fold_res (\<lambda>a x. Inr (g a x)) a xs = Inr (foldl g a xs)"
  by (induction xs arbitrary: a) simp_all

section \<open>Collections of rewrite rules\<close>

named_theorems raft_frame \<open>what the helpers of a Raft peer leave unchanged\<close>
named_theorems raft_ops \<open>unfolding equations of the operations of a Raft peer\<close>

section \<open>Quorums\<close>

text \<open>
  A set of quorums of which any two meet: what an election or a commitment relies on.
\<close>

locale quorum_system =
  fixes quorum :: "'p set \<Rightarrow> bool"
  assumes quorums_meet: "quorum A \<Longrightarrow> quorum B \<Longrightarrow> A \<inter> B \<noteq> {}"
begin

lemma quorum_nonempty: "quorum A \<Longrightarrow> A \<noteq> {}"
  using quorums_meet [of A A] by simp

lemma single_choice:
  assumes "quorum A" and "quorum B"
    and "\<And>p. p \<in> A \<Longrightarrow> chose p a" and "\<And>p. p \<in> B \<Longrightarrow> chose p b"
    and "\<And>p x y. chose p x \<Longrightarrow> chose p y \<Longrightarrow> x = y"
  shows "a = b"
  using quorums_meet [OF assms(1,2)] assms(3-5) by blast

end

text \<open>The test of the source on \<open>n\<close> peers: \<open>count > n / 2\<close>.\<close>

definition majority :: "nat \<Rightarrow> nat set \<Rightarrow> bool" where
  "majority n A \<longleftrightarrow> A \<subseteq> {..<n} \<and> card A > n div 2"

lemma majorities_meet:
  assumes "majority n A" and "majority n B"
  shows "A \<inter> B \<noteq> {}"
proof
  assume disjoint: "A \<inter> B = {}"
  have fin: "finite A" "finite B"
    using assms finite_subset by (auto simp: majority_def)
  then have "card (A \<union> B) = card A + card B"
    using disjoint by (simp add: card_Un_disjoint)
  moreover have "card (A \<union> B) \<le> n"
    using assms card_mono [of "{..<n}" "A \<union> B"] by (simp add: majority_def)
  ultimately show False
    using assms unfolding majority_def by linarith
qed

interpretation peers: quorum_system "majority n" for n
  by unfold_locales (rule majorities_meet)

section \<open>Lists\<close>

lemma distinct_mset_sub:
  assumes "mset xs \<subseteq># mset ys" and "distinct ys"
  shows "distinct xs"
proof -
  obtain zs where "mset ys = mset (xs @ zs)"
    using assms(1) by (metis ex_mset mset_append mset_subset_eq_exists_conv)
  then show ?thesis
    using assms(2) mset_eq_imp_distinct_iff [of ys "xs @ zs"] by simp
qed

lemma upt_length_Cons: "[0..<length (x # xs)] = 0 # map Suc [0..<length xs]"
  by (simp add: map_Suc_upt upt_conv_Cons del: upt_Suc)

lemma count_list_nth: "count_list xs x = length (filter (\<lambda>j. xs ! j = x) [0..<length xs])"
proof (induction xs)
  case (Cons y ys)
  then show ?case
    unfolding upt_length_Cons by (simp add: filter_map o_def)
qed simp

lemma take_take_append:
  "k \<le> length xs \<Longrightarrow> take k (xs @ ys) = take k xs"
  by simp

lemma nth_take_same: "take k xs = take k ys \<Longrightarrow> i < k \<Longrightarrow> xs ! i = ys ! i"
  by (metis nth_take)

end
