(* ===== verification/RaftLog.thy ===== *)
theory RaftLog
  imports Prelude
begin

text \<open>
  The data of a Raft peer and the operations on its log: \<open>src/src/raft/RaftState.go\<close>,
  \<open>src/src/raft/persister.go\<close>, and from \<open>src/src/raft/raft.go\<close> the types
  \<open>ApplyMsg\<close>, \<open>LogEntry\<close>, \<open>Raft\<close>, the log accessors \<open>getLogLength\<close>,
  \<open>getTermOfLog\<close>, \<open>getLog\<close>, \<open>getLogs\<close>, \<open>getLogsFrom\<close>, the pair \<open>persist\<close> /
  \<open>readPersist\<close> and the constructor \<open>Make\<close>.

  A peer is one record. The fields of the struct \<open>RaftState\<close> are the base record, which
  \<open>Raft\<close> extends. Mutexes are not fields: every operation is one critical section of the
  source. The channel \<open>applyNotifyCh\<close> is the list of the notifications it holds,
  \<open>applyCh\<close> the list of the messages sent on it so far. Of \<open>peers\<close> only the number
  is used.

  A byte buffer written by \<open>labgob\<close> is the list of the values encoded into it, in
  order: encoding appends a value, decoding takes the next one and fails when there is
  none or when its type is not that of the variable. Its length in bytes is a function
  of the buffer, an argument of \<open>RaftStateSize\<close>. The bytes of a snapshot are
  opaque to Raft, of type \<open>'s list\<close>.
\<close>

section \<open>Data\<close>

datatype server_state = candidateState | leaderState | followerState

record RaftState =
  state :: server_state
  currentTerm :: int
  votedFor :: int
  resetElectionTimer :: bool

record 'c LogEntry =
  le_Term :: int
  le_Command :: "'c option"

record ('c, 's) ApplyMsg =
  CommandValid :: bool
  Command :: "'c option"
  CommandIndex :: int
  SnapshotValid :: bool
  am_Snapshot :: "'s list"
  SnapshotTerm :: int
  SnapshotIndex :: int

datatype 'c gob = GobInt int | GobEntry "'c LogEntry"

record ('c, 's) Persister =
  raftstate :: "'c gob list"
  snapshot :: "'s list"

record ('c, 's) Raft = RaftState +
  peers :: nat
  persister :: "('c, 's) Persister"
  me :: nat
  dead :: int
  log :: "'c LogEntry list"
  lastIncludedIndex :: int
  lastIncludedTerm :: int
  commitIndex :: int
  lastApplied :: int
  nextIndex :: "int list"
  matchIndex :: "int list"
  leaderInitDone :: bool
  applyNotifyCh :: "int list"
  applyCh :: "('c, 's) ApplyMsg list"

section \<open>The persister\<close>

definition MakePersister :: "('c, 's) Persister" where
  "MakePersister = \<lparr>raftstate = [], snapshot = []\<rparr>"

definition clone :: "'b list \<Rightarrow> 'b list" where
  "clone orig = take (length orig) orig"

definition Copy :: "('c, 's) Persister \<Rightarrow> ('c, 's) Persister" where
  "Copy ps = MakePersister\<lparr>raftstate := raftstate ps, snapshot := snapshot ps\<rparr>"

definition SaveRaftState :: "('c, 's) Persister \<Rightarrow> 'c gob list \<Rightarrow> ('c, 's) Persister" where
  "SaveRaftState ps st = ps\<lparr>raftstate := clone st\<rparr>"

definition ReadRaftState :: "('c, 's) Persister \<Rightarrow> 'c gob list" where
  "ReadRaftState ps = clone (raftstate ps)"

definition RaftStateSize :: "('c gob list \<Rightarrow> nat) \<Rightarrow> ('c, 's) Persister \<Rightarrow> nat" where
  "RaftStateSize enc_len ps = enc_len (raftstate ps)"

definition SaveStateAndSnapshot ::
  "('c, 's) Persister \<Rightarrow> 'c gob list \<Rightarrow> 's list \<Rightarrow> ('c, 's) Persister" where
  "SaveStateAndSnapshot ps st snap = ps\<lparr>raftstate := clone st, snapshot := clone snap\<rparr>"

definition ReadSnapshot :: "('c, 's) Persister \<Rightarrow> 's list" where
  "ReadSnapshot ps = clone (snapshot ps)"

definition SnapshotSize :: "('c, 's) Persister \<Rightarrow> nat" where
  "SnapshotSize ps = length (snapshot ps)"

lemma clone_id [simp]: "clone xs = xs"
  by (simp add: clone_def)

lemmas persister_defs = MakePersister_def Copy_def SaveRaftState_def ReadRaftState_def
  SaveStateAndSnapshot_def ReadSnapshot_def SnapshotSize_def RaftStateSize_def

text \<open>
  What the users of a persister rely on: a save is read back, and a save of the Raft
  state alone keeps the snapshot.
\<close>

locale stable_storage =
  fixes save_state :: "'p \<Rightarrow> 'a \<Rightarrow> 'p"
    and save_both :: "'p \<Rightarrow> 'a \<Rightarrow> 'b \<Rightarrow> 'p"
    and read_state :: "'p \<Rightarrow> 'a"
    and read_snap :: "'p \<Rightarrow> 'b"
  assumes read_saved: "read_state (save_state p a) = a"
    and read_both: "read_state (save_both p a b) = a"
    and snap_kept: "read_snap (save_state p a) = read_snap p"
    and snap_saved: "read_snap (save_both p a b) = b"
begin

lemma last_state_wins: "read_state (save_state (save_both p a b) a') = a'"
  by (simp add: read_saved)

lemma snapshot_survives: "read_snap (save_state (save_both p a b) a') = b"
  by (simp add: snap_kept snap_saved)

end

interpretation ps: stable_storage SaveRaftState SaveStateAndSnapshot ReadRaftState ReadSnapshot
  by unfold_locales (simp_all add: persister_defs)

section \<open>The log\<close>

definition getLogLength :: "('c, 's) Raft \<Rightarrow> int" where
  "getLogLength rf = lastIncludedIndex rf + int (length (log rf))"

definition getTermOfLog :: "('c, 's) Raft \<Rightarrow> int \<Rightarrow> int res" where
  "getTermOfLog rf index =
     (if index \<ge> getLogLength rf then Inl Fatal
      else if index < lastIncludedIndex rf then Inl Fatal
      else if index = lastIncludedIndex rf then Inr (lastIncludedTerm rf)
      else Inr (le_Term (log rf ! nat (index - lastIncludedIndex rf))))"

definition getLog :: "('c, 's) Raft \<Rightarrow> int \<Rightarrow> 'c LogEntry res" where
  "getLog rf index =
     (if index \<ge> getLogLength rf then Inl Fatal
      else if index \<le> lastIncludedIndex rf then Inl Fatal
      else Inr (log rf ! nat (index - lastIncludedIndex rf)))"

text \<open>The slice expression of the source panics when its bounds are out of order.\<close>

definition slice :: "'a list \<Rightarrow> int \<Rightarrow> int \<Rightarrow> 'a list res" where
  "slice xs i j =
     (if 0 \<le> i \<and> i \<le> j \<and> j \<le> int (length xs) then Inr (drop (nat i) (take (nat j) xs))
      else Inl IndexPanic)"

definition getLogs :: "('c, 's) Raft \<Rightarrow> int \<Rightarrow> int \<Rightarrow> 'c LogEntry list res" where
  "getLogs rf start end' =
     (if end' > getLogLength rf then Inl Fatal
      else if start \<le> lastIncludedIndex rf then Inl Fatal
      else slice (log rf) (start - lastIncludedIndex rf) (end' - lastIncludedIndex rf))"

definition getLogsFrom :: "('c, 's) Raft \<Rightarrow> int \<Rightarrow> 'c LogEntry list res" where
  "getLogsFrom rf start = getLogs rf start (getLogLength rf)"

text \<open>
  The loop that \<open>Snapshot\<close> and \<open>InstallSnapshot\<close> use to copy the entries from
  \<open>startIndex\<close> to the end of the log.
\<close>

function keepFrom :: "('c, 's) Raft \<Rightarrow> int \<Rightarrow> 'c LogEntry list \<Rightarrow> 'c LogEntry list res" where
  "keepFrom rf startIndex leftLog =
     (if startIndex < getLogLength rf
      then and_then (getLog rf startIndex) (\<lambda>e. keepFrom rf (startIndex + 1) (leftLog @ [e]))
      else Inr leftLog)"
  by pat_completeness auto
termination
  by (relation "measure (\<lambda>(rf, startIndex, leftLog). nat (getLogLength rf - startIndex))") auto

declare keepFrom.simps [simp del]

section \<open>Saving and restoring the persistent state\<close>

definition encodeState :: "('c, 's) Raft \<Rightarrow> 'c gob list" where
  "encodeState rf =
     [GobInt (currentTerm rf), GobInt (votedFor rf), GobInt (lastIncludedIndex rf),
      GobInt (lastIncludedTerm rf), GobInt (int (length (log rf)))]
     @ map GobEntry (log rf)"

definition persist :: "('c, 's) Raft \<Rightarrow> ('c, 's) Raft" where
  "persist rf = rf\<lparr>persister := SaveRaftState (persister rf) (encodeState rf)\<rparr>"

fun decodeEntries :: "nat \<Rightarrow> 'c gob list \<Rightarrow> 'c LogEntry list res" where
  "decodeEntries 0 d = Inr []"
| "decodeEntries (Suc n) (GobEntry e # d) = and_then (decodeEntries n d) (\<lambda>es. Inr (e # es))"
| "decodeEntries (Suc n) d = Inl Fatal"

fun decodeInt :: "'c gob list \<Rightarrow> (int \<times> 'c gob list) res" where
  "decodeInt (GobInt i # d) = Inr (i, d)"
| "decodeInt d = Inl Fatal"

definition readPersist :: "('c, 's) Raft \<Rightarrow> 'c gob list \<Rightarrow> ('c, 's) Raft res" where
  "readPersist rf d0 =
     (if length d0 < 1 then Inr rf
      else and_then (decodeInt d0) (\<lambda>(term, d1).
           and_then (decodeInt d1) (\<lambda>(voted, d2).
           and_then (decodeInt d2) (\<lambda>(lastIndex, d3).
           and_then (decodeInt d3) (\<lambda>(lastTerm, d4).
           and_then (decodeInt d4) (\<lambda>(logLength, d5).
             if logLength < 0 then Inl IndexPanic
             else and_then (decodeEntries (nat logLength) d5) (\<lambda>logEntries.
               Inr (rf\<lparr>currentTerm := term, votedFor := voted,
                       lastIncludedIndex := lastIndex, lastIncludedTerm := lastTerm,
                       log := logEntries\<rparr>))))))))"

text \<open>
  \<open>Make\<close> without the goroutines it starts (\<open>mainLoop\<close> and \<open>applyLoop\<close> are the
  steps of the next theories). The messages already delivered on the fresh channel are
  none.
\<close>

definition blankRaft :: "nat \<Rightarrow> nat \<Rightarrow> ('c, 's) Persister \<Rightarrow> ('c, 's) Raft" where
  "blankRaft n i ps =
     \<lparr>state = followerState, currentTerm = 0, votedFor = -1, resetElectionTimer = False,
      peers = n, persister = ps, me = i, dead = 0,
      log = [\<lparr>le_Term = 0, le_Command = None\<rparr>],
      lastIncludedIndex = 0, lastIncludedTerm = 0, commitIndex = 0, lastApplied = 0,
      nextIndex = [], matchIndex = [], leaderInitDone = False,
      applyNotifyCh = [], applyCh = []\<rparr>"

definition Make :: "nat \<Rightarrow> nat \<Rightarrow> ('c, 's) Persister \<Rightarrow> ('c, 's) Raft res" where
  "Make n i ps =
     and_then (readPersist (blankRaft n i ps) (ReadRaftState ps)) (\<lambda>rf.
       Inr (if lastIncludedIndex rf > 0
            then rf\<lparr>commitIndex := lastIncludedIndex rf, lastApplied := lastIncludedIndex rf\<rparr>
            else rf))"

definition Kill :: "('c, 's) Raft \<Rightarrow> ('c, 's) Raft" where
  "Kill rf = rf\<lparr>dead := 1\<rparr>"

definition killed :: "('c, 's) Raft \<Rightarrow> bool" where
  "killed rf \<longleftrightarrow> dead rf = 1"

definition GetState :: "('c, 's) Raft \<Rightarrow> int \<times> bool" where
  "GetState rf = (currentTerm rf, state rf = leaderState)"

section \<open>Facts about the log\<close>

text \<open>
  The shape every operation keeps: the log has its slot for the snapshot point, the
  snapshot covers only committed and applied entries, and the empty snapshot has term 0.
\<close>

definition raft_wf :: "('c, 's) Raft \<Rightarrow> bool" where
  "raft_wf rf \<longleftrightarrow>
     log rf \<noteq> [] \<and> 0 \<le> lastIncludedIndex rf \<and>
     lastIncludedIndex rf \<le> commitIndex rf \<and> lastIncludedIndex rf \<le> lastApplied rf \<and>
     (lastIncludedIndex rf = 0 \<longrightarrow> lastIncludedTerm rf = 0)"

text \<open>The entry and the term at an index of the log, where the log has one.\<close>

definition has_index :: "('c, 's) Raft \<Rightarrow> int \<Rightarrow> bool" where
  "has_index rf i \<longleftrightarrow> lastIncludedIndex rf \<le> i \<and> i < getLogLength rf"

definition termAt :: "('c, 's) Raft \<Rightarrow> int \<Rightarrow> int" where
  "termAt rf i =
     (if i = lastIncludedIndex rf then lastIncludedTerm rf
      else le_Term (log rf ! nat (i - lastIncludedIndex rf)))"

lemma getTermOfLog_eq:
  "getTermOfLog rf i = (if has_index rf i then Inr (termAt rf i) else Inl Fatal)"
  by (simp add: getTermOfLog_def has_index_def termAt_def)

lemma has_last_index: "raft_wf rf \<Longrightarrow> has_index rf (getLogLength rf - 1)"
  by (cases "log rf") (auto simp: raft_wf_def has_index_def getLogLength_def)

lemma getLog_eq:
  "lastIncludedIndex rf < i \<Longrightarrow> i < getLogLength rf \<Longrightarrow>
   getLog rf i = Inr (log rf ! nat (i - lastIncludedIndex rf))"
  by (simp add: getLog_def)

lemma keepFrom_eq:
  "lastIncludedIndex rf < i \<Longrightarrow>
   keepFrom rf i acc = Inr (acc @ drop (nat (i - lastIncludedIndex rf)) (log rf))"
proof (induction rf i acc rule: keepFrom.induct)
  case (1 rf i acc)
  let ?k = "nat (i - lastIncludedIndex rf)"
  show ?case
  proof (cases "i < getLogLength rf")
    case True
    then have k: "?k < length (log rf)" and next': "nat (i + 1 - lastIncludedIndex rf) = Suc ?k"
      using "1.prems" by (auto simp: getLogLength_def)
    have "keepFrom rf (i + 1) (acc @ [log rf ! ?k])
          = Inr ((acc @ [log rf ! ?k]) @ drop (Suc ?k) (log rf))"
      using "1.IH" [OF True, of "log rf ! ?k"] "1.prems" True next' by (simp add: getLog_eq)
    then show ?thesis
      using True "1.prems" k by (simp add: keepFrom.simps [of rf i] getLog_eq Cons_nth_drop_Suc)
  next
    case False
    then show ?thesis
      using "1.prems" by (simp add: keepFrom.simps [of rf i] getLogLength_def)
  qed
qed

lemma getLogs_eq:
  "lastIncludedIndex rf < i \<Longrightarrow> i \<le> j \<Longrightarrow> j \<le> getLogLength rf \<Longrightarrow>
   getLogs rf i j = Inr (drop (nat (i - lastIncludedIndex rf))
                           (take (nat (j - lastIncludedIndex rf)) (log rf)))"
  by (simp add: getLogs_def slice_def getLogLength_def)

lemma getLogsFrom_eq:
  "lastIncludedIndex rf < i \<Longrightarrow> i \<le> getLogLength rf \<Longrightarrow>
   getLogsFrom rf i = Inr (drop (nat (i - lastIncludedIndex rf)) (log rf))"
  by (simp add: getLogsFrom_def getLogs_eq) (simp add: getLogLength_def)

section \<open>Saving and restoring\<close>

lemma decodeEntries_map: "decodeEntries (length es) (map GobEntry es @ d) = Inr es"
  by (induction es) simp_all

lemma readPersist_encodeState:
  "readPersist rf (encodeState rf') =
     Inr (rf\<lparr>currentTerm := currentTerm rf', votedFor := votedFor rf',
             lastIncludedIndex := lastIncludedIndex rf',
             lastIncludedTerm := lastIncludedTerm rf', log := log rf'\<rparr>)"
  using decodeEntries_map [of "log rf'" "[]"] by (simp add: readPersist_def encodeState_def)

lemma readPersist_Nil [simp]: "readPersist rf [] = Inr rf"
  by (simp add: readPersist_def)

lemma persist_fields [raft_frame, simp]:
  "state (persist rf) = state rf" "currentTerm (persist rf) = currentTerm rf"
  "votedFor (persist rf) = votedFor rf"
  "resetElectionTimer (persist rf) = resetElectionTimer rf"
  "peers (persist rf) = peers rf" "me (persist rf) = me rf" "dead (persist rf) = dead rf"
  "log (persist rf) = log rf" "lastIncludedIndex (persist rf) = lastIncludedIndex rf"
  "lastIncludedTerm (persist rf) = lastIncludedTerm rf"
  "commitIndex (persist rf) = commitIndex rf" "lastApplied (persist rf) = lastApplied rf"
  "nextIndex (persist rf) = nextIndex rf" "matchIndex (persist rf) = matchIndex rf"
  "leaderInitDone (persist rf) = leaderInitDone rf"
  "applyNotifyCh (persist rf) = applyNotifyCh rf" "applyCh (persist rf) = applyCh rf"
  "snapshot (persister (persist rf)) = snapshot (persister rf)"
  "raftstate (persister (persist rf)) = encodeState rf"
  by (simp_all add: persist_def SaveRaftState_def)

lemma persist_log_frame [raft_frame, simp]:
  "getLogLength (persist rf) = getLogLength rf"
  "has_index (persist rf) i = has_index rf i" "termAt (persist rf) i = termAt rf i"
  "raft_wf (persist rf) = raft_wf rf" "encodeState (persist rf) = encodeState rf"
  by (simp_all add: getLogLength_def has_index_def termAt_def raft_wf_def encodeState_def)

text \<open>The saved state is the state a restart would find.\<close>

definition in_sync :: "('c, 's) Raft \<Rightarrow> bool" where
  "in_sync rf \<longleftrightarrow> raftstate (persister rf) = encodeState rf"

lemma in_sync_persist [simp]: "in_sync (persist rf)"
  by (simp add: in_sync_def)

lemma Make_in_sync:
  assumes "in_sync rf"
  shows "Make n i (persister rf) =
     Inr ((blankRaft n i (persister rf))
            \<lparr>currentTerm := currentTerm rf, votedFor := votedFor rf, log := log rf,
             lastIncludedIndex := lastIncludedIndex rf, lastIncludedTerm := lastIncludedTerm rf,
             commitIndex := max 0 (lastIncludedIndex rf),
             lastApplied := max 0 (lastIncludedIndex rf)\<rparr>)"
  using assms
  by (simp add: Make_def in_sync_def ReadRaftState_def readPersist_encodeState blankRaft_def max_def)

lemma Make_empty: "raftstate ps = [] \<Longrightarrow> Make n i ps = Inr (blankRaft n i ps)"
  by (simp add: Make_def ReadRaftState_def blankRaft_def)

end
