(* ===== verification/RaftRpc.thy ===== *)
theory RaftRpc
  imports RaftLog
begin

text \<open>
  The RPC handlers of a Raft peer and the call the service makes to compact the log:
  \<open>RequestVote\<close>, \<open>AppendEntries\<close>, \<open>InstallSnapshot\<close> and \<open>Snapshot\<close> of
  \<open>src/src/raft/raft.go\<close>, each the whole handler with its replies, and what they do on
  each branch.

  A slice of entries that arrives over RPC is \<open>nil\<close> exactly when it is empty (an empty
  slice is not sent), so the test \<open>args.Entries != nil\<close> is a test for a non-empty list.
\<close>

section \<open>Messages\<close>

record RequestVoteArgs =
  rv_Term :: int
  CandidateId :: int
  LastLogIndex :: int
  LastLogTerm :: int

record RequestVoteReply =
  rvr_Term :: int
  VoteGranted :: bool

record 'c AppendEntriesArgs =
  ae_Term :: int
  ae_LeaderId :: int
  Entries :: "'c LogEntry list"
  PrevLogIndex :: int
  PrevLogTerm :: int
  LeaderCommit :: int

record AppendEntriesReply =
  aer_Term :: int
  Success :: bool
  NextRetryStartIndex :: int

record 's InstallSnapshotArgs =
  is_Term :: int
  is_LeaderId :: int
  is_LastIncludedIndex :: int
  is_LastIncludedTerm :: int
  is_Data :: "'s list"

record InstallSnapshotReply =
  isr_Term :: int

section \<open>RequestVote\<close>

text \<open>The assignments of a peer that meets a later term.\<close>

definition adoptTerm :: "('c, 's) Raft \<Rightarrow> int \<Rightarrow> ('c, 's) Raft" where
  "adoptTerm rf t = persist (rf\<lparr>currentTerm := t, votedFor := -1, state := followerState\<rparr>)"

definition isNewerThanMe :: "('c, 's) Raft \<Rightarrow> RequestVoteArgs \<Rightarrow> bool res" where
  "isNewerThanMe rf args =
     (if getLogLength rf = 1 then Inr True
      else and_then (getTermOfLog rf (getLogLength rf - 1)) (\<lambda>t.
        Inr (LastLogTerm args > t \<or>
             (LastLogTerm args = t \<and> LastLogIndex args \<ge> getLogLength rf - 1))))"

definition RequestVote ::
  "('c, 's) Raft \<Rightarrow> RequestVoteArgs \<Rightarrow> (('c, 's) Raft \<times> RequestVoteReply) res" where
  "RequestVote rf args =
     (if rv_Term args \<ge> currentTerm rf then
        let rf1 = (if rv_Term args > currentTerm rf then adoptTerm rf (rv_Term args) else rf)
        in if votedFor rf1 = -1 \<or> votedFor rf1 = CandidateId args then
             and_then (isNewerThanMe rf1 args) (\<lambda>newer.
               if newer then
                 let rf2 = persist (rf1\<lparr>votedFor := CandidateId args, resetElectionTimer := True\<rparr>)
                 in Inr (rf2, \<lparr>rvr_Term = currentTerm rf2, VoteGranted = True\<rparr>)
               else Inr (rf1, \<lparr>rvr_Term = currentTerm rf1, VoteGranted = False\<rparr>))
           else Inr (rf1, \<lparr>rvr_Term = currentTerm rf1, VoteGranted = False\<rparr>)
      else Inr (rf, \<lparr>rvr_Term = currentTerm rf, VoteGranted = False\<rparr>))"

section \<open>AppendEntries\<close>

text \<open>The assignments before the checks: step down, and restart the election timer.\<close>

definition acceptLeader :: "('c, 's) Raft \<Rightarrow> int \<Rightarrow> ('c, 's) Raft" where
  "acceptLeader rf t =
     (let rf1 = (if t > currentTerm rf
                 then persist (rf\<lparr>currentTerm := t, state := followerState, votedFor := -1\<rparr>)
                 else rf);
          rf2 = (if state rf1 = candidateState \<and> t \<ge> currentTerm rf1
                 then rf1\<lparr>state := followerState\<rparr> else rf1)
      in rf2\<lparr>resetElectionTimer := True\<rparr>)"

text \<open>The loop that looks for the first index of the conflicting term.\<close>

function backOff :: "('c, 's) Raft \<Rightarrow> int \<Rightarrow> int \<Rightarrow> int res" where
  "backOff rf conflictTerm tempIndex =
     (if tempIndex > 1 \<and> tempIndex \<ge> lastIncludedIndex rf
      then and_then (getTermOfLog rf tempIndex) (\<lambda>t.
        if t = conflictTerm then backOff rf conflictTerm (tempIndex - 1) else Inr tempIndex)
      else Inr tempIndex)"
  by pat_completeness auto
termination
  by (relation "measure (\<lambda>(rf, conflictTerm, tempIndex). nat tempIndex)") auto

declare backOff.simps [simp del]

text \<open>The check of the entry that precedes the new ones; \<open>Some\<close> is the retry index.\<close>

definition prevMismatch :: "('c, 's) Raft \<Rightarrow> 'c AppendEntriesArgs \<Rightarrow> int option res" where
  "prevMismatch rf args =
     (if PrevLogIndex args > getLogLength rf - 1 then Inr (Some (getLogLength rf))
      else if PrevLogIndex args \<ge> 0 then
        and_then (getTermOfLog rf (PrevLogIndex args)) (\<lambda>conflictTerm.
          if conflictTerm \<noteq> PrevLogTerm args then
            if PrevLogIndex args = 0 then Inl Fatal
            else and_then (backOff rf conflictTerm (PrevLogIndex args)) (\<lambda>i. Inr (Some i))
          else Inr None)
      else Inr None)"

text \<open>The loop over the received entries; \<open>i\<close> is the index the head of the list goes to.\<close>

fun appendLoop :: "('c, 's) Raft \<Rightarrow> int \<Rightarrow> 'c LogEntry list \<Rightarrow> ('c, 's) Raft res" where
  "appendLoop rf i [] = Inr rf"
| "appendLoop rf i (e # es) =
     (if i > getLogLength rf - 1
      then appendLoop (rf\<lparr>log := log rf @ [e]\<rparr>) (i + 1) es
      else and_then (getTermOfLog rf i) (\<lambda>t.
        if t \<noteq> le_Term e
        then and_then (slice (log rf) 0 (i - lastIncludedIndex rf)) (\<lambda>kept.
               appendLoop (rf\<lparr>log := kept @ [e]\<rparr>) (i + 1) es)
        else appendLoop rf (i + 1) es))"

definition followCommit :: "('c, 's) Raft \<Rightarrow> int \<Rightarrow> ('c, 's) Raft" where
  "followCommit rf leaderCommit =
     (if leaderCommit > commitIndex rf
      then rf\<lparr>commitIndex := (if leaderCommit < getLogLength rf - 1 then leaderCommit
                              else getLogLength rf - 1),
              applyNotifyCh := applyNotifyCh rf @ [0]\<rparr>
      else rf)"

definition AppendEntries ::
  "('c, 's) Raft \<Rightarrow> 'c AppendEntriesArgs \<Rightarrow> (('c, 's) Raft \<times> AppendEntriesReply) res" where
  "AppendEntries rf args =
     (let rf1 = acceptLeader rf (ae_Term args);
          reply = (\<lambda>ok retry. \<lparr>aer_Term = currentTerm rf1, Success = ok, NextRetryStartIndex = retry\<rparr>)
      in if ae_Term args < currentTerm rf1 then Inr (rf1, reply False 0)
         else if lastIncludedIndex rf1 > PrevLogIndex args
              then Inr (rf1, reply False (lastIncludedIndex rf1 + 1))
         else and_then (prevMismatch rf1 args) (\<lambda>mismatch.
           case mismatch of
             Some retry \<Rightarrow> Inr (rf1, reply False retry)
           | None \<Rightarrow>
               and_then (if Entries args \<noteq> []
                         then and_then (appendLoop rf1 (PrevLogIndex args + 1) (Entries args))
                                (\<lambda>rf2. Inr (persist rf2))
                         else Inr rf1) (\<lambda>rf3.
                 Inr (followCommit rf3 (LeaderCommit args), reply True 0))))"

section \<open>Snapshots\<close>

text \<open>
  The tail that \<open>Snapshot\<close> and \<open>InstallSnapshot\<close> share: the log is saved, \<open>data\<close> is
  declared and stays \<open>nil\<close>, \<open>readPersist(data)\<close> returns at once, and \<open>data\<close> is
  what is saved with the snapshot.
\<close>

definition saveSnapshot :: "('c, 's) Raft \<Rightarrow> 's list \<Rightarrow> ('c, 's) Raft res" where
  "saveSnapshot rf snap =
     (let rf1 = persist rf; nil = []
      in and_then (readPersist rf1 nil) (\<lambda>rf2.
           Inr (rf2\<lparr>persister := SaveStateAndSnapshot (persister rf2) nil snap\<rparr>)))"

definition Snapshot :: "('c, 's) Raft \<Rightarrow> int \<Rightarrow> 's list \<Rightarrow> ('c, 's) Raft res" where
  "Snapshot rf index snap =
     (if killed rf then Inr rf
      else if lastIncludedIndex rf \<ge> index then Inr rf
      else if commitIndex rf < index then Inr rf
      else if lastApplied rf < index then Inr rf
      else and_then (keepFrom rf index []) (\<lambda>leftLog.
             and_then (getTermOfLog rf index) (\<lambda>t.
               saveSnapshot (rf\<lparr>lastIncludedTerm := t, lastIncludedIndex := index, log := leftLog\<rparr>)
                 snap)))"

definition CondInstallSnapshot :: "('c, 's) Raft \<Rightarrow> int \<Rightarrow> int \<Rightarrow> 's list \<Rightarrow> bool" where
  "CondInstallSnapshot rf lastTerm lastIndex snap = True"

definition InstallSnapshot ::
  "('c, 's) Raft \<Rightarrow> 's InstallSnapshotArgs \<Rightarrow> (('c, 's) Raft \<times> InstallSnapshotReply) res" where
  "InstallSnapshot rf args =
     (if is_Term args \<ge> currentTerm rf then
        let rf1 = (if is_Term args > currentTerm rf then adoptTerm rf (is_Term args) else rf);
            lii = is_LastIncludedIndex args
        in if lastIncludedIndex rf1 < lii \<and> lastApplied rf1 < lii then
             and_then (keepFrom rf1 (lii + 1) [\<lparr>le_Term = 0, le_Command = None\<rparr>]) (\<lambda>leftLog.
             and_then (saveSnapshot
                 (rf1\<lparr>lastIncludedTerm := is_LastIncludedTerm args, lastIncludedIndex := lii,
                      log := leftLog,
                      commitIndex := (if lii > commitIndex rf1 then lii else commitIndex rf1),
                      lastApplied := (if lii > lastApplied rf1 then lii else lastApplied rf1)\<rparr>)
                 (is_Data args)) (\<lambda>rf2.
               Inr (rf2\<lparr>applyCh := applyCh rf2 @
                       [\<lparr>CommandValid = False, Command = None, CommandIndex = 0,
                         SnapshotValid = True, am_Snapshot = is_Data args,
                         SnapshotTerm = lastIncludedTerm rf2,
                         SnapshotIndex = lastIncludedIndex rf2\<rparr>]\<rparr>,
                    \<lparr>isr_Term = currentTerm rf2\<rparr>)))
           else Inr (rf1, \<lparr>isr_Term = currentTerm rf1\<rparr>)
      else Inr (rf, \<lparr>isr_Term = currentTerm rf\<rparr>))"

section \<open>What a handler leaves unchanged\<close>

lemma adoptTerm_fields [raft_frame, simp]:
  "currentTerm (adoptTerm rf t) = t" "votedFor (adoptTerm rf t) = -1"
  "state (adoptTerm rf t) = followerState" "log (adoptTerm rf t) = log rf"
  "lastIncludedIndex (adoptTerm rf t) = lastIncludedIndex rf"
  "lastIncludedTerm (adoptTerm rf t) = lastIncludedTerm rf"
  "commitIndex (adoptTerm rf t) = commitIndex rf" "lastApplied (adoptTerm rf t) = lastApplied rf"
  "getLogLength (adoptTerm rf t) = getLogLength rf" "applyCh (adoptTerm rf t) = applyCh rf"
  "has_index (adoptTerm rf t) i = has_index rf i" "termAt (adoptTerm rf t) i = termAt rf i"
  "raft_wf (adoptTerm rf t) = raft_wf rf" "in_sync (adoptTerm rf t)"
  "peers (adoptTerm rf t) = peers rf" "me (adoptTerm rf t) = me rf"
  "nextIndex (adoptTerm rf t) = nextIndex rf" "matchIndex (adoptTerm rf t) = matchIndex rf"
  by (simp_all add: adoptTerm_def getLogLength_def has_index_def termAt_def raft_wf_def)

lemma acceptLeader_fields [raft_frame, simp]:
  "currentTerm (acceptLeader rf t) = max (currentTerm rf) t" "log (acceptLeader rf t) = log rf"
  "votedFor (acceptLeader rf t) = (if t > currentTerm rf then -1 else votedFor rf)"
  "lastIncludedIndex (acceptLeader rf t) = lastIncludedIndex rf"
  "lastIncludedTerm (acceptLeader rf t) = lastIncludedTerm rf"
  "commitIndex (acceptLeader rf t) = commitIndex rf" "lastApplied (acceptLeader rf t) = lastApplied rf"
  "getLogLength (acceptLeader rf t) = getLogLength rf" "applyCh (acceptLeader rf t) = applyCh rf"
  "has_index (acceptLeader rf t) i = has_index rf i" "termAt (acceptLeader rf t) i = termAt rf i"
  "raft_wf (acceptLeader rf t) = raft_wf rf" "peers (acceptLeader rf t) = peers rf"
  "me (acceptLeader rf t) = me rf" "resetElectionTimer (acceptLeader rf t)"
  by (auto simp: acceptLeader_def getLogLength_def has_index_def termAt_def raft_wf_def Let_def)

lemma acceptLeader_in_sync: "in_sync rf \<Longrightarrow> in_sync (acceptLeader rf t)"
  by (auto simp: acceptLeader_def in_sync_def encodeState_def Let_def)

lemma acceptLeader_state:
  "state (acceptLeader rf t) = leaderState \<Longrightarrow> state rf = leaderState \<and> t \<le> currentTerm rf"
  "state (acceptLeader rf t) = candidateState \<Longrightarrow> state rf = candidateState \<and> t < currentTerm rf"
  by (auto simp: acceptLeader_def Let_def split: if_splits)

lemma followCommit_fields [raft_frame, simp]:
  "currentTerm (followCommit rf c) = currentTerm rf" "votedFor (followCommit rf c) = votedFor rf"
  "state (followCommit rf c) = state rf" "log (followCommit rf c) = log rf"
  "lastIncludedIndex (followCommit rf c) = lastIncludedIndex rf"
  "lastIncludedTerm (followCommit rf c) = lastIncludedTerm rf"
  "lastApplied (followCommit rf c) = lastApplied rf" "persister (followCommit rf c) = persister rf"
  "getLogLength (followCommit rf c) = getLogLength rf" "applyCh (followCommit rf c) = applyCh rf"
  "peers (followCommit rf c) = peers rf" "me (followCommit rf c) = me rf"
  "has_index (followCommit rf c) i = has_index rf i" "termAt (followCommit rf c) i = termAt rf i"
  "in_sync (followCommit rf c) = in_sync rf"
  by (simp_all add: followCommit_def getLogLength_def has_index_def termAt_def in_sync_def
      encodeState_def)

lemma followCommit_wf: "raft_wf rf \<Longrightarrow> raft_wf (followCommit rf c)"
  by (cases "log rf") (auto simp: raft_wf_def followCommit_def getLogLength_def)

section \<open>RequestVote\<close>

text \<open>The voting rule of the Raft paper: the last entries are compared by term, then index.\<close>

definition up_to_date :: "('c, 's) Raft \<Rightarrow> RequestVoteArgs \<Rightarrow> bool" where
  "up_to_date rf args \<longleftrightarrow>
     (let last = getLogLength rf - 1
      in last = 0 \<or> LastLogTerm args > termAt rf last \<or>
         (LastLogTerm args = termAt rf last \<and> LastLogIndex args \<ge> last))"

lemma isNewerThanMe_eq: "raft_wf rf \<Longrightarrow> isNewerThanMe rf args = Inr (up_to_date rf args)"
  using has_last_index [of rf] by (auto simp: isNewerThanMe_def up_to_date_def getTermOfLog_eq Let_def)

text \<open>The handler in one equation.\<close>

lemma RequestVote_eq:
  assumes "raft_wf rf"
  shows "RequestVote rf args =
     (let rf1 = (if rv_Term args > currentTerm rf then adoptTerm rf (rv_Term args) else rf);
          grant = (rv_Term args \<ge> currentTerm rf \<and>
                   (votedFor rf1 = -1 \<or> votedFor rf1 = CandidateId args) \<and> up_to_date rf args);
          rf2 = (if grant then persist (rf1\<lparr>votedFor := CandidateId args, resetElectionTimer := True\<rparr>)
                 else rf1)
      in Inr (rf2, \<lparr>rvr_Term = currentTerm rf2, VoteGranted = grant\<rparr>))"
  using assms
  by (simp add: RequestVote_def isNewerThanMe_eq Let_def up_to_date_def)

section \<open>AppendEntries\<close>

text \<open>
  The merge of the Raft paper: an existing entry that conflicts with a new one (same
  index, other term) is deleted with all that follow it, and the entries not already in
  the log are appended.
\<close>

fun mergeEntries :: "'c LogEntry list \<Rightarrow> 'c LogEntry list \<Rightarrow> 'c LogEntry list" where
  "mergeEntries old [] = old"
| "mergeEntries [] (e # es) = e # es"
| "mergeEntries (x # old) (e # es) =
     (if le_Term x \<noteq> le_Term e then e # es else x # mergeEntries old es)"

lemma mergeEntries_Nil [simp]: "mergeEntries [] es = es"
  by (cases es) simp_all

lemma appendLoop_merge:
  assumes "lastIncludedIndex rf < i" and "i \<le> getLogLength rf"
  shows "appendLoop rf i es =
     (let k = nat (i - lastIncludedIndex rf)
      in Inr (rf\<lparr>log := take k (log rf) @ mergeEntries (drop k (log rf)) es\<rparr>))"
  using assms
proof (induction es arbitrary: rf i)
  case Nil
  then show ?case by simp
next
  case (Cons e es)
  let ?k = "nat (i - lastIncludedIndex rf)"
  have Suc_k: "nat (i + 1 - lastIncludedIndex rf) = Suc ?k"
    using Cons.prems by simp
  have k: "int ?k = i - lastIncludedIndex rf" "?k \<le> length (log rf)"
    using Cons.prems by (auto simp: getLogLength_def)
  show ?case
  proof (cases "?k = length (log rf)")
    case True
    then have "i > getLogLength rf - 1"
      using k by (simp add: getLogLength_def)
    moreover have "appendLoop (rf\<lparr>log := log rf @ [e]\<rparr>) (i + 1) es = Inr (rf\<lparr>log := log rf @ e # es\<rparr>)"
      using Cons.IH [of "rf\<lparr>log := log rf @ [e]\<rparr>" "i + 1"] Cons.prems True Suc_k
      by (simp add: getLogLength_def Let_def)
    ultimately show ?thesis
      using True by (simp add: Let_def)
  next
    case False
    then have lt: "?k < length (log rf)"
      using k by simp
    then have drop_k: "drop ?k (log rf) = log rf ! ?k # drop (Suc ?k) (log rf)"
      by (simp add: Cons_nth_drop_Suc)
    have idx: "\<not> i > getLogLength rf - 1" "getTermOfLog rf i = Inr (le_Term (log rf ! ?k))"
      using lt k Cons.prems by (auto simp: getLogLength_def getTermOfLog_def)
    show ?thesis
    proof (cases "le_Term (log rf ! ?k) = le_Term e")
      case True
      have "i + 1 \<le> getLogLength rf"
        using idx by simp
      then show ?thesis
        using Cons.IH [of rf "i + 1"] Cons.prems True idx lt Suc_k drop_k
        by (simp add: Let_def take_Suc_conv_app_nth)
    next
      case False
      have "slice (log rf) 0 (i - lastIncludedIndex rf) = Inr (take ?k (log rf))"
        using k Cons.prems by (simp add: slice_def)
      moreover have "appendLoop (rf\<lparr>log := take ?k (log rf) @ [e]\<rparr>) (i + 1) es
          = Inr (rf\<lparr>log := take ?k (log rf) @ e # es\<rparr>)"
        using Cons.IH [of "rf\<lparr>log := take ?k (log rf) @ [e]\<rparr>" "i + 1"] Cons.prems k Suc_k
        by (simp add: getLogLength_def Let_def)
      ultimately show ?thesis
        using False idx drop_k by (simp add: Let_def)
    qed
  qed
qed

text \<open>The back-off stays within the log and strictly below the mismatching index.\<close>

lemma backOff_bounds:
  assumes "has_index rf i" and "1 \<le> i"
  shows "\<exists>j. backOff rf t i = Inr j \<and> 1 \<le> j \<and> j \<le> i \<and> (\<forall>k. j < k \<and> k \<le> i \<longrightarrow> termAt rf k = t)
             \<and> (j = 1 \<or> j < lastIncludedIndex rf \<or> termAt rf j \<noteq> t)"
  using assms
proof (induction rf t i rule: backOff.induct)
  case (1 rf t i)
  show ?case
  proof (cases "i > 1 \<and> i \<ge> lastIncludedIndex rf \<and> termAt rf i = t")
    case False
    then show ?thesis
      using "1.prems" by (auto simp: backOff.simps [of rf t i] getTermOfLog_eq)
  next
    case True
    then have unfold: "backOff rf t i = backOff rf t (i - 1)"
      using "1.prems" by (simp add: backOff.simps [of rf t i] getTermOfLog_eq)
    show ?thesis
    proof (cases "has_index rf (i - 1)")
      case True': True
      obtain j where "backOff rf t (i - 1) = Inr j" "1 \<le> j" "j \<le> i - 1"
          "\<forall>k. j < k \<and> k \<le> i - 1 \<longrightarrow> termAt rf k = t"
          "j = 1 \<or> j < lastIncludedIndex rf \<or> termAt rf j \<noteq> t"
        using "1.IH" [of t] "1.prems" True True' by (auto simp: getTermOfLog_eq)
      then show ?thesis
        using unfold True by (intro exI [of _ j]) (metis zle_diff1_eq le_less less_imp_le order_trans)
    next
      case False
      then have "i = lastIncludedIndex rf"
        using "1.prems" by (auto simp: has_index_def)
      then have "backOff rf t (i - 1) = Inr (i - 1)"
        by (subst backOff.simps) simp
      moreover have "termAt rf k = t" if "i - 1 < k" "k \<le> i" for k
        using that True by (cases "k = i") auto
      ultimately show ?thesis
        using unfold True \<open>i = lastIncludedIndex rf\<close> by (intro exI [of _ "i - 1"]) simp
    qed
  qed
qed

text \<open>A request whose first index is 0 names term 0, as every log has it there.\<close>

definition prev_ok :: "'c AppendEntriesArgs \<Rightarrow> bool" where
  "prev_ok args \<longleftrightarrow> (PrevLogIndex args = 0 \<longrightarrow> PrevLogTerm args = 0)"

definition prev_matches :: "('c, 's) Raft \<Rightarrow> 'c AppendEntriesArgs \<Rightarrow> bool" where
  "prev_matches rf args \<longleftrightarrow>
     has_index rf (PrevLogIndex args) \<and> termAt rf (PrevLogIndex args) = PrevLogTerm args"

definition accepts :: "('c, 's) Raft \<Rightarrow> 'c AppendEntriesArgs \<Rightarrow> bool" where
  "accepts rf args \<longleftrightarrow> currentTerm rf \<le> ae_Term args \<and> prev_matches rf args"

lemma prev_matches_acceptLeader [simp]: "prev_matches (acceptLeader rf t) = prev_matches rf"
  by (auto simp: prev_matches_def)

lemma prevMismatch_match:
  "raft_wf rf \<Longrightarrow> prev_matches rf args \<Longrightarrow> prevMismatch rf args = Inr None"
  by (auto simp: prevMismatch_def prev_matches_def getTermOfLog_eq has_index_def)

lemma prevMismatch_retry:
  assumes "raft_wf rf" and "prev_ok args" and "\<not> prev_matches rf args"
    and "lastIncludedIndex rf \<le> PrevLogIndex args"
  shows "\<exists>r. prevMismatch rf args = Inr (Some r) \<and> 1 \<le> r \<and> r \<le> PrevLogIndex args"
proof (cases "PrevLogIndex args > getLogLength rf - 1")
  case True
  then show ?thesis
    using assms(1) by (cases "log rf") (auto simp: prevMismatch_def raft_wf_def getLogLength_def)
next
  case False
  let ?p = "PrevLogIndex args"
  have idx: "has_index rf ?p" "0 \<le> ?p"
    using False assms(1,4) by (auto simp: has_index_def raft_wf_def)
  have p1: "1 \<le> ?p"
  proof (rule ccontr)
    assume "\<not> 1 \<le> ?p"
    with idx have "?p = 0" by simp
    then show False
      using assms idx by (auto simp: prev_ok_def prev_matches_def raft_wf_def termAt_def)
  qed
  obtain j where "backOff rf (termAt rf ?p) ?p = Inr j" "1 \<le> j" "j \<le> ?p"
    using backOff_bounds [OF idx(1) p1, of "termAt rf ?p"] by blast
  then show ?thesis
    using False idx p1 assms(3) by (simp add: prevMismatch_def prev_matches_def getTermOfLog_eq)
qed

text \<open>The log after an accepted request.\<close>

definition storeEntries :: "('c, 's) Raft \<Rightarrow> 'c AppendEntriesArgs \<Rightarrow> ('c, 's) Raft" where
  "storeEntries rf args =
     (if Entries args = [] then rf
      else let k = nat (PrevLogIndex args + 1 - lastIncludedIndex rf)
           in persist (rf\<lparr>log := take k (log rf) @ mergeEntries (drop k (log rf)) (Entries args)\<rparr>))"

lemma AppendEntries_accept:
  assumes "raft_wf rf" and "accepts rf args"
  shows "AppendEntries rf args =
     Inr (followCommit (storeEntries (acceptLeader rf (ae_Term args)) args) (LeaderCommit args),
          \<lparr>aer_Term = ae_Term args, Success = True, NextRetryStartIndex = 0\<rparr>)"
proof -
  let ?rf1 = "acceptLeader rf (ae_Term args)"
  have wf: "raft_wf ?rf1" and m: "prev_matches ?rf1 args" and t: "currentTerm ?rf1 = ae_Term args"
    using assms by (auto simp: accepts_def max_def)
  have bounds: "lastIncludedIndex ?rf1 < PrevLogIndex args + 1" "PrevLogIndex args + 1 \<le> getLogLength ?rf1"
    using m by (auto simp: prev_matches_def has_index_def)
  show ?thesis
    using t bounds appendLoop_merge [OF bounds, of "Entries args"] prevMismatch_match [OF wf m]
    by (simp add: AppendEntries_def storeEntries_def Let_def max_def split: if_splits)
qed

lemma AppendEntries_reject:
  assumes "raft_wf rf" and "prev_ok args" and "\<not> accepts rf args"
  shows "\<exists>retry. AppendEntries rf args =
       Inr (acceptLeader rf (ae_Term args),
            \<lparr>aer_Term = max (currentTerm rf) (ae_Term args), Success = False,
             NextRetryStartIndex = retry\<rparr>)
     \<and> (if ae_Term args < currentTerm rf then retry = 0
        else 1 \<le> retry \<and> (retry \<le> PrevLogIndex args \<or>
               PrevLogIndex args < lastIncludedIndex rf \<and> retry = lastIncludedIndex rf + 1))"
proof (cases "ae_Term args < currentTerm rf \<or> PrevLogIndex args < lastIncludedIndex rf")
  case True
  then show ?thesis
    using assms(1) by (auto simp: AppendEntries_def Let_def raft_wf_def)
next
  case False
  let ?rf1 = "acceptLeader rf (ae_Term args)"
  have "\<exists>r. prevMismatch ?rf1 args = Inr (Some r) \<and> 1 \<le> r \<and> r \<le> PrevLogIndex args"
    using assms False by (intro prevMismatch_retry) (auto simp: accepts_def)
  then show ?thesis
    using False by (auto simp: AppendEntries_def Let_def)
qed

section \<open>Facts about the merge\<close>

lemma mergeEntries_terms:
  "j < length es \<Longrightarrow>
   j < length (mergeEntries old es) \<and> le_Term (mergeEntries old es ! j) = le_Term (es ! j)"
proof (induction old es arbitrary: j rule: mergeEntries.induct)
  case (3 x old e es)
  then show ?case
    by (cases j) (auto simp: less_Suc_eq_0_disj)
qed auto

lemma mergeEntries_prefix_again: "mergeEntries (mergeEntries old es) (take n es) = mergeEntries old es"
proof (induction old es arbitrary: n rule: mergeEntries.induct)
  case (2 e es)
  have "mergeEntries xs (take n xs) = xs" for xs :: "'a LogEntry list" and n
    by (induction xs arbitrary: n) (auto simp: take_Cons')
  then show ?case
    by simp
next
  case (3 x old e es)
  have "mergeEntries xs (take n xs) = xs" for xs :: "'a LogEntry list" and n
    by (induction xs arbitrary: n) (auto simp: take_Cons')
  then show ?case
    using 3 by (cases n) (auto simp: take_Cons')
qed simp

lemma mergeEntries_prefix_first: "mergeEntries (mergeEntries old (take n es)) es = mergeEntries old es"
proof (induction old es arbitrary: n rule: mergeEntries.induct)
  case (2 e es)
  have "mergeEntries (take n xs) xs = xs" for xs :: "'a LogEntry list" and n
    by (induction xs arbitrary: n) (auto simp: take_Cons')
  then show ?case
    by (metis mergeEntries_Nil)
next
  case (3 x old e es)
  have "mergeEntries (take n xs) xs = xs" for xs :: "'a LogEntry list" and n
    by (induction xs arbitrary: n) (auto simp: take_Cons')
  then show ?case
    using 3 by (cases n) auto
qed simp

lemma mergeEntries_keep:
  "m \<le> length old \<Longrightarrow> \<forall>j < length es. j < m \<longrightarrow> le_Term (old ! j) = le_Term (es ! j) \<Longrightarrow>
   m \<le> length (mergeEntries old es) \<and> take m (mergeEntries old es) = take m old"
proof (induction old es arbitrary: m rule: mergeEntries.induct)
  case (3 x old e es)
  show ?case
  proof (cases m)
    case (Suc m')
    then have "le_Term x = le_Term e" and "\<forall>j < length es. j < m' \<longrightarrow> le_Term (old ! j) = le_Term (es ! j)"
      using "3.prems" by (force, auto)
    then show ?thesis
      using "3.IH" [of m'] "3.prems" Suc by simp
  qed simp
qed auto

section \<open>The state after an accepted request\<close>

lemma storeEntries_fields [raft_frame, simp]:
  "currentTerm (storeEntries rf args) = currentTerm rf"
  "votedFor (storeEntries rf args) = votedFor rf" "state (storeEntries rf args) = state rf"
  "lastIncludedIndex (storeEntries rf args) = lastIncludedIndex rf"
  "lastIncludedTerm (storeEntries rf args) = lastIncludedTerm rf"
  "commitIndex (storeEntries rf args) = commitIndex rf"
  "lastApplied (storeEntries rf args) = lastApplied rf" "peers (storeEntries rf args) = peers rf"
  "me (storeEntries rf args) = me rf"
  "log (storeEntries rf args) =
     (let k = nat (PrevLogIndex args + 1 - lastIncludedIndex rf)
      in take k (log rf) @ mergeEntries (drop k (log rf)) (Entries args))"
  by (simp_all add: storeEntries_def Let_def)

lemma storeEntries_in_sync: "in_sync rf \<Longrightarrow> in_sync (storeEntries rf args)"
  by (simp add: storeEntries_def Let_def)

lemma prev_position:
  assumes "prev_matches rf args"
  obtains k where "nat (PrevLogIndex args + 1 - lastIncludedIndex rf) = Suc k"
    and "Suc k \<le> length (log rf)" and "PrevLogIndex args = lastIncludedIndex rf + int k"
proof
  let ?k = "nat (PrevLogIndex args - lastIncludedIndex rf)"
  have bounds: "lastIncludedIndex rf \<le> PrevLogIndex args"
      "PrevLogIndex args < lastIncludedIndex rf + int (length (log rf))"
    using assms by (simp_all add: prev_matches_def has_index_def getLogLength_def)
  show "nat (PrevLogIndex args + 1 - lastIncludedIndex rf) = Suc ?k"
    using bounds by linarith
  show "Suc ?k \<le> length (log rf)"
    using bounds by linarith
  show "PrevLogIndex args = lastIncludedIndex rf + int ?k"
    using bounds by simp
qed

lemma storeEntries_wf:
  assumes "raft_wf rf" and "prev_matches rf args"
  shows "raft_wf (storeEntries rf args)" and "prev_matches (storeEntries rf args) args"
    and "PrevLogIndex args + int (length (Entries args)) < getLogLength (storeEntries rf args)"
proof -
  obtain k where k: "nat (PrevLogIndex args + 1 - lastIncludedIndex rf) = Suc k"
      "Suc k \<le> length (log rf)" "PrevLogIndex args = lastIncludedIndex rf + int k"
    using prev_position [OF assms(2)] .
  show "raft_wf (storeEntries rf args)"
    using assms(1) k by (auto simp: raft_wf_def Let_def)
  show "prev_matches (storeEntries rf args) args"
    using assms(2) k by (auto simp: prev_matches_def has_index_def termAt_def getLogLength_def Let_def nth_append)
  have "length (Entries args) \<le> length (mergeEntries (drop (Suc k) (log rf)) (Entries args))"
    using mergeEntries_terms [of "length (Entries args) - 1" "Entries args" "drop (Suc k) (log rf)"]
    by (cases "Entries args") auto
  then show "PrevLogIndex args + int (length (Entries args)) < getLogLength (storeEntries rf args)"
    using k by (simp add: getLogLength_def Let_def)
qed

section \<open>Snapshots\<close>

lemma saveSnapshot_eq:
  "saveSnapshot rf snap = Inr (rf\<lparr>persister := \<lparr>raftstate = [], snapshot = snap\<rparr>\<rparr>)"
  by (simp add: saveSnapshot_def persist_def persister_defs Let_def)

text \<open>The condition under which \<open>Snapshot\<close> trims the log.\<close>

definition trims :: "('c, 's) Raft \<Rightarrow> int \<Rightarrow> bool" where
  "trims rf i \<longleftrightarrow>
     \<not> killed rf \<and> lastIncludedIndex rf < i \<and> i \<le> commitIndex rf \<and> i \<le> lastApplied rf"

lemma Snapshot_skip: "\<not> trims rf i \<Longrightarrow> Snapshot rf i snap = Inr rf"
  by (auto simp: Snapshot_def trims_def)

lemma Snapshot_trim:
  assumes "trims rf i" and "i < getLogLength rf"
  shows "Snapshot rf i snap =
     Inr (rf\<lparr>lastIncludedTerm := termAt rf i, lastIncludedIndex := i,
             log := drop (nat (i - lastIncludedIndex rf)) (log rf),
             persister := \<lparr>raftstate = [], snapshot = snap\<rparr>\<rparr>)"
  using assms
  by (auto simp: Snapshot_def trims_def keepFrom_eq getTermOfLog_eq has_index_def saveSnapshot_eq)

lemma InstallSnapshot_eq:
  assumes "is_Term args \<ge> currentTerm rf"
  shows "InstallSnapshot rf args =
     (let rf1 = (if is_Term args > currentTerm rf then adoptTerm rf (is_Term args) else rf);
          i = is_LastIncludedIndex args
      in if lastIncludedIndex rf < i \<and> lastApplied rf < i
         then Inr (rf1\<lparr>lastIncludedTerm := is_LastIncludedTerm args, lastIncludedIndex := i,
                log := \<lparr>le_Term = 0, le_Command = None\<rparr> #
                       drop (nat (i + 1 - lastIncludedIndex rf)) (log rf),
                commitIndex := max i (commitIndex rf), lastApplied := i,
                persister := \<lparr>raftstate = [], snapshot = is_Data args\<rparr>,
                applyCh := applyCh rf @
                  [\<lparr>CommandValid = False, Command = None, CommandIndex = 0, SnapshotValid = True,
                    am_Snapshot = is_Data args, SnapshotTerm = is_LastIncludedTerm args,
                    SnapshotIndex = i\<rparr>]\<rparr>,
              \<lparr>isr_Term = is_Term args\<rparr>)
         else Inr (rf1, \<lparr>isr_Term = is_Term args\<rparr>))"
  using assms
  by (auto simp: InstallSnapshot_def keepFrom_eq saveSnapshot_eq Let_def max_def)

section \<open>One vote per term\<close>

text \<open>
  The order in which the term and the vote of a peer may change: the term never
  decreases, and within a term a vote that is given is never changed.
\<close>

definition vote_le :: "('c, 's) Raft \<Rightarrow> ('c, 's) Raft \<Rightarrow> bool" where
  "vote_le rf rf' \<longleftrightarrow>
     currentTerm rf < currentTerm rf' \<or>
     currentTerm rf = currentTerm rf' \<and> (votedFor rf = -1 \<or> votedFor rf' = votedFor rf)"

lemma vote_le_refl [simp]: "vote_le rf rf"
  by (simp add: vote_le_def)

lemma vote_le_trans: "vote_le a b \<Longrightarrow> vote_le b c \<Longrightarrow> vote_le a c"
  by (auto simp: vote_le_def)

lemma vote_le_persist [simp]:
  "vote_le (persist rf) rf' = vote_le rf rf'" "vote_le rf (persist rf') = vote_le rf rf'"
  by (simp_all add: vote_le_def)

lemma RequestVote_vote_le: "RequestVote rf args = Inr (rf', r) \<Longrightarrow> vote_le rf rf'"
  by (auto simp: RequestVote_def vote_le_def Let_def split: if_splits)

lemma appendLoop_fields:
  "appendLoop rf i es = Inr rf' \<Longrightarrow> currentTerm rf' = currentTerm rf \<and> votedFor rf' = votedFor rf"
  by (induction rf i es rule: appendLoop.induct) (auto split: if_splits)

lemma AppendEntries_vote_le: "AppendEntries rf args = Inr (rf', r) \<Longrightarrow> vote_le rf rf'"
  by (auto simp: AppendEntries_def vote_le_def Let_def split: if_splits option.splits
      dest!: appendLoop_fields)

lemma InstallSnapshot_vote_le: "InstallSnapshot rf args = Inr (rf', r) \<Longrightarrow> vote_le rf rf'"
  by (auto simp: InstallSnapshot_def vote_le_def saveSnapshot_eq Let_def split: if_splits)

lemma Snapshot_vote_le: "Snapshot rf i snap = Inr rf' \<Longrightarrow> vote_le rf rf'"
  by (auto simp: Snapshot_def vote_le_def saveSnapshot_eq split: if_splits)

lemmas handler_vote_le = RequestVote_vote_le AppendEntries_vote_le InstallSnapshot_vote_le
  Snapshot_vote_le

section \<open>Saved state\<close>

lemma RequestVote_in_sync:
  "in_sync rf \<Longrightarrow> RequestVote rf args = Inr (rf', r) \<Longrightarrow> in_sync rf'"
  by (auto simp: RequestVote_def Let_def split: if_splits)

lemma AppendEntries_in_sync:
  assumes "raft_wf rf" and "prev_ok args" and "in_sync rf" and "AppendEntries rf args = Inr (rf', r)"
  shows "in_sync rf'"
proof (cases "accepts rf args")
  case True
  then show ?thesis
    using assms AppendEntries_accept [of rf args]
    by (auto simp: acceptLeader_in_sync storeEntries_in_sync)
next
  case False
  then show ?thesis
    using assms AppendEntries_reject [of rf args] by (auto simp: acceptLeader_in_sync)
qed

section \<open>Shape\<close>

lemma RequestVote_wf: "raft_wf rf \<Longrightarrow> RequestVote rf args = Inr (rf', r) \<Longrightarrow> raft_wf rf'"
  by (auto simp: RequestVote_def raft_wf_def Let_def split: if_splits)

lemma AppendEntries_wf:
  assumes "raft_wf rf" and "prev_ok args" and "AppendEntries rf args = Inr (rf', r)"
  shows "raft_wf rf'"
proof (cases "accepts rf args")
  case True
  then have "prev_matches (acceptLeader rf (ae_Term args)) args"
    by (simp add: accepts_def)
  then show ?thesis
    using assms True AppendEntries_accept [of rf args]
    by (auto intro!: followCommit_wf storeEntries_wf)
next
  case False
  then show ?thesis
    using assms AppendEntries_reject [of rf args] by auto
qed

lemma Snapshot_wf: "raft_wf rf \<Longrightarrow> Snapshot rf i snap = Inr rf' \<Longrightarrow> raft_wf rf'"
  by (cases "trims rf i")
    (auto simp: Snapshot_skip Snapshot_def trims_def raft_wf_def keepFrom_eq getTermOfLog_eq
      saveSnapshot_eq getLogLength_def has_index_def split: if_splits)

lemma InstallSnapshot_wf:
  "raft_wf rf \<Longrightarrow> InstallSnapshot rf args = Inr (rf', r) \<Longrightarrow> raft_wf rf'"
  by (auto simp: InstallSnapshot_def raft_wf_def keepFrom_eq saveSnapshot_eq Let_def split: if_splits)

end
