(* ===== verification/RaftPeer.thy ===== *)
theory RaftPeer
  imports RaftRpc
begin

text \<open>
  What a Raft peer does on its own: the goroutines of \<open>src/src/raft/raft.go\<close> and the call
  \<open>Start\<close>. A goroutine gives up its locks while it sleeps or waits for a reply, so it is
  a group of definitions, one per critical section: \<open>doElection\<close> up to the requests it
  sends, one received vote of \<open>sendRequestVoteToAll\<close>, one reply of
  \<open>sendAppendEntries\<close>, \<open>sendInstallSnapshot\<close> or \<open>sendHeartbeatToAll\<close>, the
  initialisation of \<open>leaderMain\<close>, one index of \<open>tryIncrementCommitIndex\<close>, one tick of
  \<open>followerMain\<close>, and the three sections of \<open>applyLoop\<close>.
\<close>

section \<open>Elections\<close>

definition doElection :: "('c, 's) Raft \<Rightarrow> ('c, 's) Raft" where
  "doElection rf = persist (rf\<lparr>currentTerm := currentTerm rf + 1, votedFor := int (me rf)\<rparr>)"

definition requestVoteArgs :: "('c, 's) Raft \<Rightarrow> int \<Rightarrow> RequestVoteArgs res" where
  "requestVoteArgs rf thisTerm =
     and_then (getTermOfLog rf (getLogLength rf - 1)) (\<lambda>t.
       Inr \<lparr>rv_Term = thisTerm, CandidateId = int (me rf), LastLogIndex = getLogLength rf - 1,
            LastLogTerm = t\<rparr>)"

datatype vote_loop = VoteBreak | VoteNext nat

text \<open>One reply that arrived; \<open>grantedVoteSum\<close> is the goroutine's counter.\<close>

definition sendRequestVoteToAll ::
  "('c, 's) Raft \<Rightarrow> int \<Rightarrow> nat \<Rightarrow> RequestVoteReply \<Rightarrow> ('c, 's) Raft \<times> vote_loop" where
  "sendRequestVoteToAll rf thisTerm grantedVoteSum reply =
     (if currentTerm rf > thisTerm \<or> state rf \<noteq> candidateState then (rf, VoteBreak)
      else let rf1 = (if rvr_Term reply > currentTerm rf then adoptTerm rf (rvr_Term reply) else rf)
           in if VoteGranted reply
              then (if grantedVoteSum + 1 > peers rf1 div 2 \<and> state rf1 = candidateState
                    then rf1\<lparr>state := leaderState, leaderInitDone := False\<rparr> else rf1,
                    VoteNext (grantedVoteSum + 1))
              else (rf1, VoteNext grantedVoteSum))"

text \<open>One tick of the election timer: the state and the loop variable afterwards.\<close>

definition followerMain_tick :: "('c, 's) Raft \<Rightarrow> nat \<Rightarrow> ('c, 's) Raft \<times> nat" where
  "followerMain_tick rf i =
     (if resetElectionTimer rf then (rf\<lparr>resetElectionTimer := False\<rparr>, 1) else (rf, i + 1))"

definition followerMain_timeout :: "('c, 's) Raft \<Rightarrow> ('c, 's) Raft" where
  "followerMain_timeout rf = rf\<lparr>state := candidateState\<rparr>"

datatype main_task = LeaderMain | DoElection | FollowerMain

definition mainLoop :: "('c, 's) Raft \<Rightarrow> main_task option" where
  "mainLoop rf =
     (if killed rf then None
      else Some (case state rf of leaderState \<Rightarrow> LeaderMain
                 | candidateState \<Rightarrow> DoElection | followerState \<Rightarrow> FollowerMain))"

section \<open>The leader\<close>

definition leaderMain :: "('c, 's) Raft \<Rightarrow> ('c, 's) Raft" where
  "leaderMain rf =
     rf\<lparr>nextIndex := replicate (peers rf) (getLogLength rf),
        matchIndex := replicate (peers rf) 0, leaderInitDone := True\<rparr>"

datatype start_result = Started int int bool | StartWaiting

definition Start :: "('c, 's) Raft \<Rightarrow> 'c \<Rightarrow> (('c, 's) Raft \<times> start_result) res" where
  "Start rf command =
     (if state rf = leaderState then
        if leaderInitDone rf then
          let rf1 = persist (rf\<lparr>log := log rf @ [\<lparr>le_Term = currentTerm rf, le_Command = Some command\<rparr>]\<rparr>)
          in and_then (set_res (matchIndex rf1) (me rf1) (getLogLength rf1 - 1)) (\<lambda>match.
             and_then (set_res (nextIndex rf1) (me rf1) (getLogLength rf1)) (\<lambda>next.
               Inr (rf1\<lparr>matchIndex := match, nextIndex := next\<rparr>,
                    Started (getLogLength rf1 - 1) (currentTerm rf1) True)))
        else Inr (rf, StartWaiting)
      else Inr (rf, Started (getLogLength rf - 1) (currentTerm rf) False))"

datatype ('c, 's) message =
    SendAppend nat "'c AppendEntriesArgs"
  | SendSnapshot nat "'s InstallSnapshotArgs"

definition snapshotArgs :: "('c, 's) Raft \<Rightarrow> int \<Rightarrow> 's InstallSnapshotArgs" where
  "snapshotArgs rf t =
     \<lparr>is_Term = t, is_LeaderId = int (me rf), is_LastIncludedIndex = lastIncludedIndex rf,
      is_LastIncludedTerm = lastIncludedTerm rf, is_Data = ReadSnapshot (persister rf)\<rparr>"

definition appendFor :: "('c, 's) Raft \<Rightarrow> int \<Rightarrow> nat \<Rightarrow> ('c, 's) message option res" where
  "appendFor rf thisTerm i =
     (if i = me rf then Inr None
      else and_then (nth_res (nextIndex rf) i) (\<lambda>n.
        if getLogLength rf - 1 \<ge> n then
          if lastIncludedIndex rf > n - 1 then Inr (Some (SendSnapshot i (snapshotArgs rf thisTerm)))
          else and_then (getTermOfLog rf (n - 1)) (\<lambda>t.
               and_then (getLogsFrom rf n) (\<lambda>es.
                 Inr (Some (SendAppend i
                   \<lparr>ae_Term = thisTerm, ae_LeaderId = int (me rf), Entries = es,
                    PrevLogIndex = n - 1, PrevLogTerm = t, LeaderCommit = commitIndex rf\<rparr>))))
        else Inr None))"

definition sendAppendEntriesToAll :: "('c, 's) Raft \<Rightarrow> int \<Rightarrow> ('c, 's) message list res" where
  "sendAppendEntriesToAll rf thisTerm = collect_res (appendFor rf thisTerm) [0..<peers rf]"

definition heartbeatFor :: "('c, 's) Raft \<Rightarrow> int \<Rightarrow> nat \<Rightarrow> ('c, 's) message option res" where
  "heartbeatFor rf thisTerm i =
     (if i = me rf then Inr None
      else and_then (getTermOfLog rf (getLogLength rf - 1)) (\<lambda>t.
        Inr (Some (SendAppend i
          \<lparr>ae_Term = thisTerm, ae_LeaderId = int (me rf), Entries = [],
           PrevLogIndex = getLogLength rf - 1, PrevLogTerm = t, LeaderCommit = commitIndex rf\<rparr>))))"

definition sendHeartbeatToAll :: "('c, 's) Raft \<Rightarrow> int \<Rightarrow> ('c, 's) message list res" where
  "sendHeartbeatToAll rf thisTerm = collect_res (heartbeatFor rf thisTerm) [0..<peers rf]"

section \<open>Replies to the leader\<close>

text \<open>The assignment that records a follower's progress, if it is progress.\<close>

definition recordMatch :: "('c, 's) Raft \<Rightarrow> nat \<Rightarrow> int \<Rightarrow> ('c, 's) Raft res" where
  "recordMatch rf to n =
     and_then (nth_res (matchIndex rf) to) (\<lambda>m.
       if n > m
       then and_then (set_res (matchIndex rf) to n) (\<lambda>match.
            and_then (set_res (nextIndex rf) to (n + 1)) (\<lambda>next.
              Inr (rf\<lparr>matchIndex := match, nextIndex := next\<rparr>)))
       else Inr rf)"

definition heartbeatContinues :: "('c, 's) Raft \<Rightarrow> int \<Rightarrow> nat \<Rightarrow> bool" where
  "heartbeatContinues rf thisTerm replyCount \<longleftrightarrow>
     \<not> (currentTerm rf > thisTerm \<or> state rf \<noteq> leaderState) \<and> replyCount + 1 \<noteq> peers rf"

definition heartbeatReply ::
  "('c, 's) Raft \<Rightarrow> nat \<Rightarrow> 'c AppendEntriesArgs \<Rightarrow> AppendEntriesReply \<Rightarrow> ('c, 's) Raft res" where
  "heartbeatReply rf from args reply =
     (let rf1 = (if aer_Term reply > currentTerm rf then adoptTerm rf (aer_Term reply) else rf)
      in if Success reply then recordMatch rf1 from (PrevLogIndex args) else Inr rf1)"

datatype ('c, 's) append_next =
    AppendDone
  | AppendRetry "'c AppendEntriesArgs"
  | AppendSnapshot "'s InstallSnapshotArgs"

definition staleSender :: "('c, 's) Raft \<Rightarrow> int \<Rightarrow> bool" where
  "staleSender rf t \<longleftrightarrow> currentTerm rf \<noteq> t \<or> state rf \<noteq> leaderState"

definition sendAppendEntries ::
  "('c, 's) Raft \<Rightarrow> nat \<Rightarrow> 'c AppendEntriesArgs \<Rightarrow> AppendEntriesReply
   \<Rightarrow> (('c, 's) Raft \<times> ('c, 's) append_next) res" where
  "sendAppendEntries rf to args reply =
     (if staleSender rf (ae_Term args) then Inr (rf, AppendDone)
      else let leaderTermSmaller = (aer_Term reply > currentTerm rf);
               rf1 = (if leaderTermSmaller then adoptTerm rf (aer_Term reply) else rf)
           in if Success reply then
                and_then (recordMatch rf1 to (PrevLogIndex args + int (length (Entries args))))
                  (\<lambda>rf2. Inr (rf2, AppendDone))
              else if \<not> leaderTermSmaller then
                if NextRetryStartIndex reply = 0 then Inl Fatal
                else if NextRetryStartIndex reply \<le> lastIncludedIndex rf1
                     then Inr (rf1, AppendSnapshot (snapshotArgs rf1 (currentTerm rf1)))
                else and_then (set_res (nextIndex rf1) to (NextRetryStartIndex reply)) (\<lambda>next.
                     let prev = NextRetryStartIndex reply - 1
                     in and_then (if prev \<ge> 0 then getTermOfLog rf1 prev else Inr (PrevLogTerm args)) (\<lambda>t.
                        and_then (getLogsFrom rf1 (NextRetryStartIndex reply)) (\<lambda>es.
                          Inr (rf1\<lparr>nextIndex := next\<rparr>,
                               AppendRetry (args\<lparr>PrevLogIndex := prev, PrevLogTerm := t, Entries := es\<rparr>)))))
              else Inr (rf1, AppendDone))"

definition sendInstallSnapshot ::
  "('c, 's) Raft \<Rightarrow> nat \<Rightarrow> 's InstallSnapshotArgs \<Rightarrow> InstallSnapshotReply
   \<Rightarrow> (('c, 's) Raft \<times> ('c, 's) append_next) res" where
  "sendInstallSnapshot rf to args reply =
     (if staleSender rf (is_Term args) then Inr (rf, AppendDone)
      else if isr_Term reply > currentTerm rf then Inr (adoptTerm rf (isr_Term reply), AppendDone)
      else and_then (set_res (matchIndex rf) to (is_LastIncludedIndex args)) (\<lambda>match.
           and_then (set_res (nextIndex rf) to (is_LastIncludedIndex args + 1)) (\<lambda>next.
             let rf1 = rf\<lparr>matchIndex := match, nextIndex := next\<rparr>;
                 prev = is_LastIncludedIndex args
             in if lastIncludedIndex rf1 > prev
                then Inr (rf1, AppendSnapshot (snapshotArgs rf1 (is_Term args)))
                else and_then (getTermOfLog rf1 prev) (\<lambda>t.
                     and_then (getLogsFrom rf1 (prev + 1)) (\<lambda>es.
                       Inr (rf1, AppendRetry
                         \<lparr>ae_Term = is_Term args, ae_LeaderId = int (me rf1), Entries = es,
                          PrevLogIndex = prev, PrevLogTerm = t, LeaderCommit = commitIndex rf1\<rparr>))))))"

section \<open>Commitment\<close>

fun countMatch :: "int list \<Rightarrow> int \<Rightarrow> nat \<Rightarrow> nat res" where
  "countMatch match i 0 = Inr 0"
| "countMatch match i (Suc j) =
     and_then (countMatch match i j) (\<lambda>count.
     and_then (nth_res match j) (\<lambda>m. Inr (if m \<ge> i then count + 1 else count)))"

text \<open>One round of the inner loop at index \<open>i\<close>: the state and the next index.\<close>

definition commitAt :: "('c, 's) Raft \<Rightarrow> int \<Rightarrow> int \<Rightarrow> (('c, 's) Raft \<times> int) res" where
  "commitAt rf thisTerm i =
     (if i \<le> lastIncludedIndex rf then Inr (rf, lastIncludedIndex rf + 1)
      else and_then (getTermOfLog rf i) (\<lambda>nowLogTerm.
        if nowLogTerm = thisTerm
        then and_then (countMatch (matchIndex rf) i (peers rf)) (\<lambda>count.
               Inr (if count > peers rf div 2 \<and> i > commitIndex rf
                    then rf\<lparr>commitIndex := i, applyNotifyCh := applyNotifyCh rf @ [0]\<rparr> else rf,
                    i + 1))
        else Inr (rf, i + 1)))"

function commitLoop :: "('c, 's) Raft \<Rightarrow> int \<Rightarrow> int \<Rightarrow> int \<Rightarrow> ('c, 's) Raft res" where
  "commitLoop rf thisTerm thisLogLength i =
     (if i < thisLogLength
      then and_then (commitAt rf thisTerm i) (\<lambda>(rf', i'). commitLoop rf' thisTerm thisLogLength i')
      else Inr rf)"
  by pat_completeness auto
termination
  by (relation "measure (\<lambda>(rf, thisTerm, thisLogLength, i). nat (thisLogLength - i))")
    (auto simp: commitAt_def split: if_splits)

declare commitLoop.simps [simp del]

definition tryIncrementCommitIndex :: "('c, 's) Raft \<Rightarrow> ('c, 's) Raft res" where
  "tryIncrementCommitIndex rf =
     (if state rf \<noteq> leaderState then Inr rf
      else commitLoop rf (currentTerm rf) (getLogLength rf) (commitIndex rf + 1))"

section \<open>Applying committed entries\<close>

text \<open>
  \<open>applyLoop\<close> takes a notification and reads the entries to apply under its locks, sends
  them one by one without a lock, and then adds their number to \<open>lastApplied\<close>. The
  outcome \<open>None\<close> of the first section is the \<open>continue\<close> (or nothing to do).
\<close>

definition applyLoop_take ::
  "('c, 's) Raft \<Rightarrow> (('c, 's) Raft \<times> (int \<times> 'c LogEntry list) option) res" where
  "applyLoop_take rf =
     (let rf1 = rf\<lparr>applyNotifyCh := tl (applyNotifyCh rf)\<rparr>;
          nextApplied = lastApplied rf1 + 1
      in if commitIndex rf1 > lastApplied rf1 then
           if lastIncludedIndex rf1 > nextApplied then Inr (rf1, None)
           else and_then (getLogs rf1 nextApplied (commitIndex rf1 + 1)) (\<lambda>toBeApplied.
                  Inr (rf1, Some (nextApplied, toBeApplied)))
         else Inr (rf1, None))"

definition commandMsg :: "int \<Rightarrow> 'c LogEntry \<Rightarrow> ('c, 's) ApplyMsg" where
  "commandMsg i e =
     \<lparr>CommandValid = True, Command = le_Command e, CommandIndex = i, SnapshotValid = False,
      am_Snapshot = [], SnapshotTerm = 0, SnapshotIndex = 0\<rparr>"

fun applyLoop_send :: "('c, 's) Raft \<Rightarrow> int \<Rightarrow> 'c LogEntry list \<Rightarrow> ('c, 's) Raft" where
  "applyLoop_send rf i [] = rf"
| "applyLoop_send rf i (e # es) = applyLoop_send (rf\<lparr>applyCh := applyCh rf @ [commandMsg i e]\<rparr>) (i + 1) es"

definition applyLoop_done :: "('c, 's) Raft \<Rightarrow> nat \<Rightarrow> ('c, 's) Raft" where
  "applyLoop_done rf n = rf\<lparr>lastApplied := lastApplied rf + int n\<rparr>"

text \<open>The three sections with nothing in between.\<close>

definition applyLoop :: "('c, 's) Raft \<Rightarrow> ('c, 's) Raft res" where
  "applyLoop rf =
     and_then (applyLoop_take rf) (\<lambda>(rf1, work).
       case work of None \<Rightarrow> Inr rf1
       | Some (i, es) \<Rightarrow> Inr (applyLoop_done (applyLoop_send rf1 i es) (length es)))"

end
