(* ===== verification/RaftRpcSpec.thy ===== *)
theory RaftRpcSpec
  imports RaftRpc
begin

text \<open>
  Properties of the RPC handlers of a Raft peer: one vote per term over runs with
  restarts, the merge of received entries against the rule of the Raft paper, late and
  reordered requests, committed entries, the retry index, compaction of the log, and
  what a restart finds after each operation.
\<close>

section \<open>A peer serving requests\<close>

text \<open>
  A run of one peer: the requests it serves, the snapshots its service takes and its
  restarts from the persister, in the order they happen. The run collects the votes
  granted, as pairs of term and candidate.
\<close>

datatype ('c, 's) event =
    EvVote RequestVoteArgs
  | EvAppend "'c AppendEntriesArgs"
  | EvInstall "'s InstallSnapshotArgs"
  | EvSnapshot int "'s list"
  | EvRestart

fun handle :: "('c, 's) Raft \<Rightarrow> ('c, 's) event \<Rightarrow> (('c, 's) Raft \<times> (int \<times> int) list) res" where
  "handle rf (EvVote args) =
     and_then (RequestVote rf args) (\<lambda>(rf', r).
       Inr (rf', if VoteGranted r then [(rvr_Term r, CandidateId args)] else []))"
| "handle rf (EvAppend args) = and_then (AppendEntries rf args) (\<lambda>(rf', r). Inr (rf', []))"
| "handle rf (EvInstall args) = and_then (InstallSnapshot rf args) (\<lambda>(rf', r). Inr (rf', []))"
| "handle rf (EvSnapshot i snap) = and_then (Snapshot rf i snap) (\<lambda>rf'. Inr (rf', []))"
| "handle rf EvRestart = and_then (Make (peers rf) (me rf) (persister rf)) (\<lambda>rf'. Inr (rf', []))"

fun run :: "('c, 's) Raft \<Rightarrow> ('c, 's) event list \<Rightarrow> (('c, 's) Raft \<times> (int \<times> int) list) res" where
  "run rf [] = Inr (rf, [])"
| "run rf (e # es) =
     and_then (handle rf e) (\<lambda>(rf1, vs). and_then (run rf1 es) (\<lambda>(rf2, ws). Inr (rf2, vs @ ws)))"

text \<open>Requests as peers send them, and no snapshot.\<close>

fun plain_event :: "('c, 's) event \<Rightarrow> bool" where
  "plain_event (EvVote args) \<longleftrightarrow> CandidateId args \<ge> 0"
| "plain_event (EvAppend args) \<longleftrightarrow> prev_ok args"
| "plain_event (EvInstall args) \<longleftrightarrow> False"
| "plain_event (EvSnapshot i snap) \<longleftrightarrow> False"
| "plain_event EvRestart \<longleftrightarrow> True"

lemma Make_in_sync_keeps:
  assumes "in_sync rf" and "raft_wf rf" and "Make (peers rf) (me rf) (persister rf) = Inr rf'"
  shows "in_sync rf'" and "raft_wf rf'" and "vote_le rf rf'"
  using assms
  by (auto simp: Make_in_sync blankRaft_def in_sync_def encodeState_def raft_wf_def vote_le_def)

lemma handle_keeps:
  assumes "plain_event e" and "raft_wf rf" and "in_sync rf" and "handle rf e = Inr (rf', vs)"
  shows "raft_wf rf' \<and> in_sync rf' \<and> vote_le rf rf'"
  using assms
  by (cases e)
    (auto dest: RequestVote_wf RequestVote_in_sync AppendEntries_wf AppendEntries_in_sync
      Make_in_sync_keeps handler_vote_le)




section \<open>Properties\<close>


definition ex_peer :: "(nat, nat) Raft" where
  "ex_peer = persist (blankRaft 3 0 MakePersister)"

definition ex_vote :: "int \<Rightarrow> RequestVoteArgs" where
  "ex_vote c = \<lparr>rv_Term = 1, CandidateId = c, LastLogIndex = 0, LastLogTerm = 0\<rparr>"

lemma ex_peer_wf: "raft_wf ex_peer" "in_sync ex_peer"
  by (simp_all add: ex_peer_def raft_wf_def blankRaft_def)

lemmas ex_peer_eval = ex_peer_def ex_vote_def blankRaft_def RequestVote_def isNewerThanMe_def
  getLogLength_def getTermOfLog_def adoptTerm_def persist_def encodeState_def persister_defs
  Make_def readPersist_def Let_def


text \<open>\<open>RequestVote\<close> returns on every well-formed peer and request. It grants the vote
  exactly when the request is not of an earlier term, the peer has not voted for another
  candidate in that term and the candidate's log is at least as up to date; it never
  touches the log and answers with the term it has reached.\<close>

theorem RequestVote_grants:
  assumes "raft_wf rf"
  shows "\<exists>rf' r. RequestVote rf args = Inr (rf', r)
     \<and> (VoteGranted r \<longleftrightarrow> rv_Term args \<ge> currentTerm rf
          \<and> (rv_Term args > currentTerm rf \<or> votedFor rf \<in> {-1, CandidateId args})
          \<and> up_to_date rf args)
     \<and> (VoteGranted r \<longrightarrow> votedFor rf' = CandidateId args \<and> resetElectionTimer rf')
     \<and> currentTerm rf' = max (currentTerm rf) (rv_Term args) \<and> rvr_Term r = currentTerm rf'
     \<and> log rf' = log rf \<and> (rv_Term args > currentTerm rf \<longrightarrow> state rf' = followerState)"
  using assms by (auto simp: RequestVote_eq Let_def max_def)

theorem RequestVote_grants_witness:
  "\<exists>rf' r. RequestVote ex_peer (ex_vote 2) = Inr (rf', r) \<and> VoteGranted r \<and> votedFor rf' = 2"
  using RequestVote_grants [OF ex_peer_wf(1), of "ex_vote 2"]
  by (auto simp: ex_peer_def ex_vote_def blankRaft_def up_to_date_def getLogLength_def Let_def)

text \<open>\<open>AppendEntries\<close> returns on every well-formed peer. When the term is current and
  the preceding entry matches, the log becomes the prefix up to that entry followed by
  the merge of the Raft paper; otherwise the log is unchanged and the reply says so.\<close>

theorem AppendEntries_merges:
  assumes "raft_wf rf" and "prev_ok args"
  shows "\<exists>rf' r. AppendEntries rf args = Inr (rf', r) \<and> Success r = accepts rf args
     \<and> aer_Term r = max (currentTerm rf) (ae_Term args)
     \<and> log rf' = (if accepts rf args
                  then let k = nat (PrevLogIndex args + 1 - lastIncludedIndex rf)
                       in take k (log rf) @ mergeEntries (drop k (log rf)) (Entries args)
                  else log rf)"
proof (cases "accepts rf args")
  case True
  then have "ae_Term args = max (currentTerm rf) (ae_Term args)"
    by (simp add: accepts_def)
  then show ?thesis
    using True AppendEntries_accept [OF assms(1) True] by (simp add: Let_def)
next
  case False
  then show ?thesis
    using AppendEntries_reject [OF assms False] by auto
qed

definition ex_entry :: "int \<Rightarrow> nat \<Rightarrow> nat LogEntry" where
  "ex_entry t c = \<lparr>le_Term = t, le_Command = Some c\<rparr>"

definition ex_append :: "nat LogEntry list \<Rightarrow> nat AppendEntriesArgs" where
  "ex_append es = \<lparr>ae_Term = 2, ae_LeaderId = 1, Entries = es, PrevLogIndex = 0, PrevLogTerm = 0,
                   LeaderCommit = 0\<rparr>"

definition ex_follower :: "(nat, nat) Raft" where
  "ex_follower = ex_peer\<lparr>log := log ex_peer @ [ex_entry 1 7, ex_entry 1 8]\<rparr>"

lemma ex_follower_facts:
  "raft_wf ex_follower" "prev_ok (ex_append es)" "accepts ex_follower (ex_append es)"
  "log ex_follower = [\<lparr>le_Term = 0, le_Command = None\<rparr>, ex_entry 1 7, ex_entry 1 8]"
  "lastIncludedIndex ex_follower = 0" "commitIndex ex_follower = 0"
  by (simp_all add: ex_follower_def ex_peer_def raft_wf_def prev_ok_def ex_append_def accepts_def
      prev_matches_def has_index_def termAt_def getLogLength_def blankRaft_def)

theorem AppendEntries_merges_witness:
  "\<exists>rf' r. AppendEntries ex_follower (ex_append [ex_entry 1 7, ex_entry 2 9]) = Inr (rf', r)
     \<and> Success r \<and> map le_Term (log rf') = [0, 1, 2]"
  using AppendEntries_merges [OF ex_follower_facts(1,2), of "[ex_entry 1 7, ex_entry 2 9]"]
  by (auto simp: ex_follower_facts) (simp add: ex_append_def ex_entry_def)




lemma acceptLeader_again: "acceptLeader (acceptLeader rf t) t = acceptLeader rf t"
  by (auto simp: acceptLeader_def Let_def)

lemma accepts_again:
  assumes "raft_wf rf" and "accepts rf args" and "AppendEntries rf args = Inr (rf1, r)"
    and "ae_Term args' = ae_Term args" and "PrevLogIndex args' = PrevLogIndex args"
    and "PrevLogTerm args' = PrevLogTerm args"
  shows "raft_wf rf1" and "accepts rf1 args'" and "lastIncludedIndex rf1 = lastIncludedIndex rf"
proof -
  let ?rf2 = "storeEntries (acceptLeader rf (ae_Term args)) args"
  have rf1: "rf1 = followCommit ?rf2 (LeaderCommit args)"
    using AppendEntries_accept [OF assms(1,2)] assms(3) by simp
  have m: "prev_matches (acceptLeader rf (ae_Term args)) args"
    using assms(2) by (simp add: accepts_def)
  have wf2: "raft_wf ?rf2" and m2: "prev_matches ?rf2 args"
    using storeEntries_wf [OF _ m] assms(1) by simp_all
  show "raft_wf rf1"
    unfolding rf1 by (rule followCommit_wf [OF wf2])
  show "accepts rf1 args'"
    using m2 assms(2,4-6) by (simp add: rf1 accepts_def prev_matches_def)
  show "lastIncludedIndex rf1 = lastIncludedIndex rf"
    by (simp add: rf1)
qed

lemma AppendEntries_log:
  assumes "raft_wf rf" and "accepts rf args" and "AppendEntries rf args = Inr (rf1, r)"
  shows "log rf1 = (let k = nat (PrevLogIndex args + 1 - lastIncludedIndex rf)
                    in take k (log rf) @ mergeEntries (drop k (log rf)) (Entries args))"
  using AppendEntries_accept [OF assms(1,2)] assms(3) by (auto simp: Let_def)

text \<open>Requests of one leader that carry the same first index may overtake each other: a
  shorter one delivered after a longer one removes nothing, and delivered before it
  changes nothing of the result.\<close>

theorem AppendEntries_reordered:
  assumes "raft_wf rf" and "accepts rf args" and "short = args\<lparr>Entries := take n (Entries args)\<rparr>"
    and "AppendEntries rf args = Inr (rf1, r1)" and "AppendEntries rf1 short = Inr (rf2, r2)"
    and "AppendEntries rf short = Inr (rf3, r3)" and "AppendEntries rf3 args = Inr (rf4, r4)"
  shows "log rf2 = log rf1 \<and> log rf4 = log rf1"
proof -
  have same: "ae_Term short = ae_Term args" "PrevLogIndex short = PrevLogIndex args"
      "PrevLogTerm short = PrevLogTerm args" "Entries short = take n (Entries args)"
    by (simp_all add: assms(3))
  have acc: "accepts rf short"
    using assms(2) same by (simp add: accepts_def prev_matches_def)
  obtain k where k: "nat (PrevLogIndex args + 1 - lastIncludedIndex rf) = Suc k" "Suc k \<le> length (log rf)"
    using prev_position [of rf args] assms(2) unfolding accepts_def by blast
  have after1: "raft_wf rf1" "accepts rf1 short" "lastIncludedIndex rf1 = lastIncludedIndex rf"
    using accepts_again [OF assms(1,2,4) same(1-3)] by simp_all
  have after3: "raft_wf rf3" "accepts rf3 args" "lastIncludedIndex rf3 = lastIncludedIndex rf"
    using accepts_again [OF assms(1) acc assms(6), of args] same by simp_all
  define pre post where "pre = take (Suc k) (log rf)" and "post = drop (Suc k) (log rf)"
  have split: "take (Suc k) (pre @ xs) = pre" "drop (Suc k) (pre @ xs) = xs" for xs
    using k(2) by (simp_all add: pre_def)
  have "log rf1 = pre @ mergeEntries post (Entries args)"
    using AppendEntries_log [OF assms(1,2,4)] by (simp only: k(1) Let_def pre_def post_def)
  moreover have "log rf3 = pre @ mergeEntries post (take n (Entries args))"
    using AppendEntries_log [OF assms(1) acc assms(6)] by (simp only: same k(1) Let_def pre_def post_def)
  moreover have "log rf2 = take (Suc k) (log rf1) @ mergeEntries (drop (Suc k) (log rf1)) (take n (Entries args))"
    using AppendEntries_log [OF after1(1,2) assms(5)] by (simp only: same after1(3) k(1) Let_def)
  moreover have "log rf4 = take (Suc k) (log rf3) @ mergeEntries (drop (Suc k) (log rf3)) (Entries args)"
    using AppendEntries_log [OF after3(1,2) assms(7)] by (simp only: after3(3) k(1) Let_def)
  ultimately show ?thesis
    by (simp only: split mergeEntries_prefix_again mergeEntries_prefix_first simp_thms)
qed

theorem AppendEntries_reordered_witness:
  "\<exists>rf1 r1 rf2 r2. AppendEntries ex_follower (ex_append [ex_entry 2 9, ex_entry 2 10]) = Inr (rf1, r1)
     \<and> AppendEntries rf1 (ex_append [ex_entry 2 9]) = Inr (rf2, r2) \<and> log rf2 = log rf1"
proof -
  let ?long = "ex_append [ex_entry 2 9, ex_entry 2 10]" and ?short = "ex_append [ex_entry 2 9]"
  have short: "?short = ?long\<lparr>Entries := take 1 (Entries ?long)\<rparr>"
    by (simp add: ex_append_def)
  note f = ex_follower_facts
  obtain rf1 r1 where 1: "AppendEntries ex_follower ?long = Inr (rf1, r1)"
    using AppendEntries_accept [OF f(1,3)] by blast
  obtain rf3 r3 where 3: "AppendEntries ex_follower ?short = Inr (rf3, r3)"
    using AppendEntries_accept [OF f(1,3)] by blast
  obtain rf2 r2 where 2: "AppendEntries rf1 ?short = Inr (rf2, r2)"
    using AppendEntries_accept [OF accepts_again(1,2) [OF f(1,3) 1, of ?short]]
    by (auto simp: ex_append_def)
  obtain rf4 r4 where 4: "AppendEntries rf3 ?long = Inr (rf4, r4)"
    using AppendEntries_accept [OF accepts_again(1,2) [OF f(1,3) 3, of ?long]]
    by (auto simp: ex_append_def)
  show ?thesis
    using AppendEntries_reordered [OF f(1,3) short 1 2 3 4] 1 2 by blast
qed



text \<open>Taking a snapshot up to an index of the log keeps the length of the log and the
  term and entry at every index from there on, keeps the peer well formed, and stores
  the snapshot; a request that is not newer or not yet applied changes nothing.\<close>

theorem Snapshot_keeps_log:
  assumes "raft_wf rf" and "commitIndex rf < getLogLength rf"
  shows "\<exists>rf'. Snapshot rf i snap = Inr rf' \<and> raft_wf rf' \<and> getLogLength rf' = getLogLength rf
     \<and> (if trims rf i
        then lastIncludedIndex rf' = i \<and> snapshot (persister rf') = snap
          \<and> (\<forall>j. has_index rf' j \<longleftrightarrow> has_index rf j \<and> i \<le> j)
          \<and> (\<forall>j. has_index rf' j \<longrightarrow> termAt rf' j = termAt rf j \<and> (i < j \<longrightarrow> getLog rf' j = getLog rf j))
        else rf' = rf)"
proof (cases "trims rf i")
  case False
  then show ?thesis using assms(1) by (simp add: Snapshot_skip)
next
  case True
  let ?k = "nat (i - lastIncludedIndex rf)"
  let ?rf' = "rf\<lparr>lastIncludedTerm := termAt rf i, lastIncludedIndex := i, log := drop ?k (log rf),
                 persister := \<lparr>raftstate = [], snapshot = snap\<rparr>\<rparr>"
  have i: "lastIncludedIndex rf < i" "i < getLogLength rf"
    using True assms(2) by (auto simp: trims_def)
  then have eq: "Snapshot rf i snap = Inr ?rf'"
    using True by (simp add: Snapshot_trim)
  have len: "getLogLength ?rf' = getLogLength rf"
    using i by (simp add: getLogLength_def)
  have idx: "nat (j - lastIncludedIndex rf) = ?k + nat (j - i)" if "i \<le> j" for j
    using i that by linarith
  have "termAt ?rf' j = termAt rf j \<and> (i < j \<longrightarrow> getLog ?rf' j = getLog rf j)" if "has_index ?rf' j" for j
  proof -
    have j: "i \<le> j" "j < getLogLength rf"
      using that len by (simp_all add: has_index_def)
    then have "?k + nat (j - i) < length (log rf)"
      using i by (simp add: getLogLength_def)
    then have "drop ?k (log rf) ! nat (j - i) = log rf ! nat (j - lastIncludedIndex rf)"
      using idx [OF j(1)] by simp
    then show ?thesis
      using i j len by (simp add: termAt_def getLog_def)
  qed
  then have "\<forall>j. has_index ?rf' j \<longrightarrow> termAt ?rf' j = termAt rf j \<and> (i < j \<longrightarrow> getLog ?rf' j = getLog rf j)"
    by blast
  moreover have "\<forall>j. has_index ?rf' j \<longleftrightarrow> has_index rf j \<and> i \<le> j"
    using i len by (auto simp: has_index_def)
  moreover have "raft_wf ?rf'"
    using Snapshot_wf [OF assms(1) eq] .
  ultimately show ?thesis
    using eq len True by (intro exI [of _ ?rf']) simp
qed

definition ex_applied :: "(nat, nat) Raft" where
  "ex_applied = persist (ex_follower\<lparr>currentTerm := 1, commitIndex := 1, lastApplied := 1\<rparr>)"

lemma ex_applied_facts:
  "raft_wf ex_applied" "in_sync ex_applied" "trims ex_applied 1" "getLogLength ex_applied = 3"
  "commitIndex ex_applied = 1"
  by (simp_all add: ex_applied_def ex_follower_def ex_peer_def raft_wf_def trims_def killed_def
      getLogLength_def blankRaft_def)

theorem Snapshot_keeps_log_witness:
  "\<exists>rf'. Snapshot ex_applied 1 [0] = Inr rf' \<and> getLogLength rf' = 3 \<and> lastIncludedIndex rf' = 1"
  using Snapshot_keeps_log [OF ex_applied_facts(1), of 1 "[0]"] by (auto simp: ex_applied_facts)

text \<open>The saved Raft state is empty after a snapshot: what \<open>Snapshot\<close> saves with the
  snapshot is not the state it has just saved but the empty buffer, so a peer that
  restarts before its next save starts again in term 0 with no vote and no log.\<close>

theorem Snapshot_erases_saved_state:
  assumes "trims rf i" and "i < getLogLength rf"
  shows "\<exists>rf' rf''. Snapshot rf i snap = Inr rf' \<and> raftstate (persister rf') = []
     \<and> Make (peers rf') (me rf') (persister rf') = Inr rf''
     \<and> currentTerm rf'' = 0 \<and> votedFor rf'' = -1 \<and> lastIncludedIndex rf'' = 0
     \<and> log rf'' = [\<lparr>le_Term = 0, le_Command = None\<rparr>]"
  using assms by (simp add: Snapshot_trim Make_empty) (simp add: blankRaft_def)

theorem Snapshot_erases_saved_state_witness:
  "\<exists>rf' rf''. Snapshot ex_applied 1 [0] = Inr rf' \<and> Make (peers rf') (me rf') (persister rf') = Inr rf''
     \<and> currentTerm ex_applied = 1 \<and> currentTerm rf'' = 0"
proof -
  have "1 < getLogLength ex_applied"
    by (simp add: ex_applied_facts)
  then show ?thesis
    using Snapshot_erases_saved_state [OF ex_applied_facts(3)]
    by (fastforce simp: ex_applied_def ex_follower_def)
qed

text \<open>C15: Because of that, a peer that votes, takes a snapshot and restarts can vote again in
  the same term for another candidate.\<close>

theorem two_votes_after_snapshot:
  "\<exists>rf'. run ex_applied
     [EvVote \<lparr>rv_Term = 5, CandidateId = 1, LastLogIndex = 2, LastLogTerm = 1\<rparr>,
      EvSnapshot 1 [0], EvRestart,
      EvVote \<lparr>rv_Term = 5, CandidateId = 2, LastLogIndex = 2, LastLogTerm = 1\<rparr>]
     = Inr (rf', [(5, 1), (5, 2)])"
  by (simp add: ex_applied_def ex_follower_def ex_entry_def ex_peer_eval Snapshot_def killed_def
      keepFrom.simps getLog_def saveSnapshot_def)

lemma run_keeps:
  "list_all plain_event es \<Longrightarrow> raft_wf rf \<Longrightarrow> in_sync rf \<Longrightarrow> run rf es = Inr (rf', vs) \<Longrightarrow>
   raft_wf rf' \<and> in_sync rf'"
  by (induction es arbitrary: rf vs) (auto dest: handle_keeps)

text \<open>After any sequence of votes requested, entries received and restarts, the saved
  state is current: a restart returns a follower with the same term, vote and log, and
  with nothing committed beyond its snapshot.\<close>

theorem restart_recovers:
  assumes "list_all plain_event es" and "raft_wf rf" and "in_sync rf" and "run rf es = Inr (rf', vs)"
  shows "\<exists>rf''. Make n i (persister rf') = Inr rf'' \<and> state rf'' = followerState
     \<and> currentTerm rf'' = currentTerm rf' \<and> votedFor rf'' = votedFor rf' \<and> log rf'' = log rf'
     \<and> lastIncludedIndex rf'' = lastIncludedIndex rf' \<and> lastIncludedTerm rf'' = lastIncludedTerm rf'
     \<and> commitIndex rf'' = lastIncludedIndex rf' \<and> lastApplied rf'' = lastIncludedIndex rf'"
  using run_keeps [OF assms] by (auto simp: Make_in_sync blankRaft_def raft_wf_def)

theorem restart_recovers_witness:
  "\<exists>rf' vs rf''. run ex_peer [EvVote (ex_vote 1)] = Inr (rf', vs)
     \<and> Make 3 0 (persister rf') = Inr rf'' \<and> votedFor rf'' = 1"
proof -
  obtain rf' vs where r: "run ex_peer [EvVote (ex_vote 1)] = Inr (rf', vs)" "votedFor rf' = 1"
    by (simp add: ex_peer_eval)
  then show ?thesis
    using restart_recovers [OF _ ex_peer_wf r(1), of 3 0] by (auto simp: ex_vote_def)
qed

text \<open>A newer snapshot from the leader is installed: the peer moves its snapshot point,
  its commit index and its applied index there, stores the data and hands it to the
  service. The entries after that point are kept, whatever the term of the peer's own
  entry at that point.\<close>

theorem InstallSnapshot_installs:
  assumes "is_Term args \<ge> currentTerm rf" and "is_LastIncludedIndex args = i"
    and "lastIncludedIndex rf < i" and "lastApplied rf < i"
  shows "\<exists>rf'. InstallSnapshot rf args = Inr (rf', \<lparr>isr_Term = is_Term args\<rparr>)
     \<and> lastIncludedIndex rf' = i \<and> lastIncludedTerm rf' = is_LastIncludedTerm args
     \<and> commitIndex rf' = max i (commitIndex rf) \<and> lastApplied rf' = i
     \<and> snapshot (persister rf') = is_Data args
     \<and> (\<exists>m. applyCh rf' = applyCh rf @ [m] \<and> SnapshotValid m \<and> SnapshotIndex m = i
          \<and> am_Snapshot m = is_Data args)
     \<and> getLogLength rf' = max (i + 1) (getLogLength rf)
     \<and> (\<forall>j. i < j \<and> j < getLogLength rf \<longrightarrow> getLog rf' j = getLog rf j)"
proof -
  let ?k = "nat (i + 1 - lastIncludedIndex rf)"
  obtain rf' m where eq: "InstallSnapshot rf args = Inr (rf', \<lparr>isr_Term = is_Term args\<rparr>)"
    and fields: "lastIncludedIndex rf' = i" "lastIncludedTerm rf' = is_LastIncludedTerm args"
      "commitIndex rf' = max i (commitIndex rf)" "lastApplied rf' = i"
      "snapshot (persister rf') = is_Data args" "applyCh rf' = applyCh rf @ [m]"
      "SnapshotValid m" "SnapshotIndex m = i" "am_Snapshot m = is_Data args"
    and log': "log rf' = \<lparr>le_Term = 0, le_Command = None\<rparr> # drop ?k (log rf)"
    using assms by (auto simp: InstallSnapshot_eq Let_def)
  have len: "getLogLength rf' = max (i + 1) (getLogLength rf)"
    using assms(3) by (auto simp: getLogLength_def fields log')
  have "getLog rf' j = getLog rf j" if "i < j" "j < getLogLength rf" for j
  proof -
    have idx: "nat (j - i) = Suc (nat (j - i - 1))"
        "nat (j - lastIncludedIndex rf) = ?k + nat (j - i - 1)"
      using assms(3) that(1) by linarith+
    have "?k + nat (j - i - 1) < length (log rf)"
      using assms(3) that by (simp add: getLogLength_def)
    then show ?thesis
      using that assms(3) len by (simp add: getLog_def fields log' idx)
  qed
  then show ?thesis
    using eq fields len by blast
qed

theorem InstallSnapshot_installs_witness:
  "\<exists>rf'. InstallSnapshot ex_applied
       \<lparr>is_Term = 3, is_LeaderId = 1, is_LastIncludedIndex = 2, is_LastIncludedTerm = 3, is_Data = [4]\<rparr>
     = Inr (rf', \<lparr>isr_Term = 3\<rparr>) \<and> lastIncludedIndex rf' = 2 \<and> commitIndex rf' = 2"
  using InstallSnapshot_installs [of ex_applied
    "\<lparr>is_Term = 3, is_LeaderId = 1, is_LastIncludedIndex = 2, is_LastIncludedTerm = 3, is_Data = [4]\<rparr>" 2]
  by (auto simp: ex_applied_def ex_follower_def ex_peer_def blankRaft_def)

end
