(* ===== verification/RaftPeerSpec.thy ===== *)
theory RaftPeerSpec
  imports RaftPeer RaftRpcSpec
begin

text \<open>
  Properties of what a Raft peer does on its own: the entries a leader commits and the
  majority behind them, the requests it builds and what it makes of the replies, and the
  entries that reach the service.
\<close>

section \<open>Commitment\<close>

definition replicas :: "('c, 's) Raft \<Rightarrow> int \<Rightarrow> nat set" where
  "replicas rf i = {j. j < peers rf \<and> matchIndex rf ! j \<ge> i}"



text \<open>An index the leader may commit.\<close>

definition committable :: "('c, 's) Raft \<Rightarrow> int \<Rightarrow> int \<Rightarrow> bool" where
  "committable rf t i \<longleftrightarrow> termAt rf i = t \<and> majority (peers rf) (replicas rf i)"


lemma committable_frame [simp]:
  "committable (rf\<lparr>commitIndex := c, applyNotifyCh := ch\<rparr>) t i = committable rf t i"
  by (simp add: committable_def termAt_def replicas_def)



definition ex_leader :: "(nat, nat) Raft" where
  "ex_leader = ex_follower\<lparr>state := leaderState, currentTerm := 1, nextIndex := [3, 3, 1],
                           matchIndex := [2, 2, 0], leaderInitDone := True\<rparr>"

lemma ex_leader_facts:
  "raft_wf ex_leader" "state ex_leader = leaderState" "peers ex_leader = 3"
  "matchIndex ex_leader = [2, 2, 0]" "currentTerm ex_leader = 1" "commitIndex ex_leader = 0"
  "getLogLength ex_leader = 3" "termAt ex_leader 2 = 1" "lastIncludedIndex ex_leader = 0"
  by (simp_all add: ex_leader_def ex_follower_def ex_peer_def raft_wf_def blankRaft_def
      getLogLength_def termAt_def ex_entry_def)


section \<open>Applying entries\<close>

lemma applyLoop_send_eq:
  "applyLoop_send rf i es =
     rf\<lparr>applyCh := applyCh rf @ map (\<lambda>k. commandMsg (i + int k) (es ! k)) [0..<length es]\<rparr>"
proof (induction es arbitrary: rf i)
  case (Cons e es)
  have "[0..<length (e # es)] = 0 # map Suc [0..<length es]"
    by (simp add: map_Suc_upt upt_conv_Cons del: upt_Suc)
  then show ?case
    by (simp add: Cons comp_def algebra_simps del: upt_Suc)
qed simp

lemma applyLoop_take_work:
  assumes "raft_wf rf" and "commitIndex rf < getLogLength rf" and "lastApplied rf < commitIndex rf"
  shows "\<exists>es. applyLoop_take rf = Inr (rf\<lparr>applyNotifyCh := tl (applyNotifyCh rf)\<rparr>, Some (lastApplied rf + 1, es))
     \<and> length es = nat (commitIndex rf - lastApplied rf)
     \<and> (\<forall>k < length es. getLog rf (lastApplied rf + 1 + int k) = Inr (es ! k))"
proof -
  let ?rf1 = "rf\<lparr>applyNotifyCh := tl (applyNotifyCh rf)\<rparr>" and ?lii = "lastIncludedIndex rf"
  define es where "es = drop (nat (lastApplied rf + 1 - ?lii)) (take (nat (commitIndex rf + 1 - ?lii)) (log rf))"
  have wf: "?lii \<le> lastApplied rf" "commitIndex rf + 1 \<le> ?lii + int (length (log rf))"
    using assms by (auto simp: raft_wf_def getLogLength_def)
  have "getLogs ?rf1 (lastApplied rf + 1) (commitIndex rf + 1) = Inr es"
    using getLogs_eq [of ?rf1 "lastApplied rf + 1" "commitIndex rf + 1"] wf assms
    by (simp add: es_def getLogLength_def)
  moreover have len: "length es = nat (commitIndex rf - lastApplied rf)"
    using wf assms(3) unfolding es_def length_drop length_take by linarith
  moreover have "getLog rf (lastApplied rf + 1 + int k) = Inr (es ! k)" if "k < length es" for k
  proof -
    have "nat (lastApplied rf + 1 + int k - ?lii) = nat (lastApplied rf + 1 - ?lii) + k"
      using wf by simp
    then show ?thesis
      using that len wf assms(3) by (simp add: getLog_eq getLogLength_def es_def)
  qed
  ultimately show ?thesis
    using wf assms(3) by (intro exI [of _ es]) (simp add: applyLoop_take_def Let_def)
qed



text \<open>A snapshot that the leader installs while \<open>applyLoop\<close> is sending entries makes
  the peer skip entries: \<open>applyLoop\<close> adds the number of entries it sent to the applied
  index the snapshot has set, so as many entries after the snapshot count as applied
  that were never sent.\<close>

theorem applyLoop_races_InstallSnapshot:
  assumes "applyLoop_take rf = Inr (rf1, Some (i, es))"
    and "InstallSnapshot (applyLoop_send rf1 i es) args = Inr (rf2, r)"
    and "currentTerm rf1 \<le> is_Term args" and "lastIncludedIndex rf1 < is_LastIncludedIndex args"
    and "lastApplied rf1 < is_LastIncludedIndex args"
  shows "lastApplied (applyLoop_done rf2 (length es)) = is_LastIncludedIndex args + int (length es)
     \<and> 0 < length es \<and> length (applyCh rf2) = length (applyCh rf1) + length es + 1"
proof -
  have "0 < length es"
    using assms(1) by (auto simp: applyLoop_take_def getLogs_def slice_def Let_def split: if_splits)
  moreover have "lastApplied rf2 = is_LastIncludedIndex args"
      "length (applyCh rf2) = length (applyCh rf1) + length es + 1"
    using assms(2-5) by (auto simp: applyLoop_send_eq InstallSnapshot_eq Let_def split: if_splits)
  ultimately show ?thesis
    by (simp add: applyLoop_done_def)
qed

theorem applyLoop_races_InstallSnapshot_witness:
  "\<exists>rf1 i es rf2 r. applyLoop_take (ex_leader\<lparr>commitIndex := 2\<rparr>) = Inr (rf1, Some (i, es))
     \<and> InstallSnapshot (applyLoop_send rf1 i es)
         \<lparr>is_Term = 3, is_LeaderId = 1, is_LastIncludedIndex = 10, is_LastIncludedTerm = 3, is_Data = [4]\<rparr>
       = Inr (rf2, r)
     \<and> lastApplied (applyLoop_done rf2 (length es)) = 12"
proof -
  let ?rf = "ex_leader\<lparr>commitIndex := 2\<rparr>"
  let ?args = "\<lparr>is_Term = 3, is_LeaderId = 1, is_LastIncludedIndex = 10, is_LastIncludedTerm = 3, is_Data = [4]\<rparr>"
  have "raft_wf ?rf" "commitIndex ?rf < getLogLength ?rf" "lastApplied ?rf < commitIndex ?rf" "lastApplied ?rf = 0"
    by (simp_all add: ex_leader_def ex_follower_def ex_peer_def raft_wf_def blankRaft_def getLogLength_def)
  then obtain es where t: "applyLoop_take ?rf = Inr (?rf\<lparr>applyNotifyCh := tl (applyNotifyCh ?rf)\<rparr>, Some (1, es))"
      "length es = 2"
    using applyLoop_take_work [of ?rf] by auto
  let ?rf1 = "?rf\<lparr>applyNotifyCh := tl (applyNotifyCh ?rf)\<rparr>"
  have small: "currentTerm ?rf1 \<le> is_Term ?args" "lastIncludedIndex ?rf1 < is_LastIncludedIndex ?args"
      "lastApplied ?rf1 < is_LastIncludedIndex ?args"
    by (simp_all add: ex_leader_def ex_follower_def ex_peer_def blankRaft_def)
  obtain rf2 r where i: "InstallSnapshot (applyLoop_send ?rf1 1 es) ?args = Inr (rf2, r)"
    using small by (auto simp: InstallSnapshot_eq applyLoop_send_eq Let_def)
  show ?thesis
    using applyLoop_races_InstallSnapshot [OF t(1) i small] t i by auto
qed

section \<open>The requests of a leader\<close>













text \<open>\<open>Start\<close> on an initialised leader appends the command under the leader's term at
  the end of the log, returns that index, counts the leader itself as a replica and has
  the new log saved; on any other peer it changes nothing and answers that it is not the
  leader.\<close>

theorem Start_appends:
  assumes "raft_wf rf" and "me rf < length (matchIndex rf)" and "me rf < length (nextIndex rf)"
  shows "\<exists>rf' res. Start rf c = Inr (rf', res) \<and>
     (if state rf \<noteq> leaderState then rf' = rf \<and> res = Started (getLogLength rf - 1) (currentTerm rf) False
      else if leaderInitDone rf then
        res = Started (getLogLength rf) (currentTerm rf) True
        \<and> getLogLength rf' = getLogLength rf + 1
        \<and> getLog rf' (getLogLength rf) = Inr \<lparr>le_Term = currentTerm rf, le_Command = Some c\<rparr>
        \<and> (\<forall>i. lastIncludedIndex rf < i \<and> i < getLogLength rf \<longrightarrow> getLog rf' i = getLog rf i)
        \<and> matchIndex rf' ! me rf = getLogLength rf \<and> in_sync rf'
      else rf' = rf \<and> res = StartWaiting)"
  using assms
  by (auto simp: Start_def Let_def getLogLength_def getLog_def nth_append in_sync_def encodeState_def
      raft_wf_def)

theorem Start_appends_witness:
  "\<exists>rf' res. Start ex_leader 42 = Inr (rf', res) \<and> res = Started 3 1 True"
proof -
  have "me ex_leader = 0" "leaderInitDone ex_leader" "length (nextIndex ex_leader) = 3"
    by (simp_all add: ex_leader_def ex_follower_def ex_peer_def blankRaft_def)
  then show ?thesis
    using Start_appends [OF ex_leader_facts(1), of 42] by (auto simp: ex_leader_facts)
qed

end
