(* ===== verification/RaftCluster.thy ===== *)
theory RaftCluster
  imports RaftPeerSpec
begin

text \<open>
  A group of Raft peers as a step relation. Each rule is one critical section of the code
  of one peer, taken whole from the theories before, so that the goroutines of a peer
  interleave at their lock boundaries as they do in the program; in particular
  \<open>mainLoop\<close> reads the state in one section and runs \<open>doElection\<close> in a later one.
  Vote requests and replies are sets of messages that are sent once and may be delivered
  late, or never. All other requests and replies a peer handles may be any at all, which
  covers every behaviour of the network and of the other peers.

  The state of a group records for every running goroutine of \<open>sendRequestVoteToAll\<close>,
  named by its peer and term, its counter and the peers whose reply it has had (a call
  that returned is not repeated). \<open>started\<close> is a history variable.

  The argument \<open>careful\<close> adds the two guards under which election safety is proved:
  \<open>doElection\<close> does not run on a peer that has become leader since \<open>mainLoop\<close> read the
  state, and a peer restarts from a saved state that is current. The code is the relation
  without the guards.
\<close>

section \<open>Critical sections that concern one peer\<close>

inductive local_step :: "('c, 's) Raft \<Rightarrow> ('c, 's) Raft \<Rightarrow> bool" where
  ls_tick: "local_step rf (fst (followerMain_tick rf i))"
| ls_append: "AppendEntries rf args = Inr (rf', r) \<Longrightarrow> local_step rf rf'"
| ls_install: "InstallSnapshot rf args = Inr (rf', r) \<Longrightarrow> local_step rf rf'"
| ls_append_reply: "sendAppendEntries rf to args r = Inr (rf', next) \<Longrightarrow> local_step rf rf'"
| ls_install_reply: "sendInstallSnapshot rf to sargs ir = Inr (rf', next) \<Longrightarrow> local_step rf rf'"
| ls_heartbeat_reply: "heartbeatReply rf to args r = Inr rf' \<Longrightarrow> local_step rf rf'"
| ls_start: "Start rf command = Inr (rf', res) \<Longrightarrow> local_step rf rf'"
| ls_commit: "commitAt rf t i = Inr (rf', i') \<Longrightarrow> local_step rf rf'"
| ls_apply_take: "applyLoop_take rf = Inr (rf', work) \<Longrightarrow> local_step rf rf'"
| ls_apply_send: "local_step rf (applyLoop_send rf i es)"
| ls_apply_done: "local_step rf (applyLoop_done rf n)"
| ls_snapshot: "Snapshot rf i snap = Inr rf' \<Longrightarrow> local_step rf rf'"
| ls_kill: "local_step rf (Kill rf)"

section \<open>The group\<close>

datatype pc = AtLoop | AtTask main_task | Leading

record ('c, 's) cluster =
  srv :: "nat \<Rightarrow> ('c, 's) Raft"
  pcs :: "nat \<Rightarrow> pc"
  elections :: "(nat \<times> int) set"
  tally :: "nat \<times> int \<Rightarrow> nat"
  heard :: "nat \<times> int \<Rightarrow> nat set"
  vreqs :: "(nat \<times> RequestVoteArgs) set"
  vreps :: "((nat \<times> int) \<times> nat \<times> RequestVoteReply) set"
  started :: "(nat \<times> int) set"

definition init_cluster :: "nat \<Rightarrow> ('c, 's) cluster" where
  "init_cluster n =
     \<lparr>srv = (\<lambda>i. blankRaft n i MakePersister), pcs = (\<lambda>i. AtLoop), elections = {},
      tally = (\<lambda>e. 0), heard = (\<lambda>e. {}), vreqs = {}, vreps = {}, started = {}\<rparr>"

definition put :: "('c, 's) cluster \<Rightarrow> nat \<Rightarrow> ('c, 's) Raft \<Rightarrow> ('c, 's) cluster" where
  "put s i rf = s\<lparr>srv := (srv s)(i := rf)\<rparr>"

definition goto :: "('c, 's) cluster \<Rightarrow> nat \<Rightarrow> pc \<Rightarrow> ('c, 's) cluster" where
  "goto s i p = s\<lparr>pcs := (pcs s)(i := p)\<rparr>"

text \<open>\<open>doElection\<close> up to the goroutine it starts.\<close>

definition begin_election :: "('c, 's) cluster \<Rightarrow> nat \<Rightarrow> ('c, 's) cluster" where
  "begin_election s i =
     (let rf = doElection (srv s i); e = (i, currentTerm rf)
      in (goto (put s i rf) i AtLoop)
           \<lparr>elections := insert e (elections s), started := insert e (started s),
            tally := (tally s)(e := 1), heard := (heard s)(e := {})\<rparr>)"

definition count_vote :: "('c, 's) cluster \<Rightarrow> nat \<times> int \<Rightarrow> nat \<Rightarrow> RequestVoteReply \<Rightarrow> ('c, 's) cluster" where
  "count_vote s e j r =
     (let (rf, res) = sendRequestVoteToAll (srv s (fst e)) (snd e) (tally s e) r;
          s1 = (put s (fst e) rf)\<lparr>heard := (heard s)(e := insert j (heard s e))\<rparr>
      in case res of VoteBreak \<Rightarrow> s1\<lparr>elections := elections s - {e}\<rparr>
         | VoteNext votes \<Rightarrow> s1\<lparr>tally := (tally s)(e := votes)\<rparr>)"

definition restart :: "('c, 's) cluster \<Rightarrow> nat \<Rightarrow> ('c, 's) Raft \<Rightarrow> ('c, 's) cluster" where
  "restart s i rf =
     (goto (put s i rf) i AtLoop)\<lparr>elections := {e \<in> elections s. fst e \<noteq> i}\<rparr>"

inductive cstep :: "bool \<Rightarrow> nat \<Rightarrow> ('c, 's) cluster \<Rightarrow> ('c, 's) cluster \<Rightarrow> bool"
  for careful :: bool and n :: nat where
  cs_local: "i < n \<Longrightarrow> local_step (srv s i) rf \<Longrightarrow> cstep careful n s (put s i rf)"
| cs_loop: "i < n \<Longrightarrow> pcs s i = AtLoop \<Longrightarrow> mainLoop (srv s i) = Some task \<Longrightarrow>
     cstep careful n s (goto s i (AtTask task))"
| cs_timeout: "i < n \<Longrightarrow> pcs s i = AtTask FollowerMain \<Longrightarrow>
     cstep careful n s (goto (put s i (followerMain_timeout (srv s i))) i AtLoop)"
| cs_lead: "i < n \<Longrightarrow> pcs s i = AtTask LeaderMain \<Longrightarrow>
     cstep careful n s (goto (put s i (leaderMain (srv s i))) i Leading)"
| cs_unlead: "i < n \<Longrightarrow> pcs s i = Leading \<Longrightarrow> state (srv s i) \<noteq> leaderState \<Longrightarrow>
     cstep careful n s (goto s i AtLoop)"
| cs_elect: "i < n \<Longrightarrow> pcs s i = AtTask DoElection \<Longrightarrow>
     (careful \<longrightarrow> state (srv s i) \<noteq> leaderState) \<Longrightarrow>
     cstep careful n s (begin_election s i)"
| cs_ask: "(i, t) \<in> elections s \<Longrightarrow> j < n \<Longrightarrow> j \<noteq> i \<Longrightarrow> requestVoteArgs (srv s i) t = Inr args \<Longrightarrow>
     cstep careful n s (s\<lparr>vreqs := insert (j, args) (vreqs s)\<rparr>)"
| cs_vote: "(j, args) \<in> vreqs s \<Longrightarrow> RequestVote (srv s j) args = Inr (rf, r) \<Longrightarrow>
     cstep careful n s ((put s j rf)
       \<lparr>vreps := insert ((nat (CandidateId args), rv_Term args), j, r) (vreps s)\<rparr>)"
| cs_count: "e \<in> elections s \<Longrightarrow> (e, j, r) \<in> vreps s \<Longrightarrow> j \<notin> heard s e \<Longrightarrow>
     cstep careful n s (count_vote s e j r)"
| cs_restart: "i < n \<Longrightarrow> Make n i (persister (srv s i)) = Inr rf \<Longrightarrow>
     (careful \<longrightarrow> in_sync (srv s i)) \<Longrightarrow> cstep careful n s (restart s i rf)"

inductive reachable :: "bool \<Rightarrow> nat \<Rightarrow> ('c, 's) cluster \<Rightarrow> bool" for careful :: bool and n :: nat where
  r_init: "reachable careful n (init_cluster n)"
| r_step: "reachable careful n s \<Longrightarrow> cstep careful n s s' \<Longrightarrow> reachable careful n s'"

section \<open>Steps of one peer neither change a vote nor make a leader\<close>

definition quiet :: "('c, 's) Raft \<Rightarrow> ('c, 's) Raft \<Rightarrow> bool" where
  "quiet rf rf' \<longleftrightarrow> vote_le rf rf' \<and> peers rf' = peers rf \<and> me rf' = me rf
     \<and> (state rf' = leaderState \<longrightarrow> state rf = leaderState \<and> currentTerm rf' = currentTerm rf)"

lemma quiet_refl [simp]: "quiet rf rf"
  by (simp add: quiet_def)

lemma quiet_adoptTerm: "t > currentTerm rf \<Longrightarrow> quiet rf (adoptTerm rf t)"
  by (simp add: quiet_def vote_le_def)

lemma quiet_frame:
  "currentTerm rf' = currentTerm rf \<Longrightarrow> votedFor rf' = votedFor rf \<Longrightarrow> state rf' = state rf \<Longrightarrow>
   peers rf' = peers rf \<Longrightarrow> me rf' = me rf \<Longrightarrow> quiet rf rf'"
  by (simp add: quiet_def vote_le_def)

lemma quiet_trans: "quiet a b \<Longrightarrow> quiet b c \<Longrightarrow> quiet a c"
  by (auto simp: quiet_def dest: vote_le_trans)

lemma recordMatch_quiet: "recordMatch rf to n = Inr rf' \<Longrightarrow> quiet rf rf'"
  by (auto simp: recordMatch_def quiet_def vote_le_def split: if_splits)

lemma appendLoop_quiet: "appendLoop rf i es = Inr rf' \<Longrightarrow> quiet rf rf'"
proof (induction rf i es rule: appendLoop.induct)
  case (2 rf i e es)
  then show ?case
    by (auto split: if_splits simp: quiet_def vote_le_def)
qed simp

lemma acceptLeader_quiet: "quiet rf (acceptLeader rf t)"
  by (auto simp: quiet_def vote_le_def max_def dest: acceptLeader_state)

lemma AppendEntries_cases:
  assumes "AppendEntries rf args = Inr (rf', r)"
  obtains "rf' = acceptLeader rf (ae_Term args)"
  | "rf' = followCommit (acceptLeader rf (ae_Term args)) (LeaderCommit args)"
  | rf2 where "appendLoop (acceptLeader rf (ae_Term args)) (PrevLogIndex args + 1) (Entries args) = Inr rf2"
      and "rf' = followCommit (persist rf2) (LeaderCommit args)"
  using assms unfolding AppendEntries_def Let_def
  by (fastforce split: if_splits option.splits)

lemma AppendEntries_quiet: "AppendEntries rf args = Inr (rf', r) \<Longrightarrow> quiet rf rf'"
proof (erule AppendEntries_cases)
  fix rf2
  assume "appendLoop (acceptLeader rf (ae_Term args)) (PrevLogIndex args + 1) (Entries args) = Inr rf2"
    and rf': "rf' = followCommit (persist rf2) (LeaderCommit args)"
  then have "quiet rf rf2"
    using appendLoop_quiet acceptLeader_quiet quiet_trans by blast
  moreover have "quiet rf2 rf'"
    unfolding rf' by (rule quiet_frame) simp_all
  ultimately show "quiet rf rf'"
    by (rule quiet_trans)
next
  assume rf': "rf' = followCommit (acceptLeader rf (ae_Term args)) (LeaderCommit args)"
  have "quiet (acceptLeader rf (ae_Term args)) rf'"
    unfolding rf' by (rule quiet_frame) simp_all
  then show "quiet rf rf'"
    using acceptLeader_quiet quiet_trans by blast
qed (simp add: acceptLeader_quiet)

lemma InstallSnapshot_quiet: "InstallSnapshot rf args = Inr (rf', r) \<Longrightarrow> quiet rf rf'"
  by (auto simp: InstallSnapshot_def quiet_def vote_le_def saveSnapshot_eq Let_def split: if_splits)

lemma sendAppendEntries_quiet: "sendAppendEntries rf to args r = Inr (rf', next) \<Longrightarrow> quiet rf rf'"
  by (auto simp: sendAppendEntries_def Let_def split: if_splits
      intro: quiet_adoptTerm quiet_trans recordMatch_quiet quiet_frame)

lemma sendInstallSnapshot_quiet:
  "sendInstallSnapshot rf to args r = Inr (rf', next) \<Longrightarrow> quiet rf rf'"
  by (auto simp: sendInstallSnapshot_def Let_def split: if_splits intro: quiet_adoptTerm quiet_frame)

lemma heartbeatReply_quiet: "heartbeatReply rf to args r = Inr rf' \<Longrightarrow> quiet rf rf'"
  by (auto simp: heartbeatReply_def Let_def split: if_splits
      intro: quiet_adoptTerm quiet_trans recordMatch_quiet)

lemma local_step_quiet: "local_step rf rf' \<Longrightarrow> quiet rf rf'"
proof (induction rule: local_step.induct)
  case (ls_start rf command rf' res)
  then show ?case
    by (auto simp: Start_def Let_def split: if_splits intro: quiet_frame)
next
  case (ls_commit rf t i rf' i')
  then show ?case
    by (auto simp: commitAt_def split: if_splits intro: quiet_frame)
next
  case (ls_snapshot rf i snap rf')
  then show ?case
    by (auto simp: Snapshot_def saveSnapshot_eq split: if_splits intro: quiet_frame)
qed (auto simp: followerMain_tick_def applyLoop_take_def applyLoop_send_eq applyLoop_done_def Kill_def Let_def
    split: if_splits
    intro: quiet_frame AppendEntries_quiet InstallSnapshot_quiet sendAppendEntries_quiet
      sendInstallSnapshot_quiet heartbeatReply_quiet)

section \<open>The invariant\<close>

text \<open>Peer \<open>j\<close> has voted for \<open>i\<close> in term \<open>t\<close>: by a reply, or for itself.\<close>

definition voted :: "('c, 's) cluster \<Rightarrow> nat \<Rightarrow> int \<Rightarrow> nat \<Rightarrow> bool" where
  "voted s j t i \<longleftrightarrow>
     (\<exists>r. ((i, t), j, r) \<in> vreps s \<and> VoteGranted r) \<or> j = i \<and> (i, t) \<in> started s"

definition inv_ids :: "nat \<Rightarrow> ('c, 's) cluster \<Rightarrow> bool" where
  "inv_ids n s \<longleftrightarrow> (\<forall>i < n. peers (srv s i) = n \<and> me (srv s i) = i)
     \<and> (\<forall>(j, args) \<in> vreqs s. j < n \<and> CandidateId args \<ge> 0 \<and> CandidateId args \<noteq> int j)
     \<and> (\<forall>((i, t), j, r) \<in> vreps s. j < n \<and> j \<noteq> i)
     \<and> (\<forall>(i, t) \<in> started s. i < n) \<and> elections s \<subseteq> started s"

definition inv_votes :: "('c, 's) cluster \<Rightarrow> bool" where
  "inv_votes s \<longleftrightarrow>
     (\<forall>j t i. voted s j t i \<longrightarrow>
        t < currentTerm (srv s j) \<or> t = currentTerm (srv s j) \<and> votedFor (srv s j) = int i)
     \<and> (\<forall>j t i i'. voted s j t i \<and> voted s j t i' \<longrightarrow> i = i')"

definition inv_tally :: "nat \<Rightarrow> ('c, 's) cluster \<Rightarrow> bool" where
  "inv_tally n s \<longleftrightarrow>
     (\<forall>(i, t) \<in> elections s. \<exists>G. G \<subseteq> heard s (i, t) \<and> G \<subseteq> {..<n} - {i}
        \<and> tally s (i, t) = card G + 1 \<and> (\<forall>j \<in> G. voted s j t i))"

definition inv_leader :: "nat \<Rightarrow> ('c, 's) cluster \<Rightarrow> bool" where
  "inv_leader n s \<longleftrightarrow>
     (\<forall>i < n. state (srv s i) = leaderState \<longrightarrow>
        (\<exists>G. majority n G \<and> (\<forall>j \<in> G. voted s j (currentTerm (srv s i)) i)))"

definition cluster_inv :: "nat \<Rightarrow> ('c, 's) cluster \<Rightarrow> bool" where
  "cluster_inv n s \<longleftrightarrow> inv_ids n s \<and> inv_votes s \<and> inv_tally n s \<and> inv_leader n s"

lemmas inv_defs = cluster_inv_def inv_ids_def inv_votes_def inv_tally_def inv_leader_def

lemma cluster_fields [simp]:
  "srv (put s i rf) = (srv s)(i := rf)" "pcs (put s i rf) = pcs s" "elections (put s i rf) = elections s"
  "tally (put s i rf) = tally s" "heard (put s i rf) = heard s" "vreqs (put s i rf) = vreqs s"
  "vreps (put s i rf) = vreps s" "started (put s i rf) = started s"
  "srv (goto s i p) = srv s" "pcs (goto s i p) = (pcs s)(i := p)" "elections (goto s i p) = elections s"
  "tally (goto s i p) = tally s" "heard (goto s i p) = heard s" "vreqs (goto s i p) = vreqs s"
  "vreps (goto s i p) = vreps s" "started (goto s i p) = started s"
  "voted (put s i rf) = voted s" "voted (goto s i p) = voted s"
  by (auto simp: put_def goto_def voted_def fun_eq_iff)

lemma voted_update [simp]:
  "voted (s\<lparr>heard := h\<rparr>) = voted s" "voted (s\<lparr>tally := v\<rparr>) = voted s"
  "voted (s\<lparr>elections := E\<rparr>) = voted s" "voted (s\<lparr>vreqs := q\<rparr>) = voted s"
  by (auto simp: voted_def fun_eq_iff)

lemma inv_votesD:
  "inv_votes s \<Longrightarrow> voted s j t i \<Longrightarrow>
   t < currentTerm (srv s j) \<or> t = currentTerm (srv s j) \<and> votedFor (srv s j) = int i"
  by (simp add: inv_votes_def)

lemma inv_votes_once: "inv_votes s \<Longrightarrow> voted s j t i \<Longrightarrow> voted s j t i' \<Longrightarrow> i = i'"
  unfolding inv_votes_def by blast

lemma inv_votesI:
  assumes "\<And>j t i. voted s j t i \<Longrightarrow>
      t < currentTerm (srv s j) \<or> t = currentTerm (srv s j) \<and> votedFor (srv s j) = int i"
    and "\<And>j t i i'. voted s j t i \<Longrightarrow> voted s j t i' \<Longrightarrow> i = i'"
  shows "inv_votes s"
  unfolding inv_votes_def using assms by blast

lemma inv_tallyD:
  assumes "inv_tally n s" and "(i, t) \<in> elections s"
  obtains G where "G \<subseteq> heard s (i, t)" "G \<subseteq> {..<n} - {i}" "tally s (i, t) = card G + 1"
    "\<And>j. j \<in> G \<Longrightarrow> voted s j t i"
  using bspec [OF assms(1) [unfolded inv_tally_def] assms(2)] by (auto simp only: prod.case)

lemma inv_tallyI:
  assumes "\<And>i t. (i, t) \<in> elections s \<Longrightarrow> \<exists>G. G \<subseteq> heard s (i, t) \<and> G \<subseteq> {..<n} - {i}
      \<and> tally s (i, t) = card G + 1 \<and> (\<forall>j\<in>G. voted s j t i)"
  shows "inv_tally n s"
  unfolding inv_tally_def using assms by auto

lemma inv_ids_reply: "inv_ids n s \<Longrightarrow> ((i, t), j, r) \<in> vreps s \<Longrightarrow> j < n \<and> j \<noteq> i"
  unfolding inv_ids_def by fast

lemma inv_ids_started: "inv_ids n s \<Longrightarrow> (i, t) \<in> elections s \<Longrightarrow> (i, t) \<in> started s \<and> i < n"
  unfolding inv_ids_def by fast

lemma vote_leD:
  assumes "vote_le rf rf'"
    and "t < currentTerm rf \<or> t = currentTerm rf \<and> votedFor rf = int k"
  shows "t < currentTerm rf' \<or> t = currentTerm rf' \<and> votedFor rf' = int k"
proof (cases "currentTerm rf' = currentTerm rf")
  case True
  moreover have "int k \<noteq> -1" by simp
  ultimately show ?thesis
    using assms unfolding vote_le_def by metis
next
  case False
  then show ?thesis
    using assms unfolding vote_le_def by linarith
qed

lemma inv_goto [simp]: "cluster_inv n (goto s i p) = cluster_inv n s"
  by (simp add: inv_defs)

lemma inv_quiet:
  assumes "cluster_inv n s" and q: "quiet (srv s i) rf"
  shows "cluster_inv n (put s i rf)"
proof -
  have ids: "inv_ids n s" and votes: "inv_votes s" and tal: "inv_tally n s" and lead: "inv_leader n s"
    using assms(1) by (simp_all add: cluster_inv_def)
  have "inv_ids n (put s i rf)"
    using ids q by (simp add: inv_ids_def quiet_def)
  moreover have "inv_votes (put s i rf)"
  proof (rule inv_votesI)
    fix j t k assume "voted (put s i rf) j t k"
    then have "voted s j t k" by simp
    moreover have "vote_le (srv s j) (srv (put s i rf) j)"
      using q by (simp add: quiet_def)
    ultimately show "t < currentTerm (srv (put s i rf) j)
        \<or> t = currentTerm (srv (put s i rf) j) \<and> votedFor (srv (put s i rf) j) = int k"
      using vote_leD inv_votesD [OF votes] by blast
  next
    fix j t k k' assume "voted (put s i rf) j t k" and "voted (put s i rf) j t k'"
    then show "k = k'" using inv_votes_once [OF votes] by simp
  qed
  moreover have "inv_tally n (put s i rf)"
    using tal by (simp add: inv_tally_def)
  moreover have "inv_leader n (put s i rf)"
    using lead q by (simp add: inv_leader_def quiet_def)
  ultimately show ?thesis
    by (simp add: cluster_inv_def)
qed

lemma inv_init: "cluster_inv n (init_cluster n)"
  by (simp add: inv_defs init_cluster_def voted_def blankRaft_def)

lemma doElection_facts:
  "currentTerm (doElection rf) = currentTerm rf + 1" "votedFor (doElection rf) = int (me rf)"
  "peers (doElection rf) = peers rf" "me (doElection rf) = me rf" "state (doElection rf) = state rf"
  by (simp_all add: doElection_def)

lemma begin_election_fields:
  fixes s :: "('c, 's) cluster" and i :: nat
  defines "t' \<equiv> currentTerm (srv s i) + 1"
  shows "srv (begin_election s i) = (srv s)(i := doElection (srv s i))"
    "elections (begin_election s i) = insert (i, t') (elections s)"
    "tally (begin_election s i) = (tally s)((i, t') := 1)"
    "heard (begin_election s i) = (heard s)((i, t') := {})"
    "vreqs (begin_election s i) = vreqs s" "vreps (begin_election s i) = vreps s"
    "started (begin_election s i) = insert (i, t') (started s)"
    "voted (begin_election s i) j t k \<longleftrightarrow> voted s j t k \<or> j = i \<and> k = i \<and> t = t'"
  by (auto simp: begin_election_def doElection_facts Let_def voted_def t'_def)

lemma inv_elect:
  assumes "cluster_inv n s" and "i < n" and "state (srv s i) \<noteq> leaderState"
  shows "cluster_inv n (begin_election s i)"
proof -
  let ?s' = "begin_election s i"
  have ids: "inv_ids n s" and votes: "inv_votes s" and tal: "inv_tally n s" and lead: "inv_leader n s"
    using assms(1) by (simp_all add: cluster_inv_def)
  have me: "me (srv s i) = i"
    using ids assms(2) by (simp add: inv_ids_def)
  have old: "t \<le> currentTerm (srv s i)" if "voted s i t k" for t k
    using inv_votesD [OF votes that] by linarith
  note f = begin_election_fields doElection_facts
  have "inv_ids n ?s'"
    using ids assms(2) by (auto simp: inv_ids_def f)
  moreover have "inv_votes ?s'"
  proof (rule inv_votesI)
    fix j t k assume v: "voted ?s' j t k"
    show "t < currentTerm (srv ?s' j) \<or> t = currentTerm (srv ?s' j) \<and> votedFor (srv ?s' j) = int k"
    proof (cases "j = i")
      case True
      then show ?thesis using v old [of t k] by (auto simp: f me)
    next
      case False
      then show ?thesis using v inv_votesD [OF votes, of j t k] by (simp add: f)
    qed
  next
    fix j t k k' assume "voted ?s' j t k" and "voted ?s' j t k'"
    then show "k = k'"
      using inv_votes_once [OF votes, of j t k k'] old [of t k] old [of t k'] by (auto simp: f)
  qed
  moreover have "inv_tally n ?s'"
  proof (rule inv_tallyI)
    fix k t assume e: "(k, t) \<in> elections ?s'"
    show "\<exists>G. G \<subseteq> heard ?s' (k, t) \<and> G \<subseteq> {..<n} - {k} \<and> tally ?s' (k, t) = card G + 1
        \<and> (\<forall>j\<in>G. voted ?s' j t k)"
    proof (cases "(k, t) = (i, currentTerm (srv s i) + 1)")
      case True
      then show ?thesis by (intro exI [of _ "{}"]) (simp add: f)
    next
      case False
      then have "(k, t) \<in> elections s"
        using e unfolding f by blast
      from inv_tallyD [OF tal this] obtain G where G: "G \<subseteq> heard s (k, t)" "G \<subseteq> {..<n} - {k}"
          "tally s (k, t) = card G + 1" "\<And>j. j \<in> G \<Longrightarrow> voted s j t k"
        by metis
      moreover have "heard ?s' (k, t) = heard s (k, t)" "tally ?s' (k, t) = tally s (k, t)"
        by (simp_all only: f fun_upd_other [OF False])
      moreover have "\<forall>j\<in>G. voted ?s' j t k"
        using G(4) unfolding f by blast
      ultimately show ?thesis by metis
    qed
  qed
  moreover have "inv_leader n ?s'"
    unfolding inv_leader_def
  proof (intro allI impI)
    fix k assume "k < n" "state (srv ?s' k) = leaderState"
    then have "k \<noteq> i" "state (srv s k) = leaderState"
      using assms(3) by (auto simp: f split: if_splits)
    with lead \<open>k < n\<close> show "\<exists>G. majority n G \<and> (\<forall>j\<in>G. voted ?s' j (currentTerm (srv ?s' k)) k)"
      unfolding inv_leader_def by (auto simp: f)
  qed
  ultimately show ?thesis
    by (simp add: cluster_inv_def)
qed

lemma requestVoteArgs_facts:
  "requestVoteArgs rf t = Inr args \<Longrightarrow> rv_Term args = t \<and> CandidateId args = int (me rf)"
  by (auto simp: requestVoteArgs_def)

lemma inv_ask:
  assumes "cluster_inv n s" and "(i, t) \<in> elections s" and "j < n" and "j \<noteq> i"
    and "requestVoteArgs (srv s i) t = Inr args"
  shows "cluster_inv n (s\<lparr>vreqs := insert (j, args) (vreqs s)\<rparr>)"
proof -
  let ?s' = "s\<lparr>vreqs := insert (j, args) (vreqs s)\<rparr>"
  have ids: "inv_ids n s"
    using assms(1) by (simp add: cluster_inv_def)
  then have "i < n"
    using assms(2) unfolding inv_ids_def by blast
  then have "me (srv s i) = i"
    using ids by (simp add: inv_ids_def)
  then have "CandidateId args = int i"
    using requestVoteArgs_facts [OF assms(5)] by simp
  then have "inv_ids n ?s'"
    using ids assms(3,4) by (simp add: inv_ids_def)
  then show ?thesis
    using assms(1) by (simp add: cluster_inv_def inv_votes_def inv_tally_def inv_leader_def)
qed

lemma RequestVote_quiet: "RequestVote rf args = Inr (rf', r) \<Longrightarrow> quiet rf rf'"
  unfolding quiet_def
  by (rule conjI, erule RequestVote_vote_le) (auto simp: RequestVote_def Let_def split: if_splits)

lemma RequestVote_granted:
  assumes "RequestVote rf args = Inr (rf', r)" and "VoteGranted r"
  shows "currentTerm rf' = rv_Term args" "votedFor rf' = CandidateId args"
    "currentTerm rf \<le> rv_Term args"
    "currentTerm rf = rv_Term args \<Longrightarrow> votedFor rf = -1 \<or> votedFor rf = CandidateId args"
  using assms by (auto simp: RequestVote_def Let_def split: if_splits)

lemma inv_vote:
  assumes "cluster_inv n s" and "(j, args) \<in> vreqs s" and rv: "RequestVote (srv s j) args = Inr (rf, r)"
  shows "cluster_inv n ((put s j rf)
    \<lparr>vreps := insert ((nat (CandidateId args), rv_Term args), j, r) (vreps s)\<rparr>)"
proof -
  let ?i = "nat (CandidateId args)"
  let ?s1 = "put s j rf"
  let ?s' = "?s1\<lparr>vreps := insert ((?i, rv_Term args), j, r) (vreps s)\<rparr>"
  have inv1: "cluster_inv n ?s1"
    using inv_quiet [OF assms(1) RequestVote_quiet [OF rv]] .
  have votes: "inv_votes s" and votes1: "inv_votes ?s1"
    using assms(1) inv1 by (simp_all add: cluster_inv_def)
  have j: "j < n" "CandidateId args \<ge> 0" "CandidateId args \<noteq> int j"
    using assms(1,2) unfolding cluster_inv_def inv_ids_def by blast+
  then have i: "int ?i = CandidateId args" "?i \<noteq> j"
    by auto
  have voted: "voted ?s' k t i \<longleftrightarrow>
      voted s k t i \<or> VoteGranted r \<and> k = j \<and> t = rv_Term args \<and> i = ?i" for k t i
    by (auto simp: voted_def)
  have only: "i = ?i" if "VoteGranted r" "voted s j (rv_Term args) i" for i
    using RequestVote_granted(3,4) [OF rv that(1)] inv_votesD [OF votes that(2)] i(1) by auto
  have "inv_ids n ?s'"
    using inv1 j(1) i(2) by (simp add: cluster_inv_def inv_ids_def)
  moreover have "inv_votes ?s'"
  proof (rule inv_votesI)
    fix k t l assume v: "voted ?s' k t l"
    show "t < currentTerm (srv ?s' k) \<or> t = currentTerm (srv ?s' k) \<and> votedFor (srv ?s' k) = int l"
    proof (cases "voted s k t l")
      case True
      then show ?thesis using inv_votesD [OF votes1, of k t l] by simp
    next
      case False
      then show ?thesis
        using v RequestVote_granted(1,2) [OF rv] i(1) by (simp add: voted)
    qed
  next
    fix k t l l' assume "voted ?s' k t l" and "voted ?s' k t l'"
    then show "l = l'"
      using inv_votes_once [OF votes, of k t l l'] only unfolding voted by blast
  qed
  moreover have "inv_tally n ?s'"
  proof (rule inv_tallyI)
    fix k t assume "(k, t) \<in> elections ?s'"
    then have e: "(k, t) \<in> elections s" and tal: "inv_tally n s"
      using assms(1) by (simp_all add: cluster_inv_def)
    from inv_tallyD [OF tal e] obtain G where "G \<subseteq> heard s (k, t)" "G \<subseteq> {..<n} - {k}"
        "tally s (k, t) = card G + 1" "\<And>j. j \<in> G \<Longrightarrow> voted s j t k"
      by metis
    then show "\<exists>G. G \<subseteq> heard ?s' (k, t) \<and> G \<subseteq> {..<n} - {k} \<and> tally ?s' (k, t) = card G + 1
        \<and> (\<forall>j\<in>G. voted ?s' j t k)"
      by (intro exI [of _ G]) (simp add: voted)
  qed
  moreover have "inv_leader n ?s'"
    unfolding inv_leader_def
  proof (intro allI impI)
    fix k assume "k < n" "state (srv ?s' k) = leaderState"
    then obtain G where "majority n G" "\<forall>j\<in>G. voted ?s1 j (currentTerm (srv ?s1 k)) k"
      using inv1 unfolding cluster_inv_def inv_leader_def by auto
    then show "\<exists>G. majority n G \<and> (\<forall>j\<in>G. voted ?s' j (currentTerm (srv ?s' k)) k)"
      by (intro exI [of _ G]) (simp add: voted)
  qed
  ultimately show ?thesis
    by (simp add: cluster_inv_def)
qed

lemma inv_fewer_elections:
  assumes "cluster_inv n s" and "E \<subseteq> elections s" and "\<And>e. e \<in> E \<Longrightarrow> h e = heard s e"
  shows "cluster_inv n (s\<lparr>elections := E, heard := h\<rparr>)"
proof -
  have "inv_tally n (s\<lparr>elections := E, heard := h\<rparr>)" (is "inv_tally n ?s'")
  proof (rule inv_tallyI)
    fix k t assume "(k, t) \<in> elections ?s'"
    then have e: "(k, t) \<in> elections s" "heard ?s' (k, t) = heard s (k, t)" and tal: "inv_tally n s"
      using assms by (auto simp: cluster_inv_def)
    from inv_tallyD [OF tal e(1)] obtain G where "G \<subseteq> heard s (k, t)" "G \<subseteq> {..<n} - {k}"
        "tally s (k, t) = card G + 1" "\<And>j. j \<in> G \<Longrightarrow> voted s j t k"
      by metis
    then show "\<exists>G. G \<subseteq> heard ?s' (k, t) \<and> G \<subseteq> {..<n} - {k} \<and> tally ?s' (k, t) = card G + 1
        \<and> (\<forall>j\<in>G. voted ?s' j t k)"
      using e(2) by (intro exI [of _ G]) simp
  qed
  moreover have "inv_ids n ?s'"
    using assms(1,2) unfolding cluster_inv_def inv_ids_def by (simp add: subset_trans)
  ultimately show ?thesis
    using assms(1) unfolding cluster_inv_def inv_votes_def inv_leader_def by simp
qed

lemma sendRequestVoteToAll_cases:
  assumes "sendRequestVoteToAll rf t v r = (rf', res)"
  obtains (stop) "rf' = rf" "res = VoteBreak"
  | (follow) "res = VoteNext (if VoteGranted r then v + 1 else v)" "quiet rf rf'"
  | (win) "res = VoteNext (v + 1)" "VoteGranted r" "currentTerm rf \<le> t" "v + 1 > peers rf div 2"
      "rf' = rf\<lparr>state := leaderState, leaderInitDone := False\<rparr>"
proof (cases "currentTerm rf > t \<or> state rf \<noteq> candidateState")
  case True
  then show ?thesis using assms that(1) by (simp add: sendRequestVoteToAll_def)
next
  case False
  define rf1 where "rf1 = (if rvr_Term r > currentTerm rf then adoptTerm rf (rvr_Term r) else rf)"
  have quiet: "quiet rf rf1"
    by (simp add: rf1_def quiet_adoptTerm)
  show ?thesis
  proof (cases "VoteGranted r \<and> v + 1 > peers rf1 div 2 \<and> state rf1 = candidateState")
    case True
    then have "rf1 = rf" by (auto simp: rf1_def split: if_splits)
    then show ?thesis
      using True False assms that(3) by (simp add: sendRequestVoteToAll_def rf1_def)
  next
    case won: False
    then have "rf' = rf1" "res = VoteNext (if VoteGranted r then v + 1 else v)"
      using False assms unfolding sendRequestVoteToAll_def Let_def rf1_def [symmetric]
      by (auto split: if_splits)
    then show ?thesis using that(2) quiet by simp
  qed
qed

lemma inv_counted:
  assumes "cluster_inv n s" and rep: "((i, t), j, r) \<in> vreps s" and "j \<notin> heard s (i, t)"
  defines "v \<equiv> if VoteGranted r then tally s (i, t) + 1 else tally s (i, t)"
  shows "cluster_inv n (s\<lparr>heard := (heard s)((i, t) := insert j (heard s (i, t))),
    tally := (tally s)((i, t) := v)\<rparr>)" (is "cluster_inv n ?s'")
proof -
  have tal: "inv_tally n s" and ids: "inv_ids n s"
    using assms(1) by (simp_all add: cluster_inv_def)
  have j: "j < n" "j \<noteq> i"
    using inv_ids_reply [OF ids rep] by simp_all
  have "inv_tally n ?s'"
  proof (rule inv_tallyI)
    fix k u assume "(k, u) \<in> elections ?s'"
    then have "(k, u) \<in> elections s" by simp
    from inv_tallyD [OF tal this] obtain G where G: "G \<subseteq> heard s (k, u)" "G \<subseteq> {..<n} - {k}"
        "tally s (k, u) = card G + 1" "\<And>j. j \<in> G \<Longrightarrow> voted s j u k"
      by metis
    show "\<exists>G. G \<subseteq> heard ?s' (k, u) \<and> G \<subseteq> {..<n} - {k} \<and> tally ?s' (k, u) = card G + 1
        \<and> (\<forall>j\<in>G. voted ?s' j u k)"
    proof (cases "(k, u) = (i, t) \<and> VoteGranted r")
      case True
      have "finite G"
        using G(2) finite_subset [of G "{..<n}"] by auto
      moreover have "j \<notin> G"
        using G(1) True assms(3) by auto
      moreover have "voted s j t i"
        using True rep by (auto simp: voted_def)
      ultimately show ?thesis
        using G True j by (intro exI [of _ "insert j G"]) (auto simp: v_def)
    next
      case False
      then show ?thesis
        using G by (intro exI [of _ G]) (auto simp: v_def)
    qed
  qed
  moreover have "inv_ids n ?s'" "inv_votes ?s'" "inv_leader n ?s'"
    using assms(1) unfolding cluster_inv_def inv_ids_def inv_votes_def inv_leader_def by simp_all
  ultimately show ?thesis
    by (simp add: cluster_inv_def)
qed

lemma inv_promote:
  assumes "cluster_inv n s" and "i < n" and "majority n G"
    and "\<And>j. j \<in> G \<Longrightarrow> voted s j (currentTerm (srv s i)) i"
  shows "cluster_inv n (put s i ((srv s i)\<lparr>state := leaderState, leaderInitDone := False\<rparr>))"
    (is "cluster_inv n ?s'")
proof -
  have "inv_ids n ?s'" "inv_tally n ?s'"
    using assms(1) unfolding cluster_inv_def inv_ids_def inv_tally_def by simp_all
  moreover have "inv_votes ?s'"
    using assms(1) unfolding cluster_inv_def inv_votes_def by simp
  moreover have "inv_leader n ?s'"
    unfolding inv_leader_def
  proof (intro allI impI)
    fix k assume "k < n" "state (srv ?s' k) = leaderState"
    then show "\<exists>G. majority n G \<and> (\<forall>j\<in>G. voted ?s' j (currentTerm (srv ?s' k)) k)"
      using assms unfolding cluster_inv_def inv_leader_def by (cases "k = i") auto
  qed
  ultimately show ?thesis
    by (simp add: cluster_inv_def)
qed

lemma inv_count:
  assumes "cluster_inv n s" and "(i, t) \<in> elections s" and "((i, t), j, r) \<in> vreps s"
    and "j \<notin> heard s (i, t)"
  shows "cluster_inv n (count_vote s (i, t) j r)"
proof -
  have ids: "inv_ids n s" and votes: "inv_votes s"
    using assms(1) by (simp_all add: cluster_inv_def)
  have i: "i < n" and "(i, t) \<in> started s"
    using inv_ids_started [OF ids assms(2)] by simp_all
  then have own: "voted s i t i"
    by (simp add: voted_def)
  obtain rf res where sr: "sendRequestVoteToAll (srv s i) t (tally s (i, t)) r = (rf, res)"
    by fastforce
  let ?h = "(heard s)((i, t) := insert j (heard s (i, t)))"
  let ?c = "\<lambda>v. s\<lparr>heard := ?h, tally := (tally s)((i, t) := v)\<rparr>"
  have split: "count_vote s (i, t) j r = (case res of VoteBreak \<Rightarrow>
      (put s i rf)\<lparr>elections := elections s - {(i, t)}, heard := ?h\<rparr> | VoteNext v \<Rightarrow> put (?c v) i rf)"
    by (cases res) (simp_all add: count_vote_def sr put_def)
  note counted = inv_counted [OF assms(1,3,4)]
  show ?thesis
    using sr
  proof (cases rule: sendRequestVoteToAll_cases)
    case stop
    have "cluster_inv n (s\<lparr>elections := elections s - {(i, t)}, heard := ?h\<rparr>)"
      by (rule inv_fewer_elections [OF assms(1)]) auto
    then show ?thesis using stop by (simp add: split put_def)
  next
    case follow
    then show ?thesis using inv_quiet [OF counted, of i rf] by (simp add: split)
  next
    case win
    have "t = currentTerm (srv s i)"
      using inv_votesD [OF votes own] win(3) by linarith
    have "inv_tally n (?c (tally s (i, t) + 1))"
      using counted win(2) by (simp add: cluster_inv_def)
    then obtain G where G: "G \<subseteq> {..<n} - {i}" "tally s (i, t) + 1 = card G + 1"
        "\<And>j. j \<in> G \<Longrightarrow> voted (?c (tally s (i, t) + 1)) j t i"
      by (rule inv_tallyD [where i = i and t = t]) (use assms(2) in simp_all)
    then have "finite G" "i \<notin> G"
      using finite_subset [of G "{..<n}"] by auto
    then have "majority n (insert i G)"
      using G(1,2) win(4) i ids by (auto simp: majority_def inv_ids_def)
    moreover have "voted (?c (tally s (i, t) + 1)) k t i" if "k \<in> insert i G" for k
      using that G(3) own by auto
    ultimately show ?thesis
      using inv_promote [OF counted i, of "insert i G"] win \<open>t = _\<close> unfolding split by simp
  qed
qed

lemma inv_restart:
  assumes "cluster_inv n s" and "i < n" and "in_sync (srv s i)"
    and "Make n i (persister (srv s i)) = Inr rf"
  shows "cluster_inv n (restart s i rf)"
proof -
  have "quiet (srv s i) rf"
    using assms Make_in_sync [OF assms(3), of n i]
    by (auto simp: quiet_def vote_le_def blankRaft_def cluster_inv_def inv_ids_def)
  then have "cluster_inv n (put s i rf)"
    using inv_quiet assms(1) by blast
  then have "cluster_inv n ((put s i rf)\<lparr>elections := {e \<in> elections s. fst e \<noteq> i}, heard := heard s\<rparr>)"
    by (rule inv_fewer_elections) auto
  moreover have "restart s i rf =
      goto ((put s i rf)\<lparr>elections := {e \<in> elections s. fst e \<noteq> i}, heard := heard s\<rparr>) i AtLoop"
    by (simp add: restart_def goto_def put_def)
  ultimately show ?thesis
    by simp
qed

lemma inv_step:
  assumes "cstep True n s s'" and "cluster_inv n s"
  shows "cluster_inv n s'"
  using assms(1)
proof cases
  case (cs_local i rf)
  then show ?thesis using inv_quiet [OF assms(2) local_step_quiet] by simp
next
  case (cs_timeout i)
  moreover have "quiet (srv s i) (followerMain_timeout (srv s i))"
    by (simp add: quiet_def vote_le_def followerMain_timeout_def)
  ultimately show ?thesis using inv_quiet [OF assms(2)] by simp
next
  case (cs_lead i)
  moreover have "quiet (srv s i) (leaderMain (srv s i))"
    by (simp add: quiet_frame leaderMain_def)
  ultimately show ?thesis using inv_quiet [OF assms(2)] by simp
next
  case (cs_elect i)
  then show ?thesis using inv_elect [OF assms(2)] by simp
next
  case (cs_ask i t j args)
  then show ?thesis using inv_ask [OF assms(2)] by simp
next
  case (cs_vote j args rf r)
  then show ?thesis using inv_vote [OF assms(2)] by simp
next
  case (cs_count e j r)
  then show ?thesis using inv_count [OF assms(2), of "fst e" "snd e" j r] by simp
next
  case (cs_restart i rf)
  then show ?thesis using inv_restart [OF assms(2)] by simp
qed (use assms(2) in simp_all)

lemma reachable_inv: "reachable True n s \<Longrightarrow> cluster_inv n s"
  by (induction rule: reachable.induct) (simp_all add: inv_init inv_step)

lemma one_leader:
  assumes "cluster_inv n s" and "i < n" and "j < n"
    and "state (srv s i) = leaderState" and "state (srv s j) = leaderState"
    and "currentTerm (srv s i) = currentTerm (srv s j)"
  shows "i = j"
proof -
  have lead: "inv_leader n s" and votes: "inv_votes s"
    using assms(1) by (simp_all add: cluster_inv_def)
  let ?chose = "\<lambda>p. voted s p (currentTerm (srv s i))"
  obtain A where A: "majority n A" "\<forall>p\<in>A. ?chose p i"
    using lead assms(2,4) unfolding inv_leader_def by blast
  obtain B where B: "majority n B" "\<forall>p\<in>B. ?chose p j"
    using lead assms(3,5,6) unfolding inv_leader_def by metis
  show ?thesis
    using peers.single_choice [OF A(1) B(1), of ?chose i j] A(2) B(2) inv_votes_once [OF votes] by blast
qed

end
