(* ===== verification/RaftClusterSpec.thy ===== *)
theory RaftClusterSpec
  imports RaftCluster
begin

text \<open>
  Election safety: at most one leader per term, for the steps of the code with its two
  guards added, and a run of the code without them that elects two leaders in one term.
  The runs are built from the steps, one definition per state.
\<close>

section \<open>A run that elects peer 0\<close>

definition run1 :: "(nat, nat list) cluster" where
  "run1 = goto (init_cluster 3) 0 (AtTask FollowerMain)"

definition run2 :: "(nat, nat list) cluster" where
  "run2 = goto (put run1 0 (followerMain_timeout (srv run1 0))) 0 AtLoop"

definition run3 :: "(nat, nat list) cluster" where
  "run3 = goto run2 0 (AtTask DoElection)"

definition run4 :: "(nat, nat list) cluster" where
  "run4 = begin_election run3 0"

definition ask01 :: RequestVoteArgs where
  "ask01 = \<lparr>rv_Term = 1, CandidateId = 0, LastLogIndex = 0, LastLogTerm = 0\<rparr>"

definition run5 :: "(nat, nat list) cluster" where
  "run5 = run4\<lparr>vreqs := insert (1, ask01) (vreqs run4)\<rparr>"

definition voter :: "nat \<Rightarrow> RequestVoteArgs \<Rightarrow> (nat, nat list) Raft" where
  "voter i args = persist ((blankRaft 3 i MakePersister)
     \<lparr>currentTerm := rv_Term args, votedFor := CandidateId args, resetElectionTimer := True\<rparr>)"

definition granted :: "RequestVoteArgs \<Rightarrow> RequestVoteReply" where
  "granted args = \<lparr>rvr_Term = rv_Term args, VoteGranted = True\<rparr>"

lemma reach_run5: "reachable careful 3 run5"
proof -
  have 1: "reachable careful 3 run1"
    unfolding run1_def
    by (rule r_step [OF r_init cs_loop])
      (simp_all add: init_cluster_def mainLoop_def blankRaft_def killed_def)
  have 2: "reachable careful 3 run2"
    unfolding run2_def
    by (rule r_step [OF 1 cs_timeout]) (simp_all add: run1_def)
  have 3: "reachable careful 3 run3"
    unfolding run3_def
    by (rule r_step [OF 2 cs_loop])
      (simp_all add: run2_def mainLoop_def followerMain_timeout_def run1_def init_cluster_def
        blankRaft_def killed_def)
  have 4: "reachable careful 3 run4"
    unfolding run4_def
    by (rule r_step [OF 3 cs_elect])
      (simp_all add: run3_def run2_def followerMain_timeout_def)
  show ?thesis
    unfolding run5_def
    by (rule r_step [OF 4 cs_ask [of 0 1]])
      (simp_all add: run4_def run3_def run2_def run1_def init_cluster_def begin_election_fields
        doElection_def followerMain_timeout_def blankRaft_def requestVoteArgs_def ask01_def
        getLogLength_def getTermOfLog_def getLog_def nth_res_def)
qed

definition cand0 :: "(nat, nat list) Raft" where
  "cand0 = persist ((blankRaft 3 0 MakePersister)
     \<lparr>state := candidateState, currentTerm := 1, votedFor := 0\<rparr>)"

lemma run5_fields:
  "srv run5 = (\<lambda>i. blankRaft 3 i MakePersister)(0 := cand0)" "pcs run5 = (\<lambda>i. AtLoop)"
  "elections run5 = {(0, 1)}" "tally run5 = (\<lambda>e. 0)((0, 1) := 1)" "heard run5 = (\<lambda>e. {})"
  "vreqs run5 = {(1, ask01)}" "vreps run5 = {}"
  by (auto simp: run5_def run4_def begin_election_def Let_def run3_def run2_def run1_def
      init_cluster_def doElection_def followerMain_timeout_def blankRaft_def cand0_def fun_eq_iff)

text \<open>Peer 1 grants its vote, \<open>mainLoop\<close> of peer 0 reads its state, the vote is counted.\<close>

definition run6 :: "(nat, nat list) cluster" where
  "run6 = (put run5 1 (voter 1 ask01))
     \<lparr>vreps := insert ((nat (CandidateId ask01), rv_Term ask01), 1, granted ask01) (vreps run5)\<rparr>"

definition run7 :: "(nat, nat list) cluster" where
  "run7 = goto run6 0 (AtTask DoElection)"

definition run8 :: "(nat, nat list) cluster" where
  "run8 = count_vote run7 (0, 1) 1 (granted ask01)"

lemma voter_grants:
  assumes "rv_Term args > 0" and "CandidateId args \<ge> 0" and "LastLogIndex args = 0" and "LastLogTerm args = 0"
  shows "RequestVote (blankRaft 3 i MakePersister) args = Inr (voter i args, granted args)"
  using assms
  by (simp add: RequestVote_def blankRaft_def adoptTerm_def isNewerThanMe_def getLogLength_def
      getTermOfLog_def getLog_def nth_res_def voter_def granted_def persist_def
      SaveRaftState_def encodeState_def)

lemma reach_run8: "reachable careful 3 run8"
proof -
  have 6: "reachable careful 3 run6"
    unfolding run6_def
    by (rule r_step [OF reach_run5 cs_vote])
      (simp_all add: run5_fields voter_grants ask01_def)
  have 7: "reachable careful 3 run7"
    unfolding run7_def
    by (rule r_step [OF 6 cs_loop])
      (simp_all add: run6_def run5_fields mainLoop_def cand0_def killed_def blankRaft_def)
  show ?thesis
    unfolding run8_def
    by (rule r_step [OF 7 cs_count]) (simp_all add: run7_def run6_def run5_fields ask01_def)
qed

definition lead0 :: "(nat, nat list) Raft" where
  "lead0 = cand0\<lparr>state := leaderState, leaderInitDone := False\<rparr>"

lemma run8_fields:
  "srv run8 = (\<lambda>i. blankRaft 3 i MakePersister)(0 := lead0, 1 := voter 1 ask01)"
  "pcs run8 = (\<lambda>i. AtLoop)(0 := AtTask DoElection)"
  "elections run8 = {(0, 1)}" "tally run8 = (\<lambda>e. 0)((0, 1) := 2)"
  "heard run8 = (\<lambda>e. {})((0, 1) := {1})" "vreqs run8 = {(1, ask01)}"
  "vreps run8 = {((0, 1), 1, granted ask01)}"
proof -
  have r: "sendRequestVoteToAll cand0 1 (Suc 0) (granted ask01) = (lead0, VoteNext 2)"
    by (simp add: sendRequestVoteToAll_def cand0_def lead0_def granted_def ask01_def blankRaft_def)
  have "srv run7 0 = cand0" "tally run7 (0, 1) = 1"
    by (simp_all add: run7_def run6_def run5_fields)
  then have run8: "run8 = (put run7 0 lead0)\<lparr>heard := (heard run7)((0, 1) := insert 1 (heard run7 (0, 1))),
      tally := (tally run7)((0, 1) := 2)\<rparr>"
    unfolding run8_def count_vote_def by (simp add: r)
  have "vreps run6 = {((0, 1), 1, granted ask01)}"
    by (simp add: run6_def run5_fields) (simp add: ask01_def)
  then show "srv run8 = (\<lambda>i. blankRaft 3 i MakePersister)(0 := lead0, 1 := voter 1 ask01)"
    "pcs run8 = (\<lambda>i. AtLoop)(0 := AtTask DoElection)"
    "elections run8 = {(0, 1)}" "tally run8 = (\<lambda>e. 0)((0, 1) := 2)"
    "heard run8 = (\<lambda>e. {})((0, 1) := {1})" "vreqs run8 = {(1, ask01)}"
    "vreps run8 = {((0, 1), 1, granted ask01)}"
    unfolding run8 run7_def by (simp_all add: run6_def run5_fields fun_upd_twist)
qed

section \<open>At most one leader per term\<close>

text \<open>C1: Election safety. In every state that a group of peers can reach by the critical
  sections of the code, with messages lost, delayed and reordered, and peers that crash and
  restart, two leaders of the same term are the same peer. This is for runs in which
  \<open>doElection\<close> does not run on a peer that has meanwhile become leader, and peers restart
  from a saved state that is current.\<close>

theorem election_safety:
  assumes "reachable True n s" and "i < n" and "j < n"
    and "state (srv s i) = leaderState" and "state (srv s j) = leaderState"
    and "currentTerm (srv s i) = currentTerm (srv s j)"
  shows "i = j"
  by (rule one_leader [OF reachable_inv [OF assms(1)] assms(2-)])

theorem election_safety_witness:
  "reachable True 3 run8 \<and> state (srv run8 0) = leaderState
   \<and> {j. j < 3 \<and> state (srv run8 j) = leaderState
        \<and> currentTerm (srv run8 j) = currentTerm (srv run8 0)} = {0}"
proof -
  have "state (srv run8 0) = leaderState"
    by (simp add: run8_fields lead0_def)
  moreover from this have "j = 0" if "j < 3" "state (srv run8 j) = leaderState"
      "currentTerm (srv run8 j) = currentTerm (srv run8 0)" for j
    using election_safety [OF reach_run8 that(1), of 0] that(2,3) by simp
  ultimately show ?thesis
    using reach_run8 [of True] by auto
qed

section \<open>Two leaders in one term\<close>

text \<open>
  Peer 1, whose term is 1, times out, is a candidate of term 2 and gets the vote of peer 2.
  Then peer 0, leader of term 1, runs the \<open>doElection\<close> its \<open>mainLoop\<close> had chosen before
  the vote of peer 1 arrived, and is leader of term 2 without a vote.
\<close>

definition run9 :: "(nat, nat list) cluster" where
  "run9 = goto run8 1 (AtTask FollowerMain)"

definition run10 :: "(nat, nat list) cluster" where
  "run10 = goto (put run9 1 (followerMain_timeout (srv run9 1))) 1 AtLoop"

definition run11 :: "(nat, nat list) cluster" where
  "run11 = goto run10 1 (AtTask DoElection)"

definition run12 :: "(nat, nat list) cluster" where
  "run12 = begin_election run11 1"

definition ask12 :: RequestVoteArgs where
  "ask12 = \<lparr>rv_Term = 2, CandidateId = 1, LastLogIndex = 0, LastLogTerm = 0\<rparr>"

definition run13 :: "(nat, nat list) cluster" where
  "run13 = run12\<lparr>vreqs := insert (2, ask12) (vreqs run12)\<rparr>"

definition run14 :: "(nat, nat list) cluster" where
  "run14 = (put run13 2 (voter 2 ask12))
     \<lparr>vreps := insert ((nat (CandidateId ask12), rv_Term ask12), 2, granted ask12) (vreps run13)\<rparr>"

definition run15 :: "(nat, nat list) cluster" where
  "run15 = count_vote run14 (1, 2) 2 (granted ask12)"

definition run16 :: "(nat, nat list) cluster" where
  "run16 = begin_election run15 0"

lemma reach_run11: "reachable careful 3 run11"
proof -
  have 9: "reachable careful 3 run9"
    unfolding run9_def
    by (rule r_step [OF reach_run8 cs_loop])
      (simp_all add: run8_fields mainLoop_def voter_def blankRaft_def killed_def)
  have 10: "reachable careful 3 run10"
    unfolding run10_def
    by (rule r_step [OF 9 cs_timeout]) (simp_all add: run9_def)
  show ?thesis
    unfolding run11_def
    by (rule r_step [OF 10 cs_loop])
      (simp_all add: run10_def mainLoop_def followerMain_timeout_def run9_def run8_fields
        voter_def blankRaft_def killed_def)
qed

definition cand1 :: "(nat, nat list) Raft" where
  "cand1 = doElection (followerMain_timeout (voter 1 ask01))"

lemma run13_fields:
  "srv run13 = (\<lambda>i. blankRaft 3 i MakePersister)(0 := lead0, 1 := cand1)"
  "pcs run13 = (\<lambda>i. AtLoop)(0 := AtTask DoElection)"
  "elections run13 = {(1, 2), (0, 1)}" "tally run13 (Suc 0, 2) = 1" "heard run13 (Suc 0, 2) = {}"
  "vreqs run13 = {(2, ask12), (1, ask01)}"
  by (auto simp: run13_def run12_def begin_election_def Let_def run11_def run10_def run9_def run8_fields
      followerMain_timeout_def blankRaft_def cand1_def fun_eq_iff doElection_facts voter_def ask01_def)

lemma reach_run15: "reachable careful 3 run15"
proof -
  have 12: "reachable careful 3 run12"
    unfolding run12_def
    by (rule r_step [OF reach_run11 cs_elect])
      (simp_all add: run11_def run10_def followerMain_timeout_def)
  have "srv run12 1 = cand1" "(1, 2) \<in> elections run12"
    using run13_fields(1,3) by (simp_all add: run13_def)
  moreover have "requestVoteArgs cand1 2 = Inr ask12"
    by (simp add: cand1_def doElection_def followerMain_timeout_def voter_def blankRaft_def ask12_def
        requestVoteArgs_def getLogLength_def getTermOfLog_def getLog_def nth_res_def)
  ultimately have 13: "reachable careful 3 run13"
    unfolding run13_def
    by (intro r_step [OF 12 cs_ask [of 1 2]]) simp_all
  have 14: "reachable careful 3 run14"
    unfolding run14_def
    by (rule r_step [OF 13 cs_vote]) (simp_all add: run13_fields voter_grants ask12_def)
  show ?thesis
    unfolding run15_def
    by (rule r_step [OF 14 cs_count]) (simp_all add: run14_def run13_fields ask12_def)
qed

lemma run15_leaders:
  "srv run15 0 = lead0" "state (srv run15 (Suc 0)) = leaderState" "currentTerm (srv run15 (Suc 0)) = 2"
  "pcs run15 0 = AtTask DoElection"
proof -
  let ?lead1 = "cand1\<lparr>state := leaderState, leaderInitDone := False\<rparr>"
  have f: "state cand1 = candidateState" "currentTerm cand1 = 2" "peers cand1 = 3"
    by (simp_all add: cand1_def doElection_def followerMain_timeout_def voter_def blankRaft_def ask01_def)
  then have r: "sendRequestVoteToAll cand1 2 (Suc 0) (granted ask12) = (?lead1, VoteNext 2)"
    by (simp add: sendRequestVoteToAll_def granted_def ask12_def)
  have "srv run14 1 = cand1" "tally run14 (1, 2) = Suc 0"
    by (simp_all add: run14_def run13_fields)
  then have "srv run15 = (srv run14)(1 := ?lead1)" "pcs run15 = pcs run14"
    unfolding run15_def count_vote_def by (simp_all add: r)
  then show "srv run15 0 = lead0" "state (srv run15 (Suc 0)) = leaderState" "currentTerm (srv run15 (Suc 0)) = 2"
    "pcs run15 0 = AtTask DoElection"
    using f by (simp_all add: run14_def run13_fields)
qed

text \<open>C14: The critical sections of the code, with no crash and no lost message, can make two
  peers of three leaders of the same term: \<open>mainLoop\<close> reads the state in one critical section
  and \<open>doElection\<close> increments the term in a later one without looking at the state again, so
  a candidate that wins in between becomes leader of a term in which nobody voted for it.\<close>

theorem two_leaders_in_one_term:
  "\<exists>s :: (nat, nat list) cluster. reachable False 3 s
     \<and> state (srv s 0) = leaderState \<and> state (srv s 1) = leaderState
     \<and> currentTerm (srv s 0) = 2 \<and> currentTerm (srv s 1) = 2"
proof (intro exI conjI)
  show "reachable False 3 run16"
    unfolding run16_def by (rule r_step [OF reach_run15 cs_elect]) (simp_all add: run15_leaders)
qed (simp_all add: run16_def begin_election_fields doElection_facts run15_leaders lead0_def cand0_def)

end
