(* ===== verification/LabRpc.thy ===== *)
theory LabRpc
  imports Prelude "HOL-Library.Word"
begin

text \<open>
  The simulated network (\<open>labrpc/labrpc.go\<close>): client ends, servers with their services, and the
  goroutine \<open>processReq\<close> that carries one request.

  End names and server names are of the Go type \<open>interface{}\<close>, here the type \<open>'n\<close>. A \<open>*Server\<close> is
  its place in a list of servers, so that two servers with the same services are still different.
  What reflection gives of a method is the record \<open>Method\<close>; calling it is its field \<open>Func\<close>, a
  function of the receiver, the argument, the fresh reply and the state \<open>'w\<close> of the program behind
  the services. The encoding (\<open>labgob\<close>, which calls \<open>encoding/gob\<close>) is an argument \<open>codec\<close>.
  The values that \<open>rand\<close> returns are arguments of the operations that call it.
\<close>

section \<open>Messages, services and servers\<close>

type_synonym byte = "8 word"

text \<open>
  \<open>encode v\<close> is what the encoder has written, and whether there was no error; \<open>decode old bs\<close> is what
  is in the variable with value \<open>old\<close> after decoding into it, and whether there was no error.
\<close>

record ('t, 'v) codec =
  typeOf :: "'v \<Rightarrow> 't"
  zero_of :: "'t \<Rightarrow> 'v"
  encode :: "'v \<Rightarrow> byte list \<times> bool"
  decode :: "'v \<Rightarrow> byte list \<Rightarrow> 'v \<times> bool"

record ('n, 't) reqMsg =
  endname :: 'n
  svcMeth :: string
  argsType :: 't
  req_args :: "byte list"

record replyMsg =
  rep_ok :: bool
  rep_reply :: "byte list"

definition noReply :: replyMsg where
  "noReply = \<lparr>rep_ok = False, rep_reply = []\<rparr>"

record ('r, 't, 'v, 'w) Method =
  method_Name :: string
  PkgPath :: string
  NumIn :: nat
  In2_isPtr :: bool
  NumOut :: nat
  replyType :: 't
  Func :: "'r \<Rightarrow> 'v \<Rightarrow> 'v \<Rightarrow> 'w \<Rightarrow> 'w \<times> 'v"

record ('r, 't, 'v, 'w) Service =
  service_name :: string
  rcvr :: 'r
  methods :: "string \<rightharpoonup> ('r, 't, 'v, 'w) Method"

record ('r, 't, 'v, 'w) Server =
  services :: "string \<rightharpoonup> ('r, 't, 'v, 'w) Service"
  rpcs :: int

definition suitable :: "('r, 't, 'v, 'w) Method \<Rightarrow> bool" where
  "suitable method \<longleftrightarrow> \<not> (PkgPath method \<noteq> [] \<or> NumIn method \<noteq> 3 \<or> \<not> In2_isPtr method \<or> NumOut method \<noteq> 0)"

definition MakeService :: "string \<Rightarrow> ('r, 't, 'v, 'w) Method list \<Rightarrow> 'r \<Rightarrow> ('r, 't, 'v, 'w) Service" where
  "MakeService name ms r =
     \<lparr>service_name = name, rcvr = r,
      methods = foldl (\<lambda>m method. if suitable method then m(method_Name method \<mapsto> method) else m) Map.empty ms\<rparr>"

definition Service_dispatch ::
  "('t, 'v) codec \<Rightarrow> ('r, 't, 'v, 'w) Service \<Rightarrow> string \<Rightarrow> ('n, 't) reqMsg \<Rightarrow> 'w \<Rightarrow> ('w \<times> replyMsg) res" where
  "Service_dispatch codec svc methname req w =
     (case methods svc methname of
        Some method \<Rightarrow>
          let args = fst (decode codec (zero_of codec (argsType req)) (req_args req));
              (w', replyv) = Func method (rcvr svc) args (zero_of codec (replyType method)) w
          in Inr (w', \<lparr>rep_ok = True, rep_reply = fst (encode codec replyv)\<rparr>)
      | None \<Rightarrow> Inl Fatal)"

definition MakeServer :: "('r, 't, 'v, 'w) Server" where
  "MakeServer = \<lparr>services = Map.empty, rpcs = 0\<rparr>"

definition AddService :: "('r, 't, 'v, 'w) Server \<Rightarrow> ('r, 't, 'v, 'w) Service \<Rightarrow> ('r, 't, 'v, 'w) Server" where
  "AddService rs svc = rs\<lparr>services := (services rs)(service_name svc \<mapsto> svc)\<rparr>"

text \<open>\<open>strings.LastIndex(s, ".")\<close>, and the two slices around it: the first one panics without a dot.\<close>

fun lastDot :: "string \<Rightarrow> nat option" where
  "lastDot [] = None"
| "lastDot (c # cs) =
     (case lastDot cs of Some i \<Rightarrow> Some (Suc i) | None \<Rightarrow> if c = CHR ''.'' then Some 0 else None)"

definition splitMeth :: "string \<Rightarrow> (string \<times> string) res" where
  "splitMeth s = (case lastDot s of None \<Rightarrow> Inl IndexPanic | Some dot \<Rightarrow> Inr (take dot s, drop (dot + 1) s))"

definition Server_dispatch ::
  "('t, 'v) codec \<Rightarrow> ('r, 't, 'v, 'w) Server \<Rightarrow> ('n, 't) reqMsg \<Rightarrow> 'w \<Rightarrow>
   (('r, 't, 'v, 'w) Server \<times> 'w \<times> replyMsg) res" where
  "Server_dispatch codec rs req w =
     (let rs1 = rs\<lparr>rpcs := rpcs rs + 1\<rparr>
      in and_then (splitMeth (svcMeth req)) (\<lambda>(serviceName, methodName).
           case services rs1 serviceName of
             Some service \<Rightarrow> and_then (Service_dispatch codec service methodName req w) (\<lambda>(w', reply). Inr (rs1, w', reply))
           | None \<Rightarrow> Inl Fatal))"

definition Server_GetCount :: "('r, 't, 'v, 'w) Server \<Rightarrow> int" where
  "Server_GetCount rs = rpcs rs"

section \<open>The network\<close>

text \<open>
  A \<open>*Server\<close> in the map \<open>servers\<close> is \<open>None\<close> when it is nil, and so is a server name in
  \<open>connections\<close>. \<open>closed\<close> says that the channel \<open>done\<close> is closed. A \<open>ClientEnd\<close> is its name: its channels are those of
  the network.
\<close>

type_synonym pointer = nat

record 'n Network =
  reliable :: bool
  longDelays :: bool
  longReordering :: bool
  ends :: "'n set"
  enabled :: "'n \<rightharpoonup> bool"
  servers :: "'n \<rightharpoonup> pointer option"
  connections :: "'n \<rightharpoonup> 'n option"
  closed :: bool
  total_count :: "32 word"
  total_bytes :: "64 word"

definition MakeNetwork :: "'n Network" where
  "MakeNetwork = \<lparr>reliable = True, longDelays = False, longReordering = False, ends = {}, enabled = Map.empty,
     servers = Map.empty, connections = Map.empty, closed = False, total_count = 0, total_bytes = 0\<rparr>"

text \<open>One round of the goroutine that \<open>MakeNetwork\<close> starts: the request is counted.\<close>

definition accept :: "'n Network \<Rightarrow> ('n, 't) reqMsg \<Rightarrow> 'n Network" where
  "accept rn xreq = rn\<lparr>total_count := total_count rn + 1, total_bytes := total_bytes rn + of_nat (length (req_args xreq))\<rparr>"

definition Cleanup :: "'n Network \<Rightarrow> 'n Network res" where
  "Cleanup rn = (if closed rn then Inl ClosePanic else Inr (rn\<lparr>closed := True\<rparr>))"

definition Reliable :: "'n Network \<Rightarrow> bool \<Rightarrow> 'n Network" where
  "Reliable rn yes = rn\<lparr>reliable := yes\<rparr>"

definition LongReordering :: "'n Network \<Rightarrow> bool \<Rightarrow> 'n Network" where
  "LongReordering rn yes = rn\<lparr>longReordering := yes\<rparr>"

definition LongDelays :: "'n Network \<Rightarrow> bool \<Rightarrow> 'n Network" where
  "LongDelays rn yes = rn\<lparr>longDelays := yes\<rparr>"

definition isEnabled :: "'n Network \<Rightarrow> 'n \<Rightarrow> bool" where
  "isEnabled rn e = (case enabled rn e of None \<Rightarrow> False | Some b \<Rightarrow> b)"

definition serverOf :: "'n Network \<Rightarrow> 'n \<Rightarrow> pointer option" where
  "serverOf rn name = (case servers rn name of None \<Rightarrow> None | Some p \<Rightarrow> p)"

definition readEndnameInfo :: "'n Network \<Rightarrow> 'n \<Rightarrow> bool \<times> 'n option \<times> pointer option \<times> bool \<times> bool" where
  "readEndnameInfo rn e =
     (let servername = (case connections rn e of None \<Rightarrow> None | Some s \<Rightarrow> s);
          server = (case servername of None \<Rightarrow> None | Some s \<Rightarrow> serverOf rn s)
      in (isEnabled rn e, servername, server, reliable rn, longReordering rn))"

definition isServerDead :: "'n Network \<Rightarrow> 'n \<Rightarrow> 'n \<Rightarrow> pointer \<Rightarrow> bool" where
  "isServerDead rn e servername server =
     (if \<not> isEnabled rn e \<or> serverOf rn servername \<noteq> Some server then True else False)"

definition MakeEnd :: "'n Network \<Rightarrow> 'n \<Rightarrow> 'n Network res" where
  "MakeEnd rn e =
     (if e \<in> ends rn then Inl Fatal
      else Inr (rn\<lparr>ends := insert e (ends rn), enabled := (enabled rn)(e \<mapsto> False),
                   connections := (connections rn)(e \<mapsto> None)\<rparr>))"

definition AddServer :: "'n Network \<Rightarrow> 'n \<Rightarrow> pointer \<Rightarrow> 'n Network" where
  "AddServer rn servername rs = rn\<lparr>servers := (servers rn)(servername \<mapsto> Some rs)\<rparr>"

definition DeleteServer :: "'n Network \<Rightarrow> 'n \<Rightarrow> 'n Network" where
  "DeleteServer rn servername = rn\<lparr>servers := (servers rn)(servername \<mapsto> None)\<rparr>"

definition Connect :: "'n Network \<Rightarrow> 'n \<Rightarrow> 'n \<Rightarrow> 'n Network" where
  "Connect rn e servername = rn\<lparr>connections := (connections rn)(e \<mapsto> Some servername)\<rparr>"

definition Enable :: "'n Network \<Rightarrow> 'n \<Rightarrow> bool \<Rightarrow> 'n Network" where
  "Enable rn e yes = rn\<lparr>enabled := (enabled rn)(e \<mapsto> yes)\<rparr>"

definition GetCount :: "('r, 't, 'v, 'w) Server list \<Rightarrow> 'n Network \<Rightarrow> 'n \<Rightarrow> int res" where
  "GetCount heap rn servername =
     (case serverOf rn servername of None \<Rightarrow> Inl NilPanic
      | Some p \<Rightarrow> and_then (nth_res heap p) (\<lambda>svr. Inr (Server_GetCount svr)))"

definition GetTotalCount :: "'n Network \<Rightarrow> int" where
  "GetTotalCount rn = sint (total_count rn)"

definition GetTotalBytes :: "'n Network \<Rightarrow> int" where
  "GetTotalBytes rn = sint (total_bytes rn)"

section \<open>One request\<close>

text \<open>
  Where the goroutine of a request is. The sleeping and waiting points of \<open>processReq\<close> separate its
  steps: before it reads the connection, the short delay, the wait for the handler, after the wait,
  the timer of a late answer, and the end, when the answer is in the channel of the caller. Between
  them the goroutine keeps what it has read about the end: the server's name, the server, and
  the flags.
\<close>

record 'n route =
  servername :: 'n
  server :: pointer
  was_reliable :: bool
  longreordering :: bool

datatype 'n stage =
    Sent
  | Accepted "'n route"
  | Waiting "'n route"
  | Replied "'n route" replyMsg
  | GaveUp "'n route"
  | Late replyMsg
  | Answered replyMsg

definition processReq_read :: "'n Network \<Rightarrow> ('n, 't) reqMsg \<Rightarrow> 'n stage" where
  "processReq_read rn req =
     (case readEndnameInfo rn (endname req) of
        (en, Some sname, Some srv, rel, lr) \<Rightarrow>
          if en then Accepted \<lparr>servername = sname, server = srv, was_reliable = rel, longreordering = lr\<rparr>
          else Late noReply
      | _ \<Rightarrow> Late noReply)"

definition processReq_send :: "'n route \<Rightarrow> nat \<Rightarrow> 'n stage" where
  "processReq_send rt rand =
     (if \<not> was_reliable rt \<and> rand mod 1000 < 100 then Answered noReply else Waiting rt)"

text \<open>The timer of the wait; the other branch of the \<open>select\<close> is \<open>Replied\<close> with what the handler returned.\<close>

definition processReq_poll :: "'n Network \<Rightarrow> ('n, 't) reqMsg \<Rightarrow> 'n route \<Rightarrow> 'n stage" where
  "processReq_poll rn req rt =
     (if isServerDead rn (endname req) (servername rt) (server rt) then GaveUp rt else Waiting rt)"

definition addBytes :: "'n Network \<Rightarrow> replyMsg \<Rightarrow> 'n Network" where
  "addBytes rn reply = rn\<lparr>total_bytes := total_bytes rn + of_nat (length (rep_reply reply))\<rparr>"

definition processReq_finish ::
  "'n Network \<Rightarrow> ('n, 't) reqMsg \<Rightarrow> 'n route \<Rightarrow> replyMsg option \<Rightarrow> nat \<Rightarrow> nat \<Rightarrow> 'n Network \<times> 'n stage" where
  "processReq_finish rn req rt got rand1 rand2 =
     (let serverDead = isServerDead rn (endname req) (servername rt) (server rt)
      in case got of
           None \<Rightarrow> (rn, Answered noReply)
         | Some reply \<Rightarrow>
             if serverDead then (rn, Answered noReply)
             else if \<not> was_reliable rt \<and> rand1 mod 1000 < 100 then (rn, Answered noReply)
             else if longreordering rt \<and> rand2 mod 900 < 600 then (rn, Late reply)
             else (addBytes rn reply, Answered reply))"

text \<open>The function of the timer: it delivers the answer that was kept, which is empty for an end without a server.\<close>

definition processReq_late :: "'n Network \<Rightarrow> replyMsg \<Rightarrow> 'n Network \<times> 'n stage" where
  "processReq_late rn reply = (addBytes rn reply, Answered reply)"

section \<open>Calls\<close>

text \<open>\<open>ClientEnd.Call\<close> before it sends and after the answer.\<close>

definition Call_request :: "('t, 'v) codec \<Rightarrow> 'n \<Rightarrow> string \<Rightarrow> 'v \<Rightarrow> ('n, 't) reqMsg res" where
  "Call_request codec e meth args =
     (case encode codec args of
        (bs, True) \<Rightarrow> Inr \<lparr>endname = e, svcMeth = meth, argsType = typeOf codec args, req_args = bs\<rparr>
      | (_, False) \<Rightarrow> Inl ExplicitPanic)"

definition Call_return :: "('t, 'v) codec \<Rightarrow> 'v \<Rightarrow> replyMsg \<Rightarrow> (bool \<times> 'v) res" where
  "Call_return codec reply rep =
     (if rep_ok rep then
        (case decode codec reply (rep_reply rep) of
           (v, True) \<Rightarrow> Inr (True, v)
         | (_, False) \<Rightarrow> Inl Fatal)
      else Inr (False, reply))"

end
