(* ===== verification/RaftHarness.thy ===== *)
theory RaftHarness
  imports RaftRpc LabRpc
begin

text \<open>
  The test harness of Raft (\<open>raft/config.go\<close>): how it crashes, starts, connects and disconnects peers
  on the simulated network, and the checks it makes of what they apply.

  Names on the network are of Go type \<open>interface{}\<close>: end names are strings, server names numbers. While
  a peer runs, its persister is the field of its record; \<open>saved\<close> keeps it between a crash and the next
  start. The network server of a new peer is an argument of \<open>start1\<close>, and so are the random end names;
  the encoding of snapshots is the pair of arguments \<open>encS\<close> and \<open>decS\<close>. \<open>testing.T\<close>'s \<open>Fatal\<close> and
  \<open>log.Fatalf\<close> are both \<open>Fatal\<close>. The field \<open>applyErr\<close> is left out: it is only set after \<open>log.Fatalf\<close>.
  Time limits and printing are left out.
\<close>

section \<open>The configuration\<close>

datatype name = EndName string | ServerName nat

record ('c, 's) config =
  cfg_net :: "name Network"
  cfg_n :: nat
  rafts :: "('c, 's) Raft option list"
  connected :: "bool list"
  saved :: "('c, 's) Persister option list"
  endnames :: "string list option list"
  logs :: "(int \<rightharpoonup> 'c option) list"
  cfg_lastApplied :: "int list"
  maxIndex :: int
  finished :: bool
  rpcs0 :: int
  bytes0 :: int
  maxIndex0 :: int

definition setunreliable :: "('c, 's) config \<Rightarrow> bool \<Rightarrow> ('c, 's) config" where
  "setunreliable cfg unrel = cfg\<lparr>cfg_net := Reliable (cfg_net cfg) (\<not> unrel)\<rparr>"

definition setlongreordering :: "('c, 's) config \<Rightarrow> bool \<Rightarrow> ('c, 's) config" where
  "setlongreordering cfg longrel = cfg\<lparr>cfg_net := LongReordering (cfg_net cfg) longrel\<rparr>"

definition rpcTotal :: "('c, 's) config \<Rightarrow> int" where
  "rpcTotal cfg = GetTotalCount (cfg_net cfg)"

definition bytesTotal :: "('c, 's) config \<Rightarrow> int" where
  "bytesTotal cfg = GetTotalBytes (cfg_net cfg)"

text \<open>The configuration before the first peer is started.\<close>

definition empty_config :: "nat \<Rightarrow> bool \<Rightarrow> ('c, 's) config" where
  "empty_config n unreliable =
     (let cfg = setunreliable \<lparr>cfg_net = MakeNetwork, cfg_n = n, rafts = replicate n None, connected = replicate n False,
        saved = replicate n None, endnames = replicate n None, logs = replicate n Map.empty,
        cfg_lastApplied = replicate n 0, maxIndex = 0, finished = False, rpcs0 = 0, bytes0 = 0, maxIndex0 = 0\<rparr> unreliable
      in cfg\<lparr>cfg_net := LongDelays (cfg_net cfg) True\<rparr>)"

section \<open>Connections\<close>

definition endNameAt :: "('c, 's) config \<Rightarrow> nat \<Rightarrow> nat \<Rightarrow> string res" where
  "endNameAt cfg i j =
     and_then (nth_res (endnames cfg) i) (\<lambda>ns. case ns of None \<Rightarrow> Inl IndexPanic | Some names \<Rightarrow> nth_res names j)"

definition enableEnd :: "('c, 's) config \<Rightarrow> bool \<Rightarrow> name Network \<Rightarrow> nat \<times> nat \<Rightarrow> name Network res" where
  "enableEnd cfg yes rn ij = and_then (endNameAt cfg (fst ij) (snd ij)) (\<lambda>e. Inr (Enable rn (EndName e) yes))"

definition connect :: "('c, 's) config \<Rightarrow> nat \<Rightarrow> ('c, 's) config res" where
  "connect cfg i =
     and_then (set_res (connected cfg) i True) (\<lambda>conn.
       let js = filter (\<lambda>j. conn ! j) [0..<cfg_n cfg]
       in and_then (fold_res (enableEnd cfg True) (cfg_net cfg) (map (\<lambda>j. (i, j)) js)) (\<lambda>rn1.
          and_then (fold_res (enableEnd cfg True) rn1 (map (\<lambda>j. (j, i)) js)) (\<lambda>rn2.
            Inr (cfg\<lparr>connected := conn, cfg_net := rn2\<rparr>))))"

definition disconnect :: "('c, 's) config \<Rightarrow> nat \<Rightarrow> ('c, 's) config res" where
  "disconnect cfg i =
     and_then (set_res (connected cfg) i False) (\<lambda>conn.
       let has = (\<lambda>k. endnames cfg ! k \<noteq> None)
       in and_then (fold_res (enableEnd cfg False) (cfg_net cfg) (map (\<lambda>j. (i, j)) (filter (\<lambda>j. has i) [0..<cfg_n cfg]))) (\<lambda>rn1.
          and_then (fold_res (enableEnd cfg False) rn1 (map (\<lambda>j. (j, i)) (filter has [0..<cfg_n cfg]))) (\<lambda>rn2.
            Inr (cfg\<lparr>connected := conn, cfg_net := rn2\<rparr>))))"

section \<open>Crash and start\<close>

text \<open>The contents of the persister that \<open>saved[i]\<close> points to: a running peer shares it.\<close>

definition savedAt :: "('c, 's) config \<Rightarrow> nat \<Rightarrow> ('c, 's) Persister option" where
  "savedAt cfg i = (case rafts cfg ! i of Some rf \<Rightarrow> Some (persister rf) | None \<Rightarrow> saved cfg ! i)"

definition crash1 :: "('c, 's) config \<Rightarrow> nat \<Rightarrow> ('c, 's) config res" where
  "crash1 cfg i =
     and_then (disconnect cfg i) (\<lambda>cfg1.
       let cfg2 = cfg1\<lparr>cfg_net := DeleteServer (cfg_net cfg1) (ServerName i)\<rparr>;
           copy = map_option Copy (savedAt cfg2 i);
           again = map_option (\<lambda>ps. SaveStateAndSnapshot MakePersister (ReadRaftState ps) (ReadSnapshot ps)) copy
       in Inr (cfg2\<lparr>rafts := (rafts cfg2)[i := None], saved := (saved cfg2)[i := again]\<rparr>))"

text \<open>The result says whether there was an error: the index does not match. Index \<open>-1\<close> stands for any.\<close>

definition ingestSnap ::
  "('s list \<Rightarrow> (int \<times> 'c option list) option) \<Rightarrow> ('c, 's) config \<Rightarrow> nat \<Rightarrow> 's list \<Rightarrow> int \<Rightarrow> (('c, 's) config \<times> bool) res" where
  "ingestSnap decS cfg i snap index =
     (case (if snap = [] then None else decS snap) of
        None \<Rightarrow> Inl Fatal
      | Some (lastIncl, xlog) \<Rightarrow>
          if index \<noteq> -1 \<and> index \<noteq> lastIncl then Inr (cfg, True)
          else and_then (set_res (logs cfg) i (\<lambda>k. if 0 \<le> k \<and> nat k < length xlog then Some (xlog ! nat k) else None)) (\<lambda>ls.
               and_then (set_res (cfg_lastApplied cfg) i lastIncl) (\<lambda>las.
                 Inr (cfg\<lparr>logs := ls, cfg_lastApplied := las\<rparr>, False))))"

definition makeEnd :: "(nat \<Rightarrow> string) \<Rightarrow> name Network \<Rightarrow> nat \<Rightarrow> name Network res" where
  "makeEnd names rn j =
     and_then (MakeEnd rn (EndName (names j))) (\<lambda>rn1. Inr (Connect rn1 (EndName (names j)) (ServerName j)))"

text \<open>The copy of the saved persister for the new peer; a snapshot in it is read at once.\<close>

definition recoverSaved ::
  "('s list \<Rightarrow> (int \<times> 'c option list) option) \<Rightarrow> ('c, 's) config \<Rightarrow> nat \<Rightarrow> (('c, 's) config \<times> ('c, 's) Persister) res" where
  "recoverSaved decS cfg i =
     (case saved cfg ! i of
        Some old \<Rightarrow>
          let ps = Copy old
          in if ReadSnapshot ps \<noteq> []
             then and_then (ingestSnap decS cfg i (ReadSnapshot ps) (-1)) (\<lambda>(cfg1, err).
                    if err then Inl Fatal else Inr (cfg1, ps))
             else Inr (cfg, ps)
      | None \<Rightarrow> Inr (cfg, MakePersister))"

definition start1 ::
  "('s list \<Rightarrow> (int \<times> 'c option list) option) \<Rightarrow> ('c, 's) config \<Rightarrow> nat \<Rightarrow> (nat \<Rightarrow> string) \<Rightarrow> pointer \<Rightarrow> ('c, 's) config res" where
  "start1 decS cfg i names srv =
     and_then (crash1 cfg i) (\<lambda>cfg1.
     and_then (fold_res (makeEnd names) (cfg_net cfg1) [0..<cfg_n cfg1]) (\<lambda>rn.
       let cfg2 = cfg1\<lparr>endnames := (endnames cfg1)[i := Some (map names [0..<cfg_n cfg1])], cfg_net := rn,
                       cfg_lastApplied := (cfg_lastApplied cfg1)[i := 0]\<rparr>
       in and_then (recoverSaved decS cfg2 i) (\<lambda>(cfg3, ps).
          and_then (Make (cfg_n cfg3) i ps) (\<lambda>rf.
            Inr (cfg3\<lparr>saved := (saved cfg3)[i := Some ps], rafts := (rafts cfg3)[i := Some rf],
                      cfg_net := AddServer (cfg_net cfg3) (ServerName i) srv\<rparr>)))))"

text \<open>\<open>make_config\<close>: every peer is started with its end names and its server, then every peer is connected.\<close>

definition make_config ::
  "('s list \<Rightarrow> (int \<times> 'c option list) option) \<Rightarrow> nat \<Rightarrow> bool \<Rightarrow> (nat \<Rightarrow> nat \<Rightarrow> string) \<Rightarrow> (nat \<Rightarrow> pointer) \<Rightarrow> ('c, 's) config res" where
  "make_config decS n unreliable names srv =
     and_then (fold_res (\<lambda>cfg i. start1 decS cfg i (names i) (srv i)) (empty_config n unreliable) [0..<n]) (\<lambda>cfg.
       fold_res connect cfg [0..<n])"

definition config_cleanup :: "('c, 's) config \<Rightarrow> ('c, 's) config res" where
  "config_cleanup cfg =
     and_then (Cleanup (cfg_net cfg)) (\<lambda>rn.
       Inr (cfg\<lparr>finished := True, rafts := map (map_option Kill) (rafts cfg), cfg_net := rn\<rparr>))"

section \<open>Reading the apply channel\<close>

text \<open>The results: whether some server has another value at the index, and whether this server has the one before.\<close>

definition checkLogs :: "('c, 's) config \<Rightarrow> nat \<Rightarrow> ('c, 's) ApplyMsg \<Rightarrow> (('c, 's) config \<times> bool \<times> bool) res" where
  "checkLogs cfg i m =
     and_then (nth_res (logs cfg) i) (\<lambda>l.
       let v = Command m; k = CommandIndex m;
           err = list_ex (\<lambda>lj. case lj k of Some old \<Rightarrow> old \<noteq> v | None \<Rightarrow> False) (logs cfg);
           prevok = (l (k - 1) \<noteq> None)
       in Inr (cfg\<lparr>logs := (logs cfg)[i := l(k \<mapsto> v)], maxIndex := (if k > maxIndex cfg then k else maxIndex cfg)\<rparr>,
               err, prevok))"

definition applier :: "('c, 's) config \<Rightarrow> nat \<Rightarrow> ('c, 's) ApplyMsg \<Rightarrow> ('c, 's) config res" where
  "applier cfg i m =
     (if \<not> CommandValid m then Inr cfg
      else and_then (checkLogs cfg i m) (\<lambda>(cfg1, err, prevok).
             if (CommandIndex m > 1 \<and> \<not> prevok) \<or> err then Inl Fatal else Inr cfg1))"

definition SnapShotInterval :: int where
  "SnapShotInterval = 10"

definition snapshotNow ::
  "(int \<Rightarrow> 'c option list \<Rightarrow> 's list) \<Rightarrow> ('c, 's) config \<Rightarrow> nat \<Rightarrow> int \<Rightarrow> ('c, 's) config res" where
  "snapshotNow encS cfg i index =
     (case rafts cfg ! i of
        None \<Rightarrow> Inl NilPanic
      | Some rf \<Rightarrow>
          let xlog = map (\<lambda>j. case (logs cfg ! i) (int j) of Some v \<Rightarrow> v | None \<Rightarrow> None) [0..<nat (index + 1)]
          in and_then (Snapshot rf index (encS index xlog)) (\<lambda>rf1. Inr (cfg\<lparr>rafts := (rafts cfg)[i := Some rf1]\<rparr>)))"

definition applierSnap ::
  "(int \<Rightarrow> 'c option list \<Rightarrow> 's list) \<Rightarrow> ('s list \<Rightarrow> (int \<times> 'c option list) option) \<Rightarrow>
   ('c, 's) config \<Rightarrow> nat \<Rightarrow> ('c, 's) ApplyMsg \<Rightarrow> ('c, 's) config res" where
  "applierSnap encS decS cfg i m =
     and_then (nth_res (rafts cfg) i) (\<lambda>peer. case peer of
        None \<Rightarrow> Inr cfg
      | Some rf \<Rightarrow>
          if SnapshotValid m then
            if CondInstallSnapshot rf (SnapshotTerm m) (SnapshotIndex m) (am_Snapshot m)
            then and_then (ingestSnap decS cfg i (am_Snapshot m) (SnapshotIndex m)) (\<lambda>(cfg1, err).
                   if err then Inl Fatal else Inr cfg1)
            else Inr cfg
          else if CommandValid m then
            and_then (if CommandIndex m \<noteq> cfg_lastApplied cfg ! i + 1 then Inr (cfg, True)
                      else and_then (checkLogs cfg i m) (\<lambda>(cfg1, err, prevok).
                             Inr (cfg1, (CommandIndex m > 1 \<and> \<not> prevok) \<or> err))) (\<lambda>(cfg1, err).
              let cfg2 = cfg1\<lparr>cfg_lastApplied := (cfg_lastApplied cfg1)[i := CommandIndex m]\<rparr>
              in and_then (if (CommandIndex m + 1) mod SnapShotInterval = 0 then snapshotNow encS cfg2 i (CommandIndex m) else Inr cfg2)
                   (\<lambda>cfg3. if err then Inl Fatal else Inr cfg3))
          else Inr cfg)"

section \<open>Checks\<close>

text \<open>The connected peers with what \<open>GetState\<close> says of them; a peer that is connected and nil panics.\<close>

definition stateOf :: "('c, 's) config \<Rightarrow> nat \<Rightarrow> (nat \<times> int \<times> bool) res" where
  "stateOf cfg i = (case rafts cfg ! i of None \<Rightarrow> Inl NilPanic | Some rf \<Rightarrow> Inr (i, GetState rf))"

definition connectedStates :: "('c, 's) config \<Rightarrow> (nat \<times> int \<times> bool) list res" where
  "connectedStates cfg =
     fold_res (\<lambda>acc i. and_then (stateOf cfg i) (\<lambda>x. Inr (acc @ [x]))) [] (filter (\<lambda>i. connected cfg ! i) [0..<cfg_n cfg])"

text \<open>One round of \<open>checkOneLeader\<close>: the leaders by term, in a list instead of a map.\<close>

definition leadersIn :: "(nat \<times> int \<times> bool) list \<Rightarrow> int \<Rightarrow> nat list" where
  "leadersIn sts t = map fst (filter (\<lambda>(i, t', leader). leader \<and> t' = t) sts)"

definition leaderTerms :: "(nat \<times> int \<times> bool) list \<Rightarrow> int list" where
  "leaderTerms sts = map (\<lambda>(i, t, leader). t) (filter (\<lambda>(i, t, leader). leader) sts)"

definition oneLeaderRound :: "('c, 's) config \<Rightarrow> nat option res" where
  "oneLeaderRound cfg =
     and_then (connectedStates cfg) (\<lambda>sts.
       let terms = leaderTerms sts
       in if list_ex (\<lambda>t. length (leadersIn sts t) > 1) terms then Inl Fatal
          else if terms = [] then Inr None
          else let lastTermWithLeader = fold max terms (-1)
               in and_then (nth_res (leadersIn sts lastTermWithLeader) 0) (\<lambda>i. Inr (Some i)))"

text \<open>Ten rounds, on the configurations that they see.\<close>

fun checkOneLeader :: "('c, 's) config list \<Rightarrow> nat res" where
  "checkOneLeader [] = Inl Fatal"
| "checkOneLeader (cfg # later) =
     and_then (oneLeaderRound cfg) (\<lambda>r. case r of Some i \<Rightarrow> Inr i | None \<Rightarrow> checkOneLeader later)"

definition checkTerms :: "('c, 's) config \<Rightarrow> int res" where
  "checkTerms cfg =
     and_then (connectedStates cfg) (\<lambda>sts.
       fold_res (\<lambda>t (i, xterm, leader). if t = -1 then Inr xterm else if t \<noteq> xterm then Inl Fatal else Inr t) (-1) sts)"

definition checkNoLeader :: "('c, 's) config \<Rightarrow> unit res" where
  "checkNoLeader cfg =
     and_then (connectedStates cfg) (\<lambda>sts. if list_ex (\<lambda>(i, t, leader). leader) sts then Inl Fatal else Inr ())"

definition nCommitted :: "('c, 's) config \<Rightarrow> int \<Rightarrow> (nat \<times> 'c option) res" where
  "nCommitted cfg index =
     fold_res (\<lambda>(cnt, cmd) l.
       case l index of
         None \<Rightarrow> Inr (cnt, cmd)
       | Some cmd1 \<Rightarrow> if cnt > 0 \<and> cmd \<noteq> cmd1 then Inl Fatal else Inr (cnt + 1, cmd1)) (0, None) (logs cfg)"

text \<open>
  \<open>wait\<close> on the configurations that its rounds see, at most thirty, and the one at the end. \<open>None\<close> is
  the result \<open>-1\<close>: a peer is in a later term.
\<close>

fun waitLoop :: "('c, 's) config list \<Rightarrow> ('c, 's) config \<Rightarrow> int \<Rightarrow> nat \<Rightarrow> int \<Rightarrow> 'c option option res" where
  "waitLoop [] final index n startTerm =
     and_then (nCommitted final index) (\<lambda>(nd, cmd). if nd < n then Inl Fatal else Inr (Some cmd))"
| "waitLoop (cfg # later) final index n startTerm =
     and_then (nCommitted cfg index) (\<lambda>(nd, _).
       if nd \<ge> n then waitLoop [] final index n startTerm
       else if startTerm > -1 then
         and_then (fold_res (\<lambda>later_term i. if later_term then Inr True
             else and_then (stateOf cfg i) (\<lambda>(_, t, _). Inr (t > startTerm))) False [0..<length (rafts cfg)]) (\<lambda>moved_on.
           if moved_on then Inr None else waitLoop later final index n startTerm)
       else waitLoop later final index n startTerm)"

definition config_begin :: "('c, 's) config \<Rightarrow> ('c, 's) config" where
  "config_begin cfg = cfg\<lparr>rpcs0 := rpcTotal cfg, bytes0 := bytesTotal cfg, maxIndex0 := maxIndex cfg\<rparr>"

definition LogSize :: "('c gob list \<Rightarrow> nat) \<Rightarrow> ('c, 's) config \<Rightarrow> nat res" where
  "LogSize enc_len cfg =
     fold_res (\<lambda>logsize i. case savedAt cfg i of None \<Rightarrow> Inl NilPanic
       | Some ps \<Rightarrow> Inr (max logsize (RaftStateSize enc_len ps))) 0 [0..<cfg_n cfg]"

end
