(* ===== verification/RaftHarnessSpec.thy ===== *)
theory RaftHarnessSpec
  imports RaftHarness
begin

text \<open>
  What the Raft test harness does and checks: which ends of the network are enabled, that a restart
  begins from the state of the crashed peer, and exactly which sequences of applied commands its
  readers of the apply channels accept.
\<close>

section \<open>Enabled ends\<close>

text \<open>The part of the network that connections are about.\<close>

definition same_links :: "name Network \<Rightarrow> name Network \<Rightarrow> bool" where
  "same_links rn rn' \<longleftrightarrow> isEnabled rn' = isEnabled rn \<and> ends rn' = ends rn \<and> connections rn' = connections rn"

lemma same_links_refl [simp]: "same_links rn rn"
  by (simp add: same_links_def)

lemma same_links_simps [simp]:
  "same_links rn (Reliable rn b)" "same_links rn (LongReordering rn b)" "same_links rn (LongDelays rn b)"
  "same_links rn (DeleteServer rn x)" "same_links rn (AddServer rn x p)"
  by (auto simp: same_links_def isEnabled_def Reliable_def LongReordering_def LongDelays_def DeleteServer_def AddServer_def)

definition nameAt :: "string list option list \<Rightarrow> nat \<Rightarrow> nat \<Rightarrow> string \<Rightarrow> bool" where
  "nameAt eps i j e \<longleftrightarrow> (\<exists>ns. i < length eps \<and> eps ! i = Some ns \<and> j < length ns \<and> ns ! j = e)"

lemma endNameAt_iff: "endNameAt cfg i j = Inr e \<longleftrightarrow> nameAt (endnames cfg) i j e"
  by (auto simp: endNameAt_def nameAt_def nth_res_def split: option.splits)

text \<open>
  The invariant: names are used once and belong to ends that exist, lead from their row to their
  column, and exactly those between connected peers are enabled.
\<close>

definition links_ok :: "nat \<Rightarrow> name Network \<Rightarrow> bool list \<Rightarrow> string list option list \<Rightarrow> bool" where
  "links_ok n rn conn eps \<longleftrightarrow> length conn = n \<and> length eps = n
     \<and> (\<forall>i<n. \<forall>ns. eps ! i = Some ns \<longrightarrow> length ns = n) \<and> (\<forall>i<n. eps ! i = None \<longrightarrow> \<not> conn ! i)
     \<and> (\<forall>i j e. nameAt eps i j e \<longrightarrow> EndName e \<in> ends rn \<and> connections rn (EndName e) = Some (Some (ServerName j)))
     \<and> (\<forall>i j i' j' e. nameAt eps i j e \<longrightarrow> nameAt eps i' j' e \<longrightarrow> i' = i \<and> j' = j)
     \<and> (\<forall>x. isEnabled rn x \<longrightarrow> x \<in> ends rn)
     \<and> (\<forall>e. isEnabled rn (EndName e) \<longleftrightarrow> (\<exists>i j. nameAt eps i j e \<and> conn ! i \<and> conn ! j))"

lemma links_okD:
  assumes "links_ok n rn conn eps"
  shows "length conn = n" "length eps = n" "nameAt eps i j e \<Longrightarrow> i < n \<and> j < n"
    "nameAt eps i j e \<Longrightarrow> EndName e \<in> ends rn \<and> connections rn (EndName e) = Some (Some (ServerName j))"
    "nameAt eps i j e \<Longrightarrow> nameAt eps i' j' e \<Longrightarrow> i' = i \<and> j' = j"
    "isEnabled rn x \<Longrightarrow> x \<in> ends rn"
    "isEnabled rn (EndName e) \<longleftrightarrow> (\<exists>i j. nameAt eps i j e \<and> conn ! i \<and> conn ! j)"
    "i < n \<Longrightarrow> eps ! i = Some ns \<Longrightarrow> length ns = n" "i < n \<Longrightarrow> eps ! i = None \<Longrightarrow> \<not> conn ! i"
proof -
  show "nameAt eps i j e \<Longrightarrow> i < n \<and> j < n"
    using assms unfolding links_ok_def nameAt_def by metis
qed (use assms in \<open>unfold links_ok_def, blast+\<close>)

lemma links_ok_same: "links_ok n rn conn eps \<Longrightarrow> same_links rn rn' \<Longrightarrow> links_ok n rn' conn eps"
  by (simp add: links_ok_def same_links_def)

lemma enable_fold:
  assumes "fold_res (enableEnd cfg yes) rn ps = Inr rn'"
  shows "ends rn' = ends rn \<and> connections rn' = connections rn
    \<and> (\<forall>x. isEnabled rn' x = (if \<exists>p \<in> set ps. \<exists>e. x = EndName e \<and> nameAt (endnames cfg) (fst p) (snd p) e then yes else isEnabled rn x))
    \<and> (\<forall>p \<in> set ps. \<exists>e. nameAt (endnames cfg) (fst p) (snd p) e)"
  using assms
proof (induction ps arbitrary: rn)
  case (Cons p ps)
  then obtain e where e: "nameAt (endnames cfg) (fst p) (snd p) e"
    and r: "fold_res (enableEnd cfg yes) (Enable rn (EndName e) yes) ps = Inr rn'"
    unfolding fold_res.simps enableEnd_def [of cfg yes rn p] by (auto simp: endNameAt_iff)
  have u: "nameAt (endnames cfg) (fst p) (snd p) e' \<longleftrightarrow> e' = e" for e' using e by (auto simp: nameAt_def)
  show ?case
    using Cons.IH [OF r] u by (auto simp: Enable_def isEnabled_def)
qed simp

lemma connect_ok:
  assumes "connect cfg i = Inr cfg'" and ok: "links_ok n (cfg_net cfg) (connected cfg) (endnames cfg)" and "cfg_n cfg = n"
  shows "links_ok n (cfg_net cfg') (connected cfg') (endnames cfg') \<and> cfg_n cfg' = n"
proof -
  let ?conn = "(connected cfg)[i := True]"
  let ?js = "filter (\<lambda>j. ?conn ! j) [0..<n]"
  have i: "i < n" using assms(1) links_okD(1) [OF ok] by (auto simp: connect_def dest: set_res_InrD)
  obtain rn1 rn2 where f1: "fold_res (enableEnd cfg True) (cfg_net cfg) (map (\<lambda>j. (i, j)) ?js) = Inr rn1"
    and f2: "fold_res (enableEnd cfg True) rn1 (map (\<lambda>j. (j, i)) ?js) = Inr rn2"
    and cfg': "cfg' = cfg\<lparr>connected := ?conn, cfg_net := rn2\<rparr>"
    using assms(1,3) i links_okD(1) [OF ok] by (auto simp: connect_def Let_def)
  note e1 = enable_fold [OF f1] and e2 = enable_fold [OF f2]
  have c: "?conn ! j \<longleftrightarrow> j = i \<or> connected cfg ! j" if "j < n" for j
    using that i links_okD(1) [OF ok] by (simp add: nth_list_update)
  have "isEnabled rn2 (EndName e) \<longleftrightarrow> (\<exists>a b. nameAt (endnames cfg) a b e \<and> ?conn ! a \<and> ?conn ! b)" for e
  proof -
    have "isEnabled rn2 (EndName e) \<longleftrightarrow> (\<exists>j<n. ?conn ! j \<and> (nameAt (endnames cfg) i j e \<or> nameAt (endnames cfg) j i e))
        \<or> isEnabled (cfg_net cfg) (EndName e)"
      using e1 e2 by (auto simp: Bex_def)
    then show ?thesis
      using links_okD(3,7) [OF ok] c i by metis
  qed
  moreover have "x \<in> ends rn2" if "isEnabled rn2 x" for x
    using that e1 e2 links_okD(4,6) [OF ok] by (metis (no_types, lifting))
  moreover have "\<not> ?conn ! a" if "a < n" "endnames cfg ! a = None" for a
  proof -
    have "i \<in> set ?js" using i links_okD(1) [OF ok] by simp
    then have "\<exists>e. nameAt (endnames cfg) i i e" using e1 by auto
    then have "a \<noteq> i" using that by (auto simp: nameAt_def)
    then show ?thesis using that links_okD(9) [OF ok] by simp
  qed
  ultimately show ?thesis
    using ok assms(3) e1 e2 unfolding links_ok_def cfg' by simp
qed

lemma disconnect_ok:
  assumes "disconnect cfg i = Inr cfg'" and ok: "links_ok n (cfg_net cfg) (connected cfg) (endnames cfg)" and "cfg_n cfg = n"
  shows "links_ok n (cfg_net cfg') (connected cfg') (endnames cfg')"
    and "cfg' = cfg\<lparr>connected := (connected cfg)[i := False], cfg_net := cfg_net cfg'\<rparr>" and "i < n"
proof -
  let ?conn = "(connected cfg)[i := False]" and ?has = "\<lambda>k. endnames cfg ! k \<noteq> None"
  show i: "i < n" using assms(1) links_okD(1) [OF ok] by (auto simp: disconnect_def dest: set_res_InrD)
  obtain rn1 rn2 where f1: "fold_res (enableEnd cfg False) (cfg_net cfg) (map (\<lambda>j. (i, j)) (filter (\<lambda>j. ?has i) [0..<n])) = Inr rn1"
    and f2: "fold_res (enableEnd cfg False) rn1 (map (\<lambda>j. (j, i)) (filter ?has [0..<n])) = Inr rn2"
    and cfg': "cfg' = cfg\<lparr>connected := ?conn, cfg_net := rn2\<rparr>"
    using assms(1,3) i links_okD(1) [OF ok] by (auto simp: disconnect_def Let_def)
  show "cfg' = cfg\<lparr>connected := ?conn, cfg_net := cfg_net cfg'\<rparr>" by (simp add: cfg')
  note e1 = enable_fold [OF f1] and e2 = enable_fold [OF f2]
  have c: "?conn ! j \<longleftrightarrow> j \<noteq> i \<and> connected cfg ! j" if "j < n" for j
    using that i links_okD(1) [OF ok] by (simp add: nth_list_update)
  have h: "?has a" if "nameAt (endnames cfg) a b e" for a b e using that by (auto simp: nameAt_def)
  have "isEnabled rn2 (EndName e) \<longleftrightarrow> (\<exists>a b. nameAt (endnames cfg) a b e \<and> ?conn ! a \<and> ?conn ! b)" for e
  proof -
    have "(\<exists>p \<in> set (map (\<lambda>j. (i, j)) (filter (\<lambda>j. ?has i) [0..<n])). \<exists>e'. EndName e = EndName e' \<and> nameAt (endnames cfg) (fst p) (snd p) e')
        \<longleftrightarrow> (\<exists>j<n. nameAt (endnames cfg) i j e)"
      using h [of i] by (simp only: set_map set_filter bex_simps name.inject) force
    moreover have "(\<exists>p \<in> set (map (\<lambda>j. (j, i)) (filter ?has [0..<n])). \<exists>e'. EndName e = EndName e' \<and> nameAt (endnames cfg) (fst p) (snd p) e')
        \<longleftrightarrow> (\<exists>j<n. nameAt (endnames cfg) j i e)"
      using h [of _ i] by (simp only: set_map set_filter bex_simps name.inject) force
    ultimately have "isEnabled rn2 (EndName e) \<longleftrightarrow> \<not> (\<exists>j<n. nameAt (endnames cfg) i j e \<or> nameAt (endnames cfg) j i e)
        \<and> isEnabled (cfg_net cfg) (EndName e)"
      using e1 e2 by (simp split: if_split) blast
    then show ?thesis
      using links_okD(3,5,7) [OF ok] c i by metis
  qed
  moreover have "x \<in> ends rn2" if "isEnabled rn2 x" for x
    using that e1 e2 links_okD(6) [OF ok] by (metis (no_types, lifting))
  moreover have "\<not> ?conn ! a" if "a < n" "endnames cfg ! a = None" for a
    using that c links_okD(9) [OF ok] by simp
  ultimately show "links_ok n (cfg_net cfg') (connected cfg') (endnames cfg')"
    using ok e1 e2 unfolding links_ok_def cfg' by simp
qed

lemma crash1_ok:
  assumes "crash1 cfg i = Inr cfg'" and ok: "links_ok n (cfg_net cfg) (connected cfg) (endnames cfg)" and "cfg_n cfg = n"
  shows "links_ok n (cfg_net cfg') (connected cfg') (endnames cfg') \<and> cfg_n cfg' = n \<and> i < n \<and> \<not> connected cfg' ! i"
proof -
  obtain cfg1 where d: "disconnect cfg i = Inr cfg1" and net: "cfg_net cfg' = DeleteServer (cfg_net cfg1) (ServerName i)"
    and rest: "connected cfg' = connected cfg1" "endnames cfg' = endnames cfg1" "cfg_n cfg' = cfg_n cfg1"
    using assms(1) by (auto simp: crash1_def Let_def)
  have "links_ok n (cfg_net cfg') (connected cfg') (endnames cfg')"
    using links_ok_same [OF disconnect_ok(1) [OF d ok assms(3)]] net rest by simp
  moreover have cfg1: "cfg1 = cfg\<lparr>connected := (connected cfg)[i := False], cfg_net := cfg_net cfg1\<rparr>" and "i < n"
    using disconnect_ok(2,3) [OF d ok assms(3)] .
  moreover have "connected cfg1 = (connected cfg)[i := False]" "cfg_n cfg1 = cfg_n cfg"
    by (subst cfg1, simp)+
  then have "\<not> connected cfg1 ! i" "cfg_n cfg1 = cfg_n cfg"
    using \<open>i < n\<close> links_okD(1) [OF ok] by simp_all
  ultimately show ?thesis using rest assms(3) by simp
qed

definition made :: "(nat \<Rightarrow> string) \<Rightarrow> nat \<Rightarrow> name set" where
  "made names k = (\<lambda>j. EndName (names j)) ` {..<k}"

lemma makeEnd_fold:
  assumes "fold_res (makeEnd names) rn [0..<k] = Inr rn'"
  shows "inj_on names {..<k} \<and> ends rn \<inter> made names k = {} \<and> ends rn' = ends rn \<union> made names k
    \<and> (\<forall>x. isEnabled rn' x \<longleftrightarrow> x \<notin> made names k \<and> isEnabled rn x)
    \<and> (\<forall>j<k. connections rn' (EndName (names j)) = Some (Some (ServerName j)))
    \<and> (\<forall>x. x \<notin> made names k \<longrightarrow> connections rn' x = connections rn x)"
  using assms
proof (induction k arbitrary: rn')
  case (Suc k)
  then obtain rn1 where rn1: "fold_res (makeEnd names) rn [0..<k] = Inr rn1" and m: "makeEnd names rn1 k = Inr rn'"
    by (auto simp: fold_res_snoc)
  have fresh: "EndName (names k) \<notin> ends rn1"
    and rn': "ends rn' = insert (EndName (names k)) (ends rn1)" "enabled rn' = (enabled rn1)(EndName (names k) \<mapsto> False)"
      "connections rn' = (connections rn1)(EndName (names k) \<mapsto> Some (ServerName k))"
    using m by (auto simp: makeEnd_def MakeEnd_def Connect_def split: if_splits)
  have made: "made names (Suc k) = insert (EndName (names k)) (made names k)"
    by (auto simp: made_def lessThan_Suc)
  note IH = Suc.IH [OF rn1]
  then have new: "EndName (names k) \<notin> made names k" using fresh by auto
  then have "names k \<notin> names ` {..<k}" by (auto simp: made_def)
  then have "inj_on names {..<Suc k}" using IH by (simp add: lessThan_Suc inj_on_insert)
  moreover have "ends rn \<inter> made names (Suc k) = {}" "ends rn' = ends rn \<union> made names (Suc k)"
    using IH fresh made rn'(1) by auto
  moreover have "isEnabled rn' x \<longleftrightarrow> x \<notin> made names (Suc k) \<and> isEnabled rn x" for x
    using IH made rn'(2) by (auto simp: isEnabled_def)
  moreover have "connections rn' (EndName (names j)) = Some (Some (ServerName j))" if "j < Suc k" for j
  proof (cases "j = k")
    case False
    then have "j < k" using that by simp
    moreover from this have "names j \<noteq> names k" using \<open>names k \<notin> names ` {..<k}\<close> by (metis imageI lessThan_iff)
    ultimately show ?thesis using IH rn'(3) by simp
  qed (simp add: rn'(3))
  moreover have "connections rn' x = connections rn x" if "x \<notin> made names (Suc k)" for x
    using that IH made rn'(3) by simp
  ultimately show ?case by blast
qed (auto simp: made_def)

lemma links_renamed:
  assumes ok: "links_ok n rn conn eps" and i: "i < n" "\<not> conn ! i" and f: "fold_res (makeEnd names) rn [0..<n] = Inr rn'"
  shows "links_ok n rn' conn (eps[i := Some (map names [0..<n])])"
proof -
  let ?eps = "eps[i := Some (map names [0..<n])]"
  note m = makeEnd_fold [OF f]
  have len: "length eps = n" using links_okD(2) [OF ok] .
  have at: "nameAt ?eps a b e \<longleftrightarrow> (if a = i then b < n \<and> e = names b else nameAt eps a b e)" for a b e
    using i(1) len by (auto simp: nameAt_def)
  have old: "EndName e \<notin> made names n" if "nameAt eps a b e" for a b e
    using m links_okD(4) [OF ok that] by auto
  have new: "EndName (names b) \<in> made names n" if "b < n" for b using that by (simp add: made_def)
  have "EndName e \<in> ends rn' \<and> connections rn' (EndName e) = Some (Some (ServerName b))" if "nameAt ?eps a b e" for a b e
  proof (cases "a = i")
    case True
    then show ?thesis using that at [of a b e] m new by auto
  next
    case False
    then have "nameAt eps a b e" using that at by simp
    then show ?thesis using m links_okD(4) [OF ok] old by auto
  qed
  moreover have "a' = a \<and> b' = b" if "nameAt ?eps a b e" "nameAt ?eps a' b' e" for a b a' b' e
  proof (cases "a = i \<or> a' = i")
    case True
    then have "a = i \<and> a' = i" using that at old new by metis
    then have "b < n" "b' < n" "names b = names b'" using that at by auto
    then show ?thesis using m \<open>a = i \<and> a' = i\<close> by (auto dest: inj_onD)
  qed (use that at links_okD(5) [OF ok] in auto)
  moreover have "isEnabled rn' (EndName e) \<longleftrightarrow> (\<exists>a b. nameAt ?eps a b e \<and> conn ! a \<and> conn ! b)" for e
  proof -
    have "isEnabled rn' (EndName e) \<longleftrightarrow> EndName e \<notin> made names n \<and> (\<exists>a b. nameAt eps a b e \<and> conn ! a \<and> conn ! b)"
      using m links_okD(7) [OF ok] by blast
    then show ?thesis using at i(2) old by metis
  qed
  moreover have "x \<in> ends rn'" if "isEnabled rn' x" for x
    using that m links_okD(6) [OF ok] by blast
  moreover have "\<forall>a<n. \<forall>ns. ?eps ! a = Some ns \<longrightarrow> length ns = n" "\<forall>a<n. ?eps ! a = None \<longrightarrow> \<not> conn ! a"
    using links_okD(8,9) [OF ok] len i by (auto simp: nth_list_update)
  ultimately show ?thesis
    using links_okD(1) [OF ok] len unfolding links_ok_def length_list_update by (intro conjI allI impI) (assumption | blast)+
qed

lemma ingestSnap_frame:
  "ingestSnap decS cfg i snap index = Inr (cfg', err) \<Longrightarrow>
   cfg' = cfg\<lparr>logs := logs cfg', cfg_lastApplied := cfg_lastApplied cfg'\<rparr>"
  by (auto simp: ingestSnap_def split: option.splits if_splits)

text \<open>What \<open>start1\<close> does: a crash, new ends, and a peer made from a copy of the persister.\<close>

definition persisterFor :: "('c, 's) config \<Rightarrow> nat \<Rightarrow> ('c, 's) Persister" where
  "persisterFor cfg i = (case saved cfg ! i of None \<Rightarrow> MakePersister | Some old \<Rightarrow> Copy old)"

lemma recoverSaved_frame:
  assumes "recoverSaved decS cfg i = Inr (cfg', ps)"
  shows "ps = persisterFor cfg i \<and> cfg' = cfg\<lparr>logs := logs cfg', cfg_lastApplied := cfg_lastApplied cfg'\<rparr>"
  using assms
  by (auto simp: recoverSaved_def persisterFor_def Let_def split: option.splits if_splits dest: ingestSnap_frame)

lemma start1E:
  assumes "start1 decS cfg i names srv = Inr cfg'"
  obtains cfg1 rn rf where "crash1 cfg i = Inr cfg1" and "fold_res (makeEnd names) (cfg_net cfg1) [0..<cfg_n cfg1] = Inr rn"
    and "Make (cfg_n cfg1) i (persisterFor cfg1 i) = Inr rf"
    and "cfg' = cfg1\<lparr>endnames := (endnames cfg1)[i := Some (map names [0..<cfg_n cfg1])],
      cfg_net := AddServer rn (ServerName i) srv, rafts := (rafts cfg1)[i := Some rf],
      saved := (saved cfg1)[i := Some (persisterFor cfg1 i)], logs := logs cfg', cfg_lastApplied := cfg_lastApplied cfg'\<rparr>"
proof -
  let ?cfg2 = "\<lambda>cfg1 rn. cfg1\<lparr>endnames := (endnames cfg1)[i := Some (map names [0..<cfg_n cfg1])], cfg_net := rn,
      cfg_lastApplied := (cfg_lastApplied cfg1)[i := 0]\<rparr>"
  obtain cfg1 rn cfg3 ps rf where c: "crash1 cfg i = Inr cfg1" "fold_res (makeEnd names) (cfg_net cfg1) [0..<cfg_n cfg1] = Inr rn"
    and r: "recoverSaved decS (?cfg2 cfg1 rn) i = Inr (cfg3, ps)" and m: "Make (cfg_n cfg3) i ps = Inr rf"
    and cfg': "cfg' = cfg3\<lparr>saved := (saved cfg3)[i := Some ps], rafts := (rafts cfg3)[i := Some rf],
        cfg_net := AddServer (cfg_net cfg3) (ServerName i) srv\<rparr>"
    using assms by (auto simp: start1_def Let_def)
  have ps: "ps = persisterFor cfg1 i" and cfg3: "cfg3 = cfg1\<lparr>endnames := (endnames cfg1)[i := Some (map names [0..<cfg_n cfg1])],
      cfg_net := rn, logs := logs cfg3, cfg_lastApplied := cfg_lastApplied cfg3\<rparr>"
    using recoverSaved_frame [OF r] by (simp_all add: persisterFor_def)
  show ?thesis
  proof (rule that [OF c])
    show "Make (cfg_n cfg1) i (persisterFor cfg1 i) = Inr rf" using m ps by (subst (asm) cfg3) simp
    show "cfg' = cfg1\<lparr>endnames := (endnames cfg1)[i := Some (map names [0..<cfg_n cfg1])],
        cfg_net := AddServer rn (ServerName i) srv, rafts := (rafts cfg1)[i := Some rf],
        saved := (saved cfg1)[i := Some (persisterFor cfg1 i)], logs := logs cfg', cfg_lastApplied := cfg_lastApplied cfg'\<rparr>"
      unfolding cfg' ps by (subst (1 2 3 4 5 6) cfg3) simp
  qed
qed

lemma start1_ok:
  assumes "start1 decS cfg i names srv = Inr cfg'" and "links_ok n (cfg_net cfg) (connected cfg) (endnames cfg)" and "cfg_n cfg = n"
  shows "links_ok n (cfg_net cfg') (connected cfg') (endnames cfg') \<and> cfg_n cfg' = n"
  using assms(1)
proof (rule start1E)
  fix cfg1 rn rf
  assume c: "crash1 cfg i = Inr cfg1" and f: "fold_res (makeEnd names) (cfg_net cfg1) [0..<cfg_n cfg1] = Inr rn"
    and cfg': "cfg' = cfg1\<lparr>endnames := (endnames cfg1)[i := Some (map names [0..<cfg_n cfg1])],
      cfg_net := AddServer rn (ServerName i) srv, rafts := (rafts cfg1)[i := Some rf],
      saved := (saved cfg1)[i := Some (persisterFor cfg1 i)], logs := logs cfg', cfg_lastApplied := cfg_lastApplied cfg'\<rparr>"
  have "connected cfg' = connected cfg1" "cfg_n cfg' = cfg_n cfg1" "cfg_net cfg' = AddServer rn (ServerName i) srv"
    "endnames cfg' = (endnames cfg1)[i := Some (map names [0..<cfg_n cfg1])]"
    by (subst cfg', simp)+
  moreover note c1 = crash1_ok [OF c assms(2,3)]
  moreover from this have "links_ok n rn (connected cfg1) ((endnames cfg1)[i := Some (map names [0..<n])])"
    using links_renamed [of n "cfg_net cfg1" "connected cfg1" "endnames cfg1" i names rn] f by simp
  ultimately show ?thesis
    using links_ok_same same_links_simps(5) by metis
qed

section \<open>Runs of the harness\<close>

text \<open>
  What a test does to the network, at any time; in between the peers change, which is the last rule.
\<close>

inductive hstep :: "('s list \<Rightarrow> (int \<times> 'c option list) option) \<Rightarrow> ('c, 's) config \<Rightarrow> ('c, 's) config \<Rightarrow> bool" for decS where
  h_connect: "connect cfg i = Inr cfg' \<Longrightarrow> hstep decS cfg cfg'"
| h_disconnect: "disconnect cfg i = Inr cfg' \<Longrightarrow> hstep decS cfg cfg'"
| h_crash: "crash1 cfg i = Inr cfg' \<Longrightarrow> hstep decS cfg cfg'"
| h_start: "start1 decS cfg i names srv = Inr cfg' \<Longrightarrow> hstep decS cfg cfg'"
| h_unreliable: "hstep decS cfg (setunreliable cfg b)"
| h_reordering: "hstep decS cfg (setlongreordering cfg b)"
| h_apply: "applier cfg i m = Inr cfg' \<Longrightarrow> hstep decS cfg cfg'"
| h_peer: "i < length (rafts cfg) \<Longrightarrow> rafts cfg ! i = Some rf \<Longrightarrow> hstep decS cfg (cfg\<lparr>rafts := (rafts cfg)[i := Some rf']\<rparr>)"

definition linked_up :: "nat \<Rightarrow> ('c, 's) config \<Rightarrow> bool" where
  "linked_up n cfg \<longleftrightarrow> links_ok n (cfg_net cfg) (connected cfg) (endnames cfg) \<and> cfg_n cfg = n"

lemma hstep_ok:
  assumes "hstep decS cfg cfg'" and "linked_up n cfg"
  shows "linked_up n cfg'"
  using assms
proof induction
  case (h_connect cfg i cfg')
  then show ?case using connect_ok by (auto simp: linked_up_def)
next
  case (h_disconnect cfg i cfg')
  have "cfg_n cfg' = cfg_n cfg"
    using h_disconnect(1) by (auto simp: disconnect_def Let_def)
  then show ?case using h_disconnect disconnect_ok(1) [OF h_disconnect(1), of n] by (simp add: linked_up_def)
next
  case (h_crash cfg i cfg')
  then show ?case using crash1_ok [OF h_crash(1), of n] by (simp add: linked_up_def)
next
  case (h_start cfg i names srv cfg')
  then show ?case using start1_ok [OF h_start(1), of n] by (simp add: linked_up_def)
next
  case (h_apply cfg i m cfg')
  then have "cfg_net cfg' = cfg_net cfg" "connected cfg' = connected cfg" "endnames cfg' = endnames cfg" "cfg_n cfg' = cfg_n cfg"
    by (auto simp: applier_def checkLogs_def Let_def split: if_splits)
  then show ?case using h_apply(2) by (simp add: linked_up_def)
qed (auto simp: linked_up_def setunreliable_def setlongreordering_def intro: links_ok_same)

lemma fold_res_invariant:
  assumes "fold_res f a xs = Inr b" and "P a" and "\<And>a x b. f a x = Inr b \<Longrightarrow> P a \<Longrightarrow> P b"
  shows "P b"
  using assms(1,2) by (induction xs arbitrary: a) (auto dest: assms(3))

lemma make_config_ok:
  assumes "make_config decS n unreliable names srv = Inr cfg"
  shows "linked_up n cfg"
proof -
  have none: "\<not> nameAt (replicate n None) i j e" for i j e by (auto simp: nameAt_def)
  have e: "linked_up n (empty_config n unreliable)"
    by (auto simp: linked_up_def links_ok_def empty_config_def setunreliable_def Let_def isEnabled_def MakeNetwork_def
        Reliable_def LongDelays_def none)
  obtain cfg1 where s: "fold_res (\<lambda>cfg i. start1 decS cfg i (names i) (srv i)) (empty_config n unreliable) [0..<n] = Inr cfg1"
    and c: "fold_res connect cfg1 [0..<n] = Inr cfg"
    using assms by (auto simp: make_config_def)
  have "linked_up n cfg1"
    using fold_res_invariant [where P = "linked_up n", OF s e] hstep_ok [OF h_start] by blast
  then show ?thesis
    using fold_res_invariant [where P = "linked_up n", OF c] hstep_ok [OF h_connect] by blast
qed

text \<open>C34: After any sequence of starts, crashes, connections and disconnections, the messages of a peer can flow exactly
  between connected peers: an end is enabled if and only if it is an end of the present instance of a
  connected peer to a connected peer, and it leads to the peer whose column it has. In particular no end
  of a crashed instance is ever enabled again.\<close>

theorem harness_isolates:
  assumes "make_config decS n unreliable names srv = Inr cfg" and "(hstep decS)\<^sup>*\<^sup>* cfg cfg'"
  shows "(isEnabled (cfg_net cfg') (EndName e) \<longleftrightarrow>
      (\<exists>i j. endNameAt cfg' i j = Inr e \<and> connected cfg' ! i \<and> connected cfg' ! j))
    \<and> (endNameAt cfg' i j = Inr e \<longrightarrow> connections (cfg_net cfg') (EndName e) = Some (Some (ServerName j)))
    \<and> (endNameAt cfg' i j = Inr e \<longrightarrow> endNameAt cfg' i' j' = Inr e \<longrightarrow> i' = i \<and> j' = j)"
proof -
  have "linked_up n cfg'"
    using assms(2) by induction (use make_config_ok [OF assms(1)] hstep_ok in blast)+
  then have ok: "links_ok n (cfg_net cfg') (connected cfg') (endnames cfg')" by (simp add: linked_up_def)
  show ?thesis
    unfolding endNameAt_iff using links_okD(4,5,7) [OF ok] by (intro conjI) blast+
qed

text \<open>Two peers; an end is named after its peers.\<close>

definition pairName :: "nat \<Rightarrow> nat \<Rightarrow> string" where
  "pairName i j = [char_of (65 + i), char_of (65 + j)]"

definition noSnap :: "nat list \<Rightarrow> (int \<times> nat option list) option" where
  "noSnap s = None"

definition two_peers :: "(nat, nat) config res" where
  "two_peers = make_config noSnap 2 False pairName (\<lambda>i. i)"

definition cut_off :: "(nat, nat) config res" where
  "cut_off = and_then two_peers (\<lambda>cfg. disconnect cfg 1)"

lemma two_peers_eval:
  "case two_peers of Inr cfg \<Rightarrow> isEnabled (cfg_net cfg) (EndName ''AB'') | _ \<Rightarrow> False"
  "case cut_off of Inr cfg \<Rightarrow> endNameAt cfg 0 1 = Inr ''AB'' \<and> \<not> connected cfg ! 1 | _ \<Rightarrow> False"
  by code_simp+

theorem harness_isolates_witness:
  "\<exists>cfg cfg'. two_peers = Inr cfg \<and> isEnabled (cfg_net cfg) (EndName ''AB'') \<and> (hstep noSnap)\<^sup>*\<^sup>* cfg cfg'
    \<and> \<not> isEnabled (cfg_net cfg') (EndName ''AB'') \<and> connections (cfg_net cfg') (EndName ''AB'') = Some (Some (ServerName 1))"
proof -
  obtain cfg where t: "two_peers = Inr cfg" "isEnabled (cfg_net cfg) (EndName ''AB'')"
    using two_peers_eval(1) by (auto split: sum.splits)
  have "cut_off = disconnect cfg 1" by (simp only: cut_off_def t(1) and_then_simps)
  with two_peers_eval(2) t obtain cfg' where c: "two_peers = Inr cfg" "isEnabled (cfg_net cfg) (EndName ''AB'')"
    "disconnect cfg 1 = Inr cfg'" "endNameAt cfg' 0 1 = Inr ''AB''" "\<not> connected cfg' ! 1"
    by (auto split: sum.splits)
  then have s: "(hstep noSnap)\<^sup>*\<^sup>* cfg cfg'" by (intro r_into_rtranclp h_disconnect)
  note iso = harness_isolates [OF c(1) [unfolded two_peers_def] s]
  have "\<not> isEnabled (cfg_net cfg') (EndName ''AB'')" using iso [of "''AB''"] c(4,5) by blast
  moreover have "connections (cfg_net cfg') (EndName ''AB'') = Some (Some (ServerName 1))" using iso [of "''AB''" 0 1] c(4) by blast
  ultimately show ?thesis using c(1,2) s by blast
qed

section \<open>What the readers of the apply channels accept\<close>

definition compatible :: "('c, 's) ApplyMsg \<Rightarrow> ('c, 's) ApplyMsg \<Rightarrow> bool" where
  "compatible m m' \<longleftrightarrow> (CommandValid m \<and> CommandValid m' \<and> CommandIndex m = CommandIndex m' \<longrightarrow> Command m = Command m')"

definition follows :: "(nat \<times> ('c, 's) ApplyMsg) list \<Rightarrow> nat \<times> ('c, 's) ApplyMsg \<Rightarrow> bool" where
  "follows before x \<longleftrightarrow> (CommandValid (snd x) \<and> CommandIndex (snd x) > 1 \<longrightarrow>
     (\<exists>m. (fst x, m) \<in> set before \<and> CommandValid m \<and> CommandIndex m = CommandIndex (snd x) - 1))"

definition agreed :: "(nat \<times> ('c, 's) ApplyMsg) list \<Rightarrow> bool" where
  "agreed msgs \<longleftrightarrow> (\<forall>x \<in> set msgs. \<forall>y \<in> set msgs. compatible (snd x) (snd y))"

definition in_order :: "(nat \<times> ('c, 's) ApplyMsg) list \<Rightarrow> bool" where
  "in_order msgs \<longleftrightarrow> (\<forall>k<length msgs. follows (take k msgs) (msgs ! k))"

lemma agreed_snoc: "agreed (msgs @ [x]) \<longleftrightarrow> agreed msgs \<and> (\<forall>y \<in> set msgs. compatible (snd y) (snd x))"
  by (auto simp: agreed_def compatible_def)

lemma in_order_snoc: "in_order (msgs @ [x]) \<longleftrightarrow> in_order msgs \<and> follows msgs x"
  by (auto simp: in_order_def nth_append less_Suc_eq)

definition recorded :: "nat \<Rightarrow> ('c, 's) config \<Rightarrow> (nat \<times> ('c, 's) ApplyMsg) list \<Rightarrow> bool" where
  "recorded n cfg msgs \<longleftrightarrow> length (logs cfg) = n
     \<and> (\<forall>i<n. \<forall>k v. (logs cfg ! i) k = Some v \<longleftrightarrow> (\<exists>m. (i, m) \<in> set msgs \<and> CommandValid m \<and> CommandIndex m = k \<and> Command m = v))"

lemma applier_record:
  assumes r: "recorded n cfg msgs" and i: "i < n" "fst ` set msgs \<subseteq> {..<n}"
  shows "if (\<forall>y \<in> set msgs. compatible (snd y) m) \<and> follows msgs (i, m)
    then \<exists>cfg'. applier cfg i m = Inr cfg' \<and> recorded n cfg' (msgs @ [(i, m)]) else applier cfg i m = Inl Fatal"
proof (cases "CommandValid m")
  case False
  then show ?thesis
    using r by (auto simp: applier_def compatible_def follows_def recorded_def)
next
  case True
  let ?k = "CommandIndex m" and ?v = "Command m"
  have len: "length (logs cfg) = n"
    and at: "\<And>j k v. j < n \<Longrightarrow> (logs cfg ! j) k = Some v \<longleftrightarrow> (\<exists>m. (j, m) \<in> set msgs \<and> CommandValid m \<and> CommandIndex m = k \<and> Command m = v)"
    using r by (auto simp: recorded_def)
  let ?err = "list_ex (\<lambda>l. case l ?k of Some old \<Rightarrow> old \<noteq> ?v | None \<Rightarrow> False) (logs cfg)"
  have "?err \<longleftrightarrow> (\<exists>j<n. \<exists>v. (logs cfg ! j) ?k = Some v \<and> v \<noteq> ?v)"
    by (auto simp: list_ex_length len split: option.splits)
  also have "\<dots> \<longleftrightarrow> \<not> (\<forall>y \<in> set msgs. compatible (snd y) m)"
  proof
    assume "\<exists>j<n. \<exists>v. (logs cfg ! j) ?k = Some v \<and> v \<noteq> ?v"
    then obtain j v where "j < n" "(logs cfg ! j) ?k = Some v" "v \<noteq> ?v" by blast
    then obtain m' where "(j, m') \<in> set msgs" "CommandValid m'" "CommandIndex m' = ?k" "Command m' \<noteq> ?v"
      using at [of j ?k v] by auto
    then show "\<not> (\<forall>y \<in> set msgs. compatible (snd y) m)" using True by (force simp: compatible_def)
  next
    assume "\<not> (\<forall>y \<in> set msgs. compatible (snd y) m)"
    then obtain j m' where y: "(j, m') \<in> set msgs" "CommandValid m'" "CommandIndex m' = ?k" "Command m' \<noteq> ?v"
      using True by (auto simp: compatible_def)
    then have "j < n" using i(2) by force
    then have "(logs cfg ! j) ?k = Some (Command m')" using at [of j ?k "Command m'"] y by blast
    then show "\<exists>j<n. \<exists>v. (logs cfg ! j) ?k = Some v \<and> v \<noteq> ?v" using \<open>j < n\<close> y by blast
  qed
  finally have err: "?err \<longleftrightarrow> \<not> (\<forall>y \<in> set msgs. compatible (snd y) m)" .
  have prev: "(?k > 1 \<and> (logs cfg ! i) (?k - 1) = None) \<longleftrightarrow> \<not> follows msgs (i, m)"
    using at [OF i(1), of "?k - 1"] True by (auto simp: follows_def) (metis not_None_eq)+
  let ?cfg = "cfg\<lparr>logs := (logs cfg)[i := (logs cfg ! i)(?k \<mapsto> ?v)], maxIndex := (if ?k > maxIndex cfg then ?k else maxIndex cfg)\<rparr>"
  have a: "applier cfg i m = (if (?k > 1 \<and> (logs cfg ! i) (?k - 1) = None) \<or> ?err then Inl Fatal else Inr ?cfg)"
    using True i len by (simp add: applier_def checkLogs_def Let_def)
  show ?thesis
  proof (cases "(\<forall>y \<in> set msgs. compatible (snd y) m) \<and> follows msgs (i, m)")
    case ok: True
    have "(logs ?cfg ! j) k = Some v \<longleftrightarrow> (\<exists>m'. (j, m') \<in> set (msgs @ [(i, m)]) \<and> CommandValid m' \<and> CommandIndex m' = k \<and> Command m' = v)"
      if "j < n" for j k v
    proof (cases "j = i \<and> k = ?k")
      case same: True
      then show ?thesis
        using ok True i len by (fastforce simp: compatible_def)
    next
      case False
      then have "(logs ?cfg ! j) k = (logs cfg ! j) k" using that len by (cases "j = i") (auto simp: nth_list_update)
      then show ?thesis using at [OF that, of k v] False by auto
    qed
    then have "recorded n ?cfg (msgs @ [(i, m)])" using len by (simp add: recorded_def)
    then show ?thesis using ok a err prev by auto
  qed (use a err prev in auto)
qed

text \<open>C35: The readers of the apply channels accept a sequence of messages of the servers, in the order in which they
  read them, if and only if no two messages have different commands at one index and every server has
  applied the command before each command it applies; otherwise they stop the test.\<close>

theorem applier_decides:
  assumes "logs cfg = replicate n Map.empty" and "fst ` set msgs \<subseteq> {..<n}"
  shows "(\<exists>cfg'. fold_res (\<lambda>cfg (i, m). applier cfg i m) cfg msgs = Inr cfg') \<longleftrightarrow>
    (\<forall>x \<in> set msgs. \<forall>y \<in> set msgs. compatible (snd x) (snd y)) \<and> (\<forall>k<length msgs. follows (take k msgs) (msgs ! k))"
proof -
  have "if agreed msgs \<and> in_order msgs
      then \<exists>cfg'. fold_res (\<lambda>cfg (i, m). applier cfg i m) cfg msgs = Inr cfg' \<and> recorded n cfg' msgs
      else \<exists>e. fold_res (\<lambda>cfg (i, m). applier cfg i m) cfg msgs = Inl e"
    using assms(2)
  proof (induction msgs rule: rev_induct)
    case Nil
    show ?case using assms(1) by (auto simp: agreed_def in_order_def recorded_def)
  next
    case (snoc x msgs)
    obtain i m where x: "x = (i, m)" by (cases x)
    have i: "i < n" "fst ` set msgs \<subseteq> {..<n}" using snoc.prems x by auto
    note IH = snoc.IH [OF i(2)]
    show ?case
    proof (cases "agreed msgs \<and> in_order msgs")
      case True
      then obtain cfg1 where c: "fold_res (\<lambda>cfg (i, m). applier cfg i m) cfg msgs = Inr cfg1" "recorded n cfg1 msgs"
        using IH by auto
      show ?thesis
        using applier_record [OF c(2) i, of m] True c(1)
        by (auto simp: agreed_snoc in_order_snoc fold_res_snoc x split: if_splits)
    qed (use IH in \<open>auto simp: agreed_snoc in_order_snoc fold_res_snoc\<close>)
  qed
  then show ?thesis by (auto simp: agreed_def in_order_def split: if_splits)
qed

definition cmd :: "int \<Rightarrow> nat \<Rightarrow> (nat, nat) ApplyMsg" where
  "cmd k v = \<lparr>CommandValid = True, Command = Some v, CommandIndex = k, SnapshotValid = False, am_Snapshot = [], SnapshotTerm = 0, SnapshotIndex = 0\<rparr>"

theorem applier_decides_witness:
  "{ms. (\<exists>cfg'. fold_res (\<lambda>cfg (i, m). applier cfg i m) (empty_config 2 False) ms = Inr cfg')}
     \<inter> {[(0, cmd 1 5), (1, cmd 1 5), (1, cmd 2 6)], [(0, cmd 1 5), (1, cmd 1 6)], [(0, cmd 2 5)]} = {[(0, cmd 1 5), (1, cmd 1 5), (1, cmd 2 6)]}"
proof -
  have e: "logs (empty_config 2 False) = replicate 2 Map.empty"
    by (simp add: empty_config_def setunreliable_def Let_def)
  have "(\<exists>cfg'. fold_res (\<lambda>cfg (i, m). applier cfg i m) (empty_config 2 False) [(0, cmd 1 5), (1, cmd 1 5), (1, cmd 2 6)] = Inr cfg')"
    by (subst applier_decides [OF e]) (auto simp: compatible_def follows_def cmd_def less_Suc_eq)
  moreover have "\<not> (\<exists>cfg'. fold_res (\<lambda>cfg (i, m). applier cfg i m) (empty_config 2 False) [(0, cmd 1 5), (1, cmd 1 6)] = Inr cfg')"
    by (subst applier_decides [OF e]) (auto simp: compatible_def follows_def cmd_def)
  moreover have "\<not> (\<exists>cfg'. fold_res (\<lambda>cfg (i, m). applier cfg i m) (empty_config 2 False) [(0, cmd 2 5)] = Inr cfg')"
    by (subst applier_decides [OF e]) (auto simp: compatible_def follows_def cmd_def)
  ultimately show ?thesis by blast
qed

section \<open>Restarts\<close>

text \<open>C36: A peer that is crashed and started again by the harness begins with what its old instance had saved: when the saved
  state was current, the new instance is a follower with the same term, vote, log and snapshot point,
  and its persister has the contents of the old one.\<close>

theorem restart_roundtrip:
  assumes "start1 decS cfg i names srv = Inr cfg'" and "i < length (rafts cfg)" and "length (saved cfg) = length (rafts cfg)"
    and "rafts cfg ! i = Some rf" and "in_sync rf" and "raft_wf rf"
  shows "\<exists>rf'. rafts cfg' ! i = Some rf' \<and> state rf' = followerState \<and> persister rf' = persister rf \<and> in_sync rf'
    \<and> currentTerm rf' = currentTerm rf \<and> votedFor rf' = votedFor rf \<and> log rf' = log rf
    \<and> lastIncludedIndex rf' = lastIncludedIndex rf \<and> lastIncludedTerm rf' = lastIncludedTerm rf"
  using assms(1)
proof (rule start1E)
  fix cfg1 rn rf1
  assume c: "crash1 cfg i = Inr cfg1" and m: "Make (cfg_n cfg1) i (persisterFor cfg1 i) = Inr rf1"
    and cfg': "cfg' = cfg1\<lparr>endnames := (endnames cfg1)[i := Some (map names [0..<cfg_n cfg1])],
      cfg_net := AddServer rn (ServerName i) srv, rafts := (rafts cfg1)[i := Some rf1],
      saved := (saved cfg1)[i := Some (persisterFor cfg1 i)], logs := logs cfg', cfg_lastApplied := cfg_lastApplied cfg'\<rparr>"
  have "saved cfg1 ! i = Some (persister rf)" "length (rafts cfg1) = length (rafts cfg)"
    using c assms(2-4) by (auto simp: crash1_def disconnect_def savedAt_def Let_def persister_defs)
  then have "persisterFor cfg1 i = persister rf" by (simp add: persisterFor_def persister_defs)
  with m have "Make (cfg_n cfg1) i (persister rf) = Inr rf1" by simp
  moreover have "rafts cfg' ! i = Some rf1"
    using assms(2) \<open>length (rafts cfg1) = length (rafts cfg)\<close> by (subst cfg') simp
  ultimately show ?thesis
    using assms(5,6) by (auto simp: Make_in_sync blankRaft_def in_sync_def encodeState_def raft_wf_def)
qed

definition voted :: "(nat, nat) Raft" where
  "voted = persist ((blankRaft 2 0 MakePersister)\<lparr>currentTerm := 3, votedFor := 1\<rparr>)"

definition with_voted :: "(nat, nat) config res" where
  "with_voted = and_then two_peers (\<lambda>cfg. Inr (cfg\<lparr>rafts := (rafts cfg)[0 := Some voted]\<rparr>))"

lemma with_voted_eval:
  "case with_voted of Inr cfg \<Rightarrow> length (rafts cfg) = 2 \<and> length (saved cfg) = 2 \<and> rafts cfg ! 0 = Some voted
     \<and> (case start1 noSnap cfg 0 (\<lambda>j. [char_of (97 + j)]) 2 of Inr cfg' \<Rightarrow> True | _ \<Rightarrow> False) | _ \<Rightarrow> False"
  by code_simp

theorem restart_roundtrip_witness:
  "\<exists>cfg cfg' rf'. with_voted = Inr cfg \<and> start1 noSnap cfg 0 (\<lambda>j. [char_of (97 + j)]) 2 = Inr cfg'
     \<and> rafts cfg' ! 0 = Some rf' \<and> currentTerm rf' = 3 \<and> votedFor rf' = 1"
proof -
  obtain cfg cfg' where c: "with_voted = Inr cfg" "length (rafts cfg) = 2" "length (saved cfg) = 2" "rafts cfg ! 0 = Some voted"
    "start1 noSnap cfg 0 (\<lambda>j. [char_of (97 + j)]) 2 = Inr cfg'"
    using with_voted_eval by (auto split: sum.splits)
  have v: "in_sync voted" "raft_wf voted" "currentTerm voted = 3" "votedFor voted = 1"
    by (simp_all add: voted_def raft_wf_def blankRaft_def)
  show ?thesis
    using restart_roundtrip [OF c(5) _ _ c(4) v(1,2)] c v by fastforce
qed

end
