(* ===== verification/Service.thy ===== *)
theory Service
  imports RaftPeer
begin

text \<open>
  What the three services built on Raft (\<open>kvraft\<close>, \<open>shardctrler\<close>, \<open>shardkv\<close>) have in
  common. Each has a goroutine \<open>applyLoop\<close> that takes the messages Raft sends, executes
  the new commands, remembers the latest request of every client, and hands the outcome
  to the waiting handler over a channel found by the log index.

  \<^item> the wait channels: \<open>registerWaitCh\<close> and \<open>sendWaitCh\<close>;
  \<^item> locale \<open>sessions\<close>: a machine that skips requests it has seen. Its data are the
    result of the first occurrences alone;
  \<^item> locale \<open>replica\<close>: a server that executes log entries as they are delivered. Its
    machine is the replay of a prefix of the log, so replicas agree;
  \<^item> locale \<open>snapshot_replica\<close>: the same for servers that also restore snapshots.
\<close>

section \<open>Wait channels\<close>

text \<open>
  A map from log indices to channels of capacity one; \<open>Some None\<close> is an empty channel.
  A handler creates the channel of its index and finds none there, or the process ends.
\<close>

type_synonym 'r wait_chs = "int \<rightharpoonup> 'r option"

definition registerWaitCh :: "'r wait_chs \<Rightarrow> int \<Rightarrow> 'r wait_chs res" where
  "registerWaitCh chs i = (case chs i of Some _ \<Rightarrow> Inl Fatal | None \<Rightarrow> Inr (chs(i \<mapsto> None)))"

definition sendWaitCh :: "'r wait_chs \<Rightarrow> int \<Rightarrow> 'r \<Rightarrow> 'r wait_chs" where
  "sendWaitCh chs i r = (case chs i of Some _ \<Rightarrow> chs(i \<mapsto> Some r) | None \<Rightarrow> chs)"

text \<open>What a waiting handler does next: \<open>None\<close> is the time-out.\<close>

definition recvWaitCh :: "'r wait_chs \<Rightarrow> int \<Rightarrow> 'r option" where
  "recvWaitCh chs i = (case chs i of Some r \<Rightarrow> r | None \<Rightarrow> None)"

lemma recv_sent:
  "registerWaitCh chs i = Inr chs' \<Longrightarrow> recvWaitCh (sendWaitCh chs' i r) i = Some r"
  by (auto simp: registerWaitCh_def sendWaitCh_def recvWaitCh_def split: option.splits)

lemma send_other: "j \<noteq> i \<Longrightarrow> recvWaitCh (sendWaitCh chs i r) j = recvWaitCh chs j"
  by (simp add: sendWaitCh_def recvWaitCh_def split: option.split)

text \<open>
  A handler after the part before its \<open>select\<close>: it has replied, it waits for the entry at
  an index, or it still waits for the leader to be initialised.
\<close>

datatype 'r handler = Replied 'r | Waiting int | Blocked

section \<open>Requests of clients\<close>

text \<open>
  The latest request of a client, with the entry that is created when there is none
  (\<open>touch\<close>); the map is \<open>latestAppliedRequest\<close> of the three services.
\<close>

definition latestOf :: "(int \<rightharpoonup> int) \<Rightarrow> int \<Rightarrow> int" where
  "latestOf m c = (case m c of Some i \<Rightarrow> i | None \<Rightarrow> -1)"

definition touch :: "(int \<rightharpoonup> int) \<Rightarrow> int \<Rightarrow> (int \<rightharpoonup> int)" where
  "touch m c = (case m c of Some i \<Rightarrow> m | None \<Rightarrow> m(c \<mapsto> -1))"

lemma latestOf_touch [simp]: "latestOf (touch m c) = latestOf m"
  by (auto simp: latestOf_def touch_def fun_eq_iff split: option.splits)

lemma touch_update [simp]: "(touch m c)(c \<mapsto> r) = m(c \<mapsto> r)"
  by (auto simp: touch_def split: option.splits)

lemma latestOf_update: "latestOf (m(c \<mapsto> r)) = (latestOf m)(c := r)"
  by (auto simp: latestOf_def fun_eq_iff)

lemma latestOf_empty: "latestOf Map.empty = (\<lambda>c. -1)"
  by (simp add: latestOf_def fun_eq_iff)

text \<open>
  The requests of a log that are not suppressed: those whose number is greater than every
  earlier number of the same client. \<open>sn\<close> holds the latest number of every client.
\<close>

fun firsts :: "('op \<Rightarrow> 'c) \<Rightarrow> ('op \<Rightarrow> int) \<Rightarrow> ('c \<Rightarrow> int) \<Rightarrow> 'op list \<Rightarrow> 'op list" where
  "firsts cl rq sn [] = []"
| "firsts cl rq sn (op # ops) =
     (if rq op > sn (cl op) then op # firsts cl rq (sn(cl op := rq op)) ops
      else firsts cl rq sn ops)"

fun latest_after :: "('op \<Rightarrow> 'c) \<Rightarrow> ('op \<Rightarrow> int) \<Rightarrow> ('c \<Rightarrow> int) \<Rightarrow> 'op list \<Rightarrow> 'c \<Rightarrow> int" where
  "latest_after cl rq sn [] = sn"
| "latest_after cl rq sn (op # ops) = latest_after cl rq (sn(cl op := max (sn (cl op)) (rq op))) ops"

text \<open>Every client numbers its requests upwards: a number not seen before is the greatest.\<close>

fun numbered :: "('op \<Rightarrow> 'c) \<Rightarrow> ('op \<Rightarrow> int) \<Rightarrow> ('c \<times> int) set \<Rightarrow> 'op list \<Rightarrow> bool" where
  "numbered cl rq old [] = True"
| "numbered cl rq old (op # ops) =
     (((cl op, rq op) \<in> old \<or> (\<forall>k. (cl op, k) \<in> old \<longrightarrow> k < rq op))
      \<and> numbered cl rq (insert (cl op, rq op) old) ops)"

lemma firsts_above: "op \<in> set (firsts cl rq sn ops) \<Longrightarrow> rq op > sn (cl op)"
proof (induction ops arbitrary: sn)
  case (Cons a ops)
  consider "op = a" "rq a > sn (cl a)" | "op \<in> set (firsts cl rq sn ops)"
    | "rq a > sn (cl a)" "op \<in> set (firsts cl rq (sn(cl a := rq a)) ops)"
    using Cons.prems by (auto split: if_splits)
  then show ?case
  proof cases
    case 3
    show ?thesis
      using Cons.IH [OF 3(2)] 3(1) by (simp split: if_splits)
  qed (use Cons.IH in simp_all)
qed simp

lemma firsts_distinct: "distinct (map (\<lambda>op. (cl op, rq op)) (firsts cl rq sn ops))"
proof (induction ops arbitrary: sn)
  case (Cons op ops)
  then show ?case
    using firsts_above [of _ cl rq "sn(cl op := rq op)" ops] by force
qed simp

lemma firsts_subset: "set (firsts cl rq sn ops) \<subseteq> set ops"
  by (induction ops arbitrary: sn) auto

lemma firsts_complete:
  assumes "numbered cl rq old ops"
    and "\<And>c k. (c, k) \<in> old \<Longrightarrow> k \<le> sn c"
    and "\<And>c k. (\<And>j. (c, j) \<in> old \<Longrightarrow> j < k) \<Longrightarrow> k \<ge> 0 \<Longrightarrow> sn c < k"
    and "\<And>op. op \<in> set ops \<Longrightarrow> rq op \<ge> 0"
    and "op \<in> set ops"
  shows "(cl op, rq op) \<in> old \<or> (\<exists>op' \<in> set (firsts cl rq sn ops). (cl op', rq op') = (cl op, rq op))"
  using assms
proof (induction ops arbitrary: old sn)
  case (Cons x ops)
  let ?old = "insert (cl x, rq x) old"
  let ?sn = "if rq x > sn (cl x) then sn(cl x := rq x) else sn"
  have tail: "numbered cl rq ?old ops"
    using Cons.prems(1) by simp
  have seen: "k \<le> ?sn c" if "(c, k) \<in> ?old" for c k
    using that Cons.prems(2) [of c k] by (auto split: if_splits)
  have new: "?sn c < k" if "\<And>j. (c, j) \<in> ?old \<Longrightarrow> j < k" "k \<ge> 0" for c k
    using that(1) [of "rq x"] Cons.prems(3) [of c k] that by (auto split: if_splits)
  show ?case
  proof (cases "op = x")
    case True
    show ?thesis
    proof (cases "(cl x, rq x) \<in> old")
      case False
      then have "sn (cl x) < rq x"
        using Cons.prems(1,4) Cons.prems(3) [of "cl x" "rq x"] by auto
      then show ?thesis using True by auto
    qed (simp add: True)
  next
    case False
    then have "op \<in> set ops" using Cons.prems(5) by simp
    have "(cl op, rq op) \<in> ?old
        \<or> (\<exists>op' \<in> set (firsts cl rq ?sn ops). (cl op', rq op') = (cl op, rq op))"
      by (rule Cons.IH) (use tail seen new Cons.prems(4) \<open>op \<in> set ops\<close> in auto)
    moreover have "set (firsts cl rq ?sn ops) \<subseteq> set (firsts cl rq sn (x # ops))"
      by auto
    moreover have "(cl x, rq x) \<in> old \<or> x \<in> set (firsts cl rq sn (x # ops))"
      using Cons.prems(1,4) Cons.prems(3) [of "cl x" "rq x"] by auto
    ultimately show ?thesis by fastforce
  qed
qed simp

lemma latest_after_ge: "latest_after cl rq sn ops c \<ge> sn c"
proof (induction ops arbitrary: sn)
  case (Cons a ops)
  let ?sn = "sn(cl a := max (sn (cl a)) (rq a))"
  have "sn c \<le> ?sn c" by simp
  also have "\<dots> \<le> latest_after cl rq ?sn ops c" by (rule Cons.IH)
  finally show ?case by simp
qed simp

lemma latest_after_mem: "op \<in> set ops \<Longrightarrow> latest_after cl rq sn ops (cl op) \<ge> rq op"
proof (induction ops arbitrary: sn)
  case (Cons a ops)
  let ?sn = "sn(cl a := max (sn (cl a)) (rq a))"
  have "latest_after cl rq ?sn ops (cl a) \<ge> ?sn (cl a)"
    by (rule latest_after_ge)
  moreover have "op \<in> set ops \<Longrightarrow> latest_after cl rq ?sn ops (cl op) \<ge> rq op"
    by (rule Cons.IH)
  ultimately show ?case
    using Cons.prems by auto
qed simp

text \<open>
  A machine whose data change by \<open>body\<close> on a request with a new number, and not at all on
  a request that is not new.
\<close>

locale sessions =
  fixes exec :: "'m \<Rightarrow> 'op \<Rightarrow> 'm res"
    and dat :: "'m \<Rightarrow> 'd"
    and seen :: "'m \<Rightarrow> 'c \<Rightarrow> int"
    and cl :: "'op \<Rightarrow> 'c"
    and rq :: "'op \<Rightarrow> int"
    and body :: "'d \<Rightarrow> 'op \<Rightarrow> 'd res"
  assumes exec_new: "rq op > seen m (cl op) \<Longrightarrow> exec m op = Inr m' \<Longrightarrow>
      body (dat m) op = Inr (dat m') \<and> seen m' = (seen m)(cl op := rq op)"
    and exec_dup: "rq op \<le> seen m (cl op) \<Longrightarrow> exec m op = Inr m' \<Longrightarrow>
      dat m' = dat m \<and> seen m' = seen m"
begin

lemma exactly_once:
  "fold_res exec m ops = Inr m' \<Longrightarrow>
   fold_res body (dat m) (firsts cl rq (seen m) ops) = Inr (dat m')
   \<and> seen m' = latest_after cl rq (seen m) ops"
proof (induction ops arbitrary: m)
  case (Cons op ops)
  then obtain m1 where m1: "exec m op = Inr m1" "fold_res exec m1 ops = Inr m'"
    by auto
  show ?case
  proof (cases "rq op > seen m (cl op)")
    case True
    then have "max (seen m (cl op)) (rq op) = rq op" by simp
    moreover have "body (dat m) op = Inr (dat m1)" and seen: "seen m1 = (seen m)(cl op := rq op)"
      using exec_new [OF True m1(1)] by simp_all
    moreover have "fold_res body (dat m1) (firsts cl rq ((seen m)(cl op := rq op)) ops) = Inr (dat m')"
      "seen m' = latest_after cl rq ((seen m)(cl op := rq op)) ops"
      using Cons.IH [OF m1(2)] by (simp_all only: seen)
    ultimately show ?thesis
      using True by simp
  next
    case False
    moreover from this have "(seen m)(cl op := max (seen m (cl op)) (rq op)) = seen m"
      by (simp add: fun_eq_iff max_def)
    ultimately show ?thesis
      using Cons.IH [OF m1(2)] exec_dup [of op m m1] m1(1) by simp
  qed
qed simp

lemma repeat_ignored:
  assumes "fold_res exec m (ops @ [op]) = Inr m'" and "op \<in> set ops"
  shows "fold_res exec m ops = Inr m1 \<Longrightarrow> dat m' = dat m1 \<and> seen m' = seen m1"
proof -
  assume m1: "fold_res exec m ops = Inr m1"
  have "rq op \<le> seen m1 (cl op)"
    using exactly_once [OF m1] latest_after_mem [OF assms(2)] by simp
  then show ?thesis
    using exec_dup [of op m1 m'] assms(1) m1 by (simp add: fold_res_snoc)
qed

end

section \<open>Replicas\<close>

text \<open>The machine after the first \<open>k\<close> commands of a log.\<close>

definition replay :: "('m \<Rightarrow> 'op \<Rightarrow> 'm res) \<Rightarrow> 'm \<Rightarrow> 'op list \<Rightarrow> int \<Rightarrow> 'm res" where
  "replay exec m0 l k = fold_res exec m0 (take (nat k) l)"

lemma replay_Suc:
  assumes "0 \<le> k" and "nat k < length l"
  shows "replay exec m0 l (k + 1) = and_then (replay exec m0 l k) (\<lambda>m. exec m (l ! nat k))"
proof -
  have "nat (k + 1) = Suc (nat k)" using assms by simp
  then show ?thesis
    using assms by (simp add: replay_def take_Suc_conv_app_nth fold_res_snoc)
qed

text \<open>
  A message that a server whose machine is at index \<open>k\<close> may get from its Raft peer: the next
  command of the log, or one it has had, or a snapshot of an earlier or later state.
\<close>

definition command_of :: "'op list \<Rightarrow> int \<Rightarrow> ('op, 's) ApplyMsg \<Rightarrow> bool" where
  "command_of l k msg \<longleftrightarrow> CommandValid msg \<and> 1 \<le> CommandIndex msg \<and> CommandIndex msg \<le> k + 1
     \<and> nat (CommandIndex msg) \<le> length l \<and> Command msg = Some (l ! (nat (CommandIndex msg) - 1))"

fun commands_of :: "'op list \<Rightarrow> int \<Rightarrow> ('op, 's) ApplyMsg list \<Rightarrow> bool" where
  "commands_of l k [] = True"
| "commands_of l k (msg # msgs) =
     (command_of l k msg \<and> commands_of l (max k (CommandIndex msg)) msgs)"

text \<open>The messages of the commands of a log, from index \<open>i\<close> on.\<close>

fun log_msgs :: "int \<Rightarrow> 'op list \<Rightarrow> ('op, 's) ApplyMsg list" where
  "log_msgs i [] = []"
| "log_msgs i (op # ops) = commandMsg i \<lparr>le_Term = 0, le_Command = Some op\<rparr> # log_msgs (i + 1) ops"

locale replica =
  fixes deliver :: "'st \<Rightarrow> ('op, 's) ApplyMsg \<Rightarrow> 'st res"
    and idx :: "'st \<Rightarrow> int"
    and mach :: "'st \<Rightarrow> 'm"
    and exec :: "'m \<Rightarrow> 'op \<Rightarrow> 'm res"
  assumes deliver_new: "deliver st msg = Inr st' \<Longrightarrow> CommandValid msg \<Longrightarrow> CommandIndex msg > idx st \<Longrightarrow>
      Command msg = Some op \<Longrightarrow> exec (mach st) op = Inr (mach st') \<and> idx st' = CommandIndex msg"
    and deliver_old: "deliver st msg = Inr st' \<Longrightarrow> CommandValid msg \<Longrightarrow> CommandIndex msg \<le> idx st \<Longrightarrow>
      mach st' = mach st \<and> idx st' = idx st"
begin

lemma command_step:
  assumes "command_of l (idx st) msg" and "deliver st msg = Inr st'"
    and "replay exec m0 l (idx st) = Inr (mach st)" and "idx st \<ge> 0"
  shows "replay exec m0 l (idx st') = Inr (mach st') \<and> idx st' = max (idx st) (CommandIndex msg)"
proof (cases "CommandIndex msg > idx st")
  case True
  then have i: "CommandIndex msg = idx st + 1"
    using assms(1) by (simp add: command_of_def)
  then have "Command msg = Some (l ! nat (idx st))" "nat (idx st) < length l"
    using assms(1,4) by (auto simp: command_of_def nat_add_distrib)
  then show ?thesis
    using deliver_new [OF assms(2) _ True] assms i by (simp add: command_of_def replay_Suc)
next
  case False
  then show ?thesis
    using deliver_old [OF assms(2)] assms(1,3) by (simp add: command_of_def)
qed

lemma replays_log:
  "commands_of l (idx st) msgs \<Longrightarrow> fold_res deliver st msgs = Inr st' \<Longrightarrow>
   replay exec m0 l (idx st) = Inr (mach st) \<Longrightarrow> idx st \<ge> 0 \<Longrightarrow>
   replay exec m0 l (idx st') = Inr (mach st') \<and> idx st' \<ge> idx st"
proof (induction msgs arbitrary: st)
  case (Cons msg msgs)
  then obtain st1 where st1: "deliver st msg = Inr st1" "fold_res deliver st1 msgs = Inr st'"
    by auto
  then have "replay exec m0 l (idx st1) = Inr (mach st1)" "idx st1 = max (idx st) (CommandIndex msg)"
    using command_step [of l st msg st1 m0] Cons.prems by auto
  then show ?case
    using Cons.IH [of st1] Cons.prems st1(2) by simp
qed simp

end

text \<open>Servers that restore snapshots: \<open>enc k m\<close> is the snapshot of the machine \<open>m\<close> at index \<open>k\<close>.\<close>

definition snapshot_of ::
  "(int \<Rightarrow> 'm \<Rightarrow> 's list) \<Rightarrow> ('m \<Rightarrow> 'op \<Rightarrow> 'm res) \<Rightarrow> 'm \<Rightarrow> 'op list \<Rightarrow> ('op, 's) ApplyMsg \<Rightarrow> bool" where
  "snapshot_of enc exec m0 l msg \<longleftrightarrow> \<not> CommandValid msg \<and> 0 \<le> SnapshotIndex msg \<and>
     (\<exists>m. replay exec m0 l (SnapshotIndex msg) = Inr m \<and> am_Snapshot msg = enc (SnapshotIndex msg) m)"

fun messages_of ::
  "(int \<Rightarrow> 'm \<Rightarrow> 's list) \<Rightarrow> ('m \<Rightarrow> 'op \<Rightarrow> 'm res) \<Rightarrow> 'm \<Rightarrow> 'op list \<Rightarrow> int \<Rightarrow> ('op, 's) ApplyMsg list \<Rightarrow> bool" where
  "messages_of enc exec m0 l k [] = True"
| "messages_of enc exec m0 l k (msg # msgs) =
     (if CommandValid msg
      then command_of l k msg \<and> messages_of enc exec m0 l (max k (CommandIndex msg)) msgs
      else snapshot_of enc exec m0 l msg \<and> messages_of enc exec m0 l (max k (SnapshotIndex msg)) msgs)"

locale snapshot_replica = replica +
  fixes enc
  assumes deliver_snapshot: "deliver st msg = Inr st' \<Longrightarrow> \<not> CommandValid msg \<Longrightarrow> SnapshotIndex msg > idx st \<Longrightarrow>
      am_Snapshot msg = enc (SnapshotIndex msg) m \<Longrightarrow> mach st' = m \<and> idx st' = SnapshotIndex msg"
    and deliver_stale: "deliver st msg = Inr st' \<Longrightarrow> \<not> CommandValid msg \<Longrightarrow> SnapshotIndex msg \<le> idx st \<Longrightarrow>
      mach st' = mach st \<and> idx st' = idx st"
begin

lemma snapshot_step:
  assumes "snapshot_of enc exec m0 l msg" and "deliver st msg = Inr st'"
    and "replay exec m0 l (idx st) = Inr (mach st)"
  shows "replay exec m0 l (idx st') = Inr (mach st') \<and> idx st' = max (idx st) (SnapshotIndex msg)"
proof (cases "SnapshotIndex msg > idx st")
  case True
  then show ?thesis
    using deliver_snapshot [OF assms(2) _ True] assms(1) by (auto simp: snapshot_of_def)
next
  case False
  then show ?thesis
    using deliver_stale [OF assms(2)] assms(1,3) by (simp add: snapshot_of_def)
qed

lemma replays_messages:
  "messages_of enc exec m0 l (idx st) msgs \<Longrightarrow> fold_res deliver st msgs = Inr st' \<Longrightarrow>
   replay exec m0 l (idx st) = Inr (mach st) \<Longrightarrow> idx st \<ge> 0 \<Longrightarrow>
   replay exec m0 l (idx st') = Inr (mach st') \<and> idx st' \<ge> idx st"
proof (induction msgs arbitrary: st)
  case (Cons msg msgs)
  then obtain st1 where st1: "deliver st msg = Inr st1" "fold_res deliver st1 msgs = Inr st'"
    by auto
  show ?case
  proof (cases "CommandValid msg")
    case True
    then have "replay exec m0 l (idx st1) = Inr (mach st1)" "idx st1 = max (idx st) (CommandIndex msg)"
      using command_step [of l st msg st1 m0] Cons.prems st1(1) by auto
    then show ?thesis
      using Cons.IH [of st1] Cons.prems st1(2) True by simp
  next
    case False
    then have "replay exec m0 l (idx st1) = Inr (mach st1)" "idx st1 = max (idx st) (SnapshotIndex msg)"
      using snapshot_step [of m0 l msg st st1] Cons.prems st1(1) by auto
    then show ?thesis
      using Cons.IH [of st1] Cons.prems st1(2) False by simp
  qed
qed simp

lemma replicas_agree:
  assumes "messages_of enc exec m0 l (idx a) msgs" and "fold_res deliver a msgs = Inr a'"
    and "messages_of enc exec m0 l (idx b) msgs'" and "fold_res deliver b msgs' = Inr b'"
    and "replay exec m0 l (idx a) = Inr (mach a)" and "replay exec m0 l (idx b) = Inr (mach b)"
    and "idx a \<ge> 0" and "idx b \<ge> 0" and "idx a' = idx b'"
  shows "mach a' = mach b'"
  using replays_messages [OF assms(1,2,5,7)] replays_messages [OF assms(3,4,6,8)] assms(9) by simp

end

end
