(* ===== verification/KvRaft.thy ===== *)
theory KvRaft
  imports Service
begin

text \<open>
  The fault-tolerant key/value service (\<open>kvraft/server.go\<close>, \<open>kvraft/common.go\<close>).

  The server's own fields are a record around its Raft peer. A handler is two
  definitions: the part up to the \<open>select\<close> (\<open>Get_call\<close>, \<open>PutAppend_call\<close>), which
  submits the command and registers the wait channel, and the part after it
  (\<open>Get_return\<close>, \<open>PutAppend_return\<close>), which takes the response or the time-out and
  deletes the channel. \<open>applyLoop\<close> handles one message of the apply channel, with one
  definition per branch of its \<open>switch\<close>.

  A snapshot is the list of the values given to the encoder, as in \<open>RaftLog\<close>. The server
  and its Raft peer share the persister, so \<open>kv.persister\<close> is that of the peer.
\<close>

section \<open>Data\<close>

datatype Err = NoErr | OK | ErrNoKey | ErrWrongLeader

datatype OpType = GET | PUT | APPEND

record Op =
  Type :: OpType
  Key :: string
  Value :: string
  ClientId :: int
  RequestId :: int

record WaitChResponse =
  wr_op :: Op
  wr_err :: Err
  wr_value :: string

record PutAppendArgs =
  pa_Key :: string
  pa_Value :: string
  pa_Op :: string
  pa_ClientId :: int
  pa_RequestId :: int

record GetArgs =
  ga_Key :: string
  ga_ClientId :: int
  ga_RequestId :: int

record GetReply =
  gr_Err :: Err
  gr_Value :: string

datatype kv_gob = KvIndex int | KvStorage "string \<rightharpoonup> string" | KvRequests "int \<rightharpoonup> int"

record KVServer =
  kv_me :: nat
  kv_rf :: "(Op, kv_gob) Raft"
  kv_dead :: int
  maxraftstate :: int
  storage :: "string \<rightharpoonup> string"
  waitChs :: "WaitChResponse wait_chs"
  latestAppliedRequest :: "int \<rightharpoonup> int"
  latestAppliedRaftIndex :: int

section \<open>Snapshots\<close>

definition serialize :: "KVServer \<Rightarrow> kv_gob list" where
  "serialize kv = [KvIndex (latestAppliedRaftIndex kv), KvStorage (storage kv),
     KvRequests (latestAppliedRequest kv)]"

text \<open>A snapshot that does not decode is reported and ignored.\<close>

fun deserialize :: "KVServer \<Rightarrow> kv_gob list \<Rightarrow> KVServer" where
  "deserialize kv (KvIndex i # KvStorage st # KvRequests rs # rest) =
     kv\<lparr>latestAppliedRaftIndex := i, storage := st, latestAppliedRequest := rs\<rparr>"
| "deserialize kv _ = kv"

section \<open>Handlers\<close>

definition Get_call :: "KVServer \<Rightarrow> GetArgs \<Rightarrow> (KVServer \<times> GetReply handler) res" where
  "Get_call kv args =
     (let (t, isLeader) = GetState (kv_rf kv)
      in if \<not> isLeader then Inr (kv, Replied \<lparr>gr_Err = ErrWrongLeader, gr_Value = []\<rparr>)
         else and_then (Start (kv_rf kv) \<lparr>Type = GET, Key = ga_Key args, Value = [],
                          ClientId = ga_ClientId args, RequestId = ga_RequestId args\<rparr>) (\<lambda>(rf, res).
           case res of
             StartWaiting \<Rightarrow> Inr (kv\<lparr>kv_rf := rf\<rparr>, Blocked)
           | Started raftIndex t' isLeader' \<Rightarrow>
               if \<not> isLeader'
               then Inr (kv\<lparr>kv_rf := rf\<rparr>, Replied \<lparr>gr_Err = ErrWrongLeader, gr_Value = []\<rparr>)
               else and_then (registerWaitCh (waitChs kv) raftIndex) (\<lambda>chs.
                 Inr (kv\<lparr>kv_rf := rf, waitChs := chs\<rparr>, Waiting raftIndex))))"

definition Get_return :: "KVServer \<Rightarrow> int \<Rightarrow> KVServer \<times> GetReply" where
  "Get_return kv raftIndex =
     (kv\<lparr>waitChs := (waitChs kv)(raftIndex := None)\<rparr>,
      case recvWaitCh (waitChs kv) raftIndex of
        None \<Rightarrow> \<lparr>gr_Err = ErrWrongLeader, gr_Value = []\<rparr>
      | Some response \<Rightarrow> \<lparr>gr_Err = wr_err response, gr_Value = wr_value response\<rparr>)"

definition PutAppend_call :: "KVServer \<Rightarrow> PutAppendArgs \<Rightarrow> (KVServer \<times> Err handler) res" where
  "PutAppend_call kv args =
     (let (t, isLeader) = GetState (kv_rf kv);
          opType = (if pa_Op args = ''Put'' then PUT else APPEND)
      in if \<not> isLeader then Inr (kv, Replied ErrWrongLeader)
         else and_then (Start (kv_rf kv) \<lparr>Type = opType, Key = pa_Key args, Value = pa_Value args,
                          ClientId = pa_ClientId args, RequestId = pa_RequestId args\<rparr>) (\<lambda>(rf, res).
           case res of
             StartWaiting \<Rightarrow> Inr (kv\<lparr>kv_rf := rf\<rparr>, Blocked)
           | Started raftIndex t' isLeader' \<Rightarrow>
               if \<not> isLeader' then Inr (kv\<lparr>kv_rf := rf\<rparr>, Replied ErrWrongLeader)
               else and_then (registerWaitCh (waitChs kv) raftIndex) (\<lambda>chs.
                 Inr (kv\<lparr>kv_rf := rf, waitChs := chs\<rparr>, Waiting raftIndex))))"

definition PutAppend_return :: "KVServer \<Rightarrow> int \<Rightarrow> KVServer \<times> Err" where
  "PutAppend_return kv raftIndex =
     (kv\<lparr>waitChs := (waitChs kv)(raftIndex := None)\<rparr>,
      case recvWaitCh (waitChs kv) raftIndex of
        None \<Rightarrow> ErrWrongLeader | Some response \<Rightarrow> wr_err response)"

definition kv_Kill :: "KVServer \<Rightarrow> KVServer" where
  "kv_Kill kv = kv\<lparr>kv_dead := 1, kv_rf := Kill (kv_rf kv)\<rparr>"

definition kv_killed :: "KVServer \<Rightarrow> bool" where
  "kv_killed kv \<longleftrightarrow> kv_dead kv = 1"

section \<open>The apply loop\<close>

definition applyGet :: "KVServer \<Rightarrow> Op \<Rightarrow> KVServer \<times> WaitChResponse" where
  "applyGet kv op =
     (let seen = touch (latestAppliedRequest kv) (ClientId op);
          kv1 = kv\<lparr>latestAppliedRequest :=
            (if RequestId op > latestOf seen (ClientId op) then seen(ClientId op \<mapsto> RequestId op) else seen)\<rparr>
      in (kv1, case storage kv1 (Key op) of
                 None \<Rightarrow> \<lparr>wr_op = op, wr_err = ErrNoKey, wr_value = []\<rparr>
               | Some value \<Rightarrow> \<lparr>wr_op = op, wr_err = OK, wr_value = value\<rparr>))"

definition applyPut :: "KVServer \<Rightarrow> Op \<Rightarrow> KVServer \<times> WaitChResponse" where
  "applyPut kv op =
     (let seen = touch (latestAppliedRequest kv) (ClientId op);
          kv1 = (if RequestId op > latestOf seen (ClientId op)
                 then kv\<lparr>latestAppliedRequest := seen(ClientId op \<mapsto> RequestId op),
                         storage := (storage kv)(Key op \<mapsto> Value op)\<rparr>
                 else kv\<lparr>latestAppliedRequest := seen\<rparr>)
      in (kv1, \<lparr>wr_op = op, wr_err = OK, wr_value = []\<rparr>))"

definition applyAppend :: "KVServer \<Rightarrow> Op \<Rightarrow> KVServer \<times> WaitChResponse" where
  "applyAppend kv op =
     (let seen = touch (latestAppliedRequest kv) (ClientId op);
          kv1 = (if RequestId op > latestOf seen (ClientId op)
                 then kv\<lparr>latestAppliedRequest := seen(ClientId op \<mapsto> RequestId op),
                         storage := (case storage kv (Key op) of
                             Some value \<Rightarrow> (storage kv)(Key op \<mapsto> value @ Value op)
                           | None \<Rightarrow> (storage kv)(Key op \<mapsto> Value op))\<rparr>
                 else kv\<lparr>latestAppliedRequest := seen\<rparr>)
      in (kv1, \<lparr>wr_op = op, wr_err = OK, wr_value = []\<rparr>))"

definition applyOp :: "KVServer \<Rightarrow> Op \<Rightarrow> KVServer \<times> WaitChResponse" where
  "applyOp kv op = (case Type op of GET \<Rightarrow> applyGet kv op | PUT \<Rightarrow> applyPut kv op
     | APPEND \<Rightarrow> applyAppend kv op)"

text \<open>The snapshot that is due when the saved Raft state is too large.\<close>

definition snapshotIfLarge :: "(Op gob list \<Rightarrow> nat) \<Rightarrow> KVServer \<Rightarrow> int \<Rightarrow> KVServer res" where
  "snapshotIfLarge enc_len kv index =
     (if maxraftstate kv \<noteq> -1
         \<and> int (RaftStateSize enc_len (persister (kv_rf kv))) \<ge> maxraftstate kv
      then and_then (Snapshot (kv_rf kv) index (serialize kv)) (\<lambda>rf. Inr (kv\<lparr>kv_rf := rf\<rparr>))
      else Inr kv)"

definition applyLoop_msg ::
  "(Op gob list \<Rightarrow> nat) \<Rightarrow> KVServer \<Rightarrow> (Op, kv_gob) ApplyMsg \<Rightarrow> KVServer res" where
  "applyLoop_msg enc_len kv msg =
     (if CommandValid msg then
        if CommandIndex msg \<le> latestAppliedRaftIndex kv then Inr kv
        else case Command msg of
          None \<Rightarrow> Inl NilPanic
        | Some op \<Rightarrow>
            let (kv1, response) = applyOp kv op;
                kv2 = kv1\<lparr>latestAppliedRaftIndex := CommandIndex msg\<rparr>
            in and_then (snapshotIfLarge enc_len kv2 (CommandIndex msg)) (\<lambda>kv3.
                 Inr (kv3\<lparr>waitChs := sendWaitCh (waitChs kv3) (CommandIndex msg) response\<rparr>))
      else if SnapshotIndex msg > latestAppliedRaftIndex kv
           then Inr (deserialize kv (am_Snapshot msg)) else Inr kv)"

text \<open>One round: the loop blocks on an empty channel.\<close>

definition kv_applyLoop :: "(Op gob list \<Rightarrow> nat) \<Rightarrow> KVServer \<Rightarrow> KVServer res" where
  "kv_applyLoop enc_len kv =
     (case applyCh (kv_rf kv) of [] \<Rightarrow> Inr kv
      | msg # rest \<Rightarrow> applyLoop_msg enc_len (kv\<lparr>kv_rf := (kv_rf kv)\<lparr>applyCh := rest\<rparr>\<rparr>) msg)"

definition StartKVServer :: "nat \<Rightarrow> nat \<Rightarrow> (Op, kv_gob) Persister \<Rightarrow> int \<Rightarrow> KVServer res" where
  "StartKVServer n i ps maxstate =
     and_then (Make n i ps) (\<lambda>rf.
       Inr (deserialize \<lparr>kv_me = i, kv_rf = rf, kv_dead = 0, maxraftstate = maxstate,
              storage = Map.empty, waitChs = Map.empty, latestAppliedRequest = Map.empty,
              latestAppliedRaftIndex = 0\<rparr> (ReadSnapshot ps)))"

section \<open>The machine and its specification\<close>

text \<open>
  The specification is a map that every request changes once. The machine that Raft
  replicates is the map with the latest request of every client.
\<close>

definition kv_body :: "(string \<rightharpoonup> string) \<Rightarrow> Op \<Rightarrow> (string \<rightharpoonup> string)" where
  "kv_body m op = (case Type op of GET \<Rightarrow> m | PUT \<Rightarrow> m(Key op \<mapsto> Value op)
     | APPEND \<Rightarrow> m(Key op \<mapsto> (case m (Key op) of None \<Rightarrow> [] | Some v \<Rightarrow> v) @ Value op))"

type_synonym kv_machine = "(string \<rightharpoonup> string) \<times> (int \<rightharpoonup> int)"

definition machine :: "KVServer \<Rightarrow> kv_machine" where
  "machine kv = (storage kv, latestAppliedRequest kv)"

definition kv_exec :: "kv_machine \<Rightarrow> Op \<Rightarrow> kv_machine res" where
  "kv_exec m op =
     (if RequestId op > latestOf (snd m) (ClientId op)
      then Inr (kv_body (fst m) op, (snd m)(ClientId op \<mapsto> RequestId op))
      else Inr (fst m, touch (snd m) (ClientId op)))"

definition kv_enc :: "int \<Rightarrow> kv_machine \<Rightarrow> kv_gob list" where
  "kv_enc i m = [KvIndex i, KvStorage (fst m), KvRequests (snd m)]"

lemma applyOp_machine: "kv_exec (machine kv) op = Inr (machine (fst (applyOp kv op)))"
  by (auto simp: applyOp_def applyGet_def applyPut_def applyAppend_def machine_def kv_exec_def
      kv_body_def Let_def split: OpType.splits option.splits)

lemma applyOp_frame:
  "kv_rf (fst (applyOp kv op)) = kv_rf kv" "waitChs (fst (applyOp kv op)) = waitChs kv"
  "latestAppliedRaftIndex (fst (applyOp kv op)) = latestAppliedRaftIndex kv"
  "maxraftstate (fst (applyOp kv op)) = maxraftstate kv" "kv_me (fst (applyOp kv op)) = kv_me kv"
  by (auto simp: applyOp_def applyGet_def applyPut_def applyAppend_def Let_def
      split: OpType.splits option.splits)

lemma applyOp_response:
  "wr_op (snd (applyOp kv op)) = op"
  "Type op = GET \<Longrightarrow> storage kv (Key op) = None \<Longrightarrow>
     wr_err (snd (applyOp kv op)) = ErrNoKey \<and> wr_value (snd (applyOp kv op)) = []"
  "Type op = GET \<Longrightarrow> storage kv (Key op) = Some v \<Longrightarrow>
     wr_err (snd (applyOp kv op)) = OK \<and> wr_value (snd (applyOp kv op)) = v"
  "Type op \<noteq> GET \<Longrightarrow> wr_err (snd (applyOp kv op)) = OK"
  by (auto simp: applyOp_def applyGet_def applyPut_def applyAppend_def Let_def
      split: OpType.splits option.splits)

lemma snapshotIfLarge_frame:
  "snapshotIfLarge enc_len kv i = Inr kv' \<Longrightarrow> kv' = kv\<lparr>kv_rf := kv_rf kv'\<rparr>"
  by (auto simp: snapshotIfLarge_def split: if_splits)

lemma applyLoop_msg_command:
  assumes "applyLoop_msg enc_len kv msg = Inr kv'" and "CommandValid msg"
    and "CommandIndex msg > latestAppliedRaftIndex kv"
  obtains op rf where "Command msg = Some op"
    "kv' = (fst (applyOp kv op))\<lparr>latestAppliedRaftIndex := CommandIndex msg, kv_rf := rf,
       waitChs := sendWaitCh (waitChs kv) (CommandIndex msg) (snd (applyOp kv op))\<rparr>"
proof -
  obtain op kv3 where op: "Command msg = Some op"
    and snap: "snapshotIfLarge enc_len ((fst (applyOp kv op))\<lparr>latestAppliedRaftIndex := CommandIndex msg\<rparr>)
        (CommandIndex msg) = Inr kv3"
    and kv': "kv' = kv3\<lparr>waitChs := sendWaitCh (waitChs kv3) (CommandIndex msg) (snd (applyOp kv op))\<rparr>"
    using assms by (auto simp: applyLoop_msg_def Let_def case_prod_unfold split: option.splits)
  have "kv3 = (fst (applyOp kv op))\<lparr>latestAppliedRaftIndex := CommandIndex msg, kv_rf := kv_rf kv3\<rparr>"
    using snapshotIfLarge_frame [OF snap] .
  then obtain rf where kv3: "kv3 = (fst (applyOp kv op))\<lparr>latestAppliedRaftIndex := CommandIndex msg, kv_rf := rf\<rparr>"
    by iprover
  show ?thesis
    by (rule that [of op rf]) (simp_all add: op kv' kv3 applyOp_frame)
qed

lemma applyLoop_msg_machine:
  assumes "applyLoop_msg enc_len kv msg = Inr kv'" and "CommandValid msg"
    and "CommandIndex msg > latestAppliedRaftIndex kv" and "Command msg = Some op"
  shows "kv_exec (machine kv) op = Inr (machine kv')" "latestAppliedRaftIndex kv' = CommandIndex msg"
proof -
  obtain op' rf where "Command msg = Some op'"
    and kv': "kv' = (fst (applyOp kv op'))\<lparr>latestAppliedRaftIndex := CommandIndex msg, kv_rf := rf,
       waitChs := sendWaitCh (waitChs kv) (CommandIndex msg) (snd (applyOp kv op'))\<rparr>"
    by (rule applyLoop_msg_command [OF assms(1-3)])
  then have "op' = op" using assms(4) by simp
  then show "kv_exec (machine kv) op = Inr (machine kv')" "latestAppliedRaftIndex kv' = CommandIndex msg"
    using applyOp_machine [of kv op] unfolding kv' by (simp_all add: machine_def)
qed

lemma applyLoop_msg_other:
  assumes "applyLoop_msg enc_len kv msg = Inr kv'"
  shows "CommandValid msg \<Longrightarrow> CommandIndex msg \<le> latestAppliedRaftIndex kv \<Longrightarrow> kv' = kv"
    and "\<not> CommandValid msg \<Longrightarrow> SnapshotIndex msg \<le> latestAppliedRaftIndex kv \<Longrightarrow> kv' = kv"
    and "\<not> CommandValid msg \<Longrightarrow> SnapshotIndex msg > latestAppliedRaftIndex kv \<Longrightarrow>
      kv' = deserialize kv (am_Snapshot msg)"
  using assms by (simp_all add: applyLoop_msg_def)

lemma deserialize_enc:
  "machine (deserialize kv (kv_enc i m)) = m" "latestAppliedRaftIndex (deserialize kv (kv_enc i m)) = i"
  by (simp_all add: kv_enc_def machine_def)

section \<open>Instances of the interfaces\<close>

interpretation kvs: sessions kv_exec fst "\<lambda>m. latestOf (snd m)" ClientId RequestId
    "\<lambda>m op. Inr (kv_body m op)"
  by unfold_locales (auto simp: kv_exec_def latestOf_update split: if_splits)

interpretation kvr: snapshot_replica "applyLoop_msg enc_len" latestAppliedRaftIndex machine kv_exec kv_enc
  for enc_len
  by unfold_locales
    (simp add: applyLoop_msg_machine,
     (metis applyLoop_msg_other(1), metis applyLoop_msg_other(3) deserialize_enc,
      metis applyLoop_msg_other(2)))

end
