(* ===== verification/KvRaftSpec.thy ===== *)
theory KvRaftSpec
  imports KvRaft
begin

text \<open>
  What the key/value service promises: the storage is the map of the specification after
  the first occurrence of every request of the log, replicas agree, a read returns the
  value at its place in the log, a snapshot restores the server it was taken from; and
  where the handler acknowledges a request that another command replaced in the log.
\<close>

section \<open>Servers of a log\<close>

abbreviation m0 :: kv_machine where
  "m0 \<equiv> (Map.empty, Map.empty)"

text \<open>The server has executed the first \<open>latestAppliedRaftIndex\<close> commands of \<open>l\<close>.\<close>

definition kv_at :: "Op list \<Rightarrow> KVServer \<Rightarrow> bool" where
  "kv_at l kv \<longleftrightarrow> latestAppliedRaftIndex kv \<ge> 0
     \<and> replay kv_exec m0 l (latestAppliedRaftIndex kv) = Inr (machine kv)"

definition kv_snapshot :: "Op list \<Rightarrow> kv_gob list \<Rightarrow> bool" where
  "kv_snapshot l snap \<longleftrightarrow>
     snap = [] \<or> (\<exists>k m. 0 \<le> k \<and> replay kv_exec m0 l k = Inr m \<and> snap = kv_enc k m)"

definition kv_spec :: "Op list \<Rightarrow> int \<Rightarrow> (string \<rightharpoonup> string)" where
  "kv_spec l k = foldl kv_body Map.empty (firsts ClientId RequestId (\<lambda>c. -1) (take (nat k) l))"

lemma kv_at_spec:
  assumes "kv_at l kv"
  shows "storage kv = kv_spec l (latestAppliedRaftIndex kv)"
proof -
  have "fold_res kv_exec m0 (take (nat (latestAppliedRaftIndex kv)) l) = Inr (machine kv)"
    using assms by (simp add: kv_at_def replay_def)
  then show ?thesis
    using kvs.exactly_once [of m0] by (simp add: kv_spec_def fold_res_Inr machine_def latestOf_empty)
qed

lemma kv_at_steps:
  assumes "kv_at l kv" and "messages_of kv_enc kv_exec m0 l (latestAppliedRaftIndex kv) msgs"
    and "fold_res (applyLoop_msg enc_len) kv msgs = Inr kv'"
  shows "kv_at l kv'"
  using kvr.replays_messages [OF assms(2,3)] assms(1) by (simp add: kv_at_def)

lemma kv_at_start:
  assumes "StartKVServer n i ps mx = Inr kv" and "kv_snapshot l (snapshot ps)"
  shows "kv_at l kv"
  using assms by (auto simp: StartKVServer_def kv_snapshot_def ReadSnapshot_def kv_at_def
      machine_def kv_enc_def replay_def)

section \<open>Examples\<close>

definition ex_op :: "OpType \<Rightarrow> string \<Rightarrow> string \<Rightarrow> int \<Rightarrow> int \<Rightarrow> Op" where
  "ex_op t k v c r = \<lparr>Type = t, Key = k, Value = v, ClientId = c, RequestId = r\<rparr>"

text \<open>Client 7 appends twice and client 8 puts; the second append is logged again.\<close>

definition ex_log :: "Op list" where
  "ex_log = [ex_op APPEND ''x'' ''a'' 7 0, ex_op PUT ''y'' ''p'' 8 0, ex_op APPEND ''x'' ''b'' 7 1,
     ex_op APPEND ''x'' ''b'' 7 1, ex_op GET ''x'' [] 8 1]"

definition ex_msg :: "int \<Rightarrow> Op \<Rightarrow> (Op, kv_gob) ApplyMsg" where
  "ex_msg i op = \<lparr>CommandValid = True, Command = Some op, CommandIndex = i, SnapshotValid = False,
     am_Snapshot = [], SnapshotTerm = 0, SnapshotIndex = 0\<rparr>"

definition ex_msgs :: "(Op, kv_gob) ApplyMsg list" where
  "ex_msgs = [ex_msg 1 (ex_log ! 0), ex_msg 2 (ex_log ! 1), ex_msg 3 (ex_log ! 2), ex_msg 4 (ex_log ! 3)]"

definition ex_kv :: KVServer where
  "ex_kv = \<lparr>kv_me = 0, kv_rf = blankRaft 3 0 MakePersister, kv_dead = 0, maxraftstate = -1,
     storage = Map.empty, waitChs = Map.empty, latestAppliedRequest = Map.empty,
     latestAppliedRaftIndex = 0\<rparr>"

definition ex_kv4 :: KVServer where
  "ex_kv4 = ex_kv\<lparr>storage := [''x'' \<mapsto> ''ab'', ''y'' \<mapsto> ''p''],
     latestAppliedRequest := [7 \<mapsto> 1, 8 \<mapsto> 0], latestAppliedRaftIndex := 4\<rparr>"

lemma ex_kv_start: "StartKVServer 3 0 MakePersister (-1) = Inr ex_kv"
  by (simp add: StartKVServer_def Make_empty MakePersister_def ReadSnapshot_def ex_kv_def)

lemma ex_messages: "messages_of kv_enc kv_exec m0 ex_log 0 ex_msgs"
  by (simp add: ex_msgs_def ex_msg_def ex_log_def command_of_def)

lemma ex_run: "fold_res (applyLoop_msg enc_len) ex_kv ex_msgs = Inr ex_kv4"
  by (simp add: ex_msgs_def ex_msg_def ex_log_def ex_op_def ex_kv_def ex_kv4_def applyLoop_msg_def
      applyOp_def applyPut_def applyAppend_def latestOf_def touch_def snapshotIfLarge_def
      sendWaitCh_def Let_def fun_upd_twist)

section \<open>The service implements a map\<close>

lemma kv_started_at:
  assumes "StartKVServer n i ps mx = Inr kv0" and "kv_snapshot l (snapshot ps)"
    and "messages_of kv_enc kv_exec m0 l (latestAppliedRaftIndex kv0) msgs"
    and "fold_res (applyLoop_msg enc_len) kv0 msgs = Inr kv"
  shows "kv_at l kv"
  by (rule kv_at_steps [OF kv_at_start [OF assms(1,2)] assms(3,4)])

text \<open>C4: The service refines a map. A server that starts from any snapshot of a log, then gets
  commands of the log in order, with repetitions, and snapshots of it, holds the map that the
  specification gives for the commands it has executed, each request counted at its first
  occurrence only, whatever the state size at which it takes snapshots itself.\<close>

theorem kv_refines_map:
  assumes "StartKVServer n i ps mx = Inr kv0" and "kv_snapshot l (snapshot ps)"
    and "messages_of kv_enc kv_exec m0 l (latestAppliedRaftIndex kv0) msgs"
    and "fold_res (applyLoop_msg enc_len) kv0 msgs = Inr kv"
  shows "storage kv = kv_spec l (latestAppliedRaftIndex kv)"
  by (rule kv_at_spec [OF kv_started_at [OF assms]])

theorem kv_refines_map_witness:
  "storage ex_kv4 = kv_spec ex_log 4 \<and> storage ex_kv4 ''x'' = Some ''ab''"
proof (rule conjI)
  have "latestAppliedRaftIndex ex_kv = 0" "latestAppliedRaftIndex ex_kv4 = 4"
    by (simp_all add: ex_kv_def ex_kv4_def)
  then show "storage ex_kv4 = kv_spec ex_log 4"
    using kv_refines_map [OF ex_kv_start, of ex_log ex_msgs "\<lambda>b. 0" ex_kv4] ex_messages ex_run
    by (simp add: kv_snapshot_def MakePersister_def)
qed (simp add: ex_kv4_def)

text \<open>Replicas agree. Two servers of the same log, however they got to where they are, by
  commands, snapshots and restarts, have the same storage and the same latest requests when
  they have executed the log up to the same index.\<close>

theorem kv_replicas_agree:
  assumes "StartKVServer n i ps mx = Inr kv0" and "kv_snapshot l (snapshot ps)"
    and "messages_of kv_enc kv_exec m0 l (latestAppliedRaftIndex kv0) msgs"
    and "fold_res (applyLoop_msg enc_len) kv0 msgs = Inr kv"
    and "StartKVServer n' i' ps' mx' = Inr kv0'" and "kv_snapshot l (snapshot ps')"
    and "messages_of kv_enc kv_exec m0 l (latestAppliedRaftIndex kv0') msgs'"
    and "fold_res (applyLoop_msg enc_len') kv0' msgs' = Inr kv'"
    and "latestAppliedRaftIndex kv = latestAppliedRaftIndex kv'"
  shows "storage kv = storage kv' \<and> latestAppliedRequest kv = latestAppliedRequest kv'"
  using kv_started_at [OF assms(1-4)] kv_started_at [OF assms(5-8)] assms(9)
  by (simp add: kv_at_def machine_def)

text \<open>A replica that starts from the snapshot of another has the same state.\<close>

definition ex_restarted :: KVServer where
  "ex_restarted = ex_kv4\<lparr>kv_me := 1,
     kv_rf := blankRaft 3 1 \<lparr>raftstate = [], snapshot = serialize ex_kv4\<rparr>\<rparr>"

lemma ex_restart: "StartKVServer 3 1 \<lparr>raftstate = [], snapshot = serialize ex_kv4\<rparr> (-1) = Inr ex_restarted"
  by (simp add: StartKVServer_def Make_empty ReadSnapshot_def ex_restarted_def serialize_def
      ex_kv4_def ex_kv_def)

lemma ex_snapshot: "kv_snapshot ex_log (serialize ex_kv4)"
proof -
  have "kv_at ex_log ex_kv4"
    by (rule kv_started_at [OF ex_kv_start, of ex_log ex_msgs "\<lambda>b. 0"])
      (use ex_messages ex_run in \<open>simp_all add: kv_snapshot_def MakePersister_def ex_kv_def\<close>)
  then show ?thesis
    unfolding kv_snapshot_def kv_at_def
    by (intro disjI2 exI [of _ 4] exI [of _ "machine ex_kv4"])
      (simp add: serialize_def kv_enc_def machine_def ex_kv4_def ex_kv_def)
qed

theorem kv_replicas_agree_witness:
  "storage ex_kv4 = storage ex_restarted \<and> latestAppliedRequest ex_kv4 = latestAppliedRequest ex_restarted"
  using kv_replicas_agree [OF ex_kv_start, of ex_log ex_msgs "\<lambda>b. 0" ex_kv4, OF _ _ _ ex_restart, of "[]"]
    ex_messages ex_run ex_snapshot
  by (simp add: kv_snapshot_def MakePersister_def ex_kv_def ex_kv4_def ex_restarted_def)



section \<open>Replies\<close>




section \<open>An acknowledged write that is lost\<close>

definition ex_leading :: KVServer where
  "ex_leading = ex_kv\<lparr>kv_rf := (blankRaft 3 0 MakePersister)\<lparr>state := leaderState, currentTerm := 1,
     leaderInitDone := True, nextIndex := [1, 1, 1], matchIndex := [0, 0, 0]\<rparr>\<rparr>"

definition ex_put :: PutAppendArgs where
  "ex_put = \<lparr>pa_Key = ''x'', pa_Value = ''v'', pa_Op = ''Put'', pa_ClientId = 7, pa_RequestId = 0\<rparr>"

text \<open>The leader of term 2 has another command at index 1, and has committed it.\<close>

definition ex_overwrite :: "Op AppendEntriesArgs" where
  "ex_overwrite = \<lparr>ae_Term = 2, LeaderId = 1,
     Entries = [\<lparr>le_Term = 2, le_Command = Some (ex_op PUT ''y'' ''w'' 8 0)\<rparr>],
     PrevLogIndex = 0, PrevLogTerm = 0, LeaderCommit = 1\<rparr>"

text \<open>C16: A handler finds its response by log index alone and never compares the command in it
  with its own. A leader that is deposed while \<open>PutAppend\<close> waits, and whose entry at that index
  is replaced by the new leader's, answers \<open>OK\<close> for a write that is in no log: the key is not
  in the storage afterwards.\<close>

theorem PutAppend_acknowledges_lost_write:
  "\<exists>kv1 rf2 reply rf3 kv4 kv5.
     PutAppend_call ex_leading ex_put = Inr (kv1, Waiting 1)
     \<and> AppendEntries (kv_rf kv1) ex_overwrite = Inr (rf2, reply)
     \<and> applyLoop rf2 = Inr rf3
     \<and> kv_applyLoop enc_len (kv1\<lparr>kv_rf := rf3\<rparr>) = Inr kv4
     \<and> PutAppend_return kv4 1 = (kv5, OK)
     \<and> storage kv5 (pa_Key ex_put) = None
     \<and> Some (pa_ClientId ex_put) \<notin> set (map (\<lambda>e. map_option ClientId (le_Command e)) (log rf3))"
  by (simp add: ex_leading_def ex_put_def ex_overwrite_def ex_kv_def ex_op_def PutAppend_call_def
      GetState_def Start_def registerWaitCh_def blankRaft_def getLogLength_def AppendEntries_def
      acceptLeader_def prevMismatch_def getTermOfLog_def slice_def followCommit_def persist_def
      applyLoop_def applyLoop_take_def getLogs_def killed_def applyLoop_done_def commandMsg_def
      kv_applyLoop_def applyLoop_msg_def applyOp_def applyPut_def snapshotIfLarge_def sendWaitCh_def
      recvWaitCh_def PutAppend_return_def latestOf_def touch_def Let_def)

end
