(* ===== verification/KvClerk.thy ===== *)
theory KvClerk
  imports KvRaft
begin

text \<open>
  The client of the key/value service (\<open>kvraft/client.go\<close>). A call of a clerk tries the
  servers in turn until one of them answers, and then moves to the next request number.
  The network is an argument: \<open>call k i args\<close> is what the \<open>k\<close>-th attempt gets from server
  \<open>i\<close>, \<open>None\<close> when the RPC fails. \<open>None\<close> as the result of a call of the clerk is that
  it does not return.
\<close>

record Clerk =
  servers :: nat
  lastLeader :: nat
  clientId :: int
  requestId :: int

definition MakeClerk :: "nat \<Rightarrow> int \<Rightarrow> Clerk" where
  "MakeClerk n nrand = \<lparr>servers = n, lastLeader = 0, clientId = nrand, requestId = 0\<rparr>"

definition IncrementLastLeader :: "Clerk \<Rightarrow> Clerk" where
  "IncrementLastLeader ck =
     (let ck1 = ck\<lparr>lastLeader := lastLeader ck + 1\<rparr>
      in if int (lastLeader ck1) > int (servers ck1) - 1 then ck1\<lparr>lastLeader := 0\<rparr> else ck1)"

text \<open>The loop of both calls; \<open>attempt k i\<close> is the result to return, if the loop ends there.\<close>

partial_function (option) clerkLoop ::
  "(nat \<Rightarrow> nat \<Rightarrow> 'r option) \<Rightarrow> Clerk \<Rightarrow> nat \<Rightarrow> (Clerk \<times> 'r) res option" where
  "clerkLoop attempt ck k =
     (if lastLeader ck < servers ck then
        case attempt k (lastLeader ck) of
          Some r \<Rightarrow> Some (Inr (ck, r))
        | None \<Rightarrow> clerkLoop attempt (IncrementLastLeader ck) (k + 1)
      else Some (Inl IndexPanic))"

declare clerkLoop.simps [code]

definition nextRequest :: "(Clerk \<times> 'r) res option \<Rightarrow> (Clerk \<times> 'r) res option" where
  "nextRequest out =
     map_option (map_sum id (\<lambda>(ck, r). (ck\<lparr>requestId := requestId ck + 1\<rparr>, r))) out"

definition Clerk_Get ::
  "(nat \<Rightarrow> nat \<Rightarrow> GetArgs \<Rightarrow> GetReply option) \<Rightarrow> Clerk \<Rightarrow> string \<Rightarrow> (Clerk \<times> string) res option" where
  "Clerk_Get call ck key =
     nextRequest (clerkLoop (\<lambda>k i.
       case call k i \<lparr>ga_Key = key, ga_ClientId = clientId ck, ga_RequestId = requestId ck\<rparr> of
         None \<Rightarrow> None
       | Some reply \<Rightarrow> if gr_Err reply = OK then Some (gr_Value reply)
                       else if gr_Err reply = ErrNoKey then Some [] else None) ck 0)"

definition Clerk_PutAppend ::
  "(nat \<Rightarrow> nat \<Rightarrow> PutAppendArgs \<Rightarrow> Err option) \<Rightarrow> Clerk \<Rightarrow> string \<Rightarrow> string \<Rightarrow> string \<Rightarrow>
   (Clerk \<times> unit) res option" where
  "Clerk_PutAppend call ck key value op =
     nextRequest (clerkLoop (\<lambda>k i.
       case call k i \<lparr>pa_Key = key, pa_Value = value, pa_Op = op,
                      pa_ClientId = clientId ck, pa_RequestId = requestId ck\<rparr> of
         None \<Rightarrow> None | Some err \<Rightarrow> if err = OK then Some () else None) ck 0)"

definition Clerk_Put ::
  "(nat \<Rightarrow> nat \<Rightarrow> PutAppendArgs \<Rightarrow> Err option) \<Rightarrow> Clerk \<Rightarrow> string \<Rightarrow> string \<Rightarrow> (Clerk \<times> unit) res option" where
  "Clerk_Put call ck key value = Clerk_PutAppend call ck key value ''Put''"

definition Clerk_Append ::
  "(nat \<Rightarrow> nat \<Rightarrow> PutAppendArgs \<Rightarrow> Err option) \<Rightarrow> Clerk \<Rightarrow> string \<Rightarrow> string \<Rightarrow> (Clerk \<times> unit) res option" where
  "Clerk_Append call ck key value = Clerk_PutAppend call ck key value ''Append''"

section \<open>The loop goes round the servers\<close>

lemma IncrementLastLeader_mod:
  "lastLeader ck < servers ck \<Longrightarrow>
   IncrementLastLeader ck = ck\<lparr>lastLeader := (lastLeader ck + 1) mod servers ck\<rparr>"
  by (auto simp: IncrementLastLeader_def Let_def mod_Suc)

lemma clerkLoop_finds:
  assumes "lastLeader ck < servers ck"
    and "attempt (k + m) ((lastLeader ck + m) mod servers ck) = Some r"
    and "\<And>j. j < m \<Longrightarrow> attempt (k + j) ((lastLeader ck + j) mod servers ck) = None"
  shows "clerkLoop attempt ck k = Some (Inr (ck\<lparr>lastLeader := (lastLeader ck + m) mod servers ck\<rparr>, r))"
  using assms
proof (induction m arbitrary: ck k)
  case 0
  then show ?case by (subst clerkLoop.simps) simp
next
  case (Suc m)
  let ?ck = "ck\<lparr>lastLeader := (lastLeader ck + 1) mod servers ck\<rparr>"
  have turn: "(lastLeader ?ck + j) mod servers ?ck = (lastLeader ck + Suc j) mod servers ck" for j
    by (simp add: mod_simps)
  have "clerkLoop attempt ?ck (k + 1) =
      Some (Inr (?ck\<lparr>lastLeader := (lastLeader ?ck + m) mod servers ?ck\<rparr>, r))"
  proof (rule Suc.IH)
    show "lastLeader ?ck < servers ?ck"
      using Suc.prems(1) by simp
    show "attempt (k + 1 + m) ((lastLeader ?ck + m) mod servers ?ck) = Some r"
      using Suc.prems(2) unfolding turn by simp
    show "attempt (k + 1 + j) ((lastLeader ?ck + j) mod servers ?ck) = None" if "j < m" for j
      using Suc.prems(3) [of "Suc j"] that unfolding turn by simp
  qed
  then show ?case
    using Suc.prems(1) Suc.prems(3) [of 0] turn [of m]
    by (subst clerkLoop.simps) (simp add: IncrementLastLeader_mod)
qed

lemma clerkLoop_returns:
  assumes "lastLeader ck < servers ck" and "i < servers ck"
    and "\<And>k'. k' \<ge> t \<Longrightarrow> attempt k' i \<noteq> None"
  shows "\<exists>j r k'. clerkLoop attempt ck k = Some (Inr (ck\<lparr>lastLeader := j\<rparr>, r)) \<and> j < servers ck
     \<and> attempt k' j = Some r"
proof -
  let ?at = "\<lambda>m. attempt (k + m) ((lastLeader ck + m) mod servers ck)"
  let ?m = "t * servers ck + (i + servers ck - lastLeader ck)"
  have "servers ck > 0" using assms(2) by simp
  have "(lastLeader ck + ?m) = i + (t + 1) * servers ck"
    using assms(1) by simp
  then have "(lastLeader ck + ?m) mod servers ck = i"
    using assms(2) by (metis mod_less mod_mult_self1)
  moreover have "k + ?m \<ge> t"
    using \<open>servers ck > 0\<close> by (metis One_nat_def Suc_leI le_add2 mult.right_neutral mult_le_mono2
        order.trans trans_le_add1)
  ultimately have "?at ?m \<noteq> None"
    using assms(3) by simp
  then have ex: "\<exists>m. ?at m \<noteq> None" by blast
  define m where "m = (LEAST m. ?at m \<noteq> None)"
  have "?at m \<noteq> None"
    unfolding m_def by (rule LeastI_ex [OF ex])
  moreover have "?at j = None" if "j < m" for j
    using not_less_Least that unfolding m_def by blast
  ultimately show ?thesis
    using clerkLoop_finds [OF assms(1), of attempt k m] \<open>servers ck > 0\<close> by fastforce
qed

text \<open>A read of a clerk returns. If one server answers every attempt from some time on, as the
  leader does while it can reach a majority, the loop ends, whichever server it starts with and
  whatever the other servers and the network do. The result is that of an answered attempt, the
  clerk moves to the next request number, and keeps its identity.\<close>

theorem Clerk_Get_returns:
  assumes "lastLeader ck < servers ck" and "i < servers ck"
    and "\<And>k. k \<ge> t \<Longrightarrow> \<exists>reply.
      call k i \<lparr>ga_Key = key, ga_ClientId = clientId ck, ga_RequestId = requestId ck\<rparr> = Some reply
      \<and> (gr_Err reply = OK \<or> gr_Err reply = ErrNoKey)"
  shows "\<exists>ck' v k j reply. Clerk_Get call ck key = Some (Inr (ck', v))
     \<and> call k j \<lparr>ga_Key = key, ga_ClientId = clientId ck, ga_RequestId = requestId ck\<rparr> = Some reply
     \<and> (gr_Err reply = OK \<and> v = gr_Value reply \<or> gr_Err reply = ErrNoKey \<and> v = [])
     \<and> ck' = ck\<lparr>lastLeader := j, requestId := requestId ck + 1\<rparr> \<and> j < servers ck"
proof -
  let ?attempt = "\<lambda>k i.
       case call k i \<lparr>ga_Key = key, ga_ClientId = clientId ck, ga_RequestId = requestId ck\<rparr> of
         None \<Rightarrow> None
       | Some reply \<Rightarrow> if gr_Err reply = OK then Some (gr_Value reply)
                       else if gr_Err reply = ErrNoKey then Some [] else None"
  have "?attempt k' i \<noteq> None" if "k' \<ge> t" for k'
    using assms(3) [OF that] by auto
  from clerkLoop_returns [of ck i t ?attempt 0, OF assms(1,2) this]
  obtain j v k' where loop: "clerkLoop ?attempt ck 0 = Some (Inr (ck\<lparr>lastLeader := j\<rparr>, v))"
    and "j < servers ck" and "?attempt k' j = Some v"
    by blast
  moreover from this(3) obtain reply where
    "call k' j \<lparr>ga_Key = key, ga_ClientId = clientId ck, ga_RequestId = requestId ck\<rparr> = Some reply"
    "gr_Err reply = OK \<and> v = gr_Value reply \<or> gr_Err reply = ErrNoKey \<and> v = []"
    by (auto split: option.splits if_splits)
  moreover have "Clerk_Get call ck key =
      Some (Inr (ck\<lparr>lastLeader := j, requestId := requestId ck + 1\<rparr>, v))"
    unfolding Clerk_Get_def loop nextRequest_def by simp
  ultimately show ?thesis by blast
qed

text \<open>Three servers of which only the third answers.\<close>

definition ex_net :: "nat \<Rightarrow> nat \<Rightarrow> GetArgs \<Rightarrow> GetReply option" where
  "ex_net k i args = (if i = 2 then Some \<lparr>gr_Err = OK, gr_Value = ga_Key args\<rparr> else None)"

theorem Clerk_Get_returns_witness:
  "\<exists>ck'. Clerk_Get ex_net (MakeClerk 3 9) ''k'' = Some (Inr (ck', ''k'')) \<and> requestId ck' = 1"
  using Clerk_Get_returns [of "MakeClerk 3 9" 2 0 ex_net "''k''"]
  by (auto simp: MakeClerk_def ex_net_def split: if_splits)

text \<open>A write of a clerk returns under the same condition, and moves to the next number.\<close>

theorem Clerk_PutAppend_returns:
  assumes "lastLeader ck < servers ck" and "i < servers ck"
    and "\<And>k. k \<ge> t \<Longrightarrow> call k i \<lparr>pa_Key = key, pa_Value = v, pa_Op = op,
      pa_ClientId = clientId ck, pa_RequestId = requestId ck\<rparr> = Some OK"
  shows "\<exists>j. Clerk_PutAppend call ck key v op =
     Some (Inr (ck\<lparr>lastLeader := j, requestId := requestId ck + 1\<rparr>, ())) \<and> j < servers ck"
proof -
  let ?attempt = "\<lambda>k i. case call k i \<lparr>pa_Key = key, pa_Value = v, pa_Op = op,
      pa_ClientId = clientId ck, pa_RequestId = requestId ck\<rparr> of
         None \<Rightarrow> None | Some err \<Rightarrow> if err = OK then Some () else None"
  have "?attempt k' i \<noteq> None" if "k' \<ge> t" for k'
    using assms(3) [OF that] by auto
  from clerkLoop_returns [of ck i t ?attempt 0, OF assms(1,2) this]
  obtain j where "clerkLoop ?attempt ck 0 = Some (Inr (ck\<lparr>lastLeader := j\<rparr>, ()))" "j < servers ck"
    by auto
  then show ?thesis
    unfolding Clerk_PutAppend_def nextRequest_def by auto
qed

theorem Clerk_PutAppend_returns_witness:
  "\<exists>j. Clerk_PutAppend (\<lambda>k i args. if i = 1 \<and> k > 5 then Some OK else Some ErrWrongLeader)
       (MakeClerk 3 9) ''k'' ''v'' ''Put'' =
     Some (Inr ((MakeClerk 3 9)\<lparr>lastLeader := j, requestId := 1\<rparr>, ())) \<and> j < 3"
  using Clerk_PutAppend_returns [of "MakeClerk 3 9" 1 6
      "\<lambda>k i args. if i = 1 \<and> k > 5 then Some OK else Some ErrWrongLeader" "''k''" "''v''" "''Put''"]
  by (simp add: MakeClerk_def)

end
