(* ===== verification/ServiceHarness.thy ===== *)
theory ServiceHarness
  imports RaftHarnessSpec
begin

text \<open>
  The test harness of the replicated services (\<open>kvraft/config.go\<close>; \<open>shardctrler/config.go\<close> is the same
  code with another type of servers): servers and clerks on the simulated network, partitions,
  shutting down and starting of servers.

  The type \<open>'sv\<close> of servers is open, and what the harness uses of a server is an argument: \<open>boot\<close> starts
  one from a persister, \<open>rf_of\<close> is its Raft peer. As in \<open>RaftHarness\<close>, a running server holds the
  persister that \<open>saved[i]\<close> points to, and the random end names and the network servers are arguments.
  A \<open>*Clerk\<close> is a number. A server that is shut down goes on with a persister that nothing
  reads any more, so it is dropped. Time limits and printing are left out.
\<close>

section \<open>The configuration\<close>

record ('sv, 'c, 's) svc_config =
  sh_net :: "name Network"
  sh_n :: nat
  sh_servers :: "'sv option list"
  sh_saved :: "('c, 's) Persister option list"
  sh_endnames :: "string list option list"
  sh_clerks :: "nat \<rightharpoonup> string list"
  sh_nextClientId :: nat
  sh_rpcs0 :: int
  sh_ops :: "32 word"

section \<open>Connections\<close>

definition svcEnd :: "('sv, 'c, 's) svc_config \<Rightarrow> nat \<Rightarrow> nat \<Rightarrow> string res" where
  "svcEnd cfg i j =
     and_then (nth_res (sh_endnames cfg) i) (\<lambda>ns. case ns of None \<Rightarrow> Inl IndexPanic | Some names \<Rightarrow> nth_res names j)"

definition svcEnable :: "('sv, 'c, 's) svc_config \<Rightarrow> bool \<Rightarrow> name Network \<Rightarrow> nat \<Rightarrow> nat \<Rightarrow> name Network res" where
  "svcEnable cfg yes rn i j = and_then (svcEnd cfg i j) (\<lambda>e. Inr (Enable rn (EndName e) yes))"

definition connectUnlocked :: "('sv, 'c, 's) svc_config \<Rightarrow> nat \<Rightarrow> nat list \<Rightarrow> ('sv, 'c, 's) svc_config res" where
  "connectUnlocked cfg i to =
     and_then (fold_res (\<lambda>rn k. svcEnable cfg True rn i k) (sh_net cfg) to) (\<lambda>rn1.
     and_then (fold_res (\<lambda>rn k. svcEnable cfg True rn k i) rn1 to) (\<lambda>rn2.
       Inr (cfg\<lparr>sh_net := rn2\<rparr>)))"

text \<open>The second loop tests the names of server \<open>j\<close>, the position in the list, and not those of server \<open>from[j]\<close>.\<close>

definition disconnectUnlocked :: "('sv, 'c, 's) svc_config \<Rightarrow> nat \<Rightarrow> nat list \<Rightarrow> ('sv, 'c, 's) svc_config res" where
  "disconnectUnlocked cfg i from =
     and_then (fold_res (\<lambda>rn j. and_then (nth_res (sh_endnames cfg) i) (\<lambda>ns.
         if ns \<noteq> None then svcEnable cfg False rn i (from ! j) else Inr rn)) (sh_net cfg) [0..<length from]) (\<lambda>rn1.
     and_then (fold_res (\<lambda>rn j. and_then (nth_res (sh_endnames cfg) j) (\<lambda>ns.
         if ns \<noteq> None then svcEnable cfg False rn (from ! j) i else Inr rn)) rn1 [0..<length from]) (\<lambda>rn2.
       Inr (cfg\<lparr>sh_net := rn2\<rparr>)))"

definition AllServers :: "('sv, 'c, 's) svc_config \<Rightarrow> nat list" where
  "AllServers cfg = [0..<sh_n cfg]"

definition ConnectAll :: "('sv, 'c, 's) svc_config \<Rightarrow> ('sv, 'c, 's) svc_config res" where
  "ConnectAll cfg = fold_res (\<lambda>c i. connectUnlocked c i (AllServers c)) cfg [0..<sh_n cfg]"

definition regroup :: "nat list \<Rightarrow> nat list \<Rightarrow> ('sv, 'c, 's) svc_config \<Rightarrow> nat \<Rightarrow> ('sv, 'c, 's) svc_config res" where
  "regroup own other cfg i = and_then (disconnectUnlocked cfg i other) (\<lambda>cfg1. connectUnlocked cfg1 i own)"

definition svc_partition :: "('sv, 'c, 's) svc_config \<Rightarrow> nat list \<Rightarrow> nat list \<Rightarrow> ('sv, 'c, 's) svc_config res" where
  "svc_partition cfg p1 p2 =
     and_then (fold_res (regroup p1 p2) cfg p1) (\<lambda>cfg1. fold_res (regroup p2 p1) cfg1 p2)"

section \<open>Clerks\<close>

definition enableClerkEnds :: "bool \<Rightarrow> ('sv, 'c, 's) svc_config \<Rightarrow> nat \<Rightarrow> nat list \<Rightarrow> ('sv, 'c, 's) svc_config res" where
  "enableClerkEnds yes cfg ck js =
     (let names = (case sh_clerks cfg ck of None \<Rightarrow> [] | Some ns \<Rightarrow> ns)
      in and_then (fold_res (\<lambda>rn j. and_then (nth_res names j) (\<lambda>s. Inr (Enable rn (EndName s) yes))) (sh_net cfg) js) (\<lambda>rn.
           Inr (cfg\<lparr>sh_net := rn\<rparr>)))"

definition ConnectClientUnlocked :: "('sv, 'c, 's) svc_config \<Rightarrow> nat \<Rightarrow> nat list \<Rightarrow> ('sv, 'c, 's) svc_config res" where
  "ConnectClientUnlocked cfg ck to = enableClerkEnds True cfg ck to"

definition DisconnectClientUnlocked :: "('sv, 'c, 's) svc_config \<Rightarrow> nat \<Rightarrow> nat list \<Rightarrow> ('sv, 'c, 's) svc_config res" where
  "DisconnectClientUnlocked cfg ck from = enableClerkEnds False cfg ck from"

text \<open>The shuffled ends of a clerk; \<open>rand.Intn(i + 1)\<close> is the remainder of \<open>rand i\<close>.\<close>

definition random_handles :: "(nat \<Rightarrow> nat) \<Rightarrow> 'a list \<Rightarrow> 'a list" where
  "random_handles rand kvh =
     foldl (\<lambda>sa i. let j = rand i mod (i + 1) in sa[i := sa ! j, j := sa ! i]) kvh [0..<length kvh]"

text \<open>The result has the ends that \<open>MakeClerk\<close> gets.\<close>

definition makeClient ::
  "('sv, 'c, 's) svc_config \<Rightarrow> nat list \<Rightarrow> nat \<Rightarrow> (nat \<Rightarrow> string) \<Rightarrow> (nat \<Rightarrow> nat) \<Rightarrow> (('sv, 'c, 's) svc_config \<times> name list) res" where
  "makeClient cfg to ck names rand =
     and_then (fold_res (makeEnd names) (sh_net cfg) [0..<sh_n cfg]) (\<lambda>rn.
       let newnames = map names [0..<sh_n cfg];
           handles = random_handles rand (map EndName newnames);
           cfg1 = cfg\<lparr>sh_net := rn, sh_clerks := (sh_clerks cfg)(ck \<mapsto> newnames), sh_nextClientId := sh_nextClientId cfg + 1\<rparr>
       in and_then (ConnectClientUnlocked cfg1 ck to) (\<lambda>cfg2. Inr (cfg2, handles)))"

text \<open>The names are no files, so that \<open>os.Remove\<close> does nothing.\<close>

definition deleteClient :: "('sv, 'c, 's) svc_config \<Rightarrow> nat \<Rightarrow> ('sv, 'c, 's) svc_config" where
  "deleteClient cfg ck = cfg\<lparr>sh_clerks := (sh_clerks cfg)(ck := None)\<rparr>"

section \<open>Servers\<close>

definition svcSaved :: "('sv \<Rightarrow> ('c, 's) Raft) \<Rightarrow> ('sv, 'c, 's) svc_config \<Rightarrow> nat \<Rightarrow> ('c, 's) Persister option" where
  "svcSaved rf_of cfg i = (case sh_servers cfg ! i of Some sv \<Rightarrow> Some (persister (rf_of sv)) | None \<Rightarrow> sh_saved cfg ! i)"

definition maxSaved :: "(('c, 's) Persister \<Rightarrow> nat) \<Rightarrow> ('sv \<Rightarrow> ('c, 's) Raft) \<Rightarrow> ('sv, 'c, 's) svc_config \<Rightarrow> nat res" where
  "maxSaved measure_of rf_of cfg =
     fold_res (\<lambda>m i. case svcSaved rf_of cfg i of None \<Rightarrow> Inl NilPanic
       | Some ps \<Rightarrow> Inr (if measure_of ps > m then measure_of ps else m)) 0 [0..<sh_n cfg]"

definition svc_LogSize :: "('c gob list \<Rightarrow> nat) \<Rightarrow> ('sv \<Rightarrow> ('c, 's) Raft) \<Rightarrow> ('sv, 'c, 's) svc_config \<Rightarrow> nat res" where
  "svc_LogSize enc_len = maxSaved (RaftStateSize enc_len)"

definition svc_SnapshotSize :: "('sv \<Rightarrow> ('c, 's) Raft) \<Rightarrow> ('sv, 'c, 's) svc_config \<Rightarrow> nat res" where
  "svc_SnapshotSize = maxSaved SnapshotSize"

definition ShutdownServer :: "('sv \<Rightarrow> ('c, 's) Raft) \<Rightarrow> ('sv, 'c, 's) svc_config \<Rightarrow> nat \<Rightarrow> ('sv, 'c, 's) svc_config res" where
  "ShutdownServer rf_of cfg i =
     and_then (disconnectUnlocked cfg i (AllServers cfg)) (\<lambda>cfg1.
       let rn = DeleteServer (sh_net cfg1) (ServerName i)
       in and_then (set_res (sh_saved cfg1) i (map_option Copy (svcSaved rf_of cfg1 i))) (\<lambda>sv.
          and_then (set_res (sh_servers cfg1) i None) (\<lambda>srvs.
            Inr (cfg1\<lparr>sh_net := rn, sh_saved := sv, sh_servers := srvs\<rparr>))))"

definition svc_StartServer ::
  "(nat \<Rightarrow> nat \<Rightarrow> ('c, 's) Persister \<Rightarrow> 'sv res) \<Rightarrow> ('sv \<Rightarrow> ('c, 's) Raft) \<Rightarrow>
   ('sv, 'c, 's) svc_config \<Rightarrow> nat \<Rightarrow> (nat \<Rightarrow> string) \<Rightarrow> pointer \<Rightarrow> ('sv, 'c, 's) svc_config res" where
  "svc_StartServer boot rf_of cfg i names srv =
     and_then (set_res (sh_endnames cfg) i (Some (map names [0..<sh_n cfg]))) (\<lambda>eps.
     and_then (fold_res (makeEnd names) (sh_net cfg) [0..<sh_n cfg]) (\<lambda>rn.
       let ps = (case svcSaved rf_of cfg i of Some old \<Rightarrow> Copy old | None \<Rightarrow> MakePersister)
       in and_then (set_res (sh_saved cfg) i (Some ps)) (\<lambda>sv.
          and_then (boot (sh_n cfg) i ps) (\<lambda>server.
          and_then (set_res (sh_servers cfg) i (Some server)) (\<lambda>srvs.
            Inr (cfg\<lparr>sh_endnames := eps, sh_saved := sv, sh_servers := srvs,
                     sh_net := AddServer rn (ServerName i) srv\<rparr>))))))"

definition empty_svc_config :: "nat \<Rightarrow> ('sv, 'c, 's) svc_config" where
  "empty_svc_config n =
     \<lparr>sh_net = MakeNetwork, sh_n = n, sh_servers = replicate n None, sh_saved = replicate n None,
      sh_endnames = replicate n None, sh_clerks = Map.empty, sh_nextClientId = n + 1000, sh_rpcs0 = 0, sh_ops = 0\<rparr>"

definition svc_make_config ::
  "(nat \<Rightarrow> nat \<Rightarrow> ('c, 's) Persister \<Rightarrow> 'sv res) \<Rightarrow> ('sv \<Rightarrow> ('c, 's) Raft) \<Rightarrow> nat \<Rightarrow> bool \<Rightarrow>
   (nat \<Rightarrow> nat \<Rightarrow> string) \<Rightarrow> (nat \<Rightarrow> pointer) \<Rightarrow> ('sv, 'c, 's) svc_config res" where
  "svc_make_config boot rf_of n unreliable names srv =
     and_then (fold_res (\<lambda>cfg i. svc_StartServer boot rf_of cfg i (names i) (srv i)) (empty_svc_config n) [0..<n]) (\<lambda>cfg.
     and_then (ConnectAll cfg) (\<lambda>cfg1.
       Inr (cfg1\<lparr>sh_net := Reliable (sh_net cfg1) (\<not> unreliable)\<rparr>)))"

definition svc_cleanup :: "('sv \<Rightarrow> 'sv) \<Rightarrow> ('sv, 'c, 's) svc_config \<Rightarrow> ('sv, 'c, 's) svc_config res" where
  "svc_cleanup kill cfg =
     and_then (Cleanup (sh_net cfg)) (\<lambda>rn.
       Inr (cfg\<lparr>sh_servers := map (map_option kill) (sh_servers cfg), sh_net := rn\<rparr>))"

definition svc_begin :: "('sv, 'c, 's) svc_config \<Rightarrow> ('sv, 'c, 's) svc_config" where
  "svc_begin cfg = cfg\<lparr>sh_rpcs0 := GetTotalCount (sh_net cfg), sh_ops := 0\<rparr>"

definition svc_op :: "('sv, 'c, 's) svc_config \<Rightarrow> ('sv, 'c, 's) svc_config" where
  "svc_op cfg = cfg\<lparr>sh_ops := sh_ops cfg + 1\<rparr>"

section \<open>Leaders and partitions\<close>

text \<open>\<open>Leader\<close> of \<open>kvraft\<close>: a server that is shut down panics, as in a call through a nil pointer.\<close>

fun leaderFrom :: "('sv \<Rightarrow> ('c, 's) Raft) \<Rightarrow> nat \<Rightarrow> 'sv option list \<Rightarrow> (bool \<times> nat) res" where
  "leaderFrom rf_of i [] = Inr (False, 0)"
| "leaderFrom rf_of i (None # rest) = Inl NilPanic"
| "leaderFrom rf_of i (Some sv # rest) =
     (if snd (GetState (rf_of sv)) then Inr (True, i) else leaderFrom rf_of (i + 1) rest)"

definition Leader :: "('sv \<Rightarrow> ('c, 's) Raft) \<Rightarrow> ('sv, 'c, 's) svc_config \<Rightarrow> (bool \<times> nat) res" where
  "Leader rf_of cfg = leaderFrom rf_of 0 (sh_servers cfg)"

text \<open>The state of the loop of \<open>make_partition\<close> is the two slices and \<open>j\<close>.\<close>

definition placeServer :: "nat \<Rightarrow> nat list \<times> nat list \<times> nat \<Rightarrow> nat \<Rightarrow> (nat list \<times> nat list \<times> nat) res" where
  "placeServer l st i =
     (let (p1, p2, j) = st
      in if i \<noteq> l then
           if j < length p1 then and_then (set_res p1 j i) (\<lambda>p1'. Inr (p1', p2, j + 1))
           else and_then (set_res p2 (j - length p1) i) (\<lambda>p2'. Inr (p1, p2', j + 1))
         else Inr st)"

definition splitServers :: "nat \<Rightarrow> nat \<Rightarrow> (nat list \<times> nat list) res" where
  "splitServers n l =
     and_then (fold_res (placeServer l) (replicate (n div 2 + 1) 0, replicate (n div 2) 0, 0) [0..<n]) (\<lambda>(p1, p2, j).
     and_then (update_res p2 (int (length p2) - 1) l) (\<lambda>p2'. Inr (p1, p2')))"

definition make_partition :: "('sv \<Rightarrow> ('c, 's) Raft) \<Rightarrow> ('sv, 'c, 's) svc_config \<Rightarrow> (nat list \<times> nat list) res" where
  "make_partition rf_of cfg = and_then (Leader rf_of cfg) (\<lambda>(_, l). splitServers (sh_n cfg) l)"

end
