(* ===== verification/ServiceHarnessSpec.thy ===== *)
theory ServiceHarnessSpec
  imports ServiceHarness
begin

text \<open>
  Which ends of the network lead where and are enabled: the invariant of the test harness of the
  services, what a partition does to it, and that every operation keeps it.
\<close>

section \<open>Names of ends\<close>

text \<open>The names of the ends of a server (\<open>Inl\<close>) and of a clerk (\<open>Inr\<close>), by the server they lead to.\<close>

type_synonym 'k naming = "'k \<Rightarrow> string list option"

definition end_at :: "'k naming \<Rightarrow> 'k \<Rightarrow> nat \<Rightarrow> string \<Rightarrow> bool" where
  "end_at nm src j e \<longleftrightarrow> (\<exists>ns. nm src = Some ns \<and> j < length ns \<and> ns ! j = e)"

definition names_ok :: "nat \<Rightarrow> name Network \<Rightarrow> 'k naming \<Rightarrow> bool" where
  "names_ok n rn nm \<longleftrightarrow> (\<forall>src ns. nm src = Some ns \<longrightarrow> length ns = n)
     \<and> (\<forall>src j e. end_at nm src j e \<longrightarrow> EndName e \<in> ends rn \<and> connections rn (EndName e) = Some (Some (ServerName j)))
     \<and> (\<forall>src j src' j' e. end_at nm src j e \<longrightarrow> end_at nm src' j' e \<longrightarrow> src' = src \<and> j' = j)
     \<and> (\<forall>x. isEnabled rn x \<longrightarrow> x \<in> ends rn)"

lemma names_okD:
  assumes "names_ok n rn nm"
  shows "nm src = Some ns \<Longrightarrow> length ns = n"
    "end_at nm src j e \<Longrightarrow> EndName e \<in> ends rn \<and> connections rn (EndName e) = Some (Some (ServerName j))"
    "end_at nm src j e \<Longrightarrow> end_at nm src' j' e \<Longrightarrow> src' = src \<and> j' = j"
    "isEnabled rn x \<Longrightarrow> x \<in> ends rn"
  using assms [unfolded names_ok_def, THEN conjunct1] assms [unfolded names_ok_def, THEN conjunct2, THEN conjunct1]
    assms [unfolded names_ok_def, THEN conjunct2, THEN conjunct2, THEN conjunct1]
    assms [unfolded names_ok_def, THEN conjunct2, THEN conjunct2, THEN conjunct2]
  by - (drule spec, blast | blast)+

lemma names_okI:
  assumes "\<And>src ns. nm src = Some ns \<Longrightarrow> length ns = n"
    and "\<And>src j e. end_at nm src j e \<Longrightarrow> EndName e \<in> ends rn \<and> connections rn (EndName e) = Some (Some (ServerName j))"
    and "\<And>src j src' j' e. end_at nm src j e \<Longrightarrow> end_at nm src' j' e \<Longrightarrow> src' = src \<and> j' = j"
    and "\<And>x. isEnabled rn x \<Longrightarrow> x \<in> ends rn"
  shows "names_ok n rn nm"
  unfolding names_ok_def
proof (intro conjI allI impI)
  show "src' = src" "j' = j" if "end_at nm src j e" "end_at nm src' j' e" for src j src' j' e
    using assms(3) [OF that] by simp_all
qed (use assms(1,2,4) in simp_all)

lemma names_ok_net:
  assumes "names_ok n rn nm" and "ends rn' = ends rn" and "connections rn' = connections rn"
    and "\<And>x. isEnabled rn' x \<Longrightarrow> isEnabled rn x \<or> x \<in> ends rn"
  shows "names_ok n rn' nm"
proof (rule names_okI)
  show "x \<in> ends rn'" if "isEnabled rn' x" for x
    using assms(2) assms(4) [OF that] names_okD(4) [OF assms(1)] by auto
qed (use names_okD(1-3) [OF assms(1)] assms(2,3) in simp_all)

lemma names_ok_forget:
  assumes "names_ok n rn nm"
  shows "names_ok n rn (nm(src := None))"
proof -
  have at: "end_at (nm(src := None)) k j e \<Longrightarrow> end_at nm k j e" for k j e
    by (auto simp: end_at_def split: if_splits)
  show ?thesis
  proof (rule names_okI)
    show "length ns = n" if "(nm(src := None)) k = Some ns" for k ns
      using that names_okD(1) [OF assms] by (auto split: if_splits)
    show "k' = k \<and> j' = j" if "end_at (nm(src := None)) k j e" "end_at (nm(src := None)) k' j' e" for k j k' j' e
      by (rule names_okD(3) [OF assms at [OF that(1)] at [OF that(2)]])
  qed (use at names_okD(2,4) [OF assms] in blast)+
qed

lemma names_ok_new:
  assumes ok: "names_ok n rn nm" and f: "fold_res (makeEnd names) rn [0..<n] = Inr rn'"
  shows "names_ok n rn' (nm(src := Some (map names [0..<n])))"
proof -
  let ?nm = "nm(src := Some (map names [0..<n]))"
  note m = makeEnd_fold [OF f]
  have at: "end_at ?nm k j e \<longleftrightarrow> (if k = src then j < n \<and> e = names j else end_at nm k j e)" for k j e
    by (auto simp: end_at_def)
  have old: "EndName e \<notin> made names n" if "end_at nm k j e" for k j e
    using m names_okD(2) [OF ok that] by auto
  have new: "EndName (names j) \<in> made names n" if "j < n" for j using that by (simp add: made_def)
  have leads: "EndName e \<in> ends rn' \<and> connections rn' (EndName e) = Some (Some (ServerName j))" if "end_at ?nm k j e" for k j e
  proof (cases "k = src")
    case True
    then show ?thesis using that at [of k j e] m new by auto
  next
    case False
    then have "end_at nm k j e" using that at by simp
    then show ?thesis using m names_okD(2) [OF ok] old by auto
  qed
  have once: "k' = k \<and> j' = j" if "end_at ?nm k j e" "end_at ?nm k' j' e" for k j k' j' e
  proof (cases "k = src \<or> k' = src")
    case True
    then have "k = src \<and> k' = src" using that at old new by metis
    then have "j < n" "j' < n" "names j = names j'" using that at by auto
    then show ?thesis using m \<open>k = src \<and> k' = src\<close> by (auto dest: inj_onD)
  qed (use that at names_okD(3) [OF ok] in auto)
  show ?thesis
  proof (rule names_okI [OF _ leads once])
    show "x \<in> ends rn'" if "isEnabled rn' x" for x
      using that m names_okD(4) [OF ok] by blast
    show "length ns = n" if "?nm k = Some ns" for k ns
      using that names_okD(1) [OF ok] by (auto split: if_splits)
  qed
qed

section \<open>The invariant\<close>

definition naming :: "('sv, 'c, 's) svc_config \<Rightarrow> (nat + nat) naming" where
  "naming cfg src = (case src of Inl i \<Rightarrow> if i < length (sh_endnames cfg) then sh_endnames cfg ! i else None
     | Inr ck \<Rightarrow> sh_clerks cfg ck)"

definition svc_ok :: "nat \<Rightarrow> ('sv, 'c, 's) svc_config \<Rightarrow> bool" where
  "svc_ok n cfg \<longleftrightarrow> sh_n cfg = n \<and> length (sh_endnames cfg) = n \<and> length (sh_servers cfg) = n \<and> length (sh_saved cfg) = n
     \<and> names_ok n (sh_net cfg) (naming cfg)"

text \<open>Every server has been started.\<close>

definition svc_ready :: "nat \<Rightarrow> ('sv, 'c, 's) svc_config \<Rightarrow> bool" where
  "svc_ready n cfg \<longleftrightarrow> svc_ok n cfg \<and> None \<notin> set (sh_endnames cfg)"

lemma svcEnd_iff: "svcEnd cfg i j = Inr e \<longleftrightarrow> end_at (naming cfg) (Inl i) j e"
  by (auto simp: svcEnd_def end_at_def naming_def nth_res_def split: option.splits)

lemma svc_ready_end:
  assumes "svc_ready n cfg" and "i < n" and "j < n"
  shows "\<exists>e. svcEnd cfg i j = Inr e"
proof -
  have i: "i < length (sh_endnames cfg)" and none: "None \<notin> set (sh_endnames cfg)"
    using assms by (simp_all add: svc_ready_def svc_ok_def)
  then have "sh_endnames cfg ! i \<noteq> None" by (metis nth_mem)
  then obtain ns where "naming cfg (Inl i) = Some ns" using i by (auto simp: naming_def)
  moreover from this have "length ns = n" using assms(1) names_okD(1) by (auto simp: svc_ready_def svc_ok_def)
  ultimately show ?thesis using assms(3) by (auto simp: svcEnd_iff end_at_def)
qed

lemma svc_ready_bound:
  assumes "svc_ready n cfg" and "svcEnd cfg i j = Inr e"
  shows "i < n \<and> j < n"
proof -
  have ok: "svc_ok n cfg" and e: "end_at (naming cfg) (Inl i) j e" using assms by (simp_all add: svc_ready_def svcEnd_iff)
  obtain ns where ns: "naming cfg (Inl i) = Some ns" "j < length ns" using e by (auto simp: end_at_def)
  then have "length ns = n" using ok names_okD(1) by (auto simp: svc_ok_def)
  moreover have "i < n" using ns(1) ok by (auto simp: naming_def svc_ok_def split: if_splits)
  ultimately show ?thesis using ns(2) by simp
qed

section \<open>Enabling and disabling\<close>

text \<open>Configurations that differ in nothing but which ends of servers are enabled.\<close>

definition relinked :: "('sv, 'c, 's) svc_config \<Rightarrow> ('sv, 'c, 's) svc_config \<Rightarrow> bool" where
  "relinked cfg cfg' \<longleftrightarrow> (\<exists>en. cfg' = cfg\<lparr>sh_net := (sh_net cfg)\<lparr>enabled := en\<rparr>\<rparr>)
     \<and> (\<forall>x. (\<forall>i j e. svcEnd cfg i j = Inr e \<longrightarrow> x \<noteq> EndName e) \<longrightarrow> isEnabled (sh_net cfg') x = isEnabled (sh_net cfg) x)"

lemma relinked_simps:
  assumes "relinked cfg cfg'"
  shows "sh_n cfg' = sh_n cfg" "sh_servers cfg' = sh_servers cfg" "sh_saved cfg' = sh_saved cfg" "sh_endnames cfg' = sh_endnames cfg"
    "sh_clerks cfg' = sh_clerks cfg" "servers (sh_net cfg') = servers (sh_net cfg)" "ends (sh_net cfg') = ends (sh_net cfg)"
    "connections (sh_net cfg') = connections (sh_net cfg)" "naming cfg' = naming cfg" "svcEnd cfg' i j = svcEnd cfg i j"
proof -
  obtain en where cfg': "cfg' = cfg\<lparr>sh_net := (sh_net cfg)\<lparr>enabled := en\<rparr>\<rparr>"
    using assms unfolding relinked_def by blast
  show "naming cfg' = naming cfg" by (simp add: cfg' fun_eq_iff naming_def split: sum.split)
qed (use assms in \<open>auto simp: relinked_def svcEnd_def\<close>)

lemma relinked_refl: "relinked cfg cfg"
proof -
  have "cfg = cfg\<lparr>sh_net := (sh_net cfg)\<lparr>enabled := enabled (sh_net cfg)\<rparr>\<rparr>" by simp
  then show ?thesis unfolding relinked_def by blast
qed

lemma relinked_trans:
  assumes "relinked cfg cfg1" and "relinked cfg1 cfg2"
  shows "relinked cfg cfg2"
proof -
  obtain en1 en2 where "cfg1 = cfg\<lparr>sh_net := (sh_net cfg)\<lparr>enabled := en1\<rparr>\<rparr>"
    "cfg2 = cfg1\<lparr>sh_net := (sh_net cfg1)\<lparr>enabled := en2\<rparr>\<rparr>"
    using assms unfolding relinked_def by blast
  then have "cfg2 = cfg\<lparr>sh_net := (sh_net cfg)\<lparr>enabled := en2\<rparr>\<rparr>" by simp
  moreover have "isEnabled (sh_net cfg2) x = isEnabled (sh_net cfg) x" if "\<forall>i j e. svcEnd cfg i j = Inr e \<longrightarrow> x \<noteq> EndName e" for x
    using that assms relinked_simps(10) [OF assms(1)] by (simp add: relinked_def)
  ultimately show ?thesis by (auto simp: relinked_def)
qed

lemma relinked_ok:
  assumes "relinked cfg cfg'" and "svc_ok n cfg"
  shows "svc_ok n cfg'"
proof -
  have "isEnabled (sh_net cfg) x \<or> x \<in> ends (sh_net cfg)" if "isEnabled (sh_net cfg') x" for x
  proof (cases "\<forall>i j e. svcEnd cfg i j = Inr e \<longrightarrow> x \<noteq> EndName e")
    case False
    then obtain i j e where "end_at (naming cfg) (Inl i) j e" "x = EndName e" by (auto simp: svcEnd_iff)
    moreover have "names_ok n (sh_net cfg) (naming cfg)" using assms(2) by (simp add: svc_ok_def)
    ultimately show ?thesis using names_okD(2) by metis
  qed (use that assms(1) in \<open>simp add: relinked_def\<close>)
  then show ?thesis
    using assms(2) names_ok_net [of n "sh_net cfg" "naming cfg" "sh_net cfg'"] by (simp add: svc_ok_def relinked_simps [OF assms(1)])
qed

lemma relinked_ready: "relinked cfg cfg' \<Longrightarrow> svc_ready n cfg \<Longrightarrow> svc_ready n cfg'"
  using relinked_ok by (auto simp: svc_ready_def relinked_simps)

lemma svcEnable_fold:
  assumes "fold_res (\<lambda>rn k. svcEnable cfg yes rn (a k) (b k)) rn ks = Inr rn'"
  shows "\<exists>en. rn' = rn\<lparr>enabled := en\<rparr>"
    and "isEnabled rn' x \<longleftrightarrow> (if \<exists>k \<in> set ks. \<exists>e. x = EndName e \<and> svcEnd cfg (a k) (b k) = Inr e then yes else isEnabled rn x)"
    and "k \<in> set ks \<Longrightarrow> \<exists>e. svcEnd cfg (a k) (b k) = Inr e"
proof -
  have "(\<exists>en. rn' = rn\<lparr>enabled := en\<rparr>)
    \<and> (\<forall>x. isEnabled rn' x \<longleftrightarrow> (if \<exists>k \<in> set ks. \<exists>e. x = EndName e \<and> svcEnd cfg (a k) (b k) = Inr e then yes else isEnabled rn x))
    \<and> (\<forall>k \<in> set ks. \<exists>e. svcEnd cfg (a k) (b k) = Inr e)"
    using assms
  proof (induction ks arbitrary: rn)
    case Nil
    have "rn = rn\<lparr>enabled := enabled rn\<rparr>" by simp
    then have "\<exists>en. rn = rn\<lparr>enabled := en\<rparr>" by (rule exI [of _ "enabled rn"])
    then show ?case using Nil by simp
  next
    case (Cons k ks)
    then obtain e where e: "svcEnd cfg (a k) (b k) = Inr e"
      and r: "fold_res (\<lambda>rn k. svcEnable cfg yes rn (a k) (b k)) (Enable rn (EndName e) yes) ks = Inr rn'"
      by (auto simp: svcEnable_def)
    show ?case
      using Cons.IH [OF r] e by (auto simp: Enable_def isEnabled_def)
  qed
  then show "\<exists>en. rn' = rn\<lparr>enabled := en\<rparr>"
    "isEnabled rn' x \<longleftrightarrow> (if \<exists>k \<in> set ks. \<exists>e. x = EndName e \<and> svcEnd cfg (a k) (b k) = Inr e then yes else isEnabled rn x)"
    "k \<in> set ks \<Longrightarrow> \<exists>e. svcEnd cfg (a k) (b k) = Inr e"
    by blast+
qed

lemma svcEnable_total:
  "(\<And>k. k \<in> set ks \<Longrightarrow> \<exists>e. svcEnd cfg (a k) (b k) = Inr e) \<Longrightarrow> \<exists>rn'. fold_res (\<lambda>rn k. svcEnable cfg yes rn (a k) (b k)) rn ks = Inr rn'"
proof (induction ks arbitrary: rn)
  case (Cons k ks)
  then obtain e where "svcEnd cfg (a k) (b k) = Inr e" by fastforce
  then show ?case using Cons by (simp add: svcEnable_def)
qed simp

section \<open>Which servers can talk\<close>

definition linked :: "('sv, 'c, 's) svc_config \<Rightarrow> nat \<Rightarrow> nat \<Rightarrow> bool" where
  "linked cfg i j \<longleftrightarrow> (\<exists>e. svcEnd cfg i j = Inr e \<and> isEnabled (sh_net cfg) (EndName e))"

definition cross :: "nat \<Rightarrow> nat list \<Rightarrow> (nat \<times> nat) set" where
  "cross i ks = {i} \<times> set ks \<union> set ks \<times> {i}"

lemma enable_cross:
  assumes ok: "svc_ok n cfg"
    and f1: "fold_res (\<lambda>rn k. svcEnable cfg yes rn i (g k)) (sh_net cfg) ks = Inr rn1"
    and f2: "fold_res (\<lambda>rn k. svcEnable cfg yes rn (g k) i) rn1 ks = Inr rn2"
  shows "relinked cfg (cfg\<lparr>sh_net := rn2\<rparr>)"
    and "linked (cfg\<lparr>sh_net := rn2\<rparr>) a b \<longleftrightarrow> (if (a, b) \<in> cross i (map g ks) then yes else linked cfg a b)"
proof -
  note e1 = svcEnable_fold [OF f1] and e2 = svcEnable_fold [OF f2]
  obtain en1 en2 where rn: "rn2 = (sh_net cfg)\<lparr>enabled := en1\<rparr>\<lparr>enabled := en2\<rparr>" using e1(1) e2(1) by auto
  have ex: "(\<exists>c d. (c, d) \<in> cross i (map g ks) \<and> svcEnd cfg c d = Inr e) \<longleftrightarrow>
      (\<exists>k \<in> set ks. svcEnd cfg i (g k) = Inr e) \<or> (\<exists>k \<in> set ks. svcEnd cfg (g k) i = Inr e)" for e
    by (auto simp: cross_def)
  have en: "isEnabled rn2 (EndName e) \<longleftrightarrow>
      (if \<exists>c d. (c, d) \<in> cross i (map g ks) \<and> svcEnd cfg c d = Inr e then yes else isEnabled (sh_net cfg) (EndName e))" for e
    unfolding ex using e2(2) [of "EndName e"] e1(2) [of "EndName e"] by simp
  have "isEnabled rn2 x = isEnabled (sh_net cfg) x" if "\<forall>i j e. svcEnd cfg i j = Inr e \<longrightarrow> x \<noteq> EndName e" for x
    using e2(2) [of x] e1(2) [of x] that by auto
  then show "relinked cfg (cfg\<lparr>sh_net := rn2\<rparr>)" unfolding relinked_def rn by auto
  have "svcEnd (cfg\<lparr>sh_net := rn2\<rparr>) a b = svcEnd cfg a b" by (simp add: svcEnd_def)
  moreover have "\<exists>e. svcEnd cfg a b = Inr e" if "(a, b) \<in> cross i (map g ks)"
    using that e1(3) e2(3) by (auto simp: cross_def)
  moreover have "(c, d) = (a, b)" if "svcEnd cfg c d = Inr e" "svcEnd cfg a b = Inr e" for c d e
    using that ok names_okD(3) [of n "sh_net cfg" "naming cfg" "Inl a" b e "Inl c" d] by (simp add: svcEnd_iff svc_ok_def)
  ultimately show "linked (cfg\<lparr>sh_net := rn2\<rparr>) a b \<longleftrightarrow> (if (a, b) \<in> cross i (map g ks) then yes else linked cfg a b)"
    using en unfolding linked_def by (simp split: if_split) blast
qed

lemma connectUnlocked_links:
  assumes "connectUnlocked cfg i to = Inr cfg'" and "svc_ok n cfg"
  shows "relinked cfg cfg'" "linked cfg' a b \<longleftrightarrow> (a, b) \<in> cross i to \<or> linked cfg a b"
proof -
  obtain rn1 rn2 where "fold_res (\<lambda>rn k. svcEnable cfg True rn i k) (sh_net cfg) to = Inr rn1"
    "fold_res (\<lambda>rn k. svcEnable cfg True rn k i) rn1 to = Inr rn2" and cfg': "cfg' = cfg\<lparr>sh_net := rn2\<rparr>"
    using assms(1) by (auto simp: connectUnlocked_def)
  note e = enable_cross [where g = "\<lambda>k. k", OF assms(2) this(1,2), folded cfg']
  show "relinked cfg cfg'" "linked cfg' a b \<longleftrightarrow> (a, b) \<in> cross i to \<or> linked cfg a b"
    using e by simp_all
qed

lemma guard_started:
  assumes "None \<notin> set eps" and "fold_res (\<lambda>rn j. and_then (nth_res eps (g j)) (\<lambda>ns. if ns \<noteq> None then f rn j else Inr rn)) rn js = Inr rn'"
  shows "fold_res f rn js = Inr rn'"
  using assms(2)
proof (induction js arbitrary: rn)
  case (Cons j js)
  obtain ns where "nth_res eps (g j) = Inr ns" using Cons.prems by auto
  moreover from this have "ns \<noteq> None" using assms(1) by (metis nth_mem nth_res_InrD)
  ultimately show ?case using Cons by auto
qed simp

lemma disconnectUnlocked_links:
  assumes "disconnectUnlocked cfg i from = Inr cfg'" and "svc_ready n cfg"
  shows "relinked cfg cfg'" "linked cfg' a b \<longleftrightarrow> (a, b) \<notin> cross i from \<and> linked cfg a b"
proof -
  have ok: "svc_ok n cfg" and none: "None \<notin> set (sh_endnames cfg)" using assms(2) by (simp_all add: svc_ready_def)
  obtain rn1 rn2 where
    "fold_res (\<lambda>rn j. and_then (nth_res (sh_endnames cfg) i) (\<lambda>ns.
       if ns \<noteq> None then svcEnable cfg False rn i (from ! j) else Inr rn)) (sh_net cfg) [0..<length from] = Inr rn1"
    "fold_res (\<lambda>rn j. and_then (nth_res (sh_endnames cfg) j) (\<lambda>ns.
       if ns \<noteq> None then svcEnable cfg False rn (from ! j) i else Inr rn)) rn1 [0..<length from] = Inr rn2"
    and cfg': "cfg' = cfg\<lparr>sh_net := rn2\<rparr>"
    using assms(1) unfolding disconnectUnlocked_def and_then_Inr_iff by blast
  note e = enable_cross [where g = "(!) from", OF ok guard_started [OF none this(1)] guard_started [OF none this(2)], folded cfg']
  show "relinked cfg cfg'" "linked cfg' a b \<longleftrightarrow> (a, b) \<notin> cross i from \<and> linked cfg a b"
    using e by (simp_all add: map_nth)
qed

lemma connectUnlocked_total:
  assumes "svc_ready n cfg" and "i < n" and "set to \<subseteq> {..<n}"
  shows "\<exists>cfg'. connectUnlocked cfg i to = Inr cfg'"
proof -
  have e: "\<exists>e. svcEnd cfg i k = Inr e" "\<exists>e. svcEnd cfg k i = Inr e" if "k \<in> set to" for k
    using svc_ready_end [OF assms(1)] that assms(2,3) by auto
  obtain rn1 where "fold_res (\<lambda>rn k. svcEnable cfg True rn i k) (sh_net cfg) to = Inr rn1"
    using svcEnable_total [of to cfg "\<lambda>_. i" "\<lambda>k. k"] e(1) by blast
  moreover obtain rn2 where "fold_res (\<lambda>rn k. svcEnable cfg True rn k i) rn1 to = Inr rn2"
    using svcEnable_total [of to cfg "\<lambda>k. k" "\<lambda>_. i"] e(2) by blast
  ultimately show ?thesis by (simp add: connectUnlocked_def)
qed

lemma guard_passes:
  assumes "None \<notin> set eps" and "\<forall>j \<in> set js. g j < length eps"
  shows "fold_res (\<lambda>rn j. and_then (nth_res eps (g j)) (\<lambda>ns. if ns \<noteq> None then f rn j else Inr rn)) rn js = fold_res f rn js"
  using assms(2)
proof (induction js arbitrary: rn)
  case (Cons j js)
  then have "eps ! g j \<noteq> None" using assms(1) by (metis list.set_intros(1) nth_mem)
  then show ?case using Cons by simp
qed simp

lemma disconnectUnlocked_total:
  assumes "svc_ready n cfg" and "i < n" and "set from \<subseteq> {..<n}" and "length from \<le> n"
  shows "\<exists>cfg'. disconnectUnlocked cfg i from = Inr cfg'"
proof -
  have none: "None \<notin> set (sh_endnames cfg)" and len: "length (sh_endnames cfg) = n"
    using assms(1) by (simp_all add: svc_ready_def svc_ok_def)
  have lt: "from ! j < n" if "j \<in> set [0..<length from]" for j
    using that assms(3) nth_mem [of j "from"] by (auto simp del: nth_mem)
  then have e: "\<exists>e. svcEnd cfg i (from ! j) = Inr e" "\<exists>e. svcEnd cfg (from ! j) i = Inr e" if "j \<in> set [0..<length from]" for j
    using svc_ready_end [OF assms(1,2) lt] svc_ready_end [OF assms(1) lt assms(2)] that by blast+
  obtain rn1 where "fold_res (\<lambda>rn j. svcEnable cfg False rn i (from ! j)) (sh_net cfg) [0..<length from] = Inr rn1"
    using svcEnable_total [of "[0..<length from]" cfg "\<lambda>_. i" "(!) from"] e(1) by blast
  moreover obtain rn2 where "fold_res (\<lambda>rn j. svcEnable cfg False rn (from ! j) i) rn1 [0..<length from] = Inr rn2"
    using svcEnable_total [of "[0..<length from]" cfg "(!) from" "\<lambda>_. i"] e(2) by blast
  moreover have "\<forall>j \<in> set [0..<length from]. i < length (sh_endnames cfg)" "\<forall>j \<in> set [0..<length from]. j < length (sh_endnames cfg)"
    using assms(2,4) len by auto
  note g = guard_passes [where g = "\<lambda>_. i", OF none this(1)] guard_passes [where g = "\<lambda>j. j", OF none this(2)]
  ultimately show ?thesis unfolding disconnectUnlocked_def g by simp
qed

lemma regroup_links:
  assumes ready: "svc_ready n cfg" and "i < n" and "set own \<subseteq> {..<n}" and "set other \<subseteq> {..<n}" and "length other \<le> n"
  shows "\<exists>cfg'. regroup own other cfg i = Inr cfg' \<and> relinked cfg cfg'
    \<and> (\<forall>a b. linked cfg' a b \<longleftrightarrow> (a, b) \<in> cross i own \<or> (a, b) \<notin> cross i other \<and> linked cfg a b)"
proof -
  obtain cfg1 where d: "disconnectUnlocked cfg i other = Inr cfg1"
    using disconnectUnlocked_total [OF ready] assms(2,4,5) by blast
  note d1 = disconnectUnlocked_links [OF d ready]
  have ready1: "svc_ready n cfg1" using relinked_ready [OF d1(1) ready] .
  then obtain cfg2 where c: "connectUnlocked cfg1 i own = Inr cfg2" using connectUnlocked_total assms(2,3) by blast
  have ok1: "svc_ok n cfg1" using ready1 by (simp add: svc_ready_def)
  note c1 = connectUnlocked_links [OF c ok1]
  have "regroup own other cfg i = Inr cfg2" using d c by (simp add: regroup_def)
  moreover have "relinked cfg cfg2" using relinked_trans [OF d1(1) c1(1)] .
  ultimately show ?thesis using c1(2) d1(2) by auto
qed

lemma regroup_fold:
  assumes "svc_ready n cfg" and "set own \<subseteq> {..<n}" and "set other \<subseteq> {..<n}" and "length other \<le> n"
    and "set own \<inter> set other = {}" and "set xs \<subseteq> set own"
  shows "\<exists>cfg'. fold_res (regroup own other) cfg xs = Inr cfg' \<and> relinked cfg cfg'
    \<and> (\<forall>a b. linked cfg' a b \<longleftrightarrow>
        (\<exists>x \<in> set xs. (a, b) \<in> cross x own) \<or> (\<forall>x \<in> set xs. (a, b) \<notin> cross x other) \<and> linked cfg a b)"
  using assms(1,6)
proof (induction xs arbitrary: cfg)
  case Nil
  show ?case using relinked_refl by simp
next
  case (Cons x xs)
  then have "x < n" using assms(2) by auto
  then obtain cfg1 where r: "regroup own other cfg x = Inr cfg1" and l1: "relinked cfg cfg1"
    and c1: "\<And>a b. linked cfg1 a b \<longleftrightarrow> (a, b) \<in> cross x own \<or> (a, b) \<notin> cross x other \<and> linked cfg a b"
    using regroup_links [OF Cons.prems(1) _ assms(2-4)] by blast
  have "svc_ready n cfg1" using relinked_ready [OF l1 Cons.prems(1)] .
  moreover have "set xs \<subseteq> set own" using Cons.prems(2) by simp
  ultimately obtain cfg2 where f: "fold_res (regroup own other) cfg1 xs = Inr cfg2" and l2: "relinked cfg1 cfg2"
    and c2: "\<And>a b. linked cfg2 a b \<longleftrightarrow>
        (\<exists>x \<in> set xs. (a, b) \<in> cross x own) \<or> (\<forall>x \<in> set xs. (a, b) \<notin> cross x other) \<and> linked cfg1 a b"
    using Cons.IH by blast
  have "(a, b) \<notin> cross y other" if "(a, b) \<in> cross x own" for a b y
    using that Cons.prems(2) assms(5) by (auto simp: cross_def)
  then have "linked cfg2 a b \<longleftrightarrow>
      (\<exists>x \<in> set (x # xs). (a, b) \<in> cross x own) \<or> (\<forall>x \<in> set (x # xs). (a, b) \<notin> cross x other) \<and> linked cfg a b" for a b
    using c1 c2 by auto
  moreover have "fold_res (regroup own other) cfg (x # xs) = Inr cfg2" using r f by simp
  ultimately show ?case using relinked_trans [OF l1 l2] by blast
qed

lemma partition_links:
  assumes "svc_ready n cfg" and "set p1 \<subseteq> {..<n}" and "set p2 \<subseteq> {..<n}" and "length p1 \<le> n" and "length p2 \<le> n"
    and "set p1 \<inter> set p2 = {}"
  shows "\<exists>cfg'. svc_partition cfg p1 p2 = Inr cfg' \<and> relinked cfg cfg'
    \<and> (\<forall>a b. linked cfg' a b \<longleftrightarrow>
        (if a \<in> set p1 \<union> set p2 \<and> b \<in> set p1 \<union> set p2 then a \<in> set p1 \<longleftrightarrow> b \<in> set p1 else linked cfg a b))"
proof -
  have dis: "set p2 \<inter> set p1 = {}" using assms(6) by blast
  obtain cfg1 where f1: "fold_res (regroup p1 p2) cfg p1 = Inr cfg1" and l1: "relinked cfg cfg1"
    and c1: "\<And>a b. linked cfg1 a b \<longleftrightarrow> (\<exists>x \<in> set p1. (a, b) \<in> cross x p1) \<or> (\<forall>x \<in> set p1. (a, b) \<notin> cross x p2) \<and> linked cfg a b"
    using regroup_fold [OF assms(1-3,5,6) subset_refl] by blast
  obtain cfg2 where f2: "fold_res (regroup p2 p1) cfg1 p2 = Inr cfg2" and l2: "relinked cfg1 cfg2"
    and c2: "\<And>a b. linked cfg2 a b \<longleftrightarrow> (\<exists>x \<in> set p2. (a, b) \<in> cross x p2) \<or> (\<forall>x \<in> set p2. (a, b) \<notin> cross x p1) \<and> linked cfg1 a b"
    using regroup_fold [OF relinked_ready [OF l1 assms(1)] assms(3,2,4) dis subset_refl] by blast
  have "linked cfg2 a b \<longleftrightarrow>
      (if a \<in> set p1 \<union> set p2 \<and> b \<in> set p1 \<union> set p2 then a \<in> set p1 \<longleftrightarrow> b \<in> set p1 else linked cfg a b)" for a b
    unfolding c2 c1 using assms(6) by (auto simp: cross_def)
  moreover have "svc_partition cfg p1 p2 = Inr cfg2" using f1 f2 by (simp add: svc_partition_def)
  ultimately show ?thesis using relinked_trans [OF l1 l2] by blast
qed

section \<open>Runs of the harness\<close>

text \<open>
  What a test does; in between the servers change, which is the last rule. \<open>allowed i srv\<close> restricts the
  starts: server \<open>i\<close> may be started as the network server \<open>srv\<close>.
\<close>

inductive svc_step ::
  "(nat \<Rightarrow> nat \<Rightarrow> ('c, 's) Persister \<Rightarrow> 'sv res) \<Rightarrow> ('sv \<Rightarrow> ('c, 's) Raft) \<Rightarrow> (nat \<Rightarrow> pointer \<Rightarrow> bool) \<Rightarrow>
   ('sv, 'c, 's) svc_config \<Rightarrow> ('sv, 'c, 's) svc_config \<Rightarrow> bool" for boot rf_of allowed where
  s_connect: "connectUnlocked cfg i to = Inr cfg' \<Longrightarrow> svc_step boot rf_of allowed cfg cfg'"
| s_disconnect: "disconnectUnlocked cfg i from = Inr cfg' \<Longrightarrow> svc_step boot rf_of allowed cfg cfg'"
| s_all: "ConnectAll cfg = Inr cfg' \<Longrightarrow> svc_step boot rf_of allowed cfg cfg'"
| s_partition: "svc_partition cfg p1 p2 = Inr cfg' \<Longrightarrow> svc_step boot rf_of allowed cfg cfg'"
| s_client: "makeClient cfg to ck names rand = Inr (cfg', handles) \<Longrightarrow> svc_step boot rf_of allowed cfg cfg'"
| s_delete: "svc_step boot rf_of allowed cfg (deleteClient cfg ck)"
| s_connect_client: "ConnectClientUnlocked cfg ck to = Inr cfg' \<Longrightarrow> svc_step boot rf_of allowed cfg cfg'"
| s_disconnect_client: "DisconnectClientUnlocked cfg ck from = Inr cfg' \<Longrightarrow> svc_step boot rf_of allowed cfg cfg'"
| s_shutdown: "ShutdownServer rf_of cfg i = Inr cfg' \<Longrightarrow> svc_step boot rf_of allowed cfg cfg'"
| s_start: "svc_StartServer boot rf_of cfg i names srv = Inr cfg' \<Longrightarrow> allowed i srv \<Longrightarrow> svc_step boot rf_of allowed cfg cfg'"
| s_begin: "svc_step boot rf_of allowed cfg (svc_begin cfg)"
| s_op: "svc_step boot rf_of allowed cfg (svc_op cfg)"
| s_server: "i < length (sh_servers cfg) \<Longrightarrow> sh_servers cfg ! i = Some sv \<Longrightarrow>
    svc_step boot rf_of allowed cfg (cfg\<lparr>sh_servers := (sh_servers cfg)[i := Some sv']\<rparr>)"

lemma relinked_fold:
  assumes "fold_res f cfg xs = Inr cfg'" and "svc_ready n cfg"
    and "\<And>c x c'. f c x = Inr c' \<Longrightarrow> svc_ready n c \<Longrightarrow> relinked c c'"
  shows "relinked cfg cfg'"
proof -
  have "relinked cfg cfg' \<and> svc_ready n cfg'"
    by (rule fold_res_invariant [where P = "\<lambda>c. relinked cfg c \<and> svc_ready n c", OF assms(1)])
      (use assms(2,3) relinked_refl relinked_trans relinked_ready in blast)+
  then show ?thesis ..
qed

lemma connect_relinks: "connectUnlocked cfg i to = Inr cfg' \<Longrightarrow> svc_ready n cfg \<Longrightarrow> relinked cfg cfg'"
  using connectUnlocked_links(1) by (auto simp: svc_ready_def)

lemma ConnectAll_relinks: "ConnectAll cfg = Inr cfg' \<Longrightarrow> svc_ready n cfg \<Longrightarrow> relinked cfg cfg'"
  unfolding ConnectAll_def by (erule relinked_fold) (auto intro: connect_relinks)

lemma regroup_relinks:
  assumes "regroup own other cfg i = Inr cfg'" and "svc_ready n cfg"
  shows "relinked cfg cfg'"
proof -
  obtain cfg1 where "disconnectUnlocked cfg i other = Inr cfg1" and c: "connectUnlocked cfg1 i own = Inr cfg'"
    using assms(1) by (auto simp: regroup_def)
  then have r: "relinked cfg cfg1" using disconnectUnlocked_links(1) assms(2) by blast
  show ?thesis using relinked_trans [OF r connect_relinks [OF c relinked_ready [OF r assms(2)]]] .
qed

lemma partition_relinks:
  assumes "svc_partition cfg p1 p2 = Inr cfg'" and "svc_ready n cfg"
  shows "relinked cfg cfg'"
proof -
  obtain cfg1 where f1: "fold_res (regroup p1 p2) cfg p1 = Inr cfg1" and f2: "fold_res (regroup p2 p1) cfg1 p2 = Inr cfg'"
    using assms(1) by (auto simp: svc_partition_def)
  have r: "relinked cfg cfg1" by (rule relinked_fold [OF f1 assms(2) regroup_relinks])
  show ?thesis
    using relinked_trans [OF r relinked_fold [OF f2 relinked_ready [OF r assms(2)] regroup_relinks]] .
qed

lemma clerk_ends_ready:
  assumes "enableClerkEnds yes cfg ck js = Inr cfg'" and "svc_ready n cfg"
  shows "svc_ready n cfg'"
    and "\<exists>en. cfg' = cfg\<lparr>sh_net := (sh_net cfg)\<lparr>enabled := en\<rparr>\<rparr>"
proof -
  let ?ns = "case sh_clerks cfg ck of None \<Rightarrow> [] | Some ns \<Rightarrow> ns"
  have ok: "names_ok n (sh_net cfg) (naming cfg)" using assms(2) by (simp add: svc_ready_def svc_ok_def)
  obtain rn where f: "fold_res (\<lambda>rn j. and_then (nth_res ?ns j) (\<lambda>s. Inr (Enable rn (EndName s) yes))) (sh_net cfg) js = Inr rn"
    and cfg': "cfg' = cfg\<lparr>sh_net := rn\<rparr>"
    using assms(1) by (auto simp: enableClerkEnds_def Let_def)
  let ?P = "\<lambda>rn. (\<exists>en. rn = (sh_net cfg)\<lparr>enabled := en\<rparr>)
     \<and> (\<forall>x. isEnabled rn x \<longrightarrow> isEnabled (sh_net cfg) x \<or> x \<in> ends (sh_net cfg))"
  have "sh_net cfg = (sh_net cfg)\<lparr>enabled := enabled (sh_net cfg)\<rparr>" by simp
  then have "?P (sh_net cfg)" by blast
  moreover have "?P rn2" if step: "and_then (nth_res ?ns j) (\<lambda>s. Inr (Enable rn1 (EndName s) yes)) = Inr rn2" and inv: "?P rn1" for rn1 j rn2
  proof -
    obtain s where "nth_res ?ns j = Inr s" and rn2: "rn2 = Enable rn1 (EndName s) yes" using step by auto
    then have "end_at (naming cfg) (Inr ck) j s"
      by (auto simp: end_at_def naming_def dest!: nth_res_InrD split: option.splits)
    then have "EndName s \<in> ends (sh_net cfg)" using names_okD(2) [OF ok] by blast
    then show ?thesis using inv rn2 by (auto simp: Enable_def isEnabled_def split: if_splits)
  qed
  ultimately have P: "?P rn" using fold_res_invariant [where P = ?P, OF f] by blast
  then have "naming cfg' = naming cfg" by (simp add: cfg' fun_eq_iff naming_def split: sum.split)
  moreover have "names_ok n rn (naming cfg)"
    using names_ok_net [OF ok] P by auto
  ultimately show "svc_ready n cfg'" using assms(2) by (simp add: svc_ready_def svc_ok_def cfg')
  show "\<exists>en. cfg' = cfg\<lparr>sh_net := (sh_net cfg)\<lparr>enabled := en\<rparr>\<rparr>" using P cfg' by blast
qed

lemma makeClient_ready:
  assumes "makeClient cfg to ck names rand = Inr (cfg', handles)" and "svc_ready n cfg"
  shows "svc_ready n cfg'"
proof -
  let ?ns = "map names [0..<n]"
  have n: "sh_n cfg = n" and ok: "names_ok n (sh_net cfg) (naming cfg)" using assms(2) by (simp_all add: svc_ready_def svc_ok_def)
  obtain rn where f: "fold_res (makeEnd names) (sh_net cfg) [0..<n] = Inr rn"
    and c: "enableClerkEnds True (cfg\<lparr>sh_net := rn, sh_clerks := (sh_clerks cfg)(ck \<mapsto> ?ns),
        sh_nextClientId := sh_nextClientId cfg + 1\<rparr>) ck to = Inr cfg'" (is "enableClerkEnds True ?cfg1 ck to = _")
    using assms(1) n by (auto simp: makeClient_def ConnectClientUnlocked_def Let_def)
  have "naming ?cfg1 = (naming cfg)(Inr ck \<mapsto> ?ns)" by (auto simp: fun_eq_iff naming_def split: sum.splits)
  then have "svc_ready n ?cfg1"
    using assms(2) names_ok_new [OF ok f, of "Inr ck"] by (simp add: svc_ready_def svc_ok_def)
  then show ?thesis using clerk_ends_ready(1) [OF c] by blast
qed

text \<open>What \<open>StartServer\<close> does: new ends, and a server from the saved state.\<close>

definition savedFor :: "('sv \<Rightarrow> ('c, 's) Raft) \<Rightarrow> ('sv, 'c, 's) svc_config \<Rightarrow> nat \<Rightarrow> ('c, 's) Persister" where
  "savedFor rf_of cfg i = (case svcSaved rf_of cfg i of Some old \<Rightarrow> Copy old | None \<Rightarrow> MakePersister)"

lemma svc_StartServerE:
  assumes "svc_StartServer boot rf_of cfg i names srv = Inr cfg'"
  obtains rn server where "i < length (sh_endnames cfg)" and "fold_res (makeEnd names) (sh_net cfg) [0..<sh_n cfg] = Inr rn"
    and "boot (sh_n cfg) i (savedFor rf_of cfg i) = Inr server" and "i < length (sh_saved cfg)" and "i < length (sh_servers cfg)"
    and "cfg' = cfg\<lparr>sh_endnames := (sh_endnames cfg)[i := Some (map names [0..<sh_n cfg])],
      sh_saved := (sh_saved cfg)[i := Some (savedFor rf_of cfg i)], sh_servers := (sh_servers cfg)[i := Some server],
      sh_net := AddServer rn (ServerName i) srv\<rparr>"
  using assms by (auto simp: svc_StartServer_def savedFor_def Let_def dest!: set_res_InrD)

lemma svc_StartServer_ok:
  assumes "svc_StartServer boot rf_of cfg i names srv = Inr cfg'" and "svc_ok n cfg"
  shows "svc_ok n cfg'" and "sh_endnames cfg' = (sh_endnames cfg)[i := Some (map names [0..<n])]" and "i < n"
proof -
  have n: "sh_n cfg = n" and len: "length (sh_endnames cfg) = n" and ok: "names_ok n (sh_net cfg) (naming cfg)"
    using assms(2) by (simp_all add: svc_ok_def)
  obtain rn server where i: "i < length (sh_endnames cfg)" and f: "fold_res (makeEnd names) (sh_net cfg) [0..<n] = Inr rn"
    and cfg': "cfg' = cfg\<lparr>sh_endnames := (sh_endnames cfg)[i := Some (map names [0..<n])],
      sh_saved := (sh_saved cfg)[i := Some (savedFor rf_of cfg i)], sh_servers := (sh_servers cfg)[i := Some server],
      sh_net := AddServer rn (ServerName i) srv\<rparr>"
    using assms(1) by (rule svc_StartServerE) (use n in auto)
  show "i < n" "sh_endnames cfg' = (sh_endnames cfg)[i := Some (map names [0..<n])]" using i len by (simp_all add: cfg')
  have "naming cfg' = (naming cfg)(Inl i \<mapsto> map names [0..<n])"
    using i by (auto simp: fun_eq_iff naming_def cfg' split: sum.splits)
  moreover have "names_ok n (AddServer rn (ServerName i) srv) ((naming cfg)(Inl i \<mapsto> map names [0..<n]))"
    using names_ok_new [OF ok f] by (rule names_ok_net) (simp_all add: AddServer_def isEnabled_def)
  ultimately show "svc_ok n cfg'"
    using assms(2) by (simp add: svc_ok_def cfg')
qed

lemma svc_StartServer_ready:
  assumes "svc_StartServer boot rf_of cfg i names srv = Inr cfg'" and "svc_ready n cfg"
  shows "svc_ready n cfg'"
  using svc_StartServer_ok [OF assms(1), of n] assms(2) set_update_subset_insert [of "sh_endnames cfg" i]
  by (auto simp: svc_ready_def)

lemma ShutdownServerE:
  assumes "ShutdownServer rf_of cfg i = Inr cfg'"
  obtains cfg1 where "disconnectUnlocked cfg i (AllServers cfg) = Inr cfg1"
    and "i < length (sh_saved cfg1)" and "i < length (sh_servers cfg1)"
    and "cfg' = cfg1\<lparr>sh_net := DeleteServer (sh_net cfg1) (ServerName i),
      sh_saved := (sh_saved cfg1)[i := map_option Copy (svcSaved rf_of cfg1 i)], sh_servers := (sh_servers cfg1)[i := None]\<rparr>"
  using assms by (auto simp: ShutdownServer_def Let_def dest!: set_res_InrD)

lemma svc_ready_net:
  assumes "svc_ready n cfg" and "isEnabled rn = isEnabled (sh_net cfg)" and "ends rn = ends (sh_net cfg)"
    and "connections rn = connections (sh_net cfg)" and "length sv = n" and "length srvs = n"
  shows "svc_ready n (cfg\<lparr>sh_net := rn, sh_saved := sv, sh_servers := srvs\<rparr>)"
proof -
  have "naming (cfg\<lparr>sh_net := rn, sh_saved := sv, sh_servers := srvs\<rparr>) = naming cfg"
    by (simp add: fun_eq_iff naming_def split: sum.split)
  moreover have "names_ok n rn (naming cfg)"
    by (rule names_ok_net [of n "sh_net cfg"]) (use assms in \<open>simp_all add: svc_ready_def svc_ok_def\<close>)
  ultimately show ?thesis using assms(1,5,6) by (simp add: svc_ready_def svc_ok_def)
qed

lemma ShutdownServer_ready:
  assumes "ShutdownServer rf_of cfg i = Inr cfg'" and "svc_ready n cfg"
  shows "svc_ready n cfg'"
  using assms(1)
proof (rule ShutdownServerE)
  fix cfg1
  assume d: "disconnectUnlocked cfg i (AllServers cfg) = Inr cfg1"
    and cfg': "cfg' = cfg1\<lparr>sh_net := DeleteServer (sh_net cfg1) (ServerName i),
      sh_saved := (sh_saved cfg1)[i := map_option Copy (svcSaved rf_of cfg1 i)], sh_servers := (sh_servers cfg1)[i := None]\<rparr>"
  have r: "svc_ready n cfg1" using relinked_ready [OF disconnectUnlocked_links(1) [OF d assms(2)] assms(2)] .
  show ?thesis
    unfolding cfg' by (rule svc_ready_net [OF r]) (use r in \<open>simp_all add: DeleteServer_def isEnabled_def fun_eq_iff svc_ready_def svc_ok_def\<close>)
qed

lemma svc_step_ready:
  assumes "svc_step boot rf_of allowed cfg cfg'" and "svc_ready n cfg"
  shows "svc_ready n cfg'"
  using assms
proof cases
  case (s_delete ck)
  have "naming cfg' = (naming cfg)(Inr ck := None)" by (auto simp: s_delete fun_eq_iff naming_def deleteClient_def split: sum.splits)
  then show ?thesis
    using assms(2) names_ok_forget [of n "sh_net cfg" "naming cfg" "Inr ck"] by (simp add: s_delete svc_ready_def svc_ok_def deleteClient_def)
next
  case s_begin
  have "naming cfg' = naming cfg" by (simp add: s_begin fun_eq_iff naming_def svc_begin_def split: sum.split)
  then show ?thesis using assms(2) by (simp add: s_begin svc_begin_def svc_ready_def svc_ok_def)
next
  case s_op
  have "naming cfg' = naming cfg" by (simp add: s_op fun_eq_iff naming_def svc_op_def split: sum.split)
  then show ?thesis using assms(2) by (simp add: s_op svc_op_def svc_ready_def svc_ok_def)
next
  case (s_server i sv sv')
  have "naming cfg' = naming cfg" by (simp add: s_server fun_eq_iff naming_def split: sum.split)
  then show ?thesis using assms(2) by (simp add: s_server svc_ready_def svc_ok_def)
qed (use assms(2) relinked_ready connect_relinks ConnectAll_relinks partition_relinks disconnectUnlocked_links(1)
    clerk_ends_ready(1) makeClient_ready svc_StartServer_ready ShutdownServer_ready
    ConnectClientUnlocked_def DisconnectClientUnlocked_def in metis)+

lemma svc_steps_ready: "(svc_step boot rf_of allowed)\<^sup>*\<^sup>* cfg cfg' \<Longrightarrow> svc_ready n cfg \<Longrightarrow> svc_ready n cfg'"
  by (induction rule: rtranclp_induct) (auto intro: svc_step_ready)

lemma empty_naming: "naming (empty_svc_config n) = (\<lambda>src. None)"
  by (simp add: fun_eq_iff naming_def empty_svc_config_def split: sum.split)

lemma empty_svc_config_ok: "svc_ok n (empty_svc_config n)"
  unfolding svc_ok_def names_ok_def end_at_def empty_naming
  by (simp add: empty_svc_config_def MakeNetwork_def isEnabled_def)

lemma svc_make_config_ready:
  assumes "svc_make_config boot rf_of n unreliable names srv = Inr cfg"
  shows "svc_ready n cfg"
proof -
  let ?start = "\<lambda>cfg i. svc_StartServer boot rf_of cfg i (names i) (srv i)"
  have started: "svc_ok n c \<and> (\<forall>i<k. sh_endnames c ! i \<noteq> None)" if "fold_res ?start (empty_svc_config n) [0..<k] = Inr c" "k \<le> n" for k c
    using that
  proof (induction k arbitrary: c)
    case 0
    then have "empty_svc_config n = c" by simp
    then show ?case using empty_svc_config_ok by blast
  next
    case (Suc k)
    then obtain c1 where f: "fold_res ?start (empty_svc_config n) [0..<k] = Inr c1" and st: "?start c1 k = Inr c"
      by (auto simp: fold_res_snoc)
    have IH: "svc_ok n c1" "\<forall>i<k. sh_endnames c1 ! i \<noteq> None" using Suc.IH [OF f] Suc.prems(2) by simp_all
    have "length (sh_endnames c1) = n" using IH(1) by (simp add: svc_ok_def)
    then show ?case
      using svc_StartServer_ok [OF st IH(1)] IH(2) by (auto simp: nth_list_update less_Suc_eq)
  qed
  obtain c1 c2 where f: "fold_res ?start (empty_svc_config n) [0..<n] = Inr c1" and c: "ConnectAll c1 = Inr c2"
    and cfg: "cfg = c2\<lparr>sh_net := Reliable (sh_net c2) (\<not> unreliable)\<rparr>"
    using assms by (auto simp: svc_make_config_def)
  have "svc_ok n c1" "\<forall>i<n. sh_endnames c1 ! i \<noteq> None" using started [OF f] by simp_all
  then have "svc_ready n c1" by (auto simp: svc_ready_def svc_ok_def in_set_conv_nth)
  then have r: "svc_ready n c2" using relinked_ready [OF ConnectAll_relinks [OF c]] by blast
  have "svc_ready n (c2\<lparr>sh_net := Reliable (sh_net c2) (\<not> unreliable), sh_saved := sh_saved c2, sh_servers := sh_servers c2\<rparr>)"
    by (rule svc_ready_net [OF r]) (use r in \<open>simp_all add: Reliable_def isEnabled_def fun_eq_iff svc_ready_def svc_ok_def\<close>)
  then show ?thesis by (simp add: cfg)
qed

end
