(* ===== verification/ServiceRuns.thy ===== *)
theory ServiceRuns
  imports ServiceHarnessSpec
begin

text \<open>
  The servers of a service in its test harness: what stopping and starting does to them, that a server
  which was shut down never answers again, that the next one is started from the state it
  had, and how \<open>make_partition\<close> divides the servers.
\<close>

section \<open>Stopped servers\<close>

lemma makeEnds_servers:
  assumes "fold_res (makeEnd names) rn js = Inr rn'"
  shows "servers rn' = servers rn"
  by (rule fold_res_invariant [where P = "\<lambda>r. servers r = servers rn", OF assms])
    (auto simp: makeEnd_def MakeEnd_def Connect_def split: if_splits)

text \<open>All steps but three kinds leave the servers alone.\<close>

definition same_servers :: "('sv, 'c, 's) svc_config \<Rightarrow> ('sv, 'c, 's) svc_config \<Rightarrow> bool" where
  "same_servers cfg cfg' \<longleftrightarrow> servers (sh_net cfg') = servers (sh_net cfg) \<and> sh_servers cfg' = sh_servers cfg
     \<and> sh_saved cfg' = sh_saved cfg \<and> sh_n cfg' = sh_n cfg"

lemma relinked_same_servers: "relinked cfg cfg' \<Longrightarrow> same_servers cfg cfg'"
  by (simp add: same_servers_def relinked_simps)

lemma clerk_ends_same_servers:
  assumes "enableClerkEnds yes cfg ck js = Inr cfg'"
  shows "same_servers cfg cfg'"
proof -
  obtain ns rn where f: "fold_res (\<lambda>rn j. and_then (nth_res ns j) (\<lambda>s. Inr (Enable rn (EndName s) yes))) (sh_net cfg) js = Inr rn"
    and cfg': "cfg' = cfg\<lparr>sh_net := rn\<rparr>"
    using assms by (auto simp: enableClerkEnds_def Let_def)
  have "servers rn = servers (sh_net cfg)"
    by (rule fold_res_invariant [where P = "\<lambda>r. servers r = servers (sh_net cfg)", OF f]) (auto simp: Enable_def)
  then show ?thesis by (simp add: same_servers_def cfg')
qed

lemma makeClient_same_servers:
  assumes "makeClient cfg to ck names rand = Inr (cfg', handles)"
  shows "same_servers cfg cfg'"
proof -
  obtain rn cl k where f: "fold_res (makeEnd names) (sh_net cfg) [0..<sh_n cfg] = Inr rn"
    and c: "enableClerkEnds True (cfg\<lparr>sh_net := rn, sh_clerks := cl, sh_nextClientId := k\<rparr>) ck to = Inr cfg'"
    using assms by (auto simp: makeClient_def ConnectClientUnlocked_def Let_def)
  then show ?thesis using clerk_ends_same_servers [OF c] makeEnds_servers [OF f] by (simp add: same_servers_def)
qed

lemma svc_step_effect:
  assumes "svc_step boot rf_of allowed cfg cfg'" and "svc_ready n cfg"
  obtains "same_servers cfg cfg'"
  | i where "ShutdownServer rf_of cfg i = Inr cfg'"
  | i names srv where "svc_StartServer boot rf_of cfg i names srv = Inr cfg'" "allowed i srv"
  | i sv sv' where "i < length (sh_servers cfg)" "sh_servers cfg ! i = Some sv" "cfg' = cfg\<lparr>sh_servers := (sh_servers cfg)[i := Some sv']\<rparr>"
  using assms(1)
proof cases
  case (s_client to ck names rand handles)
  then show ?thesis using that(1) makeClient_same_servers by blast
next
  case (s_connect i to)
  then show ?thesis using that(1) relinked_same_servers connect_relinks assms(2) by blast
next
  case (s_disconnect i "from")
  then show ?thesis using that(1) relinked_same_servers disconnectUnlocked_links(1) assms(2) by blast
next
  case s_all
  then show ?thesis using that(1) relinked_same_servers ConnectAll_relinks assms(2) by blast
next
  case (s_partition p1 p2)
  then show ?thesis using that(1) relinked_same_servers partition_relinks assms(2) by blast
next
  case (s_connect_client ck to)
  then show ?thesis using that(1) clerk_ends_same_servers unfolding ConnectClientUnlocked_def by blast
next
  case (s_disconnect_client ck "from")
  then show ?thesis using that(1) clerk_ends_same_servers unfolding DisconnectClientUnlocked_def by blast
qed (use that in \<open>auto simp: same_servers_def deleteClient_def svc_begin_def svc_op_def\<close>)

lemma Shutdown_servers:
  assumes "ShutdownServer rf_of cfg k = Inr cfg'" and "svc_ready n cfg"
  shows "serverOf (sh_net cfg') (ServerName i) = (if i = k then None else serverOf (sh_net cfg) (ServerName i))"
    "sh_servers cfg' = (sh_servers cfg)[k := None]" "sh_saved cfg' = (sh_saved cfg)[k := map_option Copy (svcSaved rf_of cfg k)]"
    "sh_n cfg' = sh_n cfg" "k < length (sh_servers cfg)" "k < length (sh_saved cfg)"
proof -
  obtain cfg1 where d: "disconnectUnlocked cfg k (AllServers cfg) = Inr cfg1"
    and lt: "k < length (sh_saved cfg1)" "k < length (sh_servers cfg1)"
    and cfg': "cfg' = cfg1\<lparr>sh_net := DeleteServer (sh_net cfg1) (ServerName k),
      sh_saved := (sh_saved cfg1)[k := map_option Copy (svcSaved rf_of cfg1 k)], sh_servers := (sh_servers cfg1)[k := None]\<rparr>"
    using assms(1) by (rule ShutdownServerE)
  note same = relinked_same_servers [OF disconnectUnlocked_links(1) [OF d assms(2)], unfolded same_servers_def]
  then have "svcSaved rf_of cfg1 k = svcSaved rf_of cfg k" by (simp add: svcSaved_def cong: option.case_cong)
  then show "serverOf (sh_net cfg') (ServerName i) = (if i = k then None else serverOf (sh_net cfg) (ServerName i))"
    "sh_servers cfg' = (sh_servers cfg)[k := None]" "sh_saved cfg' = (sh_saved cfg)[k := map_option Copy (svcSaved rf_of cfg k)]"
    "sh_n cfg' = sh_n cfg" "k < length (sh_servers cfg)" "k < length (sh_saved cfg)"
    using same lt by (simp_all add: cfg' serverOf_def DeleteServer_def)
qed

lemma Start_servers:
  assumes "svc_StartServer boot rf_of cfg k names srv = Inr cfg'"
  shows "serverOf (sh_net cfg') (ServerName i) = (if i = k then Some srv else serverOf (sh_net cfg) (ServerName i))"
    "i \<noteq> k \<Longrightarrow> sh_servers cfg' ! i = sh_servers cfg ! i" "i \<noteq> k \<Longrightarrow> sh_saved cfg' ! i = sh_saved cfg ! i"
    "boot (sh_n cfg) k (savedFor rf_of cfg k) = Inr (the (sh_servers cfg' ! k))" "sh_servers cfg' ! k \<noteq> None" "sh_n cfg' = sh_n cfg"
proof -
  obtain rn server where "fold_res (makeEnd names) (sh_net cfg) [0..<sh_n cfg] = Inr rn"
    and "boot (sh_n cfg) k (savedFor rf_of cfg k) = Inr server" and "k < length (sh_servers cfg)"
    and "cfg' = cfg\<lparr>sh_endnames := (sh_endnames cfg)[k := Some (map names [0..<sh_n cfg])],
      sh_saved := (sh_saved cfg)[k := Some (savedFor rf_of cfg k)], sh_servers := (sh_servers cfg)[k := Some server],
      sh_net := AddServer rn (ServerName k) srv\<rparr>"
    using assms by (rule svc_StartServerE)
  then show "serverOf (sh_net cfg') (ServerName i) = (if i = k then Some srv else serverOf (sh_net cfg) (ServerName i))"
    "i \<noteq> k \<Longrightarrow> sh_servers cfg' ! i = sh_servers cfg ! i" "i \<noteq> k \<Longrightarrow> sh_saved cfg' ! i = sh_saved cfg ! i"
    "boot (sh_n cfg) k (savedFor rf_of cfg k) = Inr (the (sh_servers cfg' ! k))" "sh_servers cfg' ! k \<noteq> None" "sh_n cfg' = sh_n cfg"
    by (simp_all add: serverOf_def AddServer_def makeEnds_servers)
qed

lemma stopped_stays_away:
  assumes "(svc_step boot rf_of allowed)\<^sup>*\<^sup>* cfg cfg'" and "svc_ready n cfg" and "\<not> allowed i p"
    and "serverOf (sh_net cfg) (ServerName i) \<noteq> Some p"
  shows "serverOf (sh_net cfg') (ServerName i) \<noteq> Some p"
  using assms(1)
proof induction
  case (step cfg1 cfg2)
  have r: "svc_ready n cfg1" using svc_steps_ready [OF step(1) assms(2)] .
  from step(2) r show ?case
  proof (rule svc_step_effect)
    show "serverOf (sh_net cfg2) (ServerName i) \<noteq> Some p" if "same_servers cfg1 cfg2"
      using that step(3) by (simp add: same_servers_def serverOf_def)
    show "serverOf (sh_net cfg2) (ServerName i) \<noteq> Some p" if "ShutdownServer rf_of cfg1 k = Inr cfg2" for k
      using Shutdown_servers(1) [OF that r, of i] step(3) by simp
    show "serverOf (sh_net cfg2) (ServerName i) \<noteq> Some p" if "svc_StartServer boot rf_of cfg1 k names srv = Inr cfg2" "allowed k srv" for k names srv
      using Start_servers(1) [OF that(1), of i] that(2) step(3) assms(3) by auto
  qed (use step(3) in simp)
qed (rule assms(4))

lemma stopped_keeps_state:
  assumes "(svc_step boot rf_of allowed)\<^sup>*\<^sup>* cfg cfg'" and "svc_ready n cfg" and "\<And>srv. \<not> allowed i srv"
    and "i < n" and "sh_servers cfg ! i = None" and "sh_saved cfg ! i = Some ps"
  shows "sh_servers cfg' ! i = None \<and> sh_saved cfg' ! i = Some ps"
  using assms(1)
proof induction
  case (step cfg1 cfg2)
  have r: "svc_ready n cfg1" using svc_steps_ready [OF step(1) assms(2)] .
  have len: "length (sh_saved cfg1) = n" "length (sh_servers cfg1) = n" using r by (simp_all add: svc_ready_def svc_ok_def)
  have copy: "Copy q = q" for q :: "('b, 'c) Persister" by (simp add: persister_defs)
  from step(2) r show ?case
  proof (rule svc_step_effect)
    show "sh_servers cfg2 ! i = None \<and> sh_saved cfg2 ! i = Some ps" if "same_servers cfg1 cfg2"
      using that step(3) by (simp add: same_servers_def)
    show "sh_servers cfg2 ! i = None \<and> sh_saved cfg2 ! i = Some ps" if "ShutdownServer rf_of cfg1 k = Inr cfg2" for k
      using Shutdown_servers(2,3) [OF that r] step(3) len assms(4) by (cases "k = i") (simp_all add: svcSaved_def copy)
    show "sh_servers cfg2 ! i = None \<and> sh_saved cfg2 ! i = Some ps" if "svc_StartServer boot rf_of cfg1 k names srv = Inr cfg2" "allowed k srv" for k names srv
    proof -
      have "i \<noteq> k" using that(2) assms(3) by blast
      then show ?thesis using Start_servers(2,3) [OF that(1)] step(3) by simp
    qed
    show "sh_servers cfg2 ! i = None \<and> sh_saved cfg2 ! i = Some ps"
      if "k < length (sh_servers cfg1)" "sh_servers cfg1 ! k = Some sv" "cfg2 = cfg1\<lparr>sh_servers := (sh_servers cfg1)[k := Some sv']\<rparr>" for k sv sv'
      using that step(3) by (cases "k = i") simp_all
  qed
qed (use assms(5,6) in simp)

lemma restart_boots:
  assumes "svc_ready n cfg" and "sh_servers cfg ! i = Some sv" and "ShutdownServer rf_of cfg i = Inr cfg1"
    and "(svc_step boot rf_of allowed)\<^sup>*\<^sup>* cfg1 cfg2" and "\<And>srv. \<not> allowed i srv"
    and "svc_StartServer boot rf_of cfg2 i names srv = Inr cfg3"
  shows "\<exists>sv'. sh_servers cfg3 ! i = Some sv' \<and> boot n i (persister (rf_of sv)) = Inr sv'"
proof -
  have copy: "Copy q = q" for q :: "('b, 'c) Persister" by (simp add: persister_defs)
  note d = Shutdown_servers [OF assms(3,1)]
  have r1: "svc_ready n cfg1" using ShutdownServer_ready [OF assms(3,1)] .
  have "i < n" using d(5) assms(1) by (simp add: svc_ready_def svc_ok_def)
  moreover have "sh_servers cfg1 ! i = None" "sh_saved cfg1 ! i = Some (persister (rf_of sv))"
    using d assms(2) by (simp_all add: svcSaved_def copy)
  ultimately have "sh_servers cfg2 ! i = None" "sh_saved cfg2 ! i = Some (persister (rf_of sv))"
    using stopped_keeps_state [OF assms(4) r1 assms(5)] by simp_all
  then have "savedFor rf_of cfg2 i = persister (rf_of sv)" by (simp add: savedFor_def svcSaved_def copy)
  moreover have "sh_n cfg2 = n" using svc_steps_ready [OF assms(4) r1] by (simp add: svc_ready_def svc_ok_def)
  ultimately show ?thesis using Start_servers(4,5) [OF assms(6)] by auto
qed

text \<open>
  What the harness relies on: a server that is started keeps the persister it is given, so \<open>saved[i]\<close> and the
  server share it.
\<close>

locale hosted =
  fixes boot :: "nat \<Rightarrow> nat \<Rightarrow> ('c, 's) Persister \<Rightarrow> 'sv res" and rf_of :: "'sv \<Rightarrow> ('c, 's) Raft"
  assumes boot_persister: "boot n i ps = Inr sv \<Longrightarrow> persister (rf_of sv) = ps"
begin

lemma restart_with_state:
  assumes "svc_ready n cfg" and "sh_servers cfg ! i = Some sv" and "ShutdownServer rf_of cfg i = Inr cfg1"
    and "(svc_step boot rf_of (\<lambda>k srv. k \<noteq> i))\<^sup>*\<^sup>* cfg1 cfg2"
    and "svc_StartServer boot rf_of cfg2 i names srv = Inr cfg3"
  shows "\<exists>sv'. sh_servers cfg3 ! i = Some sv' \<and> boot n i (persister (rf_of sv)) = Inr sv' \<and> persister (rf_of sv') = persister (rf_of sv)
    \<and> svcSaved rf_of cfg3 i = Some (persister (rf_of sv))"
proof -
  obtain sv' where "sh_servers cfg3 ! i = Some sv'" and "boot n i (persister (rf_of sv)) = Inr sv'"
    using restart_boots [OF assms(1-4) _ assms(5)] by blast
  then show ?thesis using boot_persister by (auto simp: svcSaved_def)
qed

end

lemma Make_persister: "Make n i ps = Inr rf \<Longrightarrow> persister rf = ps"
  by (auto simp: Make_def readPersist_def blankRaft_def split: if_splits)

section \<open>Setting up\<close>

lemma makeEnds_total:
  "inj_on names {..<k} \<Longrightarrow> made names k \<inter> ends rn = {} \<Longrightarrow> \<exists>rn'. fold_res (makeEnd names) rn [0..<k] = Inr rn'"
proof (induction k)
  case (Suc k)
  have m: "made names (Suc k) = insert (EndName (names k)) (made names k)" by (auto simp: made_def lessThan_Suc)
  have inj: "inj_on names {..<k}" "names k \<notin> names ` {..<k}" using Suc.prems(1) by (auto simp: lessThan_Suc inj_on_insert)
  then obtain rn1 where f: "fold_res (makeEnd names) rn [0..<k] = Inr rn1" using Suc.IH Suc.prems(2) m by auto
  have "ends rn1 = ends rn \<union> made names k" using makeEnd_fold [OF f] by blast
  then have "EndName (names k) \<notin> ends rn1" using Suc.prems(2) m inj(2) by (auto simp: made_def)
  then obtain rn2 where "makeEnd names rn1 k = Inr rn2" by (simp add: makeEnd_def MakeEnd_def)
  then show ?case using f by (simp add: fold_res_snoc)
qed simp

lemma ConnectAll_total:
  assumes "svc_ready n cfg"
  shows "\<exists>cfg'. ConnectAll cfg = Inr cfg'"
proof -
  have "\<exists>cfg'. fold_res (\<lambda>c i. connectUnlocked c i (AllServers c)) cfg is = Inr cfg'" if "set is \<subseteq> {..<n}" for "is"
    using that assms
  proof (induction "is" arbitrary: cfg)
    case (Cons i "is")
    have "set (AllServers cfg) \<subseteq> {..<n}" using Cons.prems(2) by (auto simp: AllServers_def svc_ready_def svc_ok_def)
    then obtain c1 where c: "connectUnlocked cfg i (AllServers cfg) = Inr c1"
      using connectUnlocked_total [OF Cons.prems(2), of i "AllServers cfg"] Cons.prems(1) by auto
    then show ?case using Cons.IH relinked_ready [OF connect_relinks [OF c Cons.prems(2)] Cons.prems(2)] Cons.prems(1) by simp
  qed simp
  then show ?thesis using assms by (simp add: ConnectAll_def svc_ready_def svc_ok_def atLeast0LessThan)
qed

text \<open>The state of \<open>make_config\<close> after the first \<open>k\<close> starts.\<close>

definition partly_up :: "nat \<Rightarrow> (nat \<Rightarrow> nat \<Rightarrow> string) \<Rightarrow> nat \<Rightarrow> ('sv, 'c, 's) svc_config \<Rightarrow> bool" where
  "partly_up n names k cfg \<longleftrightarrow> svc_ok n cfg \<and> (\<forall>i<k. sh_endnames cfg ! i \<noteq> None)
     \<and> ends (sh_net cfg) = (\<Union>i<k. made (names i) n) \<and> (\<forall>i<n. k \<le> i \<longrightarrow> sh_servers cfg ! i = None \<and> sh_saved cfg ! i = None)"

lemma start_next:
  assumes up: "partly_up n names k cfg" and "k < n" and inj: "inj_on (\<lambda>(i, j). names i j) ({..<n} \<times> {..<n})"
    and boot: "boot n k MakePersister = Inr sv0"
  shows "\<exists>cfg'. svc_StartServer boot rf_of cfg k (names k) p = Inr cfg' \<and> partly_up n names (Suc k) cfg'"
proof -
  have ok: "svc_ok n cfg" using up by (simp add: partly_up_def)
  then have len: "sh_n cfg = n" "length (sh_endnames cfg) = n" "length (sh_servers cfg) = n" "length (sh_saved cfg) = n"
    by (simp_all add: svc_ok_def)
  have "inj_on (names k) {..<n}" using inj assms(2) by (auto simp: inj_on_def)
  moreover have "made (names k) n \<inter> ends (sh_net cfg) = {}"
  proof -
    have "names k j \<noteq> names i j'" if "i < k" "j < n" "j' < n" for i j j'
      using inj_onD [OF inj, of "(k, j)" "(i, j')"] that assms(2) by auto
    then show ?thesis using up by (auto simp: partly_up_def made_def)
  qed
  ultimately obtain rn where f: "fold_res (makeEnd (names k)) (sh_net cfg) [0..<n] = Inr rn" using makeEnds_total by blast
  have saved: "svcSaved rf_of cfg k = None" using up assms(2) by (simp add: partly_up_def svcSaved_def)
  define cfg' where "cfg' = cfg\<lparr>sh_endnames := (sh_endnames cfg)[k := Some (map (names k) [0..<n])],
    sh_saved := (sh_saved cfg)[k := Some MakePersister], sh_servers := (sh_servers cfg)[k := Some sv0],
    sh_net := AddServer rn (ServerName k) p\<rparr>"
  have st: "svc_StartServer boot rf_of cfg k (names k) p = Inr cfg'"
    using len f saved boot assms(2) by (simp add: svc_StartServer_def cfg'_def)
  have "ends rn = ends (sh_net cfg) \<union> made (names k) n" using makeEnd_fold [OF f] by blast
  then have "ends (sh_net cfg') = (\<Union>i<Suc k. made (names i) n)"
    using up by (auto simp: cfg'_def AddServer_def partly_up_def lessThan_Suc)
  moreover have "\<forall>i<Suc k. sh_endnames cfg' ! i \<noteq> None"
    using up assms(2) len by (auto simp: cfg'_def partly_up_def nth_list_update less_Suc_eq)
  moreover have "\<forall>i<n. Suc k \<le> i \<longrightarrow> sh_servers cfg' ! i = None \<and> sh_saved cfg' ! i = None"
    using up by (auto simp: cfg'_def partly_up_def)
  ultimately show ?thesis using st svc_StartServer_ok(1) [OF st ok] by (auto simp: partly_up_def)
qed

lemma svc_make_config_total:
  assumes inj: "inj_on (\<lambda>(i, j). names i j) ({..<n} \<times> {..<n})" and boot: "\<And>i. i < n \<Longrightarrow> \<exists>sv0. boot n i MakePersister = Inr sv0"
  shows "\<exists>cfg. svc_make_config boot rf_of n unreliable names srv = Inr cfg"
proof -
  let ?start = "\<lambda>cfg i. svc_StartServer boot rf_of cfg i (names i) (srv i)"
  have "\<exists>c. fold_res ?start (empty_svc_config n) [0..<k] = Inr c \<and> partly_up n names k c" if "k \<le> n" for k
    using that
  proof (induction k)
    case 0
    then show ?case using empty_svc_config_ok [of n] by (simp add: partly_up_def) (simp add: empty_svc_config_def MakeNetwork_def)
  next
    case (Suc k)
    then obtain c sv0 where f: "fold_res ?start (empty_svc_config n) [0..<k] = Inr c" and up: "partly_up n names k c"
      and b: "boot n k MakePersister = Inr sv0"
      using boot [of k] by auto
    have "k < n" using Suc.prems by simp
    then show ?case using start_next [where boot = boot, OF up _ inj b] f by (fastforce simp: fold_res_snoc)
  qed
  then obtain c where f: "fold_res ?start (empty_svc_config n) [0..<n] = Inr c" and up: "partly_up n names n c" by blast
  have "svc_ready n c" using up by (auto simp: partly_up_def svc_ready_def svc_ok_def in_set_conv_nth)
  then show ?thesis using f ConnectAll_total by (fastforce simp: svc_make_config_def)
qed

section \<open>Dividing the servers\<close>

lemma placed:
  assumes "j + length (filter (\<lambda>i. i \<noteq> l) is) \<le> length p1 + length p2"
  shows "\<exists>p1' p2'. fold_res (placeServer l) (p1, p2, j) is = Inr (p1', p2', j + length (filter (\<lambda>i. i \<noteq> l) is))
    \<and> length p1' = length p1 \<and> length p2' = length p2
    \<and> p1' @ p2' = take j (p1 @ p2) @ filter (\<lambda>i. i \<noteq> l) is @ drop (j + length (filter (\<lambda>i. i \<noteq> l) is)) (p1 @ p2)"
  using assms
proof (induction "is" arbitrary: p1 p2 j)
  case (Cons i "is")
  show ?case
  proof (cases "i = l")
    case False
    have j: "j < length (p1 @ p2)" using Cons.prems False by simp
    obtain q1 q2 where q: "placeServer l (p1, p2, j) i = Inr (q1, q2, j + 1)" "length q1 = length p1" "length q2 = length p2"
      "q1 @ q2 = (p1 @ p2)[j := i]"
      using False j by (cases "j < length p1") (auto simp: placeServer_def list_update_append)
    have "take (j + 1) ((p1 @ p2)[j := i]) = take j (p1 @ p2) @ [i]"
      using j by (simp add: take_Suc_conv_app_nth del: append_assoc length_append)
    moreover have "drop (j + 1 + m) ((p1 @ p2)[j := i]) = drop (j + 1 + m) (p1 @ p2)" for m
      by (simp del: append_assoc)
    moreover have "j + 1 + length (filter (\<lambda>i. i \<noteq> l) is) \<le> length q1 + length q2" using Cons.prems False q by simp
    ultimately show ?thesis
      using Cons.IH [of "j + 1" q1 q2] q False by (auto simp: add.commute add.left_commute)
  qed (use Cons in \<open>simp add: placeServer_def\<close>)
qed (simp del: take_append drop_append add: append_take_drop_id)

lemma splitServers_exact:
  assumes "2 \<le> n" and "l < n"
  shows "\<exists>p1 p2. splitServers n l = Inr (p1, p2) \<and> length p1 = n div 2 + 1 \<and> length p2 = n div 2
    \<and> p1 @ p2 = filter (\<lambda>i. i \<noteq> l) [0..<n] @ (if even n then [0] else []) @ [l]"
proof -
  let ?ys = "filter (\<lambda>i. i \<noteq> l) [0..<n]" and ?z = "replicate (n div 2 + 1) (0::nat) @ replicate (n div 2) 0"
  have "set ?ys = {..<n} - {l}" by auto
  moreover have "length ?ys = card (set ?ys)" by (rule distinct_card [symmetric]) simp
  ultimately have ys: "length ?ys = n - 1" using assms(2) by simp
  have half: "n - 1 \<le> n div 2 + 1 + n div 2" by simp
  from ys obtain p1 p2 where f: "fold_res (placeServer l) (replicate (n div 2 + 1) 0, replicate (n div 2) 0, 0) [0..<n] = Inr (p1, p2, n - 1)"
    and len: "length p1 = n div 2 + 1" "length p2 = n div 2" and p: "p1 @ p2 = ?ys @ drop (n - 1) ?z"
    using placed [of 0 l "[0..<n]" "replicate (n div 2 + 1) 0" "replicate (n div 2) 0"] half by auto
  have ne: "p2 \<noteq> []" using len(2) assms(1) by auto
  have "drop (n - 1) ?z = replicate (2 * (n div 2) + 1 - (n - 1)) 0"
    by (simp add: replicate_add [symmetric] mult_2 del: replicate_Suc)
  moreover have "2 * (n div 2) + 1 - (n - 1) = (if even n then 2 else 1)"
    using assms(1) by (auto elim!: evenE oddE)
  ultimately have "drop (n - 1) ?z = (if even n then [0] else []) @ [0]" by (simp add: numeral_2_eq_2)
  then have "p1 @ butlast p2 = ?ys @ (if even n then [0] else [])"
    using p ne by (metis append_assoc butlast_append butlast_snoc)
  moreover have "p2[length p2 - 1 := l] = butlast p2 @ [l]"
    using ne by (metis append_butlast_last_id length_butlast list_update_length)
  ultimately have "p1 @ p2[length p2 - 1 := l] = ?ys @ (if even n then [0] else []) @ [l]" by (metis append_assoc)
  moreover have "update_res p2 (int (length p2) - 1) l = Inr (p2[length p2 - 1 := l])"
    using ne by (cases p2) simp_all
  ultimately show ?thesis using f len by (simp add: splitServers_def)
qed

lemma leaderFrom_bound:
  "leaderFrom rf_of i svs = Inr (found, l) \<Longrightarrow> (found \<longrightarrow> i \<le> l \<and> l < i + length svs) \<and> (\<not> found \<longrightarrow> l = 0)"
  by (induction rf_of i svs rule: leaderFrom.induct) (auto split: if_splits)

text \<open>The groups are those of the comment when the number of servers is odd.\<close>

lemma splitServers_groups:
  assumes "2 \<le> n" and "l < n" and "p1 @ p2 = filter (\<lambda>i. i \<noteq> l) [0..<n] @ (if even n then [0] else []) @ [l]" and "length p2 = n div 2"
  shows "odd n \<Longrightarrow> distinct (p1 @ p2) \<and> set (p1 @ p2) = {..<n}" and "even n \<Longrightarrow> \<not> distinct (p1 @ p2)" and "l \<in> set p2"
proof -
  show "odd n \<Longrightarrow> distinct (p1 @ p2) \<and> set (p1 @ p2) = {..<n}" using assms(2) unfolding assms(3) by auto
  show "even n \<Longrightarrow> \<not> distinct (p1 @ p2)" using assms(1,2) unfolding assms(3) by auto
  have "p2 \<noteq> []" using assms(1,4) by auto
  then have "last p2 = last (p1 @ p2)" by simp
  then have "last p2 = l" unfolding assms(3) by simp
  then show "l \<in> set p2" using \<open>p2 \<noteq> []\<close> last_in_set by blast
qed

end
