(* ===== verification/KvHarness.thy ===== *)
theory KvHarness
  imports ServiceRuns KvRaft
begin

text \<open>
  The harness of the key/value service (\<open>kvraft/config.go\<close>) on its own servers, and what a test of the services can
  rely on: partitions, the division of the servers, servers that are shut down, and restarts.
\<close>

section \<open>The servers of the harness\<close>

definition kv_boot :: "int \<Rightarrow> nat \<Rightarrow> nat \<Rightarrow> (Op, kv_gob) Persister \<Rightarrow> KVServer res" where
  "kv_boot maxstate n i ps = StartKVServer n i ps maxstate"

type_synonym kv_config = "(KVServer, Op, kv_gob) svc_config"

definition kv_make_config :: "int \<Rightarrow> nat \<Rightarrow> bool \<Rightarrow> (nat \<Rightarrow> nat \<Rightarrow> string) \<Rightarrow> (nat \<Rightarrow> pointer) \<Rightarrow> kv_config res" where
  "kv_make_config maxstate = svc_make_config (kv_boot maxstate) kv_rf"

definition kv_cleanup :: "kv_config \<Rightarrow> kv_config res" where
  "kv_cleanup = svc_cleanup kv_Kill"

interpretation kvh: hosted "kv_boot maxstate" kv_rf
proof
  have rf: "kv_rf (deserialize kv s) = kv_rf kv" for kv s
    by (induction kv s rule: deserialize.induct) simp_all
  show "persister (kv_rf kv) = ps" if "kv_boot maxstate n i ps = Inr kv" for n i ps kv
    using that Make_persister by (auto simp: kv_boot_def StartKVServer_def rf)
qed

abbreviation kv_steps :: "int \<Rightarrow> (nat \<Rightarrow> pointer \<Rightarrow> bool) \<Rightarrow> kv_config \<Rightarrow> kv_config \<Rightarrow> bool" where
  "kv_steps maxstate allowed \<equiv> (svc_step (kv_boot maxstate) kv_rf allowed)\<^sup>*\<^sup>*"

lemma kv_run_ready:
  assumes "kv_make_config maxstate n unreliable names srv = Inr cfg0" and "kv_steps maxstate allowed cfg0 cfg"
  shows "svc_ready n cfg"
  using svc_steps_ready [OF assms(2) svc_make_config_ready] assms(1) by (simp add: kv_make_config_def)

section \<open>Partitions\<close>

text \<open>A partition can be made in every state of a test, and then exactly the servers of the same part can
  talk to one another; every end between other servers and every end of a clerk is as before, and each end
  leads to the server it is meant for.\<close>

theorem partition_splits:
  assumes "kv_make_config maxstate n unreliable names srv = Inr cfg0" and "kv_steps maxstate allowed cfg0 cfg"
    and "set p1 \<subseteq> {..<n}" and "set p2 \<subseteq> {..<n}" and "length p1 \<le> n" and "length p2 \<le> n" and "set p1 \<inter> set p2 = {}"
  shows "\<exists>cfg'. svc_partition cfg p1 p2 = Inr cfg'
    \<and> (\<forall>a b e. svcEnd cfg' a b = Inr e \<longrightarrow> connections (sh_net cfg') (EndName e) = Some (Some (ServerName b))
        \<and> (isEnabled (sh_net cfg') (EndName e) \<longleftrightarrow>
            (if a \<in> set p1 \<union> set p2 \<and> b \<in> set p1 \<union> set p2 then a \<in> set p1 \<longleftrightarrow> b \<in> set p1 else isEnabled (sh_net cfg) (EndName e))))
    \<and> (\<forall>x. (\<forall>a b e. svcEnd cfg a b = Inr e \<longrightarrow> x \<noteq> EndName e) \<longrightarrow> isEnabled (sh_net cfg') x = isEnabled (sh_net cfg) x)"
proof -
  have ready: "svc_ready n cfg" using kv_run_ready [OF assms(1,2)] .
  obtain cfg' where p: "svc_partition cfg p1 p2 = Inr cfg'" and r: "relinked cfg cfg'"
    and l: "\<And>a b. linked cfg' a b \<longleftrightarrow> (if a \<in> set p1 \<union> set p2 \<and> b \<in> set p1 \<union> set p2 then a \<in> set p1 \<longleftrightarrow> b \<in> set p1 else linked cfg a b)"
    using partition_links [OF ready assms(3-7)] by blast
  have ok: "names_ok n (sh_net cfg') (naming cfg')" using relinked_ready [OF r ready] by (simp add: svc_ready_def svc_ok_def)
  have "connections (sh_net cfg') (EndName e) = Some (Some (ServerName b))" if "svcEnd cfg' a b = Inr e" for a b e
    using names_okD(2) [OF ok that [unfolded svcEnd_iff]] ..
  moreover have "isEnabled (sh_net cfg') (EndName e) \<longleftrightarrow> linked cfg' a b" "isEnabled (sh_net cfg) (EndName e) \<longleftrightarrow> linked cfg a b"
    if "svcEnd cfg' a b = Inr e" for a b e
    using that relinked_simps(10) [OF r, of a b] by (simp_all add: linked_def)
  moreover have "\<forall>x. (\<forall>a b e. svcEnd cfg a b = Inr e \<longrightarrow> x \<noteq> EndName e) \<longrightarrow> isEnabled (sh_net cfg') x = isEnabled (sh_net cfg) x"
    using r by (simp add: relinked_def)
  ultimately show ?thesis using p l by (intro exI [of _ cfg'] conjI allI impI) simp_all
qed

definition kv_two :: "kv_config res" where
  "kv_two = kv_make_config (-1) 2 False pairName (\<lambda>i. i)"

lemma kv_two_eval:
  "case kv_two of Inr cfg \<Rightarrow> svcEnd cfg 0 1 = Inr ''AB'' \<and> svcEnd cfg 0 0 = Inr ''AA'' | Inl _ \<Rightarrow> False"
  by code_simp

theorem partition_splits_witness:
  "\<exists>cfg cfg'. kv_two = Inr cfg \<and> svc_partition cfg [0] [1] = Inr cfg'
    \<and> \<not> isEnabled (sh_net cfg') (EndName ''AB'') \<and> isEnabled (sh_net cfg') (EndName ''AA'')"
proof -
  obtain cfg where cfg: "kv_two = Inr cfg" and e: "svcEnd cfg 0 1 = Inr ''AB''" "svcEnd cfg 0 0 = Inr ''AA''"
    using kv_two_eval by (auto split: sum.splits)
  have m: "kv_make_config (-1) 2 False pairName (\<lambda>i. i) = Inr cfg" using cfg by (simp add: kv_two_def)
  obtain cfg' where p: "svc_partition cfg [0] [1] = Inr cfg'"
    and en: "\<forall>a b e. svcEnd cfg' a b = Inr e \<longrightarrow> connections (sh_net cfg') (EndName e) = Some (Some (ServerName b))
        \<and> (isEnabled (sh_net cfg') (EndName e) \<longleftrightarrow> (if a \<in> set [0] \<union> set [1] \<and> b \<in> set [0] \<union> set [1]
             then a \<in> set [0] \<longleftrightarrow> b \<in> set [0] else isEnabled (sh_net cfg) (EndName e)))"
    using partition_splits [where ?p1.0 = "[0]" and ?p2.0 = "[1]" and allowed = "\<lambda>_ _. True", OF m rtranclp.rtrancl_refl] by auto
  have "svcEnd cfg' a b = svcEnd cfg a b" for a b
    using partition_relinks [OF p kv_run_ready [where allowed = "\<lambda>_ _. True", OF m rtranclp.rtrancl_refl]] relinked_simps(10) by blast
  then show ?thesis using cfg p en e by (intro exI [of _ cfg] exI [of _ cfg']) auto
qed

text \<open>\<open>make_partition\<close> of two or more servers returns two groups, of more than half and of half of the servers
  (rounded down), with the leader, or server 0 when there is none, in the smaller one. With an odd number of
  servers these are all servers, each once. With an even number some server is listed twice: one place of
  the slices is never filled and names server 0.\<close>

theorem make_partition_exact:
  assumes "Leader kv_rf cfg = Inr (found, l)" and "length (sh_servers cfg) = sh_n cfg" and "2 \<le> sh_n cfg"
  shows "\<exists>p1 p2. make_partition kv_rf cfg = Inr (p1, p2) \<and> length p1 = sh_n cfg div 2 + 1 \<and> length p2 = sh_n cfg div 2
    \<and> l \<in> set p2 \<and> (if odd (sh_n cfg) then distinct (p1 @ p2) \<and> set (p1 @ p2) = {..<sh_n cfg} else \<not> distinct (p1 @ p2))"
proof -
  have l: "l < sh_n cfg" using leaderFrom_bound [of kv_rf 0 "sh_servers cfg" found l] assms by (cases found) (simp_all add: Leader_def)
  then obtain p1 p2 where p: "splitServers (sh_n cfg) l = Inr (p1, p2)" "length p1 = sh_n cfg div 2 + 1" "length p2 = sh_n cfg div 2"
    "p1 @ p2 = filter (\<lambda>i. i \<noteq> l) [0..<sh_n cfg] @ (if even (sh_n cfg) then [0] else []) @ [l]"
    using splitServers_exact [OF assms(3)] by blast
  have "make_partition kv_rf cfg = Inr (p1, p2)" using p(1) assms(1) by (simp add: make_partition_def)
  then show ?thesis
    using p(2,3) splitServers_groups [OF assms(3) l p(4,3)] by (intro exI [of _ p1] exI [of _ p2]) simp
qed

text \<open>Five running servers of which none leads.\<close>

definition five_running :: kv_config where
  "five_running = (case kv_boot (-1) 5 0 MakePersister of
     Inr kv \<Rightarrow> (empty_svc_config 5)\<lparr>sh_servers := replicate 5 (Some kv)\<rparr> | Inl _ \<Rightarrow> empty_svc_config 5)"

lemma five_running_eval:
  "Leader kv_rf five_running = Inr (False, 0) \<and> length (sh_servers five_running) = 5 \<and> sh_n five_running = 5"
  by code_simp

theorem make_partition_exact_witness:
  "\<exists>p1 p2. make_partition kv_rf five_running = Inr (p1, p2) \<and> length p1 = 3 \<and> length p2 = 2 \<and> 0 \<in> set p2
    \<and> distinct (p1 @ p2) \<and> set (p1 @ p2) = {0, 1, 2, 3, 4}"
  using make_partition_exact [of five_running False 0] five_running_eval by (simp add: lessThan_nat_numeral lessThan_Suc) blast

section \<open>Stopping and starting\<close>

text \<open>C39: A server that was shut down never answers again: whatever the test does later, as long as its network server is
  not added a second time, no new request reaches it, and every request that is still on its way to it, or whose
  handler it has just finished, ends with a failed call. So what it does with the persister it shares no
  longer with \<open>saved[i]\<close> is never acknowledged.\<close>

theorem stopped_never_answers:
  assumes "kv_make_config maxstate n unreliable names srv = Inr cfg0" and "kv_steps maxstate allowed cfg0 cfg"
    and "ShutdownServer kv_rf cfg i = Inr cfg1" and "kv_steps maxstate (\<lambda>k q. q \<noteq> p) cfg1 cfg2"
    and "servername rt = ServerName i" and "server rt = p"
  shows "processReq_read (sh_net cfg2) req \<noteq> Accepted rt
    \<and> processReq_finish (sh_net cfg2) req rt got rand1 rand2 = (sh_net cfg2, Answered noReply)"
proof -
  have ready: "svc_ready n cfg" using kv_run_ready [OF assms(1,2)] .
  have "serverOf (sh_net cfg1) (ServerName i) \<noteq> Some p" using Shutdown_servers(1) [OF assms(3) ready, of i] by simp
  then have away: "serverOf (sh_net cfg2) (ServerName i) \<noteq> Some p"
    using stopped_stays_away [OF assms(4) ShutdownServer_ready [OF assms(3) ready]] by blast
  then have "isServerDead (sh_net cfg2) (endname req) (servername rt) (server rt)" by (simp add: isServerDead_def assms(5,6))
  moreover have "processReq_read (sh_net cfg2) req \<noteq> Accepted rt"
    using away assms(5,6) by (auto simp: processReq_read_def readEndnameInfo_def Let_def split: option.splits if_splits)
  ultimately show ?thesis by (simp add: processReq_finish_def split: option.split)
qed

definition kv_stopped :: "kv_config res" where
  "kv_stopped = and_then kv_two (\<lambda>cfg. ShutdownServer kv_rf cfg 0)"

lemma kv_stopped_eval: "case kv_stopped of Inr cfg \<Rightarrow> True | Inl _ \<Rightarrow> False"
  by code_simp

text \<open>Server 0 was server number 0 of the network; a request of server 1 to it was waiting for its reply.\<close>

theorem stopped_never_answers_witness:
  "\<exists>cfg. kv_stopped = Inr cfg \<and>
     processReq_finish (sh_net cfg) \<lparr>endname = EndName ''BA'', svcMeth = ''KVServer.Get'', argsType = (), req_args = []\<rparr>
       \<lparr>servername = ServerName 0, server = 0, was_reliable = True, longreordering = False\<rparr>
       (Some \<lparr>rep_ok = True, rep_reply = []\<rparr>) 0 0 = (sh_net cfg, Answered noReply)"
proof -
  obtain cfg cfg1 where two: "kv_two = Inr cfg" and d: "ShutdownServer kv_rf cfg 0 = Inr cfg1"
    using kv_stopped_eval by (auto simp: kv_stopped_def split: sum.splits)
  have m: "kv_make_config (-1) 2 False pairName (\<lambda>i. i) = Inr cfg" using two by (simp add: kv_two_def)
  have "kv_stopped = Inr cfg1" unfolding kv_stopped_def two using d by simp
  then show ?thesis
    using stopped_never_answers [where allowed = "\<lambda>_ _. True" and p = 0
        and rt = "\<lparr>servername = ServerName 0, server = 0, was_reliable = True, longreordering = False\<rparr>",
        OF m rtranclp.rtrancl_refl d rtranclp.rtrancl_refl, THEN conjunct2]
    by (intro exI [of _ cfg1]) simp
qed

text \<open>A server that is shut down and later started again begins from what it had saved, whatever happened in between: the new
  server is the one that \<open>StartKVServer\<close> makes of the persister of the old one, and the persister that the
  harness keeps for the next restart holds the same.\<close>

theorem shutdown_start_roundtrip:
  assumes "kv_make_config maxstate n unreliable names srv = Inr cfg0" and "kv_steps maxstate allowed cfg0 cfg"
    and "sh_servers cfg ! i = Some kv" and "ShutdownServer kv_rf cfg i = Inr cfg1"
    and "kv_steps maxstate (\<lambda>k q. k \<noteq> i) cfg1 cfg2"
    and "svc_StartServer (kv_boot maxstate) kv_rf cfg2 i names' srv' = Inr cfg3"
  shows "\<exists>kv'. sh_servers cfg3 ! i = Some kv' \<and> StartKVServer n i (persister (kv_rf kv)) maxstate = Inr kv'
    \<and> persister (kv_rf kv') = persister (kv_rf kv) \<and> svcSaved kv_rf cfg3 i = Some (persister (kv_rf kv))"
  using kvh.restart_with_state [OF kv_run_ready [OF assms(1,2)] assms(3-6)] by (simp add: kv_boot_def)

definition kv_restarted :: "kv_config res" where
  "kv_restarted = and_then kv_stopped (\<lambda>cfg. svc_StartServer (kv_boot (-1)) kv_rf cfg 0 (\<lambda>j. ''X'' @ pairName 0 j) 2)"

lemma kv_restarted_eval:
  "case kv_restarted of Inr cfg \<Rightarrow> True | Inl _ \<Rightarrow> False"
  "case kv_two of Inr cfg \<Rightarrow> sh_servers cfg ! 0 \<noteq> None | Inl _ \<Rightarrow> False"
  by code_simp+

theorem shutdown_start_roundtrip_witness:
  "\<exists>cfg cfg' kv kv'. kv_two = Inr cfg \<and> sh_servers cfg ! 0 = Some kv \<and> kv_restarted = Inr cfg' \<and> sh_servers cfg' ! 0 = Some kv'
    \<and> StartKVServer 2 0 (persister (kv_rf kv)) (-1) = Inr kv'"
proof -
  obtain cfg kv where two: "kv_two = Inr cfg" and kv: "sh_servers cfg ! 0 = Some kv"
    using kv_restarted_eval(2) by (auto split: sum.splits)
  obtain cfg1 cfg3 where d: "ShutdownServer kv_rf cfg 0 = Inr cfg1"
    and s: "svc_StartServer (kv_boot (-1)) kv_rf cfg1 0 (\<lambda>j. ''X'' @ pairName 0 j) 2 = Inr cfg3"
    using kv_restarted_eval(1) unfolding kv_restarted_def kv_stopped_def two by (auto split: sum.splits)
  have m: "kv_make_config (-1) 2 False pairName (\<lambda>i. i) = Inr cfg" using two by (simp add: kv_two_def)
  have "kv_restarted = Inr cfg3" unfolding kv_restarted_def kv_stopped_def two using d s by simp
  then show ?thesis
    using shutdown_start_roundtrip [where allowed = "\<lambda>_ _. True", OF m rtranclp.rtrancl_refl kv d rtranclp.rtrancl_refl s] two kv by blast
qed

end
