(* ===== verification/ShardCtrler.thy ===== *)
theory ShardCtrler
  imports Service "HOL-Library.AList"
begin

text \<open>
  The shard controller (\<open>shardctrler/server.go\<close>, \<open>shardctrler/common.go\<close>): configurations,
  \<open>rebalanceShard\<close>, the handlers and the apply loop.

  A Go map that is iterated over is an association list with distinct keys, whose order is
  the order of the iteration; \<open>Groups\<close> and the argument of \<open>Join\<close> are such lists. The map
  \<open>groupToShards\<close> inside \<open>rebalanceShard\<close> has the keys of \<open>Groups\<close> and is a HOL map. Its
  loop over the fullest and emptiest group may not end on an arbitrary map, so it is a
  partial function, and that it ends is part of what is proved of it.
\<close>

section \<open>Data\<close>

definition NShards :: nat where
  "NShards = 10"

record Config =
  Num :: int
  Shards :: "int list"
  Groups :: "(int \<times> string list) list"

datatype Err = NoErr | OK | ErrWrongLeader

record JoinArgs =
  Servers :: "(int \<times> string list) list"
  ja_ClientId :: int
  ja_RequestId :: int

record LeaveArgs =
  GIDs :: "int list"
  la_ClientId :: int
  la_RequestId :: int

record MoveArgs =
  ma_Shard :: int
  ma_GID :: int
  ma_ClientId :: int
  ma_RequestId :: int

record QueryArgs =
  qa_Num :: int
  qa_ClientId :: int
  qa_RequestId :: int

record QueryReply =
  qr_Err :: Err
  qr_Config :: Config

datatype OpType = JOIN | LEAVE | MOVE | QUERY

record Op =
  Type :: OpType
  ClientId :: int
  RequestId :: int
  op_JoinArgs :: JoinArgs
  op_LeaveArgs :: LeaveArgs
  op_MoveArgs :: MoveArgs
  op_QueryArgs :: QueryArgs

record WaitChResponse =
  wr_err :: Err
  wr_config :: Config

record 's ShardCtrler =
  sc_me :: nat
  sc_rf :: "(Op, 's) Raft"
  configs :: "Config list"
  waitChs :: "WaitChResponse wait_chs"
  latestAppliedRequest :: "int \<rightharpoonup> int"
  latestAppliedRaftIndex :: int

text \<open>The zero values of Go.\<close>

definition noConfig :: Config where
  "noConfig = \<lparr>Num = 0, Shards = replicate NShards 0, Groups = []\<rparr>"

definition noJoin :: JoinArgs where
  "noJoin = \<lparr>Servers = [], ja_ClientId = 0, ja_RequestId = 0\<rparr>"

definition noLeave :: LeaveArgs where
  "noLeave = \<lparr>GIDs = [], la_ClientId = 0, la_RequestId = 0\<rparr>"

definition noMove :: MoveArgs where
  "noMove = \<lparr>ma_Shard = 0, ma_GID = 0, ma_ClientId = 0, ma_RequestId = 0\<rparr>"

definition noQuery :: QueryArgs where
  "noQuery = \<lparr>qa_Num = 0, qa_ClientId = 0, qa_RequestId = 0\<rparr>"

section \<open>Rebalancing\<close>

definition createNewConfigDeepCopy :: "Config \<Rightarrow> Config" where
  "createNewConfigDeepCopy config =
     \<lparr>Num = Num config + 1, Shards = Shards config, Groups = Groups config\<rparr>"

type_synonym group_shards = "int \<rightharpoonup> nat list"

text \<open>Reading a key that is not there gives the empty slice.\<close>

definition shardsOf :: "group_shards \<Rightarrow> int \<Rightarrow> nat list" where
  "shardsOf g gid = (case g gid of Some xs \<Rightarrow> xs | None \<Rightarrow> [])"

definition emptyGroups :: "int list \<Rightarrow> group_shards" where
  "emptyGroups gids = map_of (map (\<lambda>gid. (gid, [])) gids)"

fun collectShards :: "group_shards \<Rightarrow> nat \<Rightarrow> int list \<Rightarrow> group_shards" where
  "collectShards g shardIndex [] = g"
| "collectShards g shardIndex (gid # shards) =
     collectShards (case g gid of Some xs \<Rightarrow> g(gid \<mapsto> xs @ [shardIndex]) | None \<Rightarrow> g)
       (shardIndex + 1) shards"

fun maxGroup :: "group_shards \<Rightarrow> int list \<Rightarrow> int \<times> nat \<Rightarrow> int \<times> nat" where
  "maxGroup g [] (maxGid, maxShardCount) = (maxGid, maxShardCount)"
| "maxGroup g (gid # gids) (maxGid, maxShardCount) =
     maxGroup g gids (if length (shardsOf g gid) \<ge> maxShardCount
                      then (gid, length (shardsOf g gid)) else (maxGid, maxShardCount))"

fun minGroup :: "group_shards \<Rightarrow> int list \<Rightarrow> int \<times> nat \<Rightarrow> int \<times> nat" where
  "minGroup g [] (minGid, minShardCount) = (minGid, minShardCount)"
| "minGroup g (gid # gids) (minGid, minShardCount) =
     minGroup g gids (if length (shardsOf g gid) \<le> minShardCount
                      then (gid, length (shardsOf g gid)) else (minGid, minShardCount))"

definition moveShard :: "group_shards \<Rightarrow> int \<Rightarrow> int \<Rightarrow> group_shards res" where
  "moveShard g maxGid minGid =
     (case shardsOf g maxGid of [] \<Rightarrow> Inl IndexPanic
      | s # rest \<Rightarrow> let g1 = g(minGid \<mapsto> shardsOf g minGid @ [s])
                    in Inr (g1(maxGid \<mapsto> tl (shardsOf g1 maxGid))))"

partial_function (option) joinLoop :: "int list \<Rightarrow> group_shards \<Rightarrow> group_shards res option" where
  "joinLoop sortedGIDs g =
     (let (maxGid, maxShardCount) = maxGroup g sortedGIDs (-1, 0);
          (minGid, minShardCount) = minGroup g sortedGIDs (-1, NShards + 1)
      in if int maxShardCount - int minShardCount \<le> 1 then Some (Inr g)
         else case moveShard g maxGid minGid of
                Inl e \<Rightarrow> Some (Inl e) | Inr g' \<Rightarrow> joinLoop sortedGIDs g')"

declare joinLoop.simps [code]

fun orphans :: "group_shards \<Rightarrow> nat \<Rightarrow> int list \<Rightarrow> nat list" where
  "orphans g shardIndex [] = []"
| "orphans g shardIndex (gid # shards) =
     (case g gid of None \<Rightarrow> shardIndex # orphans g (shardIndex + 1) shards
      | Some xs \<Rightarrow> orphans g (shardIndex + 1) shards)"

fun orphanLoop :: "int list \<Rightarrow> group_shards \<Rightarrow> nat list \<Rightarrow> group_shards" where
  "orphanLoop sortedGIDs g [] = g"
| "orphanLoop sortedGIDs g (s # orphanShards) =
     (let (minGid, minShardCount) = minGroup g sortedGIDs (-1, NShards + 1)
      in orphanLoop sortedGIDs (g(minGid \<mapsto> shardsOf g minGid @ [s])) orphanShards)"

text \<open>The last loops; the shard indices are those of the array itself.\<close>

fun assignShards :: "group_shards \<Rightarrow> int list \<Rightarrow> int list \<Rightarrow> int list" where
  "assignShards g [] shards = shards"
| "assignShards g (gid # gids) shards =
     assignShards g gids (foldl (\<lambda>sh s. sh[s := gid]) shards (shardsOf g gid))"

definition rebalanceShard ::
  "(int \<times> string list) list \<Rightarrow> int list \<Rightarrow> bool \<Rightarrow> bool \<Rightarrow> int list res" where
  "rebalanceShard groups shards isJoin isFirst =
     (let gids = map fst groups;
          sortedGIDs = sort gids;
          g = collectShards (emptyGroups gids) 0 shards
      in if isJoin \<and> \<not> isFirst then
           case joinLoop sortedGIDs g of
             None \<Rightarrow> Inl Diverges
           | Some r \<Rightarrow> and_then r (\<lambda>g'. Inr (assignShards g' gids shards))
         else if length groups > 0 then
           Inr (assignShards (orphanLoop sortedGIDs g (orphans g 0 shards)) gids shards)
         else Inr (assignShards g gids (replicate NShards 0)))"

section \<open>Handlers\<close>

text \<open>The part before the \<open>select\<close>, the same in the four handlers.\<close>

definition submit :: "'s ShardCtrler \<Rightarrow> Op \<Rightarrow> ('s ShardCtrler \<times> Err handler) res" where
  "submit sc op =
     and_then (Start (sc_rf sc) op) (\<lambda>(rf, res).
       case res of
         StartWaiting \<Rightarrow> Inr (sc\<lparr>sc_rf := rf\<rparr>, Blocked)
       | Started raftIndex t isLeader \<Rightarrow>
           if \<not> isLeader then Inr (sc\<lparr>sc_rf := rf\<rparr>, Replied ErrWrongLeader)
           else and_then (registerWaitCh (waitChs sc) raftIndex) (\<lambda>chs.
             Inr (sc\<lparr>sc_rf := rf, waitChs := chs\<rparr>, Waiting raftIndex)))"

definition baseOp :: "OpType \<Rightarrow> int \<Rightarrow> int \<Rightarrow> Op" where
  "baseOp t c r = \<lparr>Type = t, ClientId = c, RequestId = r, op_JoinArgs = noJoin, op_LeaveArgs = noLeave,
     op_MoveArgs = noMove, op_QueryArgs = noQuery\<rparr>"

definition Join_call :: "'s ShardCtrler \<Rightarrow> JoinArgs \<Rightarrow> ('s ShardCtrler \<times> Err handler) res" where
  "Join_call sc args =
     submit sc ((baseOp JOIN (ja_ClientId args) (ja_RequestId args))\<lparr>op_JoinArgs := args\<rparr>)"

definition Leave_call :: "'s ShardCtrler \<Rightarrow> LeaveArgs \<Rightarrow> ('s ShardCtrler \<times> Err handler) res" where
  "Leave_call sc args =
     submit sc ((baseOp LEAVE (la_ClientId args) (la_RequestId args))\<lparr>op_LeaveArgs := args\<rparr>)"

definition Move_call :: "'s ShardCtrler \<Rightarrow> MoveArgs \<Rightarrow> ('s ShardCtrler \<times> Err handler) res" where
  "Move_call sc args =
     submit sc ((baseOp MOVE (ma_ClientId args) (ma_RequestId args))\<lparr>op_MoveArgs := args\<rparr>)"

definition Query_call :: "'s ShardCtrler \<Rightarrow> QueryArgs \<Rightarrow> ('s ShardCtrler \<times> Err handler) res" where
  "Query_call sc args =
     submit sc ((baseOp QUERY (qa_ClientId args) (qa_RequestId args))\<lparr>op_QueryArgs := args\<rparr>)"

text \<open>The part after it, of \<open>Join\<close>, \<open>Leave\<close> and \<open>Move\<close>, and of \<open>Query\<close>.\<close>

definition change_return :: "'s ShardCtrler \<Rightarrow> int \<Rightarrow> 's ShardCtrler \<times> Err" where
  "change_return sc raftIndex =
     (sc\<lparr>waitChs := (waitChs sc)(raftIndex := None)\<rparr>,
      case recvWaitCh (waitChs sc) raftIndex of
        None \<Rightarrow> ErrWrongLeader | Some response \<Rightarrow> wr_err response)"

definition Query_return :: "'s ShardCtrler \<Rightarrow> int \<Rightarrow> 's ShardCtrler \<times> QueryReply" where
  "Query_return sc raftIndex =
     (sc\<lparr>waitChs := (waitChs sc)(raftIndex := None)\<rparr>,
      case recvWaitCh (waitChs sc) raftIndex of
        None \<Rightarrow> \<lparr>qr_Err = ErrWrongLeader, qr_Config = noConfig\<rparr>
      | Some response \<Rightarrow> \<lparr>qr_Err = wr_err response, qr_Config = wr_config response\<rparr>)"

definition sc_Kill :: "'s ShardCtrler \<Rightarrow> 's ShardCtrler" where
  "sc_Kill sc = sc\<lparr>sc_rf := Kill (sc_rf sc)\<rparr>"

definition sc_Raft :: "'s ShardCtrler \<Rightarrow> (Op, 's) Raft" where
  "sc_Raft sc = sc_rf sc"

section \<open>The apply loop\<close>

definition lastConfig :: "Config list \<Rightarrow> Config res" where
  "lastConfig cs = nth_res cs (length cs - 1)"

fun putGroups :: "(int \<times> string list) list \<Rightarrow> (int \<times> string list) list \<Rightarrow> (int \<times> string list) list" where
  "putGroups groups [] = groups"
| "putGroups groups ((gid, servers) # rest) = putGroups (AList.update gid servers groups) rest"

fun deleteGroups :: "(int \<times> string list) list \<Rightarrow> int list \<Rightarrow> (int \<times> string list) list" where
  "deleteGroups groups [] = groups"
| "deleteGroups groups (gid # rest) = deleteGroups (AList.delete gid groups) rest"

definition applyJoin :: "Config list \<Rightarrow> JoinArgs \<Rightarrow> Config list res" where
  "applyJoin cs args =
     and_then (lastConfig cs) (\<lambda>config.
       let newConfig = createNewConfigDeepCopy config;
           isFirst = (length (Groups newConfig) = 0);
           groups = putGroups (Groups newConfig) (Servers args)
       in and_then (rebalanceShard groups (Shards newConfig) True isFirst) (\<lambda>shards.
            Inr (cs @ [newConfig\<lparr>Groups := groups, Shards := shards\<rparr>])))"

definition applyLeave :: "Config list \<Rightarrow> LeaveArgs \<Rightarrow> Config list res" where
  "applyLeave cs args =
     and_then (lastConfig cs) (\<lambda>config.
       let newConfig = createNewConfigDeepCopy config;
           groups = deleteGroups (Groups newConfig) (GIDs args)
       in and_then (rebalanceShard groups (Shards newConfig) False False) (\<lambda>shards.
            Inr (cs @ [newConfig\<lparr>Groups := groups, Shards := shards\<rparr>])))"

definition applyMove :: "Config list \<Rightarrow> MoveArgs \<Rightarrow> Config list res" where
  "applyMove cs args =
     and_then (lastConfig cs) (\<lambda>config.
       let newConfig = createNewConfigDeepCopy config
       in if ma_Shard args < 0 then Inl IndexPanic
          else and_then (set_res (Shards newConfig) (nat (ma_Shard args)) (ma_GID args)) (\<lambda>shards.
            Inr (cs @ [newConfig\<lparr>Shards := shards\<rparr>])))"

definition applyQuery :: "Config list \<Rightarrow> QueryArgs \<Rightarrow> Config res" where
  "applyQuery cs args =
     (if qa_Num args < 0 \<or> qa_Num args \<ge> int (length cs) - 1 then lastConfig cs
      else nth_res cs (nat (qa_Num args)))"

text \<open>The configurations after an operation that is not a duplicate.\<close>

definition change :: "Config list \<Rightarrow> Op \<Rightarrow> Config list res" where
  "change cs op = (case Type op of JOIN \<Rightarrow> applyJoin cs (op_JoinArgs op)
     | LEAVE \<Rightarrow> applyLeave cs (op_LeaveArgs op) | MOVE \<Rightarrow> applyMove cs (op_MoveArgs op) | QUERY \<Rightarrow> Inr cs)"

definition applyOp :: "'s ShardCtrler \<Rightarrow> Op \<Rightarrow> ('s ShardCtrler \<times> WaitChResponse) res" where
  "applyOp sc op =
     (let seen = touch (latestAppliedRequest sc) (ClientId op);
          duplicated = (RequestId op \<le> latestOf seen (ClientId op));
          sc1 = sc\<lparr>latestAppliedRequest :=
            (if duplicated then seen else seen(ClientId op \<mapsto> RequestId op))\<rparr>
      in and_then (if duplicated then Inr (configs sc1) else change (configs sc1) op) (\<lambda>cs.
           let sc2 = sc1\<lparr>configs := cs\<rparr>
           in if Type op = QUERY
              then and_then (applyQuery cs (op_QueryArgs op)) (\<lambda>config.
                     Inr (sc2, \<lparr>wr_err = OK, wr_config = config\<rparr>))
              else Inr (sc2, \<lparr>wr_err = OK, wr_config = noConfig\<rparr>)))"

definition applyLoop_msg :: "'s ShardCtrler \<Rightarrow> (Op, 's) ApplyMsg \<Rightarrow> 's ShardCtrler res" where
  "applyLoop_msg sc msg =
     (if CommandValid msg then
        if CommandIndex msg \<le> latestAppliedRaftIndex sc then Inr sc
        else case Command msg of
          None \<Rightarrow> Inl NilPanic
        | Some op \<Rightarrow> and_then (applyOp sc op) (\<lambda>(sc1, response).
            Inr (sc1\<lparr>latestAppliedRaftIndex := CommandIndex msg,
                     waitChs := sendWaitCh (waitChs sc1) (CommandIndex msg) response\<rparr>))
      else Inr sc)"

definition sc_applyLoop :: "'s ShardCtrler \<Rightarrow> 's ShardCtrler res" where
  "sc_applyLoop sc =
     (case applyCh (sc_rf sc) of [] \<Rightarrow> Inr sc
      | msg # rest \<Rightarrow> applyLoop_msg (sc\<lparr>sc_rf := (sc_rf sc)\<lparr>applyCh := rest\<rparr>\<rparr>) msg)"

definition StartServer :: "nat \<Rightarrow> nat \<Rightarrow> (Op, 's) Persister \<Rightarrow> 's ShardCtrler res" where
  "StartServer n i ps =
     and_then (Make n i ps) (\<lambda>rf.
       Inr \<lparr>sc_me = i, sc_rf = rf, configs = [noConfig], waitChs = Map.empty,
            latestAppliedRequest = Map.empty, latestAppliedRaftIndex = 0\<rparr>)"

end
