(* ===== verification/CtrlHarness.thy ===== *)
theory CtrlHarness
  imports ServiceRuns ShardCtrler
begin

text \<open>
  The harness of the shard controller (\<open>shardctrler/config.go\<close>). It is a copy of the harness of the key/value
  service with other servers, so its operations are those of \<open>ServiceHarness\<close> on the servers of the
  controller; only \<open>Leader\<close> differs, which passes over servers that are shut down.
\<close>

section \<open>The operations\<close>

type_synonym 's sc_config = "('s ShardCtrler, Op, 's) svc_config"

definition sc_boot :: "nat \<Rightarrow> nat \<Rightarrow> (Op, 's) Persister \<Rightarrow> 's ShardCtrler res" where
  "sc_boot n i ps = StartServer n i ps"

definition sc_connectUnlocked :: "'s sc_config \<Rightarrow> nat \<Rightarrow> nat list \<Rightarrow> 's sc_config res" where
  "sc_connectUnlocked = connectUnlocked"

definition sc_disconnectUnlocked :: "'s sc_config \<Rightarrow> nat \<Rightarrow> nat list \<Rightarrow> 's sc_config res" where
  "sc_disconnectUnlocked = disconnectUnlocked"

definition sc_ConnectAll :: "'s sc_config \<Rightarrow> 's sc_config res" where
  "sc_ConnectAll = ConnectAll"

definition sc_partition :: "'s sc_config \<Rightarrow> nat list \<Rightarrow> nat list \<Rightarrow> 's sc_config res" where
  "sc_partition = svc_partition"

definition sc_makeClient ::
  "'s sc_config \<Rightarrow> nat list \<Rightarrow> nat \<Rightarrow> (nat \<Rightarrow> string) \<Rightarrow> (nat \<Rightarrow> nat) \<Rightarrow> ('s sc_config \<times> name list) res" where
  "sc_makeClient = makeClient"

definition sc_deleteClient :: "'s sc_config \<Rightarrow> nat \<Rightarrow> 's sc_config" where
  "sc_deleteClient = deleteClient"

definition sc_ConnectClientUnlocked :: "'s sc_config \<Rightarrow> nat \<Rightarrow> nat list \<Rightarrow> 's sc_config res" where
  "sc_ConnectClientUnlocked = ConnectClientUnlocked"

definition sc_DisconnectClientUnlocked :: "'s sc_config \<Rightarrow> nat \<Rightarrow> nat list \<Rightarrow> 's sc_config res" where
  "sc_DisconnectClientUnlocked = DisconnectClientUnlocked"

definition sc_ShutdownServer :: "'s sc_config \<Rightarrow> nat \<Rightarrow> 's sc_config res" where
  "sc_ShutdownServer = ShutdownServer sc_rf"

definition sc_StartServer :: "'s sc_config \<Rightarrow> nat \<Rightarrow> (nat \<Rightarrow> string) \<Rightarrow> pointer \<Rightarrow> 's sc_config res" where
  "sc_StartServer = svc_StartServer sc_boot sc_rf"

definition sc_make_config :: "nat \<Rightarrow> bool \<Rightarrow> (nat \<Rightarrow> nat \<Rightarrow> string) \<Rightarrow> (nat \<Rightarrow> pointer) \<Rightarrow> 's sc_config res" where
  "sc_make_config = svc_make_config sc_boot sc_rf"

definition sc_cleanup :: "'s sc_config \<Rightarrow> 's sc_config res" where
  "sc_cleanup = svc_cleanup sc_Kill"

definition sc_LogSize :: "(Op gob list \<Rightarrow> nat) \<Rightarrow> 's sc_config \<Rightarrow> nat res" where
  "sc_LogSize enc_len = svc_LogSize enc_len sc_rf"

fun leaderAmong :: "('sv \<Rightarrow> ('c, 's) Raft) \<Rightarrow> nat \<Rightarrow> 'sv option list \<Rightarrow> bool \<times> nat" where
  "leaderAmong rf_of i [] = (False, 0)"
| "leaderAmong rf_of i (None # rest) = leaderAmong rf_of (i + 1) rest"
| "leaderAmong rf_of i (Some sv # rest) =
     (if snd (GetState (rf_of sv)) then (True, i) else leaderAmong rf_of (i + 1) rest)"

definition sc_Leader :: "'s sc_config \<Rightarrow> bool \<times> nat" where
  "sc_Leader cfg = leaderAmong sc_rf 0 (sh_servers cfg)"

definition sc_make_partition :: "'s sc_config \<Rightarrow> (nat list \<times> nat list) res" where
  "sc_make_partition cfg = (let (_, l) = sc_Leader cfg in splitServers (sh_n cfg) l)"

interpretation sch: hosted sc_boot sc_rf
proof
  show "persister (sc_rf sc) = ps" if "sc_boot n i ps = Inr sc" for n i ps and sc :: "'s ShardCtrler"
    using that Make_persister by (auto simp: sc_boot_def StartServer_def)
qed

section \<open>The leader in the minority\<close>

lemma leaderAmong_finds:
  "leaderAmong rf_of i svs = (found, l) \<Longrightarrow>
   (if found then i \<le> l \<and> l < i + length svs \<and> (\<exists>sv. svs ! (l - i) = Some sv \<and> state (rf_of sv) = leaderState)
    else l = 0 \<and> (\<forall>sv. Some sv \<in> set svs \<longrightarrow> state (rf_of sv) \<noteq> leaderState))"
proof (induction rf_of i svs rule: leaderAmong.induct)
  case (2 rf_of i rest)
  then have "leaderAmong rf_of (i + 1) rest = (found, l)" by simp
  note IH = 2(1) [OF this]
  show ?case
  proof (cases found)
    case True
    then have "i + 1 \<le> l" using IH by simp
    then have "l - i = Suc (l - (i + 1))" by simp
    then show ?thesis using IH True by auto
  qed (use IH in auto)
next
  case (3 rf_of i sv rest)
  show ?case
  proof (cases "snd (GetState (rf_of sv))")
    case False
    then have "leaderAmong rf_of (i + 1) rest = (found, l)" using 3(2) by simp
    note IH = 3(1) [OF False this]
    show ?thesis
    proof (cases found)
      case True
      then have "i + 1 \<le> l" using IH by simp
      then have "l - i = Suc (l - (i + 1))" by simp
      then show ?thesis using IH True by auto
    qed (use IH False in \<open>auto simp: GetState_def\<close>)
  qed (use 3(2) in \<open>auto simp: GetState_def\<close>)
qed simp

text \<open>C40: In every state of a test of an odd number of servers, also with servers shut down, \<open>make_partition\<close> followed by
  \<open>partition\<close> cuts the servers into a majority and a minority with the first running leader in the minority: every
  server is in exactly one part, and exactly the ends within a part are enabled.\<close>

theorem leader_in_minority:
  assumes "sc_make_config n unreliable names srv = Inr cfg0" and "(svc_step sc_boot sc_rf allowed)\<^sup>*\<^sup>* cfg0 cfg" and "odd n" and "1 < n"
  shows "\<exists>p1 p2 cfg'. sc_make_partition cfg = Inr (p1, p2) \<and> sc_partition cfg p1 p2 = Inr cfg'
    \<and> length p1 = n div 2 + 1 \<and> length p2 = n div 2 \<and> set p1 \<inter> set p2 = {} \<and> set p1 \<union> set p2 = {..<n}
    \<and> (case sc_Leader cfg of (found, l) \<Rightarrow> l \<in> set p2
        \<and> (if found then \<exists>sc. sh_servers cfg ! l = Some sc \<and> state (sc_rf sc) = leaderState
           else \<forall>sc. Some sc \<in> set (sh_servers cfg) \<longrightarrow> state (sc_rf sc) \<noteq> leaderState))
    \<and> (\<forall>a b e. svcEnd cfg' a b = Inr e \<longrightarrow> (isEnabled (sh_net cfg') (EndName e) \<longleftrightarrow> (a \<in> set p1 \<longleftrightarrow> b \<in> set p1)))"
proof -
  have ready: "svc_ready n cfg"
    using svc_steps_ready [OF assms(2) svc_make_config_ready] assms(1) by (simp add: sc_make_config_def)
  then have n: "sh_n cfg = n" "length (sh_servers cfg) = n" by (simp_all add: svc_ready_def svc_ok_def)
  obtain found l where fl: "sc_Leader cfg = (found, l)" by (cases "sc_Leader cfg")
  note lead = leaderAmong_finds [OF fl [unfolded sc_Leader_def]]
  then have l: "l < n" using n assms(4) by (cases found) auto
  have lead': "if found then \<exists>sc. sh_servers cfg ! l = Some sc \<and> state (sc_rf sc) = leaderState
      else \<forall>sc. Some sc \<in> set (sh_servers cfg) \<longrightarrow> state (sc_rf sc) \<noteq> leaderState"
    using lead by (cases found) simp_all
  obtain p1 p2 where sp: "splitServers n l = Inr (p1, p2)" and len: "length p1 = n div 2 + 1" "length p2 = n div 2"
    and p: "p1 @ p2 = filter (\<lambda>i. i \<noteq> l) [0..<n] @ (if even n then [0] else []) @ [l]"
    using splitServers_exact [of n l] assms(4) l by auto
  have n2: "2 \<le> n" using assms(4) by simp
  have g: "distinct (p1 @ p2)" "set (p1 @ p2) = {..<n}" and lp: "l \<in> set p2"
    using splitServers_groups [OF n2 l p len(2)] assms(3) by simp_all
  have dis: "set p1 \<inter> set p2 = {}" and un: "set p1 \<union> set p2 = {..<n}" using g by auto
  have bounds: "set p1 \<subseteq> {..<n}" "set p2 \<subseteq> {..<n}" "length p1 \<le> n" "length p2 \<le> n"
    using un len assms(3,4) by (auto elim!: oddE)
  obtain cfg' where part: "svc_partition cfg p1 p2 = Inr cfg'" and r: "relinked cfg cfg'"
    and links: "\<And>a b. linked cfg' a b \<longleftrightarrow> (if a \<in> set p1 \<union> set p2 \<and> b \<in> set p1 \<union> set p2 then a \<in> set p1 \<longleftrightarrow> b \<in> set p1 else linked cfg a b)"
    using partition_links [OF ready bounds dis] by blast
  have ready': "svc_ready n cfg'" using relinked_ready [OF r ready] .
  have en: "isEnabled (sh_net cfg') (EndName e) \<longleftrightarrow> (a \<in> set p1 \<longleftrightarrow> b \<in> set p1)" if e: "svcEnd cfg' a b = Inr e" for a b e
    using links [of a b] svc_ready_bound [OF ready' e] e un by (simp add: linked_def)
  have "sc_make_partition cfg = Inr (p1, p2)" "sc_partition cfg p1 p2 = Inr cfg'"
    using sp part n(1) fl by (simp_all add: sc_make_partition_def sc_partition_def)
  then show ?thesis
    using len dis un lp lead' fl en by (intro exI [of _ p1] exI [of _ p2] exI [of _ cfg']) simp
qed

lemma pairName_inj: "inj_on (\<lambda>(i, j). pairName i j) ({..<3} \<times> {..<3})"
proof -
  have "distinct (map (\<lambda>(i, j). pairName i j) (List.product [0..<3] [0..<3]))" by code_simp
  then show ?thesis by (simp add: distinct_map atLeast0LessThan)
qed

theorem leader_in_minority_witness:
  "\<exists>cfg :: unit sc_config. \<exists>p1 p2. sc_make_config 3 False pairName (\<lambda>i. i) = Inr cfg \<and> sc_make_partition cfg = Inr (p1, p2)
    \<and> length p1 = 2 \<and> length p2 = 1 \<and> set p1 \<inter> set p2 = {} \<and> set p1 \<union> set p2 = {0, 1, 2}"
proof -
  have "\<exists>sc :: unit ShardCtrler. sc_boot 3 i MakePersister = Inr sc" for i
    by (simp add: sc_boot_def StartServer_def Make_def ReadRaftState_def MakePersister_def)
  then obtain cfg :: "unit sc_config" where m: "sc_make_config 3 False pairName (\<lambda>i. i) = Inr cfg"
    using svc_make_config_total [OF pairName_inj, of sc_boot sc_rf False "\<lambda>i. i"] by (auto simp: sc_make_config_def)
  show ?thesis
    using leader_in_minority [where allowed = "\<lambda>_ _. True", OF m rtranclp.rtrancl_refl] m
    by (auto simp: lessThan_nat_numeral lessThan_Suc)
qed

end
