(* ===== verification/ShardBalance.thy ===== *)
theory ShardBalance
  imports ShardCtrler
begin

text \<open>
  Facts on \<open>rebalanceShard\<close>. The map \<open>groupToShards\<close> restricted to the groups \<open>K\<close> is seen
  as the number of shards of each group (\<open>len\<close>) and as the multiset of all their shards
  (\<open>held\<close>). Both loops keep the multiset; the loop of \<open>Join\<close> ends with counts that differ
  by at most one, since the sum of their squares gets smaller, and the loop over the orphans
  keeps such counts.
\<close>

section \<open>Counts and contents\<close>

definition len :: "group_shards \<Rightarrow> int \<Rightarrow> nat" where
  "len g gid = length (shardsOf g gid)"

definition held :: "group_shards \<Rightarrow> int set \<Rightarrow> nat multiset" where
  "held g K = (\<Sum>k\<in>K. mset (shardsOf g k))"

definition even_counts :: "group_shards \<Rightarrow> int set \<Rightarrow> bool" where
  "even_counts g K \<longleftrightarrow> (\<forall>a\<in>K. \<forall>b\<in>K. len g a \<le> len g b + 1)"

lemma shardsOf_update: "shardsOf (g(a \<mapsto> xs)) k = (if k = a then xs else shardsOf g k)"
  by (simp add: shardsOf_def)

lemma size_held: "size (held g K) = (\<Sum>k\<in>K. len g k)"
  by (simp add: held_def len_def size_multiset_sum)

lemma len_le_held:
  assumes "finite K" and "k \<in> K"
  shows "len g k \<le> size (held g K)"
  using assms by (simp add: size_held member_le_sum)

section \<open>The fullest and the emptiest group\<close>

lemma maxGroup_acc:
  "maxGroup g gids (a, c) = (mg, mc) \<Longrightarrow>
   c \<le> mc \<and> (\<forall>k\<in>set gids. len g k \<le> mc) \<and> ((mg, mc) = (a, c) \<or> mg \<in> set gids \<and> mc = len g mg)"
proof (induction gids arbitrary: a c)
  case (Cons k gids)
  show ?case
  proof (cases "c \<le> len g k")
    case True
    then have "maxGroup g gids (k, len g k) = (mg, mc)"
      using Cons.prems by (simp add: len_def)
    from Cons.IH [OF this] True show ?thesis by auto
  next
    case False
    then have "maxGroup g gids (a, c) = (mg, mc)"
      using Cons.prems by (simp add: len_def)
    from Cons.IH [OF this] False show ?thesis by auto
  qed
qed simp

lemma minGroup_acc:
  "minGroup g gids (a, c) = (mg, mc) \<Longrightarrow>
   mc \<le> c \<and> (\<forall>k\<in>set gids. mc \<le> len g k) \<and> ((mg, mc) = (a, c) \<or> mg \<in> set gids \<and> mc = len g mg)"
proof (induction gids arbitrary: a c)
  case (Cons k gids)
  show ?case
  proof (cases "len g k \<le> c")
    case True
    then have "minGroup g gids (k, len g k) = (mg, mc)"
      using Cons.prems by (simp add: len_def)
    from Cons.IH [OF this] True show ?thesis by auto
  next
    case False
    then have "minGroup g gids (a, c) = (mg, mc)"
      using Cons.prems by (simp add: len_def)
    from Cons.IH [OF this] False show ?thesis by auto
  qed
qed simp

lemma maxGroup_spec:
  assumes "maxGroup g gids (-1, 0) = (mg, mc)" and "gids \<noteq> []"
  shows "mg \<in> set gids" "mc = len g mg" "k \<in> set gids \<Longrightarrow> len g k \<le> mc"
proof -
  obtain k0 rest where gids: "gids = k0 # rest"
    using assms(2) by (cases gids) auto
  then have "maxGroup g rest (k0, len g k0) = (mg, mc)"
    using assms(1) by (simp add: len_def)
  from maxGroup_acc [OF this] gids
  show "mg \<in> set gids" "mc = len g mg" "k \<in> set gids \<Longrightarrow> len g k \<le> mc"
    by auto
qed

lemma minGroup_spec:
  assumes "minGroup g gids (-1, NShards + 1) = (mg, mc)" and "gids \<noteq> []"
    and "\<forall>k\<in>set gids. len g k \<le> NShards"
  shows "mg \<in> set gids" "mc = len g mg" "k \<in> set gids \<Longrightarrow> mc \<le> len g k"
proof -
  obtain k0 rest where gids: "gids = k0 # rest"
    using assms(2) by (cases gids) auto
  then have "length (shardsOf g k0) \<le> NShards + 1"
    using assms(3) by (simp add: len_def)
  then have "minGroup g rest (k0, len g k0) = (mg, mc)"
    using assms(1) gids by (simp add: len_def)
  from minGroup_acc [OF this] gids
  show "mg \<in> set gids" "mc = len g mg" "k \<in> set gids \<Longrightarrow> mc \<le> len g k"
    by auto
qed

section \<open>The loop of Join\<close>

lemma sum_two:
  fixes f :: "int \<Rightarrow> 'b :: comm_monoid_add"
  assumes "finite K" "a \<in> K" "b \<in> K" "a \<noteq> b"
  shows "(\<Sum>k\<in>K. f k) = f a + (f b + (\<Sum>k\<in>K - {a, b}. f k))"
proof -
  have "K - {a} - {b} = K - {a, b}" by auto
  then show ?thesis
    using assms sum.remove [of K a f] sum.remove [of "K - {a}" b f] by simp
qed

lemma moveShard_facts:
  assumes "finite K" "a \<in> K" "b \<in> K" "a \<noteq> b" and "len g a > 0"
  obtains g' where "moveShard g a b = Inr g'" "held g' K = held g K"
    "len g' a = len g a - 1" "len g' b = len g b + 1" "\<forall>k. k \<noteq> a \<and> k \<noteq> b \<longrightarrow> g' k = g k"
proof -
  obtain s rest where s: "shardsOf g a = s # rest"
    using assms(5) by (cases "shardsOf g a") (auto simp: len_def)
  let ?g' = "g(b \<mapsto> shardsOf g b @ [s], a \<mapsto> rest)"
  have other: "shardsOf ?g' k = shardsOf g k" if "k \<in> K - {a, b}" for k
    using that by (auto simp: shardsOf_update)
  have "held ?g' K = held g K"
    using assms(4) s by (simp add: held_def sum_two [OF assms(1-4)] other shardsOf_update)
  moreover have "moveShard g a b = Inr ?g'"
    using assms(4) s by (simp add: moveShard_def shardsOf_update Let_def)
  ultimately show ?thesis
    using that [of ?g'] assms s by (auto simp: len_def shardsOf_update)
qed

lemma squares_decrease:
  fixes a b :: nat
  assumes "b + 2 \<le> a"
  shows "(a - 1)\<^sup>2 + (b + 1)\<^sup>2 < a\<^sup>2 + b\<^sup>2"
proof -
  obtain d where "a = b + 2 + d" using assms le_Suc_ex by blast
  then show ?thesis by (simp add: power2_eq_square algebra_simps)
qed

lemma joinLoop_returns:
  assumes "gids \<noteq> []" and "size (held g (set gids)) \<le> NShards"
  shows "\<exists>g'. joinLoop gids g = Some (Inr g') \<and> held g' (set gids) = held g (set gids)
     \<and> even_counts g' (set gids)"
  using assms(2)
proof (induction "\<Sum>k\<in>set gids. (len g k)\<^sup>2" arbitrary: g rule: less_induct)
  case less
  let ?K = "set gids"
  obtain a mc where max: "maxGroup g gids (-1, 0) = (a, mc)" by fastforce
  obtain b nc where min: "minGroup g gids (-1, NShards + 1) = (b, nc)" by fastforce
  have small: "\<forall>k\<in>?K. len g k \<le> NShards"
    using len_le_held [of ?K _ g] less.prems by (meson finite_set order.trans)
  note mx = maxGroup_spec [OF max assms(1)] and mn = minGroup_spec [OF min assms(1) small]
  show ?case
  proof (cases "int mc - int nc \<le> 1")
    case True
    have "joinLoop gids g = Some (Inr g)"
      using True by (subst joinLoop.simps) (simp add: max min [simplified])
    moreover have "len g x \<le> len g y + 1" if "x \<in> ?K" "y \<in> ?K" for x y
      using mx(3) [OF that(1)] mn(3) [OF that(2)] True by linarith
    ultimately show ?thesis by (auto simp: even_counts_def)
  next
    case False
    then have gap: "len g b + 2 \<le> len g a"
      using mx(2) mn(2) by simp
    then have ab: "a \<noteq> b" "len g a > 0" by auto
    obtain g' where g': "moveShard g a b = Inr g'" "held g' ?K = held g ?K"
      "len g' a = len g a - 1" "len g' b = len g b + 1" "\<forall>k. k \<noteq> a \<and> k \<noteq> b \<longrightarrow> g' k = g k"
      by (rule moveShard_facts [OF finite_set mx(1) mn(1) ab])
    have rest: "(\<Sum>k\<in>?K - {a, b}. (len g' k)\<^sup>2) = (\<Sum>k\<in>?K - {a, b}. (len g k)\<^sup>2)"
      by (rule sum.cong) (auto simp: len_def shardsOf_def g'(5))
    have "(\<Sum>k\<in>?K. (len g' k)\<^sup>2) < (\<Sum>k\<in>?K. (len g k)\<^sup>2)"
      using squares_decrease [OF gap] ab(1) mx(1) mn(1)
      by (simp add: sum_two [of ?K a b] rest g'(3,4))
    from less.hyps [OF this] less.prems g'(2)
    obtain g'' where "joinLoop gids g' = Some (Inr g'')" "held g'' ?K = held g' ?K" "even_counts g'' ?K"
      by auto
    moreover have "joinLoop gids g = joinLoop gids g'"
      using False g'(1) by (subst joinLoop.simps) (simp add: max min [simplified])
    ultimately show ?thesis using g'(2) by auto
  qed
qed

section \<open>The loop over the orphans\<close>

lemma sum_one:
  fixes f :: "int \<Rightarrow> 'b :: comm_monoid_add"
  assumes "finite K" "a \<in> K"
  shows "(\<Sum>k\<in>K. f k) = f a + (\<Sum>k\<in>K - {a}. f k)"
  using assms by (simp add: sum.remove)

lemma held_add:
  assumes "finite K" "a \<in> K"
  shows "held (g(a \<mapsto> shardsOf g a @ [s])) K = add_mset s (held g K)"
proof -
  have "(\<Sum>k\<in>K - {a}. mset (shardsOf (g(a \<mapsto> shardsOf g a @ [s])) k)) = (\<Sum>k\<in>K - {a}. mset (shardsOf g k))"
    by (rule sum.cong) (auto simp: shardsOf_update)
  then show ?thesis
    unfolding held_def by (simp add: sum_one [OF assms] shardsOf_update)
qed

lemma orphanLoop_held:
  assumes "gids \<noteq> []" and "size (held g (set gids)) + length orphs \<le> NShards"
  shows "held (orphanLoop gids g orphs) (set gids) = held g (set gids) + mset orphs"
  using assms(2)
proof (induction orphs arbitrary: g)
  case (Cons s orphs)
  obtain b nc where min: "minGroup g gids (-1, NShards + 1) = (b, nc)" by fastforce
  have "\<forall>k\<in>set gids. len g k \<le> NShards"
    using len_le_held [of "set gids" _ g] Cons.prems by (meson finite_set order.trans add_leD1)
  from minGroup_spec(1) [OF min assms(1) this]
  have add: "held (g(b \<mapsto> shardsOf g b @ [s])) (set gids) = add_mset s (held g (set gids))"
    by (simp add: held_add)
  have "size (held (g(b \<mapsto> shardsOf g b @ [s])) (set gids)) + length orphs \<le> NShards"
    using Cons.prems by (simp add: add)
  then have "held (orphanLoop gids (g(b \<mapsto> shardsOf g b @ [s])) orphs) (set gids) =
      held (g(b \<mapsto> shardsOf g b @ [s])) (set gids) + mset orphs"
    by (rule Cons.IH)
  then show ?case
    by (simp add: add min [simplified])
qed simp

lemma orphanLoop_facts:
  assumes "gids \<noteq> []" and "size (held g (set gids)) + length orphs \<le> NShards"
    and "even_counts g (set gids)"
  shows "even_counts (orphanLoop gids g orphs) (set gids)
     \<and> (\<forall>k. \<exists>added. shardsOf (orphanLoop gids g orphs) k = shardsOf g k @ added)"
  using assms(2,3)
proof (induction orphs arbitrary: g)
  case (Cons s orphs)
  let ?K = "set gids"
  obtain b nc where min: "minGroup g gids (-1, NShards + 1) = (b, nc)" by fastforce
  have small: "\<forall>k\<in>?K. len g k \<le> NShards"
    using len_le_held [of ?K _ g] Cons.prems(1) by (meson finite_set order.trans add_leD1)
  note mn = minGroup_spec [OF min assms(1) small]
  let ?g = "g(b \<mapsto> shardsOf g b @ [s])"
  have held: "held ?g ?K = add_mset s (held g ?K)"
    by (rule held_add) (simp_all add: mn(1))
  have len: "len ?g k = (if k = b then len g b + 1 else len g k)" for k
    by (simp add: len_def shardsOf_update)
  have "len ?g x \<le> len ?g y + 1" if "x \<in> ?K" "y \<in> ?K" for x y
  proof (cases "x = b")
    case True
    have "len g b \<le> len g y" using mn(2) mn(3) [OF that(2)] by simp
    then show ?thesis by (simp add: len True)
  next
    case False
    have "len g x \<le> len g y + 1" using Cons.prems(2) that by (simp add: even_counts_def)
    then show ?thesis using False by (auto simp: len)
  qed
  then have "even_counts ?g ?K" by (simp add: even_counts_def)
  moreover have "size (held ?g ?K) + length orphs \<le> NShards"
    using Cons.prems(1) by (simp add: held)
  ultimately have IH: "even_counts (orphanLoop gids ?g orphs) ?K"
      "\<And>k. \<exists>added. shardsOf (orphanLoop gids ?g orphs) k = shardsOf ?g k @ added"
    using Cons.IH [of ?g] by blast+
  have "\<exists>added. shardsOf (orphanLoop gids ?g orphs) k = shardsOf g k @ added" for k
    using IH(2) [of k] by (auto simp: shardsOf_update split: if_splits)
  then show ?case
    using IH(1) by (simp add: min [simplified])
qed simp

section \<open>Collecting the shards of a configuration\<close>

lemma shardsOf_empty: "shardsOf (emptyGroups gids) k = []"
  by (auto simp: shardsOf_def emptyGroups_def split: option.splits dest!: map_of_SomeD)

lemma dom_empty: "dom (emptyGroups gids) = set gids"
  by (simp add: emptyGroups_def dom_map_of_conv_image_fst image_image)

lemma dom_collectShards: "dom (collectShards g i shards) = dom g"
proof (induction shards arbitrary: g i)
  case (Cons gid shards)
  show ?case
    by (auto simp: Cons.IH split: option.splits)
qed simp

lemma shardsOf_collectShards:
  "shardsOf (collectShards g i shards) k =
     shardsOf g k @ (if k \<in> dom g then map (\<lambda>j. i + j) (filter (\<lambda>j. shards ! j = k) [0..<length shards]) else [])"
proof (induction shards arbitrary: g i)
  case (Cons gid shards)
  let ?g = "case g gid of Some xs \<Rightarrow> g(gid \<mapsto> xs @ [i]) | None \<Rightarrow> g"
  have dom: "dom ?g = dom g"
    by (auto split: option.splits)
  have "shardsOf ?g k = shardsOf g k @ (if k \<in> dom g \<and> k = gid then [i] else [])"
    by (auto simp: shardsOf_def split: option.splits)
  then show ?case
    unfolding upt_length_Cons by (simp add: Cons.IH dom filter_map o_def)
qed simp

lemma orphans_eq: "orphans g i shards = map (\<lambda>j. i + j) (filter (\<lambda>j. shards ! j \<notin> dom g) [0..<length shards])"
proof (induction shards arbitrary: i)
  case (Cons gid shards)
  show ?case
    unfolding upt_length_Cons by (auto simp: Cons.IH filter_map o_def split: option.split)
qed simp

lemma held_filter:
  assumes "finite K"
  shows "(\<Sum>k\<in>K. mset (filter (\<lambda>j. f j = k) xs)) = mset (filter (\<lambda>j. f j \<in> K) xs)"
  using assms
proof (induction K rule: finite_induct)
  case (insert a K)
  have "mset (filter (\<lambda>j. f j \<in> insert a K) xs) = mset (filter (\<lambda>j. f j = a) xs) + mset (filter (\<lambda>j. f j \<in> K) xs)"
    using insert.hyps(2) by (induction xs) auto
  then show ?case using insert by simp
qed simp

abbreviation collected :: "int list \<Rightarrow> int list \<Rightarrow> group_shards" where
  "collected gids shards \<equiv> collectShards (emptyGroups gids) 0 shards"

lemma shardsOf_collected:
  "shardsOf (collected gids shards) k =
     (if k \<in> set gids then filter (\<lambda>j. shards ! j = k) [0..<length shards] else [])"
  by (simp add: shardsOf_collectShards shardsOf_empty dom_empty map_idI)

lemma held_collected:
  "held (collected gids shards) (set gids) = mset (filter (\<lambda>j. shards ! j \<in> set gids) [0..<length shards])"
proof -
  have "held (collected gids shards) (set gids) =
      (\<Sum>k\<in>set gids. mset (filter (\<lambda>j. shards ! j = k) [0..<length shards]))"
    unfolding held_def by (rule sum.cong) (simp_all only: shardsOf_collected if_True)
  then show ?thesis
    by (simp only: held_filter finite_set)
qed

lemma orphans_collected:
  "orphans (collected gids shards) 0 shards = filter (\<lambda>j. shards ! j \<notin> set gids) [0..<length shards]"
  by (simp add: orphans_eq dom_collectShards dom_empty map_idI)

lemma collected_total:
  "held (collected gids shards) (set gids)
     + mset (filter (\<lambda>j. shards ! j \<notin> set gids) [0..<length shards]) = mset [0..<length shards]"
  "size (held (collected gids shards) (set gids))
     + length (filter (\<lambda>j. shards ! j \<notin> set gids) [0..<length shards]) = length shards"
proof -
  have part: "mset (filter P xs) + mset (filter (\<lambda>x. \<not> P x) xs) = mset xs" for P and xs :: "nat list"
    by (induction xs) auto
  show total: "held (collected gids shards) (set gids)
     + mset (filter (\<lambda>j. shards ! j \<notin> set gids) [0..<length shards]) = mset [0..<length shards]"
    unfolding held_collected by (rule part)
  show "size (held (collected gids shards) (set gids))
     + length (filter (\<lambda>j. shards ! j \<notin> set gids) [0..<length shards]) = length shards"
    using arg_cong [OF total, of size] by (simp only: size_union size_mset length_upt minus_nat.diff_0)
qed

lemma len_collected: "k \<in> set gids \<Longrightarrow> len (collected gids shards) k = count_list shards k"
  by (simp add: len_def shardsOf_collected count_list_nth)

section \<open>Writing the shards back\<close>

lemma foldl_assign:
  "length (foldl (\<lambda>sh s. sh[s := gid]) sh xs) = length sh"
  "j < length sh \<Longrightarrow> foldl (\<lambda>sh s. sh[s := gid]) sh xs ! j = (if j \<in> set xs then gid else sh ! j)"
  by (induction xs arbitrary: sh) auto

lemma length_assignShards [simp]: "length (assignShards g gids sh) = length sh"
  by (induction gids arbitrary: sh) (simp_all add: foldl_assign)

lemma assignShards_other:
  "j < length sh \<Longrightarrow> (\<And>k. k \<in> set gids \<Longrightarrow> j \<notin> set (shardsOf g k)) \<Longrightarrow> assignShards g gids sh ! j = sh ! j"
  by (induction gids arbitrary: sh) (simp_all add: foldl_assign)

lemma assignShards_nth:
  assumes "j < length sh" and "k \<in> set gids" and "j \<in> set (shardsOf g k)"
    and "\<And>k'. k' \<in> set gids \<Longrightarrow> j \<in> set (shardsOf g k') \<Longrightarrow> k' = k"
  shows "assignShards g gids sh ! j = k"
  using assms
proof (induction gids arbitrary: sh)
  case (Cons a gids)
  show ?case
  proof (cases "k \<in> set gids")
    case True
    let ?sh = "foldl (\<lambda>sh s. sh[s := a]) sh (shardsOf g a)"
    have "assignShards g gids ?sh ! j = k"
      by (rule Cons.IH) (use Cons.prems True in \<open>simp_all add: foldl_assign\<close>)
    then show ?thesis by simp
  next
    case False
    then have "a = k" using Cons.prems(2) by simp
    moreover have "j \<notin> set (shardsOf g k')" if "k' \<in> set gids" for k'
      using Cons.prems(4) [of k'] that False by auto
    ultimately show ?thesis
      using Cons.prems(1,3) by (simp add: assignShards_other foldl_assign)
  qed
qed simp

text \<open>When the groups hold every shard once, each shard ends with the group that holds it.\<close>

lemma held_unique:
  assumes "held g K = mset xs" "distinct xs" "finite K" "k \<in> K" "k' \<in> K"
    and "j \<in> set (shardsOf g k)" "j \<in> set (shardsOf g k')"
  shows "k' = k"
proof (rule ccontr)
  assume "k' \<noteq> k"
  then have "count (held g K) j \<ge> count (mset (shardsOf g k)) j + count (mset (shardsOf g k')) j"
    using assms(3-5) by (simp add: held_def sum_two [of K k k'])
  moreover have "count (mset (shardsOf g k)) j \<ge> 1" "count (mset (shardsOf g k')) j \<ge> 1"
    using assms(6,7) by (simp_all add: Suc_leI)
  moreover have "count (held g K) j \<le> 1"
    using assms(1,2) by (simp add: distinct_count_atmost_1)
  ultimately show False by simp
qed

lemma held_member: "finite K \<Longrightarrow> j \<in># held g K \<longleftrightarrow> (\<exists>k\<in>K. j \<in> set (shardsOf g k))"
  unfolding held_def by (induction K rule: finite_induct) auto

lemma held_distinct:
  assumes "held g K = mset xs" "distinct xs" "finite K" "k \<in> K"
  shows "distinct (shardsOf g k)"
proof -
  have "mset (shardsOf g k) \<subseteq># mset xs"
    using assms(1,3,4) by (simp add: held_def sum_one flip: assms(1))
  then show ?thesis
    by (rule distinct_mset_sub) (rule assms(2))
qed

lemma assigned:
  assumes "held g (set gids) = mset xs" "distinct xs" "set xs \<subseteq> {..<length sh}"
    and "k \<in> set gids" "j \<in> set (shardsOf g k)"
  shows "assignShards g gids sh ! j = k"
proof (rule assignShards_nth)
  have "j \<in> set xs"
    using assms(1,4,5) held_member [of "set gids" j g] by (metis finite_set set_mset_mset)
  then show "j < length sh" using assms(3) by auto
  show "k' = k" if "k' \<in> set gids" "j \<in> set (shardsOf g k')" for k'
    by (rule held_unique [OF assms(1,2) finite_set assms(4) that(1) assms(5) that(2)])
qed (use assms in simp_all)

lemma assigned_all:
  assumes "held g (set gids) = mset [0..<length sh]"
  shows "set (assignShards g gids sh) \<subseteq> set gids"
    and "k \<in> set gids \<Longrightarrow> count_list (assignShards g gids sh) k = len g k"
proof -
  let ?sh = "assignShards g gids sh"
  have owner: "?sh ! j = k" if "k \<in> set gids" "j \<in> set (shardsOf g k)" for j k
    using assigned [OF assms _ _ that, of sh] by (simp add: lessThan_atLeast0)
  have held: "j < length sh \<longleftrightarrow> (\<exists>k\<in>set gids. j \<in> set (shardsOf g k))" for j
    using held_member [of "set gids" j g] by (simp add: assms)
  show "set ?sh \<subseteq> set gids"
    using owner held by (fastforce simp: set_conv_nth)
  show "count_list ?sh k = len g k" if k: "k \<in> set gids"
  proof -
    let ?mine = "filter (\<lambda>j. ?sh ! j = k) [0..<length sh]"
    have "set ?mine = set (shardsOf g k)"
      using owner held k by auto
    moreover have "distinct (shardsOf g k)"
      by (rule held_distinct [OF assms _ _ k]) simp_all
    ultimately have "length ?mine = length (shardsOf g k)"
      using distinct_card [of ?mine] distinct_card [of "shardsOf g k"] by simp
    then show ?thesis
      by (simp add: count_list_nth len_def)
  qed
qed

section \<open>The three cases of rebalanceShard\<close>

definition balanced :: "int set \<Rightarrow> int list \<Rightarrow> bool" where
  "balanced K shards \<longleftrightarrow> (\<forall>a\<in>K. \<forall>b\<in>K. count_list shards a \<le> count_list shards b + 1)"

lemma sort_nonempty: "groups \<noteq> [] \<Longrightarrow> sort (map fst groups) \<noteq> []"
  by (metis map_is_Nil_conv set_empty set_sort)

lemma rebalance_join:
  assumes "groups \<noteq> []" and "length shards = NShards" and "set shards \<subseteq> fst ` set groups"
  shows "\<exists>shards'. rebalanceShard groups shards True False = Inr shards' \<and> length shards' = NShards
     \<and> set shards' \<subseteq> fst ` set groups \<and> balanced (fst ` set groups) shards'"
proof -
  let ?gids = "map fst groups"
  let ?g = "collected ?gids shards"
  have "filter (\<lambda>j. shards ! j \<in> set ?gids) [0..<length shards] = [0..<length shards]"
    using assms(3) by (auto simp: filter_id_conv subset_iff)
  then have held: "held ?g (set ?gids) = mset [0..<length shards]"
    by (simp only: held_collected)
  then obtain g' where g': "joinLoop (sort ?gids) ?g = Some (Inr g')"
      "held g' (set ?gids) = mset [0..<length shards]" "even_counts g' (set ?gids)"
    using joinLoop_returns [of "sort ?gids" ?g] sort_nonempty [OF assms(1)] assms(2) by auto
  note all = assigned_all [OF g'(2)]
  have "balanced (set ?gids) (assignShards g' ?gids shards)"
    using g'(3) by (simp add: balanced_def even_counts_def all(2) flip: set_map)
  then show ?thesis
    using g'(1) all(1) assms(2) by (simp add: rebalanceShard_def Let_def)
qed

lemma rebalance_orphans:
  assumes "groups \<noteq> []" and "length shards = NShards" and "balanced (fst ` set groups) shards"
    and "isJoin \<longrightarrow> isFirst"
  shows "\<exists>shards'. rebalanceShard groups shards isJoin isFirst = Inr shards' \<and> length shards' = NShards
     \<and> set shards' \<subseteq> fst ` set groups \<and> balanced (fst ` set groups) shards'
     \<and> (\<forall>j < NShards. shards ! j \<in> fst ` set groups \<longrightarrow> shards' ! j = shards ! j)"
proof -
  let ?gids = "map fst groups"
  let ?g = "collected ?gids shards"
  let ?or = "filter (\<lambda>j. shards ! j \<notin> set ?gids) [0..<length shards]"
  define g' where "g' = orphanLoop (sort ?gids) ?g ?or"
  have "even_counts ?g (set ?gids)"
    using assms(3) by (simp add: even_counts_def balanced_def len_collected flip: set_map)
  then have facts: "held g' (set ?gids) = mset [0..<length shards]" "even_counts g' (set ?gids)"
      "\<And>k. \<exists>added. shardsOf g' k = shardsOf ?g k @ added"
    using orphanLoop_held [of "sort ?gids" ?g ?or] orphanLoop_facts [of "sort ?gids" ?g ?or]
      collected_total [of ?gids shards] sort_nonempty [OF assms(1)] assms(2)
    unfolding g'_def by auto
  note all = assigned_all [OF facts(1)]
  have "balanced (set ?gids) (assignShards g' ?gids shards)"
    using facts(2) by (simp add: balanced_def even_counts_def all(2) flip: set_map)
  moreover have "assignShards g' ?gids shards ! j = shards ! j"
    if "j < NShards" "shards ! j \<in> set ?gids" for j
  proof (rule assigned [OF facts(1) distinct_upt _ that(2)])
    have "j \<in> set (shardsOf ?g (shards ! j))"
      using that assms(2) by (simp only: shardsOf_collected if_True) simp
    then show "j \<in> set (shardsOf g' (shards ! j))"
      using facts(3) [of "shards ! j"] by auto
  qed auto
  moreover have "rebalanceShard groups shards isJoin isFirst = Inr (assignShards g' ?gids shards)"
    using assms(1,4) by (auto simp: rebalanceShard_def Let_def orphans_collected g'_def)
  ultimately show ?thesis
    using all(1) assms(2) by auto
qed

lemma rebalance_none:
  "isJoin \<longrightarrow> isFirst \<Longrightarrow> rebalanceShard [] shards isJoin isFirst = Inr (replicate NShards 0)"
  by (auto simp: rebalanceShard_def)

section \<open>The order of the groups\<close>

lemma assignShards_order:
  assumes "held g (set gids) = mset xs" "distinct xs" "set xs \<subseteq> {..<length sh}" "set gids' = set gids"
  shows "assignShards g gids' sh = assignShards g gids sh"
proof (rule nth_equalityI)
  fix j assume "j < length (assignShards g gids' sh)"
  then have j: "j < length sh" by simp
  show "assignShards g gids' sh ! j = assignShards g gids sh ! j"
  proof (cases "\<exists>k\<in>set gids. j \<in> set (shardsOf g k)")
    case True
    then obtain k where "k \<in> set gids" "j \<in> set (shardsOf g k)" by blast
    then show ?thesis
      using assigned [of g gids xs sh k j] assigned [of g gids' xs sh k j] assms by simp
  next
    case False
    then show ?thesis
      using j assms(4) assignShards_other [of j sh gids g] assignShards_other [of j sh gids' g] by simp
  qed
qed simp

lemma sort_order: "mset xs = mset ys \<Longrightarrow> sort xs = sort (ys :: int list)"
  by (metis mset_sort properties_for_sort sorted_sort)

lemma emptyGroups_order: "set gids' = set gids \<Longrightarrow> emptyGroups gids' = emptyGroups gids"
proof
  fix k assume "set gids' = set gids"
  then have "k \<in> dom (emptyGroups gids') \<longleftrightarrow> k \<in> dom (emptyGroups gids)"
    by (simp add: dom_empty)
  moreover have "emptyGroups gs k = Some [] \<or> k \<notin> dom (emptyGroups gs)" for gs
    using shardsOf_empty [of gs k] by (auto simp: shardsOf_def split: option.splits)
  ultimately show "emptyGroups gids' k = emptyGroups gids k"
    by (metis domIff)
qed

lemma rebalance_order:
  assumes "mset (map fst groups') = mset (map fst groups)" and "length shards = NShards"
  shows "rebalanceShard groups' shards isJoin isFirst = rebalanceShard groups shards isJoin isFirst"
proof (cases "groups = []")
  case True
  then show ?thesis using assms(1) by simp
next
  case False
  let ?gids = "map fst groups" and ?gids' = "map fst groups'"
  let ?g = "collected ?gids shards"
  have gids: "set ?gids' = set ?gids" "sort ?gids' = sort ?gids"
    using mset_eq_setD [OF assms(1)] sort_order [OF assms(1)] by simp_all
  have g: "collected ?gids' shards = ?g"
    by (simp only: emptyGroups_order [OF gids(1)])
  have groups': "groups' \<noteq> []"
    using False assms(1) by auto
  let ?in = "filter (\<lambda>j. shards ! j \<in> set ?gids) [0..<length shards]"
  let ?or = "filter (\<lambda>j. shards ! j \<notin> set ?gids) [0..<length shards]"
  have held: "held ?g (set ?gids) = mset ?in"
    by (rule held_collected)
  have "size (held ?g (set ?gids)) \<le> NShards"
    using assms(2) by (simp only: held size_mset) (metis length_filter_le length_upt minus_nat.diff_0)
  then obtain g' where g': "joinLoop (sort ?gids) ?g = Some (Inr g')" "held g' (set ?gids) = mset ?in"
    using joinLoop_returns [of "sort ?gids" ?g] sort_nonempty [OF False] held by auto
  have join: "assignShards g' ?gids' shards = assignShards g' ?gids shards"
    by (rule assignShards_order [OF g'(2) _ _ gids(1)]) auto
  have kept: "held (orphanLoop (sort ?gids) ?g ?or) (set ?gids) = mset [0..<length shards]"
    using orphanLoop_held [of "sort ?gids" ?g ?or] collected_total [of ?gids shards]
      sort_nonempty [OF False] assms(2) by simp
  have orph: "assignShards (orphanLoop (sort ?gids) ?g ?or) ?gids' shards =
      assignShards (orphanLoop (sort ?gids) ?g ?or) ?gids shards"
    by (rule assignShards_order [OF kept _ _ gids(1)]) auto
  show ?thesis
    using False groups' g'(1) join orph
    by (simp add: rebalanceShard_def Let_def gids(2) g orphans_collected)
qed

end
