(* ===== verification/ShardCtrlerSpec.thy ===== *)
theory ShardCtrlerSpec
  imports ShardBalance
begin

text \<open>
  What the shard controller promises: every configuration assigns every shard to one of its
  groups, as evenly as possible; configurations are numbered and never change; a removed
  group's shards alone move; the outcome does not depend on the order of Go's maps; requests
  take effect once and replicas agree.
\<close>

section \<open>The machine\<close>

type_synonym sc_machine = "Config list \<times> (int \<rightharpoonup> int)"

definition machine :: "'s ShardCtrler \<Rightarrow> sc_machine" where
  "machine sc = (configs sc, latestAppliedRequest sc)"

definition sc_exec :: "sc_machine \<Rightarrow> Op \<Rightarrow> sc_machine res" where
  "sc_exec m op =
     (if RequestId op > latestOf (snd m) (ClientId op)
      then and_then (change (fst m) op) (\<lambda>cs. Inr (cs, (snd m)(ClientId op \<mapsto> RequestId op)))
      else Inr (fst m, touch (snd m) (ClientId op)))"

lemma applyOp_cases:
  assumes "applyOp sc op = Inr (sc', r)"
  shows "sc_exec (machine sc) op = Inr (machine sc')"
    "latestAppliedRaftIndex sc' = latestAppliedRaftIndex sc" "waitChs sc' = waitChs sc"
  using assms
  by (auto simp: applyOp_def sc_exec_def machine_def Let_def split: if_splits)

lemma applyLoop_msg_new:
  assumes "applyLoop_msg sc msg = Inr sc'" and "CommandValid msg"
    and "CommandIndex msg > latestAppliedRaftIndex sc" and "Command msg = Some op"
  shows "sc_exec (machine sc) op = Inr (machine sc') \<and> latestAppliedRaftIndex sc' = CommandIndex msg"
proof -
  obtain sc1 r where sc1: "applyOp sc op = Inr (sc1, r)"
    and "sc' = sc1\<lparr>latestAppliedRaftIndex := CommandIndex msg,
      waitChs := sendWaitCh (waitChs sc1) (CommandIndex msg) r\<rparr>"
    using assms by (auto simp: applyLoop_msg_def)
  then have "machine sc' = machine sc1" "latestAppliedRaftIndex sc' = CommandIndex msg"
    by (simp_all add: machine_def)
  then show ?thesis using applyOp_cases(1) [OF sc1] by simp
qed

interpretation scs: sessions sc_exec fst "\<lambda>m. latestOf (snd m)" ClientId RequestId change
  by unfold_locales (auto simp: sc_exec_def latestOf_update split: if_splits)

interpretation scr: replica applyLoop_msg latestAppliedRaftIndex machine sc_exec
  by unfold_locales (rule applyLoop_msg_new, assumption+, simp_all add: applyLoop_msg_def)

section \<open>Configurations\<close>

abbreviation keys :: "(int \<times> string list) list \<Rightarrow> int set" where
  "keys groups \<equiv> fst ` set groups"

definition config_ok :: "Config \<Rightarrow> bool" where
  "config_ok c \<longleftrightarrow> length (Shards c) = NShards \<and> distinct (map fst (Groups c)) \<and> 0 \<notin> keys (Groups c)
     \<and> (if Groups c = [] then Shards c = replicate NShards 0 else set (Shards c) \<subseteq> keys (Groups c))
     \<and> balanced (keys (Groups c)) (Shards c)"

definition history_ok :: "Config list \<Rightarrow> bool" where
  "history_ok cs \<longleftrightarrow> cs \<noteq> [] \<and> (\<forall>i < length cs. Num (cs ! i) = int i \<and> config_ok (cs ! i))"

lemma keys_putGroups: "keys (putGroups gs ms) = keys gs \<union> keys ms"
  by (induction gs ms rule: putGroups.induct) (auto simp: dom_update)

lemma distinct_putGroups: "distinct (map fst gs) \<Longrightarrow> distinct (map fst (putGroups gs ms))"
  by (induction gs ms rule: putGroups.induct) (auto simp: distinct_update)

lemma keys_deleteGroups: "keys (deleteGroups gs gids) = keys gs - set gids"
  by (induction gs gids rule: deleteGroups.induct) (auto simp: AList.delete_eq)

lemma distinct_deleteGroups: "distinct (map fst gs) \<Longrightarrow> distinct (map fst (deleteGroups gs gids))"
  by (induction gs gids rule: deleteGroups.induct) (auto simp: AList.distinct_delete)

lemma lastConfig_eq: "cs \<noteq> [] \<Longrightarrow> lastConfig cs = Inr (last cs)"
  by (simp add: lastConfig_def last_conv_nth)

lemma history_last: "history_ok cs \<Longrightarrow> config_ok (last cs) \<and> Num (last cs) = int (length cs) - 1"
  by (cases cs rule: rev_cases) (auto simp: history_ok_def nth_append)

lemma history_snoc:
  "history_ok cs \<Longrightarrow> config_ok c \<Longrightarrow> Num c = Num (last cs) + 1 \<Longrightarrow> history_ok (cs @ [c])"
  using history_last [of cs] by (auto simp: history_ok_def nth_append less_Suc_eq)

lemma balanced_empty [simp]: "balanced {} sh"
  by (simp add: balanced_def)

lemma applyJoin_ok:
  assumes "history_ok cs" and "0 \<notin> keys (Servers args)"
  shows "\<exists>c. applyJoin cs args = Inr (cs @ [c]) \<and> history_ok (cs @ [c])
     \<and> Groups c = putGroups (Groups (last cs)) (Servers args)"
proof -
  let ?old = "last cs"
  let ?groups = "putGroups (Groups ?old) (Servers args)"
  have old: "config_ok ?old" and cs: "cs \<noteq> []"
    using history_last [OF assms(1)] assms(1) by (auto simp: history_ok_def)
  have ks: "keys ?groups = keys (Groups ?old) \<union> keys (Servers args)"
    by (rule keys_putGroups)
  have base: "length (Shards ?old) = NShards" "distinct (map fst ?groups)" "0 \<notin> keys ?groups"
    using old assms(2) ks distinct_putGroups by (auto simp: config_ok_def)
  have "\<exists>sh. rebalanceShard ?groups (Shards ?old) True (Groups ?old = []) = Inr sh \<and> length sh = NShards
      \<and> (if ?groups = [] then sh = replicate NShards 0 else set sh \<subseteq> keys ?groups) \<and> balanced (keys ?groups) sh"
  proof (cases "Groups ?old = []")
    case first: True
    then have sh: "Shards ?old = replicate NShards 0"
      using old by (simp add: config_ok_def)
    have "count_list (Shards ?old) k = 0" if "k \<in> keys ?groups" for k
      using that base(3) by (auto simp: sh count_list_0_iff)
    then have "balanced (keys ?groups) (Shards ?old)"
      by (simp add: balanced_def)
    then show ?thesis
      using rebalance_orphans [of ?groups "Shards ?old" True True] rebalance_none [of True True] base(1) first
      by (cases "?groups = []") auto
  next
    case False
    then have "set (Shards ?old) \<subseteq> keys ?groups" "?groups \<noteq> []"
      using old ks by (auto simp: config_ok_def)
    then show ?thesis
      using rebalance_join [of ?groups "Shards ?old"] base(1) False by auto
  qed
  then obtain sh where sh: "rebalanceShard ?groups (Shards ?old) True (Groups ?old = []) = Inr sh"
      "length sh = NShards" "if ?groups = [] then sh = replicate NShards 0 else set sh \<subseteq> keys ?groups"
      "balanced (keys ?groups) sh"
    by blast
  let ?c = "\<lparr>Num = Num ?old + 1, Shards = sh, Groups = ?groups\<rparr>"
  have "config_ok ?c"
    using sh base by (simp add: config_ok_def)
  then have "history_ok (cs @ [?c])"
    using history_snoc [OF assms(1)] by simp
  moreover have "applyJoin cs args = Inr (cs @ [?c])"
    using sh(1) by (simp add: applyJoin_def lastConfig_eq [OF cs] createNewConfigDeepCopy_def Let_def)
  ultimately show ?thesis by auto
qed

lemma applyLeave_ok:
  assumes "history_ok cs"
  shows "\<exists>c. applyLeave cs args = Inr (cs @ [c]) \<and> history_ok (cs @ [c])
     \<and> Groups c = deleteGroups (Groups (last cs)) (GIDs args)
     \<and> (\<forall>j < NShards. Shards (last cs) ! j \<in> keys (Groups c) \<longrightarrow> Shards c ! j = Shards (last cs) ! j)"
proof -
  let ?old = "last cs"
  let ?groups = "deleteGroups (Groups ?old) (GIDs args)"
  have old: "config_ok ?old" and cs: "cs \<noteq> []"
    using history_last [OF assms(1)] assms(1) by (auto simp: history_ok_def)
  have ks: "keys ?groups = keys (Groups ?old) - set (GIDs args)"
    by (rule keys_deleteGroups)
  have base: "length (Shards ?old) = NShards" "distinct (map fst ?groups)" "0 \<notin> keys ?groups"
      "balanced (keys ?groups) (Shards ?old)"
    using old ks distinct_deleteGroups by (auto simp: config_ok_def balanced_def)
  obtain sh where sh: "rebalanceShard ?groups (Shards ?old) False False = Inr sh" "length sh = NShards"
      "if ?groups = [] then sh = replicate NShards 0 else set sh \<subseteq> keys ?groups"
      "balanced (keys ?groups) sh"
      "\<forall>j < NShards. Shards ?old ! j \<in> keys ?groups \<longrightarrow> sh ! j = Shards ?old ! j"
    using rebalance_orphans [OF _ base(1,4), of False False] rebalance_none [of False False]
    by (cases "?groups = []") auto
  let ?c = "\<lparr>Num = Num ?old + 1, Shards = sh, Groups = ?groups\<rparr>"
  have "config_ok ?c"
    using sh base by (simp add: config_ok_def)
  then have "history_ok (cs @ [?c])"
    using history_snoc [OF assms(1)] by simp
  moreover have "applyLeave cs args = Inr (cs @ [?c])"
    using sh(1) by (simp add: applyLeave_def lastConfig_eq [OF cs] createNewConfigDeepCopy_def Let_def)
  ultimately show ?thesis using sh(5) by auto
qed

section \<open>Runs of the server\<close>

text \<open>Requests whose effect keeps the assignment even: all but \<open>Move\<close>; no group is numbered 0.\<close>

definition plain_op :: "Op \<Rightarrow> bool" where
  "plain_op op \<longleftrightarrow> Type op \<noteq> MOVE \<and> (Type op = JOIN \<longrightarrow> 0 \<notin> keys (Servers (op_JoinArgs op)))"

lemma change_ok:
  assumes "history_ok cs" and "plain_op op"
  shows "\<exists>cs'. change cs op = Inr cs' \<and> history_ok cs' \<and> take (length cs) cs' = cs"
proof (cases "Type op")
  case JOIN
  then show ?thesis
    using applyJoin_ok [OF assms(1), of "op_JoinArgs op"] assms(2) by (auto simp: change_def plain_op_def)
next
  case LEAVE
  then show ?thesis
    using applyLeave_ok [OF assms(1), of "op_LeaveArgs op"] by (auto simp: change_def)
qed (use assms in \<open>auto simp: change_def plain_op_def\<close>)

lemma applyQuery_total: "cs \<noteq> [] \<Longrightarrow> \<exists>c. applyQuery cs args = Inr c"
  by (auto simp: applyQuery_def lastConfig_def nth_res_def nat_less_iff)

lemma applyOp_ok:
  assumes "history_ok (configs sc)" and "plain_op op"
  shows "\<exists>sc' r. applyOp sc op = Inr (sc', r) \<and> history_ok (configs sc')
     \<and> take (length (configs sc)) (configs sc') = configs sc
     \<and> latestAppliedRaftIndex sc' = latestAppliedRaftIndex sc"
proof -
  let ?dup = "RequestId op \<le> latestOf (latestAppliedRequest sc) (ClientId op)"
  obtain cs where cs: "(if ?dup then Inr (configs sc) else change (configs sc) op) = Inr cs"
      "history_ok cs" "take (length (configs sc)) cs = configs sc"
    using change_ok [OF assms] assms(1) by (cases ?dup) auto
  then obtain c where "applyQuery cs (op_QueryArgs op) = Inr c"
    using applyQuery_total [of cs] by (auto simp: history_ok_def)
  then show ?thesis
    using cs by (auto simp: applyOp_def Let_def)
qed

lemma applyLoop_ok:
  assumes "history_ok (configs sc)" and "list_all plain_op ops" and "latestAppliedRaftIndex sc < i"
  shows "\<exists>sc'. fold_res applyLoop_msg sc (log_msgs i ops) = Inr sc' \<and> history_ok (configs sc')
     \<and> take (length (configs sc)) (configs sc') = configs sc"
  using assms
proof (induction ops arbitrary: sc i)
  case (Cons op ops)
  then obtain sc1 r where sc1: "applyOp sc op = Inr (sc1, r)" "history_ok (configs sc1)"
      "take (length (configs sc)) (configs sc1) = configs sc"
    using applyOp_ok [of sc op] by auto
  let ?sc = "sc1\<lparr>latestAppliedRaftIndex := i, waitChs := sendWaitCh (waitChs sc1) i r\<rparr>"
  obtain sc' where sc': "fold_res applyLoop_msg ?sc (log_msgs (i + 1) ops) = Inr sc'" "history_ok (configs sc')"
      "take (length (configs sc1)) (configs sc') = configs sc1"
    using Cons.IH [of ?sc "i + 1"] sc1(2) Cons.prems(2) by auto
  moreover have "applyLoop_msg sc (commandMsg i \<lparr>le_Term = 0, le_Command = Some op\<rparr>) = Inr ?sc"
    using Cons.prems(3) sc1(1) by (simp add: applyLoop_msg_def commandMsg_def)
  moreover have "take (length (configs sc)) (configs sc') = configs sc"
    using sc1(3) sc'(3) by (metis append_take_drop_id length_take min.absorb2 nat_le_linear take_all_iff
        take_append take_take)
  ultimately show ?case by auto
qed simp

section \<open>Properties\<close>

definition ex_join :: "int \<Rightarrow> int \<Rightarrow> int list \<Rightarrow> Op" where
  "ex_join c r gids = (baseOp JOIN c r)\<lparr>op_JoinArgs :=
     \<lparr>Servers = map (\<lambda>gid. (gid, [''s''])) gids, ja_ClientId = c, ja_RequestId = r\<rparr>\<rparr>"

definition ex_leave :: "int \<Rightarrow> int \<Rightarrow> int list \<Rightarrow> Op" where
  "ex_leave c r gids = (baseOp LEAVE c r)\<lparr>op_LeaveArgs := \<lparr>GIDs = gids, la_ClientId = c, la_RequestId = r\<rparr>\<rparr>"

definition ex_move :: "int \<Rightarrow> int \<Rightarrow> int \<Rightarrow> int \<Rightarrow> Op" where
  "ex_move c r sh gid = (baseOp MOVE c r)\<lparr>op_MoveArgs :=
     \<lparr>ma_Shard = sh, ma_GID = gid, ma_ClientId = c, ma_RequestId = r\<rparr>\<rparr>"

definition ex_query :: "int \<Rightarrow> int \<Rightarrow> int \<Rightarrow> Op" where
  "ex_query c r n = (baseOp QUERY c r)\<lparr>op_QueryArgs := \<lparr>qa_Num = n, qa_ClientId = c, qa_RequestId = r\<rparr>\<rparr>"

definition ex_sc :: "unit ShardCtrler" where
  "ex_sc = \<lparr>sc_me = 0, sc_rf = blankRaft 3 0 MakePersister, configs = [noConfig], waitChs = Map.empty,
     latestAppliedRequest = Map.empty, latestAppliedRaftIndex = 0\<rparr>"

lemma ex_sc_start: "StartServer 3 0 MakePersister = Inr ex_sc"
  by (simp add: StartServer_def Make_empty MakePersister_def ex_sc_def)

lemma history_start: "history_ok [noConfig]"
  by (simp add: history_ok_def config_ok_def noConfig_def)

text \<open>C5: The controller never fails on a log of joins, leaves and queries, repeated or not: every
  call of \<open>rebalanceShard\<close> ends. Configuration \<open>i\<close> has number \<open>i\<close>, assigns each of the
  \<open>NShards\<close> shards to one of its groups, or to group 0 when it has none, and the numbers of
  shards of any two groups differ by at most one.\<close>

theorem configs_balanced:
  assumes "StartServer n i ps = Inr sc0" and "list_all plain_op ops"
  shows "\<exists>sc. fold_res applyLoop_msg sc0 (log_msgs 1 ops) = Inr sc \<and> history_ok (configs sc)"
proof -
  have "history_ok (configs sc0)" "latestAppliedRaftIndex sc0 < 1"
    using assms(1) history_start by (auto simp: StartServer_def)
  then show ?thesis
    using applyLoop_ok [OF _ assms(2), of sc0 1] by blast
qed

theorem configs_balanced_witness:
  "\<exists>sc. fold_res applyLoop_msg ex_sc (log_msgs 1
       [ex_join 1 0 [4, 7], ex_join 1 0 [4, 7], ex_join 1 1 [9], ex_leave 1 2 [7], ex_leave 1 3 [4, 9]]) = Inr sc
     \<and> history_ok (configs sc)"
  by (rule configs_balanced [OF ex_sc_start])
    (auto simp: plain_op_def ex_join_def ex_leave_def baseOp_def)

text \<open>Configurations are permanent: whatever the controller executes later, the configurations it
  had are the first ones of its history, unchanged.\<close>

theorem configs_permanent:
  assumes "history_ok (configs sc)" and "list_all plain_op ops" and "latestAppliedRaftIndex sc < i"
  shows "\<exists>sc'. fold_res applyLoop_msg sc (log_msgs i ops) = Inr sc'
     \<and> take (length (configs sc)) (configs sc') = configs sc"
  using applyLoop_ok [OF assms] by blast

theorem configs_permanent_witness:
  "\<exists>sc'. fold_res applyLoop_msg ex_sc (log_msgs 1 [ex_join 1 0 [4], ex_leave 1 1 [4]]) = Inr sc'
     \<and> take 1 (configs sc') = [noConfig]"
  using configs_permanent [of ex_sc "[ex_join 1 0 [4], ex_leave 1 1 [4]]" 1] history_start
  by (simp add: ex_sc_def plain_op_def ex_join_def ex_leave_def baseOp_def)

text \<open>A leave moves the shards of the groups that leave and no others: a shard whose group stays
  keeps its group, and the rest go where the counts stay even.\<close>

theorem leave_moves_orphans_only:
  assumes "history_ok cs"
  shows "\<exists>c. applyLeave cs args = Inr (cs @ [c]) \<and> history_ok (cs @ [c])
     \<and> fst ` set (Groups c) = fst ` set (Groups (last cs)) - set (GIDs args)
     \<and> (\<forall>j < NShards. Shards (last cs) ! j \<in> fst ` set (Groups c) \<longrightarrow> Shards c ! j = Shards (last cs) ! j)"
  using applyLeave_ok [OF assms, of args] keys_deleteGroups by metis

definition ex_config :: Config where
  "ex_config = \<lparr>Num = 1, Shards = [4, 4, 4, 4, 4, 7, 7, 7, 7, 7], Groups = [(4, [''s'']), (7, [''t''])]\<rparr>"

lemma ex_config_ok: "history_ok [noConfig, ex_config]"
proof -
  have "config_ok ex_config"
    by (simp add: config_ok_def ex_config_def NShards_def balanced_def)
  then show ?thesis
    using history_snoc [OF history_start, of ex_config] by (simp add: ex_config_def noConfig_def)
qed

theorem leave_moves_orphans_only_witness:
  "\<exists>c. applyLeave [noConfig, ex_config] \<lparr>GIDs = [7], la_ClientId = 1, la_RequestId = 0\<rparr> =
       Inr [noConfig, ex_config, c]
     \<and> Shards c ! 2 = 4 \<and> fst ` set (Groups c) = {4}"
  using leave_moves_orphans_only [OF ex_config_ok, of "\<lparr>GIDs = [7], la_ClientId = 1, la_RequestId = 0\<rparr>"]
  by (fastforce simp: ex_config_def NShards_def)

text \<open>The outcome of \<open>rebalanceShard\<close> does not depend on the order in which Go iterates over the
  groups, so replicas that iterate in different orders assign the shards alike.\<close>

theorem rebalance_deterministic:
  assumes "mset (map fst groups') = mset (map fst groups)" and "length shards = NShards"
  shows "rebalanceShard groups' shards isJoin isFirst = rebalanceShard groups shards isJoin isFirst"
  by (rule rebalance_order [OF assms])

theorem rebalance_deterministic_witness:
  "rebalanceShard [(7, [''t'']), (4, [''s''])] (replicate 10 0) True True
   = rebalanceShard [(4, [''s'']), (7, [''t''])] (replicate 10 0) True True"
  by (rule rebalance_deterministic) (simp_all add: NShards_def)

text \<open>The state of the controller is the specification run on the first occurrence of every
  request of the log, in order: the controller refines a list of configurations that each
  request extends once.\<close>

theorem controller_exactly_once:
  assumes "commands_of l 0 msgs" and "StartServer n i ps = Inr sc0"
    and "fold_res applyLoop_msg sc0 msgs = Inr sc"
  shows "fold_res change [noConfig] (firsts ClientId RequestId (\<lambda>c. -1)
       (take (nat (latestAppliedRaftIndex sc)) l)) = Inr (configs sc)"
proof -
  have sc0: "latestAppliedRaftIndex sc0 = 0" "machine sc0 = ([noConfig], Map.empty)"
    using assms(2) by (auto simp: StartServer_def machine_def)
  have "replay sc_exec ([noConfig], Map.empty) l (latestAppliedRaftIndex sc0) = Inr (machine sc0)"
    by (simp add: replay_def sc0)
  then have "replay sc_exec ([noConfig], Map.empty) l (latestAppliedRaftIndex sc) = Inr (machine sc)"
    using scr.replays_log [of l sc0 msgs sc] assms(1,3) sc0(1) by simp
  then show ?thesis
    using scs.exactly_once by (fastforce simp: replay_def machine_def latestOf_empty)
qed

theorem controller_exactly_once_witness:
  "\<exists>sc :: unit ShardCtrler. fold_res applyLoop_msg ex_sc
       (log_msgs 1 [ex_join 1 0 [4, 7], ex_join 1 0 [4, 7]]) = Inr sc
     \<and> fold_res change [noConfig] (firsts ClientId RequestId (\<lambda>c. -1)
          (take (nat (latestAppliedRaftIndex sc)) [ex_join 1 0 [4, 7], ex_join 1 0 [4, 7]])) = Inr (configs sc)"
proof -
  let ?l = "[ex_join 1 0 [4, 7], ex_join 1 0 [4, 7]]"
  obtain sc where sc: "fold_res applyLoop_msg ex_sc (log_msgs 1 ?l) = Inr sc"
    using applyLoop_ok [of ex_sc ?l 1] history_start
    by (auto simp: ex_sc_def plain_op_def ex_join_def baseOp_def)
  have "commands_of ?l 0 (log_msgs 1 ?l :: (Op, unit) ApplyMsg list)"
    by (simp add: command_of_def commandMsg_def)
  from controller_exactly_once [OF this ex_sc_start sc] sc show ?thesis by blast
qed

text \<open>A query for a configuration that exists returns the one with that number; a query for any
  other number returns the latest. Either way the waiting handler gets it with \<open>OK\<close>.\<close>

theorem Query_returns_config:
  assumes "history_ok (configs sc)" and "Type op = QUERY"
    and "waitChs sc i = Some None" and "latestAppliedRaftIndex sc < i"
  shows "\<exists>sc'. applyLoop_msg sc (commandMsg i \<lparr>le_Term = 0, le_Command = Some op\<rparr>) = Inr sc'
     \<and> configs sc' = configs sc \<and> qr_Err (snd (Query_return sc' i)) = OK
     \<and> (let n = qa_Num (op_QueryArgs op); c = qr_Config (snd (Query_return sc' i))
        in if 0 \<le> n \<and> n < int (length (configs sc)) then c \<in> set (configs sc) \<and> Num c = n
           else c = last (configs sc))"
proof -
  let ?cs = "configs sc" and ?n = "qa_Num (op_QueryArgs op)"
  have cs: "?cs \<noteq> []" and num: "\<And>j. j < length ?cs \<Longrightarrow> Num (?cs ! j) = int j"
    using assms(1) by (auto simp: history_ok_def)
  have "\<exists>c. applyQuery ?cs (op_QueryArgs op) = Inr c
      \<and> (if 0 \<le> ?n \<and> ?n < int (length ?cs) then c \<in> set ?cs \<and> Num c = ?n else c = last ?cs)"
  proof (cases "0 \<le> ?n \<and> ?n < int (length ?cs) - 1")
    case True
    then have "nat ?n < length ?cs" by linarith
    then show ?thesis
      using True num [of "nat ?n"] by (simp add: applyQuery_def)
  next
    case False
    moreover have "Num (last ?cs) = int (length ?cs) - 1" "last ?cs \<in> set ?cs"
      using history_last [OF assms(1)] cs by simp_all
    ultimately show ?thesis
      by (auto simp: applyQuery_def lastConfig_eq [OF cs])
  qed
  then obtain c where c: "applyQuery ?cs (op_QueryArgs op) = Inr c"
      "if 0 \<le> ?n \<and> ?n < int (length ?cs) then c \<in> set ?cs \<and> Num c = ?n else c = last ?cs"
    by blast
  obtain sc1 where sc1: "applyOp sc op = Inr (sc1, \<lparr>wr_err = OK, wr_config = c\<rparr>)"
      "configs sc1 = ?cs" "waitChs sc1 = waitChs sc"
  proof (cases "RequestId op \<le> latestOf (latestAppliedRequest sc) (ClientId op)")
  qed (use c(1) assms(2) that in \<open>simp_all add: applyOp_def Let_def change_def\<close>)
  let ?sc = "sc1\<lparr>latestAppliedRaftIndex := i, waitChs := sendWaitCh (waitChs sc1) i \<lparr>wr_err = OK, wr_config = c\<rparr>\<rparr>"
  have "applyLoop_msg sc (commandMsg i \<lparr>le_Term = 0, le_Command = Some op\<rparr>) = Inr ?sc"
    using assms(4) sc1(1) by (simp add: applyLoop_msg_def commandMsg_def)
  then show ?thesis
    using c(2) sc1(2,3) assms(3)
    by (simp add: Query_return_def sendWaitCh_def recvWaitCh_def Let_def)
qed

theorem Query_returns_config_witness:
  "\<exists>sc'. applyLoop_msg (ex_sc\<lparr>configs := [noConfig, ex_config], waitChs := [5 \<mapsto> None]\<rparr>)
       (commandMsg 5 \<lparr>le_Term = 0, le_Command = Some (ex_query 3 0 1)\<rparr>) = Inr sc'
     \<and> Num (qr_Config (snd (Query_return sc' 5))) = 1"
  using Query_returns_config [of "ex_sc\<lparr>configs := [noConfig, ex_config], waitChs := [5 \<mapsto> None]\<rparr>"
      "ex_query 3 0 1" 5] ex_config_ok
  by (auto simp: ex_query_def baseOp_def ex_sc_def Let_def)

section \<open>Where the controller falls short\<close>

text \<open>A \<open>Move\<close> of a shard outside the array panics in the apply loop of every replica that
  executes it; nothing checks the number before the command is logged.\<close>

theorem Move_out_of_range_panics:
  assumes "Type op = MOVE" and "ma_Shard (op_MoveArgs op) < 0 \<or> ma_Shard (op_MoveArgs op) \<ge> int NShards"
    and "configs sc \<noteq> []" and "length (Shards (last (configs sc))) = NShards"
    and "RequestId op > latestOf (latestAppliedRequest sc) (ClientId op)" and "latestAppliedRaftIndex sc < i"
  shows "applyLoop_msg sc (commandMsg i \<lparr>le_Term = 0, le_Command = Some op\<rparr>) = Inl IndexPanic"
proof -
  have "\<not> nat (ma_Shard (op_MoveArgs op)) < NShards \<or> ma_Shard (op_MoveArgs op) < 0"
    using assms(2) by linarith
  then have "applyMove (configs sc) (op_MoveArgs op) = Inl IndexPanic"
    using assms(4) by (auto simp: applyMove_def lastConfig_eq [OF assms(3)] createNewConfigDeepCopy_def
        set_res_def Let_def)
  then show ?thesis
    using assms(1,5,6) by (simp add: applyLoop_msg_def commandMsg_def applyOp_def change_def Let_def)
qed

theorem Move_out_of_range_panics_witness:
  "applyLoop_msg ex_sc (commandMsg 1 \<lparr>le_Term = 0, le_Command = Some (ex_move 1 0 10 4)\<rparr>) = Inl IndexPanic"
  by (rule Move_out_of_range_panics)
    (simp_all add: ex_move_def baseOp_def ex_sc_def noConfig_def NShards_def latestOf_def)

text \<open>A join that is not the first never looks for shards without a group: a shard moved to a
  group that does not exist keeps that group when another group joins, although the
  specification of a configuration asks for an existing group.\<close>

theorem join_keeps_orphans:
  "\<exists>sc :: unit ShardCtrler. fold_res applyLoop_msg ex_sc
       (log_msgs 1 [ex_join 1 0 [4], ex_move 1 1 0 99, ex_join 1 2 [7]]) = Inr sc
     \<and> Shards (last (configs sc)) ! 0 = 99 \<and> map fst (Groups (last (configs sc))) = [4, 7]"
proof -
  let ?c1 = "\<lparr>Num = 1, Shards = replicate 10 4, Groups = [(4, [''s''])]\<rparr>"
  let ?c2 = "\<lparr>Num = 2, Shards = [99, 4, 4, 4, 4, 4, 4, 4, 4, 4], Groups = [(4, [''s''])]\<rparr>"
  let ?c3 = "\<lparr>Num = 3, Shards = [99, 7, 7, 7, 7, 4, 4, 4, 4, 4], Groups = [(4, [''s'']), (7, [''s''])]\<rparr>"
  have "change [noConfig] (ex_join 1 0 [4]) = Inr [noConfig, ?c1]"
    "change [noConfig, ?c1] (ex_move 1 1 0 99) = Inr [noConfig, ?c1, ?c2]"
    "change [noConfig, ?c1, ?c2] (ex_join 1 2 [7]) = Inr [noConfig, ?c1, ?c2, ?c3]"
    by code_simp+
  moreover have "Type (ex_join c r gids) = JOIN" "ClientId (ex_join c r gids) = c" "RequestId (ex_join c r gids) = r"
    "Type (ex_move c r sh gid) = MOVE" "ClientId (ex_move c r sh gid) = c" "RequestId (ex_move c r sh gid) = r"
    for c r gids sh gid
    by (simp_all add: ex_join_def ex_move_def baseOp_def)
  ultimately show ?thesis
    by (simp add: applyLoop_msg_def commandMsg_def ex_sc_def applyOp_def latestOf_def touch_def sendWaitCh_def)
qed

end
