(* ===== verification/ShardClerk.thy ===== *)
theory ShardClerk
  imports ShardCtrlerSpec
begin

text \<open>
  The client of the shard controller (\<open>shardctrler/client.go\<close>). A round of a call tries the
  server that answered last, and then every server in order. \<open>Join\<close>, \<open>Leave\<close> and \<open>Move\<close>
  go on round by round, \<open>Query\<close> gives up after five.

  The network is an argument: \<open>call r p i args\<close> is what the call at position \<open>p\<close> of round
  \<open>r\<close> gets from server \<open>i\<close>, \<open>None\<close> when the RPC fails. Position 0 is the try of the last
  leader.
\<close>

record Clerk =
  servers :: nat
  lastLeader :: nat
  clientId :: int
  requestId :: int

definition MakeClerk :: "nat \<Rightarrow> int \<Rightarrow> Clerk" where
  "MakeClerk n nrand = \<lparr>servers = n, lastLeader = 0, clientId = nrand, requestId = 0\<rparr>"

fun tryEach :: "(nat \<Rightarrow> 'r option) \<Rightarrow> nat list \<Rightarrow> (nat \<times> 'r) option" where
  "tryEach attempt [] = None"
| "tryEach attempt (i # rest) = (case attempt i of Some r \<Rightarrow> Some (i, r) | None \<Rightarrow> tryEach attempt rest)"

definition clerkRound ::
  "(nat \<Rightarrow> nat \<Rightarrow> nat \<Rightarrow> 'r option) \<Rightarrow> Clerk \<Rightarrow> nat \<Rightarrow> (Clerk \<times> 'r) option res" where
  "clerkRound attempt ck r =
     (if lastLeader ck < servers ck then
        case attempt r 0 (lastLeader ck) of
          Some x \<Rightarrow> Inr (Some (ck\<lparr>requestId := requestId ck + 1\<rparr>, x))
        | None \<Rightarrow>
            (case tryEach (\<lambda>i. attempt r (i + 1) i) [0..<servers ck] of
               Some (i, x) \<Rightarrow> Inr (Some (ck\<lparr>requestId := requestId ck + 1, lastLeader := i\<rparr>, x))
             | None \<Rightarrow> Inr None)
      else Inl IndexPanic)"

partial_function (option) changeLoop ::
  "(nat \<Rightarrow> nat \<Rightarrow> nat \<Rightarrow> 'r option) \<Rightarrow> Clerk \<Rightarrow> nat \<Rightarrow> (Clerk \<times> 'r) res option" where
  "changeLoop attempt ck r =
     (case clerkRound attempt ck r of
        Inl e \<Rightarrow> Some (Inl e)
      | Inr out \<Rightarrow> (case out of Some y \<Rightarrow> Some (Inr y) | None \<Rightarrow> changeLoop attempt ck (r + 1)))"

text \<open>The loop of \<open>Query\<close>; \<open>left\<close> is the number of rounds that remain of \<open>retryMaxTime\<close>.\<close>

definition retryMaxTime :: nat where
  "retryMaxTime = 5"

fun queryLoop ::
  "(nat \<Rightarrow> nat \<Rightarrow> nat \<Rightarrow> Config option) \<Rightarrow> Clerk \<Rightarrow> nat \<Rightarrow> (Clerk \<times> Config) res" where
  "queryLoop attempt ck 0 = Inr (ck, noConfig)"
| "queryLoop attempt ck (Suc left) =
     and_then (clerkRound attempt ck (retryMaxTime - Suc left)) (\<lambda>out.
       case out of Some y \<Rightarrow> Inr y | None \<Rightarrow> queryLoop attempt ck left)"

definition Clerk_Query ::
  "(nat \<Rightarrow> nat \<Rightarrow> nat \<Rightarrow> QueryArgs \<Rightarrow> QueryReply option) \<Rightarrow> Clerk \<Rightarrow> int \<Rightarrow> (Clerk \<times> Config) res" where
  "Clerk_Query call ck num =
     queryLoop (\<lambda>r p i.
       case call r p i \<lparr>qa_Num = num, qa_ClientId = clientId ck, qa_RequestId = requestId ck\<rparr> of
         None \<Rightarrow> None
       | Some reply \<Rightarrow> if qr_Err reply \<noteq> ErrWrongLeader then Some (qr_Config reply) else None) ck retryMaxTime"

definition answered :: "Err option \<Rightarrow> unit option" where
  "answered reply = (case reply of None \<Rightarrow> None | Some err \<Rightarrow> if err \<noteq> ErrWrongLeader then Some () else None)"

definition Clerk_Join ::
  "(nat \<Rightarrow> nat \<Rightarrow> nat \<Rightarrow> JoinArgs \<Rightarrow> Err option) \<Rightarrow> Clerk \<Rightarrow> (int \<times> string list) list \<Rightarrow>
   (Clerk \<times> unit) res option" where
  "Clerk_Join call ck groups =
     changeLoop (\<lambda>r p i. answered (call r p i
       \<lparr>Servers = groups, ja_ClientId = clientId ck, ja_RequestId = requestId ck\<rparr>)) ck 0"

definition Clerk_Leave ::
  "(nat \<Rightarrow> nat \<Rightarrow> nat \<Rightarrow> LeaveArgs \<Rightarrow> Err option) \<Rightarrow> Clerk \<Rightarrow> int list \<Rightarrow> (Clerk \<times> unit) res option" where
  "Clerk_Leave call ck gids =
     changeLoop (\<lambda>r p i. answered (call r p i
       \<lparr>GIDs = gids, la_ClientId = clientId ck, la_RequestId = requestId ck\<rparr>)) ck 0"

definition Clerk_Move ::
  "(nat \<Rightarrow> nat \<Rightarrow> nat \<Rightarrow> MoveArgs \<Rightarrow> Err option) \<Rightarrow> Clerk \<Rightarrow> int \<Rightarrow> int \<Rightarrow> (Clerk \<times> unit) res option" where
  "Clerk_Move call ck shard gid =
     changeLoop (\<lambda>r p i. answered (call r p i
       \<lparr>ma_Shard = shard, ma_GID = gid, ma_ClientId = clientId ck, ma_RequestId = requestId ck\<rparr>)) ck 0"

section \<open>Rounds\<close>

lemma tryEach_finds: "i \<in> set is \<Longrightarrow> attempt i \<noteq> None \<Longrightarrow> tryEach attempt is \<noteq> None"
  by (induction "is") (auto split: option.splits)

lemma tryEach_SomeD: "tryEach attempt is = Some (i, x) \<Longrightarrow> i \<in> set is \<and> attempt i = Some x"
  by (induction "is") (auto split: option.splits)

lemma tryEach_None: "(\<And>i. i \<in> set is \<Longrightarrow> attempt i = None) \<Longrightarrow> tryEach attempt is = None"
  by (induction "is") auto

lemma clerkRound_cases:
  assumes "lastLeader ck < servers ck"
  obtains (answer) j x where "clerkRound attempt ck r = Inr (Some (ck\<lparr>requestId := requestId ck + 1, lastLeader := j\<rparr>, x))"
      "j < servers ck"
  | (silent) "clerkRound attempt ck r = Inr None" "\<And>i. i < servers ck \<Longrightarrow> attempt r (i + 1) i = None"
proof (cases "attempt r 0 (lastLeader ck)")
  case None
  show ?thesis
  proof (cases "tryEach (\<lambda>i. attempt r (i + 1) i) [0..<servers ck]")
    case silent: None
    then have "attempt r (i + 1) i = None" if "i < servers ck" for i
      using tryEach_finds [of i "[0..<servers ck]" "\<lambda>i. attempt r (i + 1) i"] that
      by (cases "attempt r (i + 1) i") auto
    then show ?thesis
      using None silent assms that(2) by (simp add: clerkRound_def)
  next
    case (Some y)
    then obtain j x where y: "y = (j, x)" by (cases y)
    then have "j < servers ck"
      using tryEach_SomeD [of "\<lambda>i. attempt r (i + 1) i" "[0..<servers ck]" j x] Some by auto
    then show ?thesis
      using None Some y assms that(1) by (simp add: clerkRound_def)
  qed
next
  case (Some x)
  then show ?thesis
    using assms that(1) [of "lastLeader ck" x] by (simp add: clerkRound_def)
qed

lemma changeLoop_returns:
  assumes "lastLeader ck < servers ck" and "i < servers ck" and "attempt (r + m) (i + 1) i \<noteq> None"
  shows "\<exists>j x. changeLoop attempt ck r = Some (Inr (ck\<lparr>requestId := requestId ck + 1, lastLeader := j\<rparr>, x))
     \<and> j < servers ck"
  using assms(3)
proof (induction m arbitrary: r)
  case 0
  then have "attempt r (i + 1) i \<noteq> None" by simp
  then show ?case
    using assms(2) by (cases rule: clerkRound_cases [OF assms(1), of attempt r, case_names answer silent])
      (auto simp: changeLoop.simps [of attempt ck r])
next
  case (Suc m)
  show ?case
  proof (cases rule: clerkRound_cases [OF assms(1), of attempt r, case_names answer silent])
    case (answer j x)
    then show ?thesis by (subst changeLoop.simps) auto
  next
    case silent
    then show ?thesis
      using Suc.IH [of "r + 1"] Suc.prems by (subst changeLoop.simps) auto
  qed
qed

lemma queryLoop_returns:
  assumes "lastLeader ck < servers ck"
  shows "queryLoop attempt ck left = Inr (ck, noConfig)
     \<or> (\<exists>j c. j < servers ck \<and> queryLoop attempt ck left = Inr (ck\<lparr>requestId := requestId ck + 1, lastLeader := j\<rparr>, c))"
proof (induction left)
  case (Suc left)
  then show ?case
    by (cases rule: clerkRound_cases [OF assms, of attempt "retryMaxTime - Suc left", case_names answer silent]) auto
qed simp

lemma queryLoop_silent:
  assumes "lastLeader ck < servers ck" and "\<And>r p i. attempt r p i = None"
  shows "queryLoop attempt ck left = Inr (ck, noConfig)"
  using assms by (induction left) (simp_all add: clerkRound_def tryEach_None)

section \<open>Properties of the client\<close>

text \<open>A call of \<open>Join\<close> returns as soon as some server accepts it in some round, whatever the
  calls before that did; it then has spent exactly one request number.\<close>

theorem Clerk_Join_returns:
  assumes "lastLeader ck < servers ck" and "i < servers ck"
    and "call r (i + 1) i \<lparr>Servers = groups, ja_ClientId = clientId ck, ja_RequestId = requestId ck\<rparr> = Some OK"
  shows "\<exists>j. j < servers ck
     \<and> Clerk_Join call ck groups = Some (Inr (ck\<lparr>requestId := requestId ck + 1, lastLeader := j\<rparr>, ()))"
proof -
  let ?attempt = "\<lambda>r p i. answered (call r p i
       \<lparr>Servers = groups, ja_ClientId = clientId ck, ja_RequestId = requestId ck\<rparr>)"
  have "?attempt (0 + r) (i + 1) i \<noteq> None"
    using assms(3) by (simp add: answered_def)
  from changeLoop_returns [of ck i ?attempt, OF assms(1,2) this] show ?thesis
    by (auto simp: Clerk_Join_def)
qed

theorem Clerk_Join_returns_witness:
  "\<exists>j. j < 3 \<and> Clerk_Join (\<lambda>r p i args. if r = 7 \<and> i = 2 then Some OK else if i = 1 then Some ErrWrongLeader else None)
       (MakeClerk 3 42) [(4, [''s''])] = Some (Inr ((MakeClerk 3 42)\<lparr>requestId := 1, lastLeader := j\<rparr>, ()))"
  using Clerk_Join_returns [of "MakeClerk 3 42" 2
      "\<lambda>r p i args. if r = 7 \<and> i = 2 then Some OK else if i = 1 then Some ErrWrongLeader else None" 7 "[(4, [''s''])]"]
  by (simp add: MakeClerk_def)

text \<open>\<open>Query\<close> always returns: with the answer of a server and the next request number, or
  with the empty configuration and the clerk as it was.\<close>

theorem Clerk_Query_returns:
  assumes "lastLeader ck < servers ck"
  shows "Clerk_Query call ck num = Inr (ck, noConfig)
     \<or> (\<exists>j c. j < servers ck
          \<and> Clerk_Query call ck num = Inr (ck\<lparr>requestId := requestId ck + 1, lastLeader := j\<rparr>, c))"
  unfolding Clerk_Query_def by (rule queryLoop_returns [OF assms])

theorem Clerk_Query_returns_witness:
  "\<exists>ck. Clerk_Query (\<lambda>r p i args. None) (MakeClerk 3 42) 6 = Inr (ck, noConfig)
     \<or> (\<exists>c. Clerk_Query (\<lambda>r p i args. None) (MakeClerk 3 42) 6 = Inr (ck, c) \<and> requestId ck = 1)"
  using Clerk_Query_returns [of "MakeClerk 3 42" "\<lambda>r p i args. None" 6] by (auto simp: MakeClerk_def)

text \<open>C17: A \<open>Query\<close> that gives up leaves its request number in use although the command may be in
  the log. The next \<open>Join\<close> of the clerk carries the same number, so that every replica takes it
  for a repetition: it is acknowledged and the group is never added.\<close>

theorem abandoned_query_loses_join:
  "\<exists>ck (sc :: unit ShardCtrler). Clerk_Query (\<lambda>r p i args. None) (MakeClerk 3 1) (-1) = Inr (ck, noConfig)
     \<and> fold_res applyLoop_msg (ex_sc\<lparr>waitChs := [2 \<mapsto> None]\<rparr>)
         (log_msgs 1 [ex_query (clientId ck) (requestId (MakeClerk 3 1)) (-1), ex_join (clientId ck) (requestId ck) [4]]) = Inr sc
     \<and> snd (change_return sc 2) = OK \<and> configs sc = [noConfig]
     \<and> Clerk_Join (\<lambda>r p i args. Some (snd (change_return sc 2))) ck [(4, [''s''])] =
         Some (Inr (ck\<lparr>requestId := 1\<rparr>, ()))"
proof -
  let ?ck = "MakeClerk 3 1"
  have "Clerk_Query (\<lambda>r p i args. None) ?ck (-1) = Inr (?ck, noConfig)"
    unfolding Clerk_Query_def by (rule queryLoop_silent) (simp_all add: MakeClerk_def)
  moreover have "\<exists>sc :: unit ShardCtrler. fold_res applyLoop_msg (ex_sc\<lparr>waitChs := [2 \<mapsto> None]\<rparr>)
         (log_msgs 1 [ex_query (clientId ?ck) (requestId ?ck) (-1), ex_join (clientId ?ck) (requestId ?ck) [4]]) = Inr sc
     \<and> snd (change_return sc 2) = OK \<and> configs sc = [noConfig]"
    by (simp add: MakeClerk_def ex_sc_def ex_query_def ex_join_def baseOp_def applyLoop_msg_def commandMsg_def
        applyOp_def change_def applyQuery_def lastConfig_def latestOf_def touch_def sendWaitCh_def
        change_return_def recvWaitCh_def)
  moreover have "Clerk_Join (\<lambda>r p i args. Some OK) ?ck [(4, [''s''])] = Some (Inr (?ck\<lparr>requestId := 1\<rparr>, ()))"
    by (simp add: Clerk_Join_def changeLoop.simps [of _ _ 0] clerkRound_def answered_def MakeClerk_def)
  ultimately show ?thesis by metis
qed

end
