(* ===== verification/ShardKV.thy ===== *)
theory ShardKV
  imports ShardClerk
begin

text \<open>
  The sharded key/value server (\<open>shardkv/server.go\<close>, \<open>shardkv/server_shard_transfer.go\<close>,
  \<open>shardkv/common.go\<close>): handlers, apply loop, the transfer of shards between groups, and
  the loop that follows the configurations of the controller.

  The Go map of shards is an association list with distinct keys; a storage that is nil is
  \<open>None\<close>. The field \<open>goroutines\<close> is the list of the transfer goroutines the server has
  started. \<open>pullShard\<close>, \<open>sendLeave\<close> and \<open>fetchNextConfig\<close> are one round of their loops; the
  answers of other servers and of the controller are arguments, as in \<open>ShardClerk\<close>.

  The model copies the storage of a \<open>PULL_SHARD\<close> command into the shard. In the program both
  are one Go map, so that later writes to the shard also change the command in the log of
  the same process.
\<close>

section \<open>Data\<close>

datatype Err = NoErr | OK | ErrNoKey | ErrWrongGroup | ErrWrongLeader | ErrConfigVersion

datatype OpType = GET | PUT | APPEND | UPDATE_CONFIG | PULL_SHARD | LEAVE_SHARD | TRANSFER_DONE

record Op =
  Type :: OpType
  Key :: string
  Value :: string
  ClientId :: int
  RequestId :: int
  op_Config :: Config
  op_ShardId :: int
  op_ConfigVersion :: int
  op_Storage :: "(string \<rightharpoonup> string) option"

datatype ShardStatus = WORKING | PULLING | LEAVING | WAITING

record Shard =
  Storage :: "(string \<rightharpoonup> string) option"
  Status :: ShardStatus

record WaitChResponse =
  wr_err :: Err
  wr_value :: string

record PutAppendArgs =
  pa_Key :: string
  pa_Value :: string
  pa_Op :: string
  pa_ClientId :: int
  pa_RequestId :: int

record GetArgs =
  ga_Key :: string
  ga_ClientId :: int
  ga_RequestId :: int

record GetReply =
  gr_Err :: Err
  gr_Value :: string

record PullArgs =
  pl_ConfigVersion :: int
  pl_ShardId :: int

record PullReply =
  pr_Storage :: "(string \<rightharpoonup> string) option"
  pr_Err :: Err

record LeaveArgs =
  lv_ConfigVersion :: int
  lv_ShardId :: int

datatype skv_gob = GobIndex int | GobRequests "int \<rightharpoonup> int" | GobConfig Config
  | GobShards "(int \<times> Shard) list"

datatype goroutine = PullShard int int | SendLeave int int

record ShardKV =
  skv_me :: nat
  skv_rf :: "(Op, skv_gob) Raft"
  gid :: int
  ctrlerClerk :: Clerk
  maxraftstate :: int
  shards :: "(int \<times> Shard) list"
  prevConfig :: Config
  currConfig :: Config
  waitChs :: "WaitChResponse wait_chs"
  latestAppliedRequest :: "int \<rightharpoonup> int"
  latestAppliedRaftIndex :: int
  goroutines :: "goroutine list"

text \<open>An operation with the zero values of Go in the fields that are not given.\<close>

definition zeroOp :: "OpType \<Rightarrow> Op" where
  "zeroOp t = \<lparr>Type = t, Key = [], Value = [], ClientId = 0, RequestId = 0, op_Config = noConfig,
     op_ShardId = 0, op_ConfigVersion = 0, op_Storage = None\<rparr>"

text \<open>\<open>key2shard\<close> of \<open>shardkv/client.go\<close>; a character is a byte.\<close>

definition key2shard :: "string \<Rightarrow> int" where
  "key2shard key = (if length key > 0 then of_char (key ! 0) else 0) mod int NShards"

definition shardAt :: "int list \<Rightarrow> int \<Rightarrow> int res" where
  "shardAt gids s = (if s < 0 then Inl IndexPanic else nth_res gids (nat s))"

section \<open>Snapshots\<close>

definition serialize :: "ShardKV \<Rightarrow> skv_gob list" where
  "serialize kv = [GobIndex (latestAppliedRaftIndex kv), GobRequests (latestAppliedRequest kv),
     GobConfig (prevConfig kv), GobConfig (currConfig kv), GobShards (shards kv)]"

fun deserialize :: "ShardKV \<Rightarrow> skv_gob list \<Rightarrow> ShardKV res" where
  "deserialize kv [] = Inr kv"
| "deserialize kv (GobIndex i # GobRequests rs # GobConfig pc # GobConfig cc # GobShards sh # rest) =
     Inr (kv\<lparr>latestAppliedRaftIndex := i, latestAppliedRequest := rs, prevConfig := pc,
             currConfig := cc, shards := sh\<rparr>)"
| "deserialize kv _ = Inl Fatal"

section \<open>Handlers\<close>

text \<open>The part before the \<open>select\<close>, the same in \<open>Get\<close>, \<open>PutAppend\<close> and \<open>Leave\<close>.\<close>

definition submit :: "ShardKV \<Rightarrow> Op \<Rightarrow> (ShardKV \<times> Err handler) res" where
  "submit kv op =
     and_then (Start (skv_rf kv) op) (\<lambda>(rf, res).
       case res of
         StartWaiting \<Rightarrow> Inr (kv\<lparr>skv_rf := rf\<rparr>, Blocked)
       | Started raftIndex t isLeader \<Rightarrow>
           if \<not> isLeader then Inr (kv\<lparr>skv_rf := rf\<rparr>, Replied ErrWrongLeader)
           else and_then (registerWaitCh (waitChs kv) raftIndex) (\<lambda>chs.
             Inr (kv\<lparr>skv_rf := rf, waitChs := chs\<rparr>, Waiting raftIndex)))"

definition Get_call :: "ShardKV \<Rightarrow> GetArgs \<Rightarrow> (ShardKV \<times> Err handler) res" where
  "Get_call kv args =
     submit kv ((zeroOp GET)\<lparr>Key := ga_Key args, ClientId := ga_ClientId args, RequestId := ga_RequestId args\<rparr>)"

definition Get_return :: "ShardKV \<Rightarrow> int \<Rightarrow> ShardKV \<times> GetReply" where
  "Get_return kv raftIndex =
     (kv\<lparr>waitChs := (waitChs kv)(raftIndex := None)\<rparr>,
      case recvWaitCh (waitChs kv) raftIndex of
        None \<Rightarrow> \<lparr>gr_Err = ErrWrongLeader, gr_Value = []\<rparr>
      | Some response \<Rightarrow> \<lparr>gr_Err = wr_err response, gr_Value = wr_value response\<rparr>)"

definition PutAppend_call :: "ShardKV \<Rightarrow> PutAppendArgs \<Rightarrow> (ShardKV \<times> Err handler) res" where
  "PutAppend_call kv args =
     (let opType = (if pa_Op args = ''Put'' then PUT else APPEND)
      in submit kv ((zeroOp opType)\<lparr>Key := pa_Key args, Value := pa_Value args,
           ClientId := pa_ClientId args, RequestId := pa_RequestId args\<rparr>))"

text \<open>The part after it, of \<open>PutAppend\<close> and of \<open>Leave\<close>.\<close>

definition change_return :: "ShardKV \<Rightarrow> int \<Rightarrow> ShardKV \<times> Err" where
  "change_return kv raftIndex =
     (kv\<lparr>waitChs := (waitChs kv)(raftIndex := None)\<rparr>,
      case recvWaitCh (waitChs kv) raftIndex of
        None \<Rightarrow> ErrWrongLeader | Some response \<Rightarrow> wr_err response)"

definition skv_Kill :: "ShardKV \<Rightarrow> ShardKV" where
  "skv_Kill kv = kv\<lparr>skv_rf := Kill (skv_rf kv)\<rparr>"

definition Pull :: "ShardKV \<Rightarrow> PullArgs \<Rightarrow> PullReply" where
  "Pull kv args =
     (let (t, isLeader) = GetState (skv_rf kv)
      in if isLeader then
           if Num (currConfig kv) > pl_ConfigVersion args then \<lparr>pr_Storage = None, pr_Err = ErrConfigVersion\<rparr>
           else if Num (currConfig kv) < pl_ConfigVersion args then \<lparr>pr_Storage = None, pr_Err = ErrConfigVersion\<rparr>
           else case map_of (shards kv) (pl_ShardId args) of
             None \<Rightarrow> \<lparr>pr_Storage = None, pr_Err = ErrConfigVersion\<rparr>
           | Some shard \<Rightarrow>
               \<lparr>pr_Storage = Some (case Storage shard of None \<Rightarrow> Map.empty | Some m \<Rightarrow> m), pr_Err = OK\<rparr>
         else \<lparr>pr_Storage = None, pr_Err = ErrWrongLeader\<rparr>)"

definition Leave_call :: "ShardKV \<Rightarrow> LeaveArgs \<Rightarrow> (ShardKV \<times> Err handler) res" where
  "Leave_call kv args =
     submit kv ((zeroOp LEAVE_SHARD)\<lparr>op_ShardId := lv_ShardId args, op_ConfigVersion := Num (currConfig kv)\<rparr>)"

section \<open>The apply loop\<close>

definition serving :: "Shard \<Rightarrow> bool" where
  "serving shard \<longleftrightarrow> Status shard = WORKING \<or> Status shard = WAITING"

definition lookupKey :: "Shard \<Rightarrow> string \<Rightarrow> string option" where
  "lookupKey shard key = (case Storage shard of None \<Rightarrow> None | Some m \<Rightarrow> m key)"

text \<open>A write to a nil map panics.\<close>

definition storeKey :: "Shard \<Rightarrow> string \<Rightarrow> string \<Rightarrow> Shard res" where
  "storeKey shard key value =
     (case Storage shard of None \<Rightarrow> Inl NilPanic
      | Some m \<Rightarrow> Inr (shard\<lparr>Storage := Some (m(key \<mapsto> value))\<rparr>))"

definition wrongGroup :: WaitChResponse where
  "wrongGroup = \<lparr>wr_err = ErrWrongGroup, wr_value = []\<rparr>"

definition applyGet :: "ShardKV \<Rightarrow> Op \<Rightarrow> (ShardKV \<times> WaitChResponse) res" where
  "applyGet kv op =
     (case map_of (shards kv) (key2shard (Key op)) of
        None \<Rightarrow> Inr (kv, wrongGroup)
      | Some shard \<Rightarrow>
          if \<not> serving shard then Inr (kv, wrongGroup)
          else let seen = touch (latestAppliedRequest kv) (ClientId op);
                   kv1 = kv\<lparr>latestAppliedRequest :=
                     (if RequestId op > latestOf seen (ClientId op) then seen(ClientId op \<mapsto> RequestId op) else seen)\<rparr>
               in Inr (kv1, case lookupKey shard (Key op) of
                         None \<Rightarrow> \<lparr>wr_err = ErrNoKey, wr_value = []\<rparr>
                       | Some value \<Rightarrow> \<lparr>wr_err = OK, wr_value = value\<rparr>))"

text \<open>The branches \<open>PUT\<close> and \<open>APPEND\<close> differ in the value they store.\<close>

definition applyWrite :: "(Shard \<Rightarrow> string) \<Rightarrow> ShardKV \<Rightarrow> Op \<Rightarrow> (ShardKV \<times> WaitChResponse) res" where
  "applyWrite new kv op =
     (case map_of (shards kv) (key2shard (Key op)) of
        None \<Rightarrow> Inr (kv, wrongGroup)
      | Some shard \<Rightarrow>
          if \<not> serving shard then Inr (kv, wrongGroup)
          else let seen = touch (latestAppliedRequest kv) (ClientId op)
               in if RequestId op > latestOf seen (ClientId op)
                  then and_then (storeKey shard (Key op) (new shard)) (\<lambda>shard1.
                    Inr (kv\<lparr>latestAppliedRequest := seen(ClientId op \<mapsto> RequestId op),
                            shards := AList.update (key2shard (Key op)) shard1 (shards kv)\<rparr>,
                         \<lparr>wr_err = OK, wr_value = []\<rparr>))
                  else Inr (kv\<lparr>latestAppliedRequest := seen\<rparr>, \<lparr>wr_err = OK, wr_value = []\<rparr>))"

definition applyPut :: "ShardKV \<Rightarrow> Op \<Rightarrow> (ShardKV \<times> WaitChResponse) res" where
  "applyPut kv op = applyWrite (\<lambda>shard. Value op) kv op"

definition applyAppend :: "ShardKV \<Rightarrow> Op \<Rightarrow> (ShardKV \<times> WaitChResponse) res" where
  "applyAppend kv op = applyWrite (\<lambda>shard.
     case lookupKey shard (Key op) of Some value \<Rightarrow> value @ Value op | None \<Rightarrow> Value op) kv op"

text \<open>\<open>UPDATE_CONFIG\<close>: the shards of the first configuration; the shards to pull; the shards to leave.\<close>

fun createShards :: "int \<Rightarrow> int \<Rightarrow> int list \<Rightarrow> (int \<times> Shard) list \<Rightarrow> (int \<times> Shard) list" where
  "createShards mygid s [] sh = sh"
| "createShards mygid s (g # gids) sh =
     createShards mygid (s + 1) gids
       (if g = mygid then AList.update s \<lparr>Storage = Some Map.empty, Status = WORKING\<rparr> sh else sh)"

fun pullShards :: "int \<Rightarrow> int \<Rightarrow> int list \<Rightarrow> (int \<times> Shard) list \<Rightarrow> int list \<Rightarrow> (int \<times> Shard) list \<times> int list" where
  "pullShards mygid s [] sh new = (sh, new)"
| "pullShards mygid s (g # gids) sh new =
     (if g = mygid \<and> map_of sh s = None
      then pullShards mygid (s + 1) gids (AList.update s \<lparr>Storage = None, Status = PULLING\<rparr> sh) (new @ [s])
      else pullShards mygid (s + 1) gids sh new)"

fun leaveShards :: "int \<Rightarrow> int list \<Rightarrow> (int \<times> Shard) list \<Rightarrow> (int \<times> Shard) list res" where
  "leaveShards mygid gids [] = Inr []"
| "leaveShards mygid gids ((s, shard) # rest) =
     and_then (shardAt gids s) (\<lambda>g. and_then (leaveShards mygid gids rest) (\<lambda>rest1.
       Inr ((s, if g \<noteq> mygid then shard\<lparr>Status := LEAVING\<rparr> else shard) # rest1)))"

definition applyUpdateConfig :: "ShardKV \<Rightarrow> Op \<Rightarrow> ShardKV res" where
  "applyUpdateConfig kv op =
     (let config = op_Config op
      in if Num (currConfig kv) = Num config - 1 then
           let kv1 = kv\<lparr>prevConfig := currConfig kv, currConfig := config\<rparr>
           in if Num config = 1 then
                Inr (kv1\<lparr>shards := createShards (gid kv) 0 (Shards config) (shards kv)\<rparr>)
              else
                let (sh, new) = pullShards (gid kv) 0 (Shards config) (shards kv) []
                in and_then (leaveShards (gid kv) (Shards config) sh) (\<lambda>sh1.
                     Inr (kv1\<lparr>shards := sh1,
                              goroutines := goroutines kv @ map (\<lambda>s. PullShard s (Num config)) new\<rparr>))
         else Inr kv)"

definition applyPullShard :: "ShardKV \<Rightarrow> Op \<Rightarrow> ShardKV res" where
  "applyPullShard kv op =
     (if Num (currConfig kv) = op_ConfigVersion op then
        case map_of (shards kv) (op_ShardId op) of
          None \<Rightarrow> Inl NilPanic
        | Some shard \<Rightarrow>
            if Status shard = PULLING
            then Inr (kv\<lparr>shards := AList.update (op_ShardId op) \<lparr>Storage = op_Storage op, Status = WAITING\<rparr> (shards kv),
                         goroutines := goroutines kv @ [SendLeave (op_ShardId op) (Num (currConfig kv))]\<rparr>)
            else Inr kv
      else Inr kv)"

definition applyLeaveShard :: "ShardKV \<Rightarrow> Op \<Rightarrow> ShardKV \<times> WaitChResponse" where
  "applyLeaveShard kv op =
     (if Num (currConfig kv) = op_ConfigVersion op then
        (if map_of (shards kv) (op_ShardId op) \<noteq> None
         then kv\<lparr>shards := AList.delete (op_ShardId op) (shards kv)\<rparr> else kv,
         \<lparr>wr_err = OK, wr_value = []\<rparr>)
      else if Num (currConfig kv) > op_ConfigVersion op then (kv, \<lparr>wr_err = OK, wr_value = []\<rparr>)
      else (kv, \<lparr>wr_err = ErrConfigVersion, wr_value = []\<rparr>))"

definition applyTransferDone :: "ShardKV \<Rightarrow> Op \<Rightarrow> ShardKV res" where
  "applyTransferDone kv op =
     (if Num (currConfig kv) = op_ConfigVersion op then
        case map_of (shards kv) (op_ShardId op) of
          None \<Rightarrow> Inl NilPanic
        | Some shard \<Rightarrow>
            if Status shard = WAITING
            then Inr (kv\<lparr>shards := AList.update (op_ShardId op) (shard\<lparr>Status := WORKING\<rparr>) (shards kv)\<rparr>)
            else Inr kv
      else Inr kv)"

definition noResponse :: WaitChResponse where
  "noResponse = \<lparr>wr_err = NoErr, wr_value = []\<rparr>"

definition applyOp :: "ShardKV \<Rightarrow> Op \<Rightarrow> (ShardKV \<times> WaitChResponse) res" where
  "applyOp kv op =
     (case Type op of
        GET \<Rightarrow> applyGet kv op
      | PUT \<Rightarrow> applyPut kv op
      | APPEND \<Rightarrow> applyAppend kv op
      | UPDATE_CONFIG \<Rightarrow> and_then (applyUpdateConfig kv op) (\<lambda>kv1. Inr (kv1, noResponse))
      | PULL_SHARD \<Rightarrow> and_then (applyPullShard kv op) (\<lambda>kv1. Inr (kv1, noResponse))
      | LEAVE_SHARD \<Rightarrow> Inr (applyLeaveShard kv op)
      | TRANSFER_DONE \<Rightarrow> and_then (applyTransferDone kv op) (\<lambda>kv1. Inr (kv1, noResponse)))"

definition snapshotIfLarge :: "(Op gob list \<Rightarrow> nat) \<Rightarrow> ShardKV \<Rightarrow> int \<Rightarrow> ShardKV res" where
  "snapshotIfLarge enc_len kv index =
     (if maxraftstate kv \<noteq> -1
         \<and> int (RaftStateSize enc_len (persister (skv_rf kv))) \<ge> maxraftstate kv
      then and_then (Snapshot (skv_rf kv) index (serialize kv)) (\<lambda>rf. Inr (kv\<lparr>skv_rf := rf\<rparr>))
      else Inr kv)"

definition applyLoop_msg ::
  "(Op gob list \<Rightarrow> nat) \<Rightarrow> ShardKV \<Rightarrow> (Op, skv_gob) ApplyMsg \<Rightarrow> ShardKV res" where
  "applyLoop_msg enc_len kv msg =
     (if CommandValid msg then
        if CommandIndex msg \<le> latestAppliedRaftIndex kv then Inr kv
        else case Command msg of
          None \<Rightarrow> Inl NilPanic
        | Some op \<Rightarrow>
            and_then (applyOp kv op) (\<lambda>(kv1, response).
              and_then (snapshotIfLarge enc_len (kv1\<lparr>latestAppliedRaftIndex := CommandIndex msg\<rparr>) (CommandIndex msg)) (\<lambda>kv2.
                Inr (kv2\<lparr>waitChs := sendWaitCh (waitChs kv2) (CommandIndex msg) response\<rparr>)))
      else if SnapshotIndex msg > latestAppliedRaftIndex kv
           then deserialize kv (am_Snapshot msg) else Inr kv)"

definition skv_applyLoop :: "(Op gob list \<Rightarrow> nat) \<Rightarrow> ShardKV \<Rightarrow> ShardKV res" where
  "skv_applyLoop enc_len kv =
     (case applyCh (skv_rf kv) of [] \<Rightarrow> Inr kv
      | msg # rest \<Rightarrow> applyLoop_msg enc_len (kv\<lparr>skv_rf := (skv_rf kv)\<lparr>applyCh := rest\<rparr>\<rparr>) msg)"

section \<open>Moving shards\<close>

text \<open>
  The loop over the servers of a group, the same in \<open>pullShard\<close> and \<open>sendLeave\<close>: the first
  answer \<open>OK\<close> ends it, and so does \<open>ErrConfigVersion\<close>. \<open>call k srv\<close> is the \<open>k\<close>-th call.
\<close>

fun callGroup :: "(nat \<Rightarrow> string \<Rightarrow> 'r option) \<Rightarrow> ('r \<Rightarrow> Err) \<Rightarrow> nat \<Rightarrow> string list \<Rightarrow> 'r option" where
  "callGroup call err si [] = None"
| "callGroup call err si (srv # srvs) =
     (case call si srv of
        None \<Rightarrow> callGroup call err (si + 1) srvs
      | Some reply \<Rightarrow>
          if err reply = OK then Some reply
          else if err reply = ErrConfigVersion then None
          else callGroup call err (si + 1) srvs)"

text \<open>
  One round of the two loops; the second component says whether the loop goes on. A \<open>Start\<close>
  that waits for the leader to be initialised is left to the next round.
\<close>

definition transferRound ::
  "ShardStatus \<Rightarrow> (nat \<Rightarrow> string \<Rightarrow> 'r option) \<Rightarrow> ('r \<Rightarrow> Err) \<Rightarrow> ('r \<Rightarrow> Op) \<Rightarrow> ShardKV \<Rightarrow> int \<Rightarrow> int \<Rightarrow> (ShardKV \<times> bool) res" where
  "transferRound status call err command kv shardId configVersion =
     (if Num (currConfig kv) > configVersion then Inr (kv, False)
      else case map_of (shards kv) shardId of
        None \<Rightarrow> Inl NilPanic
      | Some shard \<Rightarrow>
          if Status shard \<noteq> status then Inr (kv, False)
          else if snd (GetState (skv_rf kv)) then
            and_then (shardAt (Shards (prevConfig kv)) shardId) (\<lambda>g.
              case map_of (Groups (prevConfig kv)) g of
                None \<Rightarrow> Inr (kv, True)
              | Some srvs \<Rightarrow>
                  (case callGroup call err 0 srvs of
                     None \<Rightarrow> Inr (kv, True)
                   | Some reply \<Rightarrow> and_then (Start (skv_rf kv) (command reply)) (\<lambda>(rf, res).
                       Inr (kv\<lparr>skv_rf := rf\<rparr>, True))))
          else Inr (kv, True))"

definition pullShard ::
  "(nat \<Rightarrow> string \<Rightarrow> PullArgs \<Rightarrow> PullReply option) \<Rightarrow> ShardKV \<Rightarrow> int \<Rightarrow> int \<Rightarrow> (ShardKV \<times> bool) res" where
  "pullShard call kv shardId configVersion =
     transferRound PULLING
       (\<lambda>si srv. call si srv \<lparr>pl_ConfigVersion = configVersion, pl_ShardId = shardId\<rparr>) pr_Err
       (\<lambda>reply. (zeroOp PULL_SHARD)\<lparr>op_ShardId := shardId, op_ConfigVersion := configVersion,
          op_Storage := pr_Storage reply\<rparr>) kv shardId configVersion"

definition sendLeave ::
  "(nat \<Rightarrow> string \<Rightarrow> LeaveArgs \<Rightarrow> Err option) \<Rightarrow> ShardKV \<Rightarrow> int \<Rightarrow> int \<Rightarrow> (ShardKV \<times> bool) res" where
  "sendLeave call kv shardId configVersion =
     transferRound WAITING
       (\<lambda>si srv. call si srv \<lparr>lv_ConfigVersion = configVersion, lv_ShardId = shardId\<rparr>) id
       (\<lambda>reply. (zeroOp TRANSFER_DONE)\<lparr>op_ShardId := shardId, op_ConfigVersion := configVersion\<rparr>)
       kv shardId configVersion"

definition settled :: "ShardKV \<Rightarrow> bool" where
  "settled kv \<longleftrightarrow> list_all (\<lambda>(s, shard). Status shard = WORKING) (shards kv)"

definition fetchNextConfig ::
  "(nat \<Rightarrow> nat \<Rightarrow> nat \<Rightarrow> QueryArgs \<Rightarrow> QueryReply option) \<Rightarrow> ShardKV \<Rightarrow> ShardKV res" where
  "fetchNextConfig call kv =
     (if snd (GetState (skv_rf kv)) \<and> settled kv then
        let currVersion = Num (currConfig kv)
        in and_then (Clerk_Query call (ctrlerClerk kv) (currVersion + 1)) (\<lambda>(ck, latestConfig).
             if Num latestConfig > currVersion then
               if Num latestConfig \<noteq> currVersion + 1 then Inl Fatal
               else and_then (Start (skv_rf kv) ((zeroOp UPDATE_CONFIG)\<lparr>op_Config := latestConfig\<rparr>)) (\<lambda>(rf, res).
                 Inr (kv\<lparr>ctrlerClerk := ck, skv_rf := rf\<rparr>))
             else Inr (kv\<lparr>ctrlerClerk := ck\<rparr>))
      else Inr kv)"

definition StartServer ::
  "nat \<Rightarrow> nat \<Rightarrow> (Op, skv_gob) Persister \<Rightarrow> int \<Rightarrow> int \<Rightarrow> nat \<Rightarrow> int \<Rightarrow> ShardKV res" where
  "StartServer n i ps maxstate g ctrlers nrand =
     and_then (Make n i ps) (\<lambda>rf.
       deserialize \<lparr>skv_me = i, skv_rf = rf, gid = g, ctrlerClerk = MakeClerk ctrlers nrand,
         maxraftstate = maxstate, shards = [], prevConfig = noConfig, currConfig = noConfig,
         waitChs = Map.empty, latestAppliedRequest = Map.empty, latestAppliedRaftIndex = 0,
         goroutines = []\<rparr> (ReadSnapshot ps))"

end
