(* ===== verification/ShardKVInv.thy ===== *)
theory ShardKVInv
  imports ShardKV
begin

text \<open>
  The machine that the Raft peers of a group replicate, and its invariants: which shards a
  server holds and serves, in terms of its configuration.
\<close>

section \<open>The replicated machine\<close>

type_synonym skv_machine = "(int \<times> Shard) list \<times> Config \<times> Config \<times> (int \<rightharpoonup> int)"

definition skv_mach :: "ShardKV \<Rightarrow> skv_machine" where
  "skv_mach kv = (shards kv, prevConfig kv, currConfig kv, latestAppliedRequest kv)"

text \<open>A server of group \<open>g\<close> with the machine \<open>m\<close>, to run the code of the apply loop on.\<close>

definition bare :: "int \<Rightarrow> skv_machine \<Rightarrow> ShardKV" where
  "bare g m = (case m of (sh, pc, cc, rs) \<Rightarrow>
     \<lparr>skv_me = 0, skv_rf = blankRaft 0 0 MakePersister, gid = g, ctrlerClerk = MakeClerk 0 0,
      maxraftstate = -1, shards = sh, prevConfig = pc, currConfig = cc, waitChs = Map.empty,
      latestAppliedRequest = rs, latestAppliedRaftIndex = 0, goroutines = []\<rparr>)"

definition skv_exec :: "int \<Rightarrow> skv_machine \<Rightarrow> Op \<Rightarrow> skv_machine res" where
  "skv_exec g m op = and_then (applyOp (bare g m) op) (\<lambda>(kv, response). Inr (skv_mach kv))"

definition skv_enc :: "int \<Rightarrow> skv_machine \<Rightarrow> skv_gob list" where
  "skv_enc i m = (case m of (sh, pc, cc, rs) \<Rightarrow>
     [GobIndex i, GobRequests rs, GobConfig pc, GobConfig cc, GobShards sh])"

lemma bare_fields [simp]:
  "gid (bare g m) = g" "shards (bare g m) = fst m" "prevConfig (bare g m) = fst (snd m)"
  "currConfig (bare g m) = fst (snd (snd m))" "latestAppliedRequest (bare g m) = snd (snd (snd m))"
  by (simp_all add: bare_def split: prod.splits)

lemma skv_mach_fields [simp]:
  "fst (skv_mach kv) = shards kv" "fst (snd (skv_mach kv)) = prevConfig kv"
  "fst (snd (snd (skv_mach kv))) = currConfig kv" "snd (snd (snd (skv_mach kv))) = latestAppliedRequest kv"
  by (simp_all add: skv_mach_def)

text \<open>Only the machine and the goroutines change when a command is executed.\<close>

definition same_server :: "ShardKV \<Rightarrow> ShardKV \<Rightarrow> bool" where
  "same_server kv kv' \<longleftrightarrow> skv_me kv' = skv_me kv \<and> skv_rf kv' = skv_rf kv \<and> gid kv' = gid kv
     \<and> ctrlerClerk kv' = ctrlerClerk kv \<and> maxraftstate kv' = maxraftstate kv \<and> waitChs kv' = waitChs kv
     \<and> latestAppliedRaftIndex kv' = latestAppliedRaftIndex kv"

lemmas apply_defs = applyGet_def applyWrite_def applyPut_def applyAppend_def applyUpdateConfig_def
  applyPullShard_def applyLeaveShard_def applyTransferDone_def

lemma applyOp_same_server: "applyOp kv op = Inr (kv', r) \<Longrightarrow> same_server kv kv'"
  by (cases "Type op")
    (auto simp: applyOp_def apply_defs same_server_def Let_def split: option.splits if_splits prod.splits)

lemma skv_applyOp_machine:
  assumes "applyOp kv op = Inr (kv', r)"
  shows "skv_exec (gid kv) (skv_mach kv) op = Inr (skv_mach kv')"
proof -
  have "\<exists>kv1. applyOp (bare (gid kv) (skv_mach kv)) op = Inr (kv1, r) \<and> skv_mach kv1 = skv_mach kv'"
    using assms by (cases "Type op")
      (auto simp: applyOp_def apply_defs skv_mach_def Let_def split: option.splits if_splits prod.splits)
  then show ?thesis by (auto simp: skv_exec_def)
qed

lemma skv_snapshotIfLarge_frame:
  "snapshotIfLarge enc_len kv i = Inr kv' \<Longrightarrow> kv' = kv\<lparr>skv_rf := skv_rf kv'\<rparr>"
  by (auto simp: snapshotIfLarge_def split: if_splits)

lemma skv_applyLoop_msg_command:
  assumes "applyLoop_msg enc_len kv msg = Inr kv'" and "CommandValid msg"
    and "CommandIndex msg > latestAppliedRaftIndex kv"
  obtains op kv1 r rf where "Command msg = Some op" "applyOp kv op = Inr (kv1, r)"
    "kv' = kv1\<lparr>latestAppliedRaftIndex := CommandIndex msg, skv_rf := rf,
       waitChs := sendWaitCh (waitChs kv) (CommandIndex msg) r\<rparr>"
proof -
  obtain op kv1 r kv2 where op: "Command msg = Some op" "applyOp kv op = Inr (kv1, r)"
    and snap: "snapshotIfLarge enc_len (kv1\<lparr>latestAppliedRaftIndex := CommandIndex msg\<rparr>) (CommandIndex msg) = Inr kv2"
    and kv': "kv' = kv2\<lparr>waitChs := sendWaitCh (waitChs kv2) (CommandIndex msg) r\<rparr>"
    using assms by (auto simp: applyLoop_msg_def split: option.splits)
  have "kv2 = kv1\<lparr>latestAppliedRaftIndex := CommandIndex msg, skv_rf := skv_rf kv2\<rparr>"
    using skv_snapshotIfLarge_frame [OF snap] .
  then obtain rf where kv2: "kv2 = kv1\<lparr>latestAppliedRaftIndex := CommandIndex msg, skv_rf := rf\<rparr>"
    by iprover
  have "waitChs kv1 = waitChs kv"
    using applyOp_same_server [OF op(2)] by (simp add: same_server_def)
  then show ?thesis
    by (intro that [of op kv1 r rf]) (simp_all add: op kv' kv2)
qed

lemma skv_applyLoop_msg_other:
  assumes "applyLoop_msg enc_len kv msg = Inr kv'"
  shows "CommandValid msg \<Longrightarrow> CommandIndex msg \<le> latestAppliedRaftIndex kv \<Longrightarrow> kv' = kv"
    and "\<not> CommandValid msg \<Longrightarrow> SnapshotIndex msg \<le> latestAppliedRaftIndex kv \<Longrightarrow> kv' = kv"
    and "\<not> CommandValid msg \<Longrightarrow> SnapshotIndex msg > latestAppliedRaftIndex kv \<Longrightarrow>
      deserialize kv (am_Snapshot msg) = Inr kv'"
  using assms by (simp_all add: applyLoop_msg_def)

lemma skv_deserialize_enc:
  "deserialize kv (skv_enc i m) = Inr kv' \<Longrightarrow> skv_mach kv' = m \<and> latestAppliedRaftIndex kv' = i"
  by (auto simp: skv_enc_def skv_mach_def split: prod.splits)

lemma deserialize_gid: "deserialize kv snap = Inr kv' \<Longrightarrow> gid kv' = gid kv"
  by (induction kv snap rule: deserialize.induct) auto

lemma applyLoop_msg_gid: "applyLoop_msg enc_len kv msg = Inr kv' \<Longrightarrow> gid kv' = gid kv"
proof (cases "CommandValid msg \<and> CommandIndex msg > latestAppliedRaftIndex kv")
  case True
  assume "applyLoop_msg enc_len kv msg = Inr kv'"
  then obtain op kv1 r rf where "applyOp kv op = Inr (kv1, r)"
    "kv' = kv1\<lparr>latestAppliedRaftIndex := CommandIndex msg, skv_rf := rf,
       waitChs := sendWaitCh (waitChs kv) (CommandIndex msg) r\<rparr>"
    using True by (elim skv_applyLoop_msg_command) simp_all
  then show ?thesis
    using applyOp_same_server [of kv op kv1 r] by (simp add: same_server_def)
next
  case False
  assume "applyLoop_msg enc_len kv msg = Inr kv'"
  then show ?thesis
    using False by (auto simp: applyLoop_msg_def deserialize_gid split: if_splits)
qed

text \<open>The apply loop of a server of group \<open>g\<close>.\<close>

definition deliver :: "(Op gob list \<Rightarrow> nat) \<Rightarrow> int \<Rightarrow> ShardKV \<Rightarrow> (Op, skv_gob) ApplyMsg \<Rightarrow> ShardKV res" where
  "deliver enc_len g kv msg = applyLoop_msg enc_len (kv\<lparr>gid := g\<rparr>) msg"

lemma deliver_fold:
  "gid kv = g \<Longrightarrow> fold_res (deliver enc_len g) kv msgs = fold_res (applyLoop_msg enc_len) kv msgs"
proof (induction msgs arbitrary: kv)
  case (Cons msg msgs)
  have "kv\<lparr>gid := g\<rparr> = kv"
    using Cons.prems by (cases kv) simp
  then have kv: "deliver enc_len g kv msg = applyLoop_msg enc_len kv msg"
    by (simp add: deliver_def)
  show ?case
  proof (cases "applyLoop_msg enc_len kv msg")
    case (Inr kv1)
    then have "gid kv1 = g"
      using applyLoop_msg_gid [of enc_len kv msg kv1] Cons.prems by simp
    from Cons.IH [OF this] show ?thesis by (simp add: kv Inr)
  qed (simp add: kv)
qed simp

lemma skv_applyLoop_msg_machine:
  assumes "applyLoop_msg enc_len kv msg = Inr kv'" and "CommandValid msg"
    and "CommandIndex msg > latestAppliedRaftIndex kv" and "Command msg = Some op"
  shows "skv_exec (gid kv) (skv_mach kv) op = Inr (skv_mach kv') \<and> latestAppliedRaftIndex kv' = CommandIndex msg"
proof -
  obtain op' kv1 r rf where "Command msg = Some op'" and kv1: "applyOp kv op' = Inr (kv1, r)"
    and kv': "kv' = kv1\<lparr>latestAppliedRaftIndex := CommandIndex msg, skv_rf := rf,
       waitChs := sendWaitCh (waitChs kv) (CommandIndex msg) r\<rparr>"
    by (rule skv_applyLoop_msg_command [OF assms(1-3)])
  then have "op' = op" using assms(4) by simp
  then show ?thesis
    using skv_applyOp_machine [OF kv1] unfolding kv' by (simp add: skv_mach_def)
qed

interpretation skr: snapshot_replica "deliver enc_len g" latestAppliedRaftIndex skv_mach "skv_exec g" skv_enc
  for enc_len g
proof unfold_locales
  fix st :: ShardKV and msg :: "(Op, skv_gob) ApplyMsg" and st' op m
  let ?st = "st\<lparr>gid := g\<rparr>"
  assume d: "deliver enc_len g st msg = Inr st'"
  then have a: "applyLoop_msg enc_len ?st msg = Inr st'" by (simp add: deliver_def)
  have m: "skv_mach ?st = skv_mach st" by (simp add: skv_mach_def)
  show "skv_exec g (skv_mach st) op = Inr (skv_mach st') \<and> latestAppliedRaftIndex st' = CommandIndex msg"
    if "CommandValid msg" "latestAppliedRaftIndex st < CommandIndex msg" "Command msg = Some op"
    using skv_applyLoop_msg_machine [OF a] that m by simp
  show "skv_mach st' = skv_mach st \<and> latestAppliedRaftIndex st' = latestAppliedRaftIndex st"
    if "CommandValid msg" "CommandIndex msg \<le> latestAppliedRaftIndex st"
    using skv_applyLoop_msg_other(1) [OF a] that m by simp
  show "skv_mach st' = skv_mach st \<and> latestAppliedRaftIndex st' = latestAppliedRaftIndex st"
    if "\<not> CommandValid msg" "SnapshotIndex msg \<le> latestAppliedRaftIndex st"
    using skv_applyLoop_msg_other(2) [OF a] that m by simp
  show "skv_mach st' = m \<and> latestAppliedRaftIndex st' = SnapshotIndex msg"
    if "\<not> CommandValid msg" "latestAppliedRaftIndex st < SnapshotIndex msg"
      "am_Snapshot msg = skv_enc (SnapshotIndex msg) m"
    using skv_applyLoop_msg_other(3) [OF a] that skv_deserialize_enc [of ?st "SnapshotIndex msg" m st'] by simp
qed

section \<open>The shards of a configuration\<close>

lemma createShards_map:
  "map_of (createShards mygid s gids sh) t =
     (if s \<le> t \<and> t < s + int (length gids) \<and> gids ! nat (t - s) = mygid
      then Some \<lparr>Storage = Some Map.empty, Status = WORKING\<rparr> else map_of sh t)"
proof (induction gids arbitrary: s sh)
  case (Cons g gids)
  have "nat (t - s) = Suc (nat (t - (s + 1)))" if "s + 1 \<le> t"
    using that by simp
  then show ?case
    using Cons.IH [of "s + 1"] by (auto simp: update_conv' split: if_splits)
qed auto

lemma createShards_distinct:
  "distinct (map fst sh) \<Longrightarrow> distinct (map fst (createShards mygid s gids sh))"
  by (induction gids arbitrary: s sh) (simp_all add: distinct_update)

lemma pullShards_map:
  "map_of (fst (pullShards mygid s gids sh new)) t =
     (if map_of sh t = None \<and> s \<le> t \<and> t < s + int (length gids) \<and> gids ! nat (t - s) = mygid
      then Some \<lparr>Storage = None, Status = PULLING\<rparr> else map_of sh t)"
proof (induction gids arbitrary: s sh new)
  case (Cons g gids)
  have "nat (t - s) = Suc (nat (t - (s + 1)))" if "s + 1 \<le> t"
    using that by simp
  then show ?case
    using Cons.IH [of "s + 1"] by (auto simp: update_conv' split: if_splits)
qed auto

lemma pullShards_distinct:
  "distinct (map fst sh) \<Longrightarrow> distinct (map fst (fst (pullShards mygid s gids sh new)))"
  by (induction gids arbitrary: s sh new) (simp_all add: distinct_update)

lemma leaveShards_map:
  "leaveShards mygid gids sh = Inr sh' \<Longrightarrow>
   map fst sh' = map fst sh
   \<and> map_of sh' t = map_option (\<lambda>shard. if gids ! nat t \<noteq> mygid then shard\<lparr>Status := LEAVING\<rparr> else shard) (map_of sh t)"
  by (induction mygid gids sh arbitrary: sh' rule: leaveShards.induct)
    (auto simp: shardAt_def nth_res_def split: if_splits)

lemma leaveShards_total:
  "(\<And>s. s \<in> fst ` set sh \<Longrightarrow> 0 \<le> s \<and> s < int (length gids)) \<Longrightarrow> \<exists>sh'. leaveShards mygid gids sh = Inr sh'"
  by (induction sh) (force simp: shardAt_def nth_res_def)+

text \<open>
  What is true of the shards of a server of group \<open>g\<close> in configuration \<open>c\<close>: every shard that
  the configuration gives to another group is leaving, and a shard that is served has a
  storage to write to.
\<close>

definition shard_ok :: "int \<Rightarrow> Config \<Rightarrow> int \<Rightarrow> Shard \<Rightarrow> bool" where
  "shard_ok g c s shard \<longleftrightarrow> 0 \<le> s \<and> s < int NShards
     \<and> (Shards c ! nat s \<noteq> g \<longrightarrow> Status shard = LEAVING) \<and> (serving shard \<longrightarrow> Storage shard \<noteq> None)"

definition shards_ok :: "int \<Rightarrow> Config \<Rightarrow> (int \<times> Shard) list \<Rightarrow> bool" where
  "shards_ok g c sh \<longleftrightarrow> distinct (map fst sh) \<and> (\<forall>s shard. map_of sh s = Some shard \<longrightarrow> shard_ok g c s shard)"

definition placed :: "ShardKV \<Rightarrow> bool" where
  "placed kv \<longleftrightarrow> 0 \<le> Num (currConfig kv) \<and> (Num (currConfig kv) = 0 \<longrightarrow> shards kv = [])
     \<and> shards_ok (gid kv) (currConfig kv) (shards kv)"

text \<open>The commands that the servers log: configurations have all shards, and a pulled shard has a storage.\<close>

definition op_ok :: "Op \<Rightarrow> bool" where
  "op_ok op \<longleftrightarrow> (Type op = UPDATE_CONFIG \<longrightarrow> length (Shards (op_Config op)) = NShards)
     \<and> (Type op = PULL_SHARD \<longrightarrow> op_Storage op \<noteq> None)"

lemma shards_okD: "shards_ok g c sh \<Longrightarrow> map_of sh s = Some shard \<Longrightarrow> shard_ok g c s shard"
  by (simp add: shards_ok_def)

lemma shards_ok_update:
  "shards_ok g c sh \<Longrightarrow> shard_ok g c s shard \<Longrightarrow> shards_ok g c (AList.update s shard sh)"
  by (auto simp: shards_ok_def update_conv' distinct_update)

lemma shards_ok_delete: "shards_ok g c sh \<Longrightarrow> shards_ok g c (AList.delete s sh)"
  by (auto simp: shards_ok_def delete_conv' distinct_delete)

lemma shards_ok_config:
  assumes "shards_ok g c sh" and "length (Shards c') = NShards"
    and "leaveShards g (Shards c') (fst (pullShards g 0 (Shards c') sh new)) = Inr sh'"
  shows "shards_ok g c' sh'"
  unfolding shards_ok_def
proof (intro conjI allI impI)
  let ?sh = "fst (pullShards g 0 (Shards c') sh new)"
  have fst: "map fst sh' = map fst ?sh"
    using leaveShards_map [OF assms(3)] by simp
  then show "distinct (map fst sh')"
    using assms(1) pullShards_distinct [of sh g 0 "Shards c'" new] by (simp add: shards_ok_def)
  fix s shard assume "map_of sh' s = Some shard"
  then obtain old where old: "map_of ?sh s = Some old"
    "shard = (if Shards c' ! nat s \<noteq> g then old\<lparr>Status := LEAVING\<rparr> else old)"
    using leaveShards_map [OF assms(3), of s] by auto
  from old(1) consider "map_of sh s = Some old"
    | "old = \<lparr>Storage = None, Status = PULLING\<rparr>" "0 \<le> s" "s < int NShards" "Shards c' ! nat s = g"
    using assms(2) by (auto simp: pullShards_map split: if_splits)
  then show "shard_ok g c' s shard"
  proof cases
    case 1
    then show ?thesis
      using shards_okD [OF assms(1) 1] old(2) by (auto simp: shard_ok_def serving_def)
  qed (use old(2) in \<open>simp add: shard_ok_def serving_def\<close>)
qed

lemma applyUpdateConfig_placed:
  assumes "placed kv" and "op_ok op" and "Type op = UPDATE_CONFIG" and "applyUpdateConfig kv op = Inr kv'"
  shows "placed kv'"
proof (cases "Num (currConfig kv) = Num (op_Config op) - 1")
  case update: True
  let ?c = "op_Config op"
  have len: "length (Shards ?c) = NShards"
    using assms(2,3) by (simp add: op_ok_def)
  show ?thesis
  proof (cases "Num ?c = 1")
    case True
    then have "shards kv = []"
      using assms(1) update by (simp add: placed_def)
    moreover have "shards_ok (gid kv) ?c (createShards (gid kv) 0 (Shards ?c) [])"
      by (auto simp: shards_ok_def shard_ok_def createShards_map createShards_distinct len split: if_splits)
    ultimately show ?thesis
      using assms(4) update True by (auto simp: applyUpdateConfig_def placed_def Let_def)
  next
    case False
    then obtain sh' where "leaveShards (gid kv) (Shards ?c) (fst (pullShards (gid kv) 0 (Shards ?c) (shards kv) [])) = Inr sh'"
      "shards kv' = sh'" "currConfig kv' = ?c" "gid kv' = gid kv"
      using assms(4) update by (auto simp: applyUpdateConfig_def Let_def split: prod.splits)
    moreover have "0 < Num ?c"
      using assms(1) update False by (simp add: placed_def)
    ultimately show ?thesis
      using shards_ok_config [OF _ len, of "gid kv" "currConfig kv" "shards kv" "[]" sh'] assms(1)
      by (simp add: placed_def)
  qed
qed (use assms in \<open>simp add: applyUpdateConfig_def\<close>)

lemma applyWrite_cases:
  assumes "applyWrite new kv op = Inr (kv', r)"
  obtains (wrong) "kv' = kv" "r = wrongGroup"
      "\<forall>shard. map_of (shards kv) (key2shard (Key op)) = Some shard \<longrightarrow> \<not> serving shard"
  | (repeat) shard where "map_of (shards kv) (key2shard (Key op)) = Some shard" "serving shard"
      "kv' = kv\<lparr>latestAppliedRequest := touch (latestAppliedRequest kv) (ClientId op)\<rparr>"
      "r = \<lparr>wr_err = OK, wr_value = []\<rparr>" "RequestId op \<le> latestOf (latestAppliedRequest kv) (ClientId op)"
  | (store) shard m where "map_of (shards kv) (key2shard (Key op)) = Some shard" "serving shard" "Storage shard = Some m"
      "kv' = kv\<lparr>latestAppliedRequest := (latestAppliedRequest kv)(ClientId op \<mapsto> RequestId op),
         shards := AList.update (key2shard (Key op)) (shard\<lparr>Storage := Some (m(Key op \<mapsto> new shard))\<rparr>) (shards kv)\<rparr>"
      "r = \<lparr>wr_err = OK, wr_value = []\<rparr>" "RequestId op > latestOf (latestAppliedRequest kv) (ClientId op)"
  using assms
  by (auto simp: applyWrite_def storeKey_def Let_def not_less split: option.splits if_splits)

lemma applyGet_frame:
  "applyGet kv op = Inr (kv', r) \<Longrightarrow>
   shards kv' = shards kv \<and> currConfig kv' = currConfig kv \<and> prevConfig kv' = prevConfig kv \<and> gid kv' = gid kv"
  by (auto simp: applyGet_def Let_def split: option.splits if_splits)

lemma applyWrite_frame:
  assumes "applyWrite new kv op = Inr (kv', r)"
  shows "currConfig kv' = currConfig kv \<and> prevConfig kv' = prevConfig kv \<and> gid kv' = gid kv"
  using assms by (cases rule: applyWrite_cases) simp_all

lemma placed_shards:
  "placed kv \<Longrightarrow> currConfig kv' = currConfig kv \<Longrightarrow> gid kv' = gid kv \<Longrightarrow>
   shards_ok (gid kv) (currConfig kv) (shards kv') \<Longrightarrow> (shards kv = [] \<Longrightarrow> shards kv' = []) \<Longrightarrow> placed kv'"
  by (auto simp: placed_def)

lemma placedD: "placed kv \<Longrightarrow> map_of (shards kv) s = Some shard \<Longrightarrow> shard_ok (gid kv) (currConfig kv) s shard"
  using shards_okD [of "gid kv" "currConfig kv" "shards kv" s shard] by (simp add: placed_def)

lemma placed_update:
  assumes "placed kv" and "map_of (shards kv) s = Some old" and "shard_ok (gid kv) (currConfig kv) s shard"
    and "currConfig kv' = currConfig kv" and "gid kv' = gid kv" and "shards kv' = AList.update s shard (shards kv)"
  shows "placed kv'"
proof (rule placed_shards [OF assms(1,4,5)])
  show "shards_ok (gid kv) (currConfig kv) (shards kv')"
    using assms(1,3,6) by (simp add: placed_def shards_ok_update)
  show "shards kv = [] \<Longrightarrow> shards kv' = []"
    using assms(2) by simp
qed

lemma applyWrite_placed:
  assumes "placed kv" and "applyWrite new kv op = Inr (kv', r)"
  shows "placed kv'"
  using assms(2)
proof (cases rule: applyWrite_cases)
  case (store shard m)
  then show ?thesis
    using placedD [OF assms(1) store(1)]
    by (intro placed_update [OF assms(1) store(1), of "shard\<lparr>Storage := Some (m(Key op \<mapsto> new shard))\<rparr>"])
      (auto simp: shard_ok_def serving_def)
qed (use assms(1) in \<open>simp_all add: placed_def\<close>)

lemma applyPullShard_placed:
  assumes "placed kv" and "op_Storage op \<noteq> None" and "applyPullShard kv op = Inr kv'"
  shows "placed kv'"
proof (cases "kv' = kv")
  case False
  then obtain shard where shard: "map_of (shards kv) (op_ShardId op) = Some shard" "Status shard = PULLING"
    "shards kv' = AList.update (op_ShardId op) \<lparr>Storage = op_Storage op, Status = WAITING\<rparr> (shards kv)"
    "currConfig kv' = currConfig kv" "gid kv' = gid kv"
    using assms(3) by (auto simp: applyPullShard_def split: if_splits option.splits)
  then show ?thesis
    using placedD [OF assms(1) shard(1)] assms(2)
    by (intro placed_update [OF assms(1) shard(1) _ shard(4,5,3)]) (auto simp: shard_ok_def)
qed (use assms(1) in simp)

lemma applyTransferDone_placed:
  assumes "placed kv" and "applyTransferDone kv op = Inr kv'"
  shows "placed kv'"
proof (cases "kv' = kv")
  case False
  then obtain shard where shard: "map_of (shards kv) (op_ShardId op) = Some shard" "Status shard = WAITING"
    "shards kv' = AList.update (op_ShardId op) (shard\<lparr>Status := WORKING\<rparr>) (shards kv)"
    "currConfig kv' = currConfig kv" "gid kv' = gid kv"
    using assms(2) by (auto simp: applyTransferDone_def split: if_splits option.splits)
  then show ?thesis
    using placedD [OF assms(1) shard(1)]
    by (intro placed_update [OF assms(1) shard(1) _ shard(4,5,3)]) (auto simp: shard_ok_def serving_def)
qed (use assms(1) in simp)

lemma applyLeaveShard_placed:
  "placed kv \<Longrightarrow> applyLeaveShard kv op = (kv', r) \<Longrightarrow> placed kv'"
  by (auto simp: applyLeaveShard_def placed_def shards_ok_delete split: if_splits)

lemma applyOp_placed:
  assumes "placed kv" and "op_ok op" and "applyOp kv op = Inr (kv', r)"
  shows "placed kv'"
proof (cases "Type op")
  case GET
  then show ?thesis
    using assms(1,3) applyGet_frame [of kv op kv' r] by (simp add: applyOp_def placed_def)
next
  case PULL_SHARD
  then show ?thesis
    using assms applyPullShard_placed [of kv op kv'] by (auto simp: applyOp_def op_ok_def)
qed (use assms applyWrite_placed [of kv _ op kv' r] applyUpdateConfig_placed [of kv op kv']
       applyLeaveShard_placed [of kv op kv' r] applyTransferDone_placed [of kv op kv']
     in \<open>auto simp: applyOp_def applyPut_def applyAppend_def\<close>)

section \<open>Within one configuration\<close>

lemma applyOp_config:
  assumes "applyOp kv op = Inr (kv', r)"
  shows "currConfig kv' = currConfig kv \<and> prevConfig kv' = prevConfig kv
     \<or> Type op = UPDATE_CONFIG \<and> currConfig kv' = op_Config op \<and> prevConfig kv' = currConfig kv
        \<and> Num (currConfig kv') = Num (currConfig kv) + 1"
proof (cases "Type op")
  case GET
  then show ?thesis
    using assms applyGet_frame [of kv op kv' r] by (simp add: applyOp_def)
next
  case UPDATE_CONFIG
  then have "applyUpdateConfig kv op = Inr kv'"
    using assms by (simp add: applyOp_def)
  then show ?thesis
    using UPDATE_CONFIG by (auto simp: applyUpdateConfig_def Let_def split: if_splits prod.splits)
next
  case LEAVE_SHARD
  then show ?thesis
    using assms by (auto simp: applyOp_def applyLeaveShard_def split: if_splits)
qed (use assms applyWrite_frame [of _ kv op kv' r]
     in \<open>auto simp: applyOp_def applyPut_def applyAppend_def applyPullShard_def applyTransferDone_def
          split: if_splits option.splits\<close>)

text \<open>The states that a shard goes through before the next configuration.\<close>

definition status_le :: "ShardStatus \<Rightarrow> ShardStatus \<Rightarrow> bool" where
  "status_le a b \<longleftrightarrow> a = b \<or> a = PULLING \<and> (b = WAITING \<or> b = WORKING) \<or> a = WAITING \<and> b = WORKING"

lemma status_le_trans: "status_le a b \<Longrightarrow> status_le b c \<Longrightarrow> status_le a c"
  by (auto simp: status_le_def)

text \<open>No shard appears, states only advance, and a shard that is leaving does not change.\<close>

definition shards_le :: "(int \<times> Shard) list \<Rightarrow> (int \<times> Shard) list \<Rightarrow> bool" where
  "shards_le sh sh' \<longleftrightarrow> (\<forall>s new. map_of sh' s = Some new \<longrightarrow>
     (\<exists>old. map_of sh s = Some old \<and> status_le (Status old) (Status new)
        \<and> (Status old = LEAVING \<longrightarrow> new = old)))"

lemma shards_leD:
  "shards_le sh sh' \<Longrightarrow> map_of sh' s = Some new \<Longrightarrow>
   \<exists>old. map_of sh s = Some old \<and> status_le (Status old) (Status new) \<and> (Status old = LEAVING \<longrightarrow> new = old)"
  by (simp add: shards_le_def)

lemma shards_le_refl [simp]: "shards_le sh sh"
  by (simp add: shards_le_def status_le_def)

lemma shards_le_trans:
  assumes "shards_le a b" and "shards_le b c"
  shows "shards_le a c"
  unfolding shards_le_def
proof (intro allI impI)
  fix s new assume "map_of c s = Some new"
  then obtain mid where mid: "map_of b s = Some mid" "status_le (Status mid) (Status new)" "Status mid = LEAVING \<longrightarrow> new = mid"
    using shards_leD [OF assms(2)] by blast
  obtain old where "map_of a s = Some old" "status_le (Status old) (Status mid)" "Status old = LEAVING \<longrightarrow> mid = old"
    using shards_leD [OF assms(1) mid(1)] by blast
  then show "\<exists>old. map_of a s = Some old \<and> status_le (Status old) (Status new) \<and> (Status old = LEAVING \<longrightarrow> new = old)"
    using mid(2,3) status_le_trans [of "Status old" "Status mid" "Status new"] by simp
qed

lemma shards_le_update:
  "map_of sh s = Some old \<Longrightarrow> status_le (Status old) (Status new) \<Longrightarrow> Status old \<noteq> LEAVING \<Longrightarrow>
   shards_le sh (AList.update s new sh)"
  by (auto simp: shards_le_def update_conv' status_le_def)

lemma shards_le_delete: "shards_le sh (AList.delete s sh)"
  by (auto simp: shards_le_def delete_conv' status_le_def)

lemma applyWrite_le:
  assumes "applyWrite new kv op = Inr (kv', r)"
  shows "shards_le (shards kv) (shards kv')"
  using assms
proof (cases rule: applyWrite_cases)
  case (store shard m)
  then show ?thesis
    by (auto intro!: shards_le_update simp: status_le_def serving_def)
qed simp_all

lemma applyOp_le:
  assumes "applyOp kv op = Inr (kv', r)" and "Num (currConfig kv') = Num (currConfig kv)"
  shows "shards_le (shards kv) (shards kv')"
proof (cases "Type op")
  case GET
  then show ?thesis
    using assms(1) applyGet_frame [of kv op kv' r] by (simp add: applyOp_def)
next
  case UPDATE_CONFIG
  then have "applyUpdateConfig kv op = Inr kv'"
    using assms(1) by (simp add: applyOp_def)
  then have "kv' = kv"
    using assms(2) by (auto simp: applyUpdateConfig_def Let_def split: if_splits prod.splits)
  then show ?thesis by simp
qed (use assms(1) applyWrite_le [of _ kv op kv' r]
     in \<open>auto simp: applyOp_def applyPut_def applyAppend_def applyPullShard_def applyLeaveShard_def
          applyTransferDone_def status_le_def shards_le_delete split: if_splits option.splits intro!: shards_le_update\<close>)

section \<open>Servers of a log\<close>

abbreviation skv0 :: skv_machine where
  "skv0 \<equiv> ([], noConfig, noConfig, Map.empty)"

text \<open>The server of group \<open>g\<close> has executed the first \<open>latestAppliedRaftIndex\<close> commands of \<open>l\<close>.\<close>

definition skv_at :: "int \<Rightarrow> Op list \<Rightarrow> ShardKV \<Rightarrow> bool" where
  "skv_at g l kv \<longleftrightarrow> gid kv = g \<and> latestAppliedRaftIndex kv \<ge> 0
     \<and> replay (skv_exec g) skv0 l (latestAppliedRaftIndex kv) = Inr (skv_mach kv)"

definition skv_snapshot :: "int \<Rightarrow> Op list \<Rightarrow> skv_gob list \<Rightarrow> bool" where
  "skv_snapshot g l snap \<longleftrightarrow>
     snap = [] \<or> (\<exists>k m. 0 \<le> k \<and> replay (skv_exec g) skv0 l k = Inr m \<and> snap = skv_enc k m)"

lemma skv_at_start:
  assumes "StartServer n i ps mx g cs nr = Inr kv" and "skv_snapshot g l (snapshot ps)"
  shows "skv_at g l kv"
  using assms by (auto simp: StartServer_def skv_snapshot_def ReadSnapshot_def skv_at_def
      skv_mach_def skv_enc_def replay_def)

lemma applyLoop_gid: "fold_res (applyLoop_msg enc_len) kv msgs = Inr kv' \<Longrightarrow> gid kv' = gid kv"
  by (induction msgs arbitrary: kv) (auto dest: applyLoop_msg_gid)

lemma skv_at_steps:
  assumes "skv_at g l kv" and "messages_of skv_enc (skv_exec g) skv0 l (latestAppliedRaftIndex kv) msgs"
    and "fold_res (applyLoop_msg enc_len) kv msgs = Inr kv'"
  shows "skv_at g l kv'"
proof -
  have "fold_res (deliver enc_len g) kv msgs = Inr kv'"
    using assms(1,3) by (simp add: skv_at_def deliver_fold)
  then show ?thesis
    using skr.replays_messages [OF assms(2), of enc_len kv'] assms(1) applyLoop_gid [OF assms(3)]
    by (simp add: skv_at_def)
qed

lemma placed_bare: "placed (bare (gid kv) (skv_mach kv)) = placed kv"
  by (simp add: placed_def)

lemma exec_applyOp:
  assumes "skv_exec g m op = Inr m'"
  obtains kv' r where "applyOp (bare g m) op = Inr (kv', r)" "m' = skv_mach kv'" "gid kv' = g"
proof -
  obtain kv' r where kv': "applyOp (bare g m) op = Inr (kv', r)" "m' = skv_mach kv'"
    using assms by (auto simp: skv_exec_def)
  then show ?thesis
    using applyOp_same_server [OF kv'(1)] that by (simp add: same_server_def)
qed

lemma exec_placed:
  assumes "skv_exec g m op = Inr m'" and "placed (bare g m)" and "op_ok op"
  shows "placed (bare g m')"
proof -
  obtain kv' r where kv': "applyOp (bare g m) op = Inr (kv', r)" "m' = skv_mach kv'" "gid kv' = g"
    using exec_applyOp [OF assms(1)] by blast
  then show ?thesis
    using applyOp_placed [OF assms(2,3) kv'(1)] placed_bare [of kv'] by simp
qed

lemma fold_placed:
  "fold_res (skv_exec g) m ops = Inr m' \<Longrightarrow> placed (bare g m) \<Longrightarrow> list_all op_ok ops \<Longrightarrow> placed (bare g m')"
  by (induction ops arbitrary: m) (auto dest: exec_placed)

lemma skv_at_placed:
  assumes "skv_at g l kv" and "list_all op_ok l"
  shows "placed kv"
proof -
  have "list_all op_ok (take (nat (latestAppliedRaftIndex kv)) l)"
    using assms(2) by (auto simp: list_all_iff dest: in_set_takeD)
  moreover have "placed (bare g skv0)"
    by (simp add: placed_def shards_ok_def noConfig_def)
  ultimately have "placed (bare g (skv_mach kv))"
    using assms(1) fold_placed [of g skv0 "take (nat (latestAppliedRaftIndex kv)) l" "skv_mach kv"]
    by (simp add: skv_at_def replay_def)
  then show ?thesis
    using assms(1) placed_bare [of kv] by (simp add: skv_at_def)
qed

text \<open>From one place of the log to a later one.\<close>

abbreviation config_of :: "skv_machine \<Rightarrow> Config" where
  "config_of m \<equiv> fst (snd (snd m))"

lemma exec_config:
  assumes "skv_exec g m op = Inr m'"
  shows "config_of m' = config_of m \<or> Num (config_of m') = Num (config_of m) + 1"
proof -
  obtain kv' r where "applyOp (bare g m) op = Inr (kv', r)" "m' = skv_mach kv'"
    using exec_applyOp [OF assms] by blast
  then show ?thesis
    using applyOp_config [of "bare g m" op kv' r] by auto
qed

lemma fold_config: "fold_res (skv_exec g) m ops = Inr m' \<Longrightarrow> Num (config_of m) \<le> Num (config_of m')"
  by (induction ops arbitrary: m) (force dest!: exec_config)+

lemma fold_le:
  "fold_res (skv_exec g) m ops = Inr m' \<Longrightarrow> Num (config_of m') = Num (config_of m) \<Longrightarrow>
   shards_le (fst m) (fst m') \<and> config_of m' = config_of m"
proof (induction ops arbitrary: m)
  case (Cons op ops)
  then obtain m1 where m1: "skv_exec g m op = Inr m1" "fold_res (skv_exec g) m1 ops = Inr m'"
    by auto
  have num: "Num (config_of m1) = Num (config_of m)" and same: "config_of m1 = config_of m"
    using exec_config [OF m1(1)] fold_config [OF m1(2)] Cons.prems(2) by auto
  obtain kv' r where kv': "applyOp (bare g m) op = Inr (kv', r)" "m1 = skv_mach kv'"
    using exec_applyOp [OF m1(1)] by blast
  then have "shards_le (fst m) (fst m1)"
    using applyOp_le [OF kv'(1)] num by simp
  then show ?case
    using Cons.IH [OF m1(2)] Cons.prems(2) num same shards_le_trans by auto
qed simp

lemma skv_at_later:
  assumes "skv_at g l a" and "skv_at g l b" and "latestAppliedRaftIndex a \<le> latestAppliedRaftIndex b"
    and "Num (currConfig b) = Num (currConfig a)"
  shows "shards_le (shards a) (shards b)" "currConfig b = currConfig a"
proof -
  let ?i = "nat (latestAppliedRaftIndex a)" and ?j = "nat (latestAppliedRaftIndex b)"
  have "take ?j l = take ?i l @ drop ?i (take ?j l)"
    using assms(3) by (metis append_take_drop_id min.absorb1 nat_mono take_take)
  then have "fold_res (skv_exec g) (skv_mach a) (drop ?i (take ?j l)) = Inr (skv_mach b)"
    using assms(1,2) fold_res_append [of "skv_exec g" skv0 "take ?i l" "drop ?i (take ?j l)"]
    by (simp add: skv_at_def replay_def)
  from fold_le [OF this] assms(4) show "shards_le (shards a) (shards b)" "currConfig b = currConfig a"
    by simp_all
qed

end
