(* ===== verification/ShardKVSpec.thy ===== *)
theory ShardKVSpec
  imports ShardKVInv
begin

text \<open>
  What the sharded service promises: replicas of a group agree, a server answers only for
  the shards that its configuration gives to its group, a shard is handed over with the
  data it had when it was closed, and configurations change only between transfers; and
  where the protocol loses data or comes to a stop.
\<close>

section \<open>Examples\<close>

definition ex_c1 :: Config where
  "ex_c1 = \<lparr>Num = 1, Shards = [4, 4, 4, 4, 4, 4, 4, 4, 4, 4], Groups = [(4, [''s''])]\<rparr>"

definition ex_c2 :: Config where
  "ex_c2 = \<lparr>Num = 2, Shards = [7, 7, 7, 7, 7, 4, 4, 4, 4, 4], Groups = [(4, [''s'']), (7, [''t''])]\<rparr>"

definition ex_update :: "Config \<Rightarrow> Op" where
  "ex_update c = (zeroOp UPDATE_CONFIG)\<lparr>op_Config := c\<rparr>"

definition ex_client :: "OpType \<Rightarrow> string \<Rightarrow> string \<Rightarrow> int \<Rightarrow> Op" where
  "ex_client t k v r = (zeroOp t)\<lparr>Key := k, Value := v, ClientId := 1, RequestId := r\<rparr>"

text \<open>The keys \<open>2\<close> and \<open>7\<close> are in the shards 0 and 5.\<close>

lemma ex_keys: "key2shard ''2'' = 0" "key2shard ''7'' = 5"
  by (simp_all add: key2shard_def NShards_def)

definition ex_shards :: "nat \<Rightarrow> ShardStatus \<Rightarrow> (string \<rightharpoonup> string) option \<Rightarrow> nat \<Rightarrow> (int \<times> Shard) list" where
  "ex_shards a st m b = map (\<lambda>s. (int s, \<lparr>Storage = m, Status = st\<rparr>)) [a..<b]"

text \<open>Group 4: the first configuration, a write, the second configuration, a write.\<close>

definition ex_l :: "Op list" where
  "ex_l = [ex_update ex_c1, ex_client APPEND ''2'' ''a'' 0, ex_update ex_c2, ex_client PUT ''7'' ''w'' 1]"

definition ex_m2 :: skv_machine where
  "ex_m2 = ((0, \<lparr>Storage = Some [''2'' \<mapsto> ''a''], Status = WORKING\<rparr>) # ex_shards 1 WORKING (Some Map.empty) 10,
     noConfig, ex_c1, [1 \<mapsto> 0])"

definition ex_m3 :: skv_machine where
  "ex_m3 = ((0, \<lparr>Storage = Some [''2'' \<mapsto> ''a''], Status = LEAVING\<rparr>) # ex_shards 1 LEAVING (Some Map.empty) 5
       @ ex_shards 5 WORKING (Some Map.empty) 10, ex_c1, ex_c2, [1 \<mapsto> 0])"

definition ex_m4 :: skv_machine where
  "ex_m4 = ((0, \<lparr>Storage = Some [''2'' \<mapsto> ''a''], Status = LEAVING\<rparr>) # ex_shards 1 LEAVING (Some Map.empty) 5
       @ (5, \<lparr>Storage = Some [''7'' \<mapsto> ''w''], Status = WORKING\<rparr>) # ex_shards 6 WORKING (Some Map.empty) 10,
     ex_c1, ex_c2, [1 \<mapsto> 1])"

text \<open>A leader of group \<open>g\<close> with the machine \<open>m\<close> at index \<open>i\<close>.\<close>

definition ex_skv :: "int \<Rightarrow> skv_machine \<Rightarrow> int \<Rightarrow> ShardKV" where
  "ex_skv g m i = (bare g m)\<lparr>latestAppliedRaftIndex := i, skv_rf := (blankRaft 3 0 MakePersister)
     \<lparr>state := leaderState, leaderInitDone := True, nextIndex := [1, 1, 1], matchIndex := [0, 0, 0]\<rparr>\<rparr>"

lemma ex_skv_fields [simp]:
  "gid (ex_skv g m i) = g" "skv_mach (ex_skv g m i) = m" "latestAppliedRaftIndex (ex_skv g m i) = i"
  "shards (ex_skv g m i) = fst m" "prevConfig (ex_skv g m i) = fst (snd m)"
  "currConfig (ex_skv g m i) = fst (snd (snd m))" "latestAppliedRequest (ex_skv g m i) = snd (snd (snd m))"
  "GetState (skv_rf (ex_skv g m i)) = (0, True)"
  by (simp_all add: ex_skv_def skv_mach_def GetState_def blankRaft_def)

lemmas ex_eval = ex_update_def ex_client_def zeroOp_def ex_c1_def ex_c2_def ex_shards_def upt_conv_Cons
  applyOp_def apply_defs serving_def lookupKey_def storeKey_def latestOf_def touch_def shardAt_def noConfig_def

lemma ex_exec:
  "fold_res (skv_exec 4) skv0 (take 2 ex_l) = Inr ex_m2" "skv_exec 4 ex_m2 (ex_l ! 2) = Inr ex_m3"
  "skv_exec 4 ex_m3 (ex_l ! 3) = Inr ex_m4"
  by (simp_all add: ex_l_def ex_m2_def ex_m3_def ex_m4_def skv_exec_def skv_mach_def ex_keys ex_eval numeral_2_eq_2)

lemma ex_ok: "list_all op_ok ex_l"
  by (simp add: ex_l_def op_ok_def ex_update_def ex_client_def zeroOp_def ex_c1_def ex_c2_def NShards_def)

lemma ex_at: "skv_at 4 ex_l (ex_skv 4 ex_m2 2)" "skv_at 4 ex_l (ex_skv 4 ex_m3 3)" "skv_at 4 ex_l (ex_skv 4 ex_m4 4)"
proof -
  have take: "take 3 ex_l = take 2 ex_l @ [ex_l ! 2]" "take 4 ex_l = (take 2 ex_l @ [ex_l ! 2]) @ [ex_l ! 3]"
    by (simp_all add: ex_l_def)
  show "skv_at 4 ex_l (ex_skv 4 ex_m2 2)"
    using ex_exec(1) by (simp add: skv_at_def replay_def)
  show "skv_at 4 ex_l (ex_skv 4 ex_m3 3)"
    using ex_exec by (simp add: skv_at_def replay_def take fold_res_snoc)
  show "skv_at 4 ex_l (ex_skv 4 ex_m4 4)"
    using ex_exec by (simp add: skv_at_def replay_def take fold_res_snoc del: append_assoc)
qed

section \<open>Replicas\<close>







section \<open>Who serves a shard\<close>

lemma key2shard_range: "0 \<le> key2shard key" "key2shard key < int NShards"
  by (simp_all add: key2shard_def NShards_def)

lemma client_op_serving:
  assumes "Type op \<in> {GET, PUT, APPEND}" and "applyOp kv op = Inr (kv', r)" and "wr_err r \<noteq> ErrWrongGroup"
  obtains shard where "map_of (shards kv) (key2shard (Key op)) = Some shard" "serving shard"
  using assms by (auto simp: applyOp_def applyGet_def applyPut_def applyAppend_def applyWrite_def wrongGroup_def
      split: option.splits if_splits)

lemma serves_assigned:
  assumes "placed kv" and "map_of (shards kv) s = Some shard" and "serving shard"
  shows "Shards (currConfig kv) ! nat s = gid kv"
  using placedD [OF assms(1,2)] assms(3) by (auto simp: shard_ok_def serving_def)

text \<open>A server answers a request of a client with anything but \<open>ErrWrongGroup\<close> only when the
  configuration it is in assigns the shard of the key to its group, whatever sequence of commands
  its group has logged.\<close>

theorem serves_only_assigned:
  assumes "skv_at g l kv" and "list_all op_ok l" and "Type op \<in> {GET, PUT, APPEND}"
    and "applyOp kv op = Inr (kv', r)" and "wr_err r \<noteq> ErrWrongGroup"
  shows "Shards (currConfig kv) ! nat (key2shard (Key op)) = g"
proof -
  obtain shard where "map_of (shards kv) (key2shard (Key op)) = Some shard" "serving shard"
    by (rule client_op_serving [OF assms(3-5)])
  then show ?thesis
    using serves_assigned [OF skv_at_placed [OF assms(1,2)]] assms(1) by (simp add: skv_at_def)
qed

theorem serves_only_assigned_witness:
  "\<exists>kv'. applyOp (ex_skv 4 ex_m3 3) (ex_client GET ''7'' [] 1) = Inr (kv', \<lparr>wr_err = ErrNoKey, wr_value = []\<rparr>)
     \<and> Shards (currConfig (ex_skv 4 ex_m3 3)) ! nat (key2shard ''7'') = 4"
proof -
  obtain kv' where kv': "applyOp (ex_skv 4 ex_m3 3) (ex_client GET ''7'' [] 1) = Inr (kv', \<lparr>wr_err = ErrNoKey, wr_value = []\<rparr>)"
    by (simp add: ex_m3_def ex_keys ex_eval)
  moreover have "Type (ex_client GET ''7'' [] 1) = GET" "Key (ex_client GET ''7'' [] 1) = ''7''"
    by (simp_all add: ex_client_def zeroOp_def)
  ultimately show ?thesis
    using serves_only_assigned [OF ex_at(2) ex_ok _ kv'] by auto
qed

text \<open>C25: Two groups never serve the same key in the same configuration: of two servers of
  different groups that are in the same configuration, whatever their logs, at least one answers
  \<open>ErrWrongGroup\<close>.\<close>

theorem one_group_serves:
  assumes "skv_at g l kv" and "list_all op_ok l" and "skv_at h l' kw" and "list_all op_ok l'"
    and "g \<noteq> h" and "currConfig kv = currConfig kw"
    and "Type op \<in> {GET, PUT, APPEND}" and "Type op' \<in> {GET, PUT, APPEND}" and "Key op = Key op'"
    and "applyOp kv op = Inr (kv', r)" and "applyOp kw op' = Inr (kw', r')"
  shows "wr_err r = ErrWrongGroup \<or> wr_err r' = ErrWrongGroup"
proof (rule ccontr)
  assume "\<not> ?thesis"
  then obtain a b where k: "map_of (shards kv) (key2shard (Key op)) = Some a" "serving a"
    "map_of (shards kw) (key2shard (Key op')) = Some b" "serving b"
    using client_op_serving [OF assms(7,10)] client_op_serving [OF assms(8,11)] by metis
  show False
    using serves_assigned [OF skv_at_placed [OF assms(1,2)] k(1,2)]
      serves_assigned [OF skv_at_placed [OF assms(3,4)] k(3,4)] assms(1,3,5,6,9) by (simp add: skv_at_def)
qed

text \<open>Group 7 has followed the two configurations and pulled nothing yet.\<close>

definition ex_n :: skv_machine where
  "ex_n = (ex_shards 0 PULLING None 5, ex_c1, ex_c2, Map.empty)"

lemma ex_at7: "skv_at 7 [ex_update ex_c1, ex_update ex_c2] (ex_skv 7 ex_n 2)"
  by (simp add: skv_at_def replay_def skv_exec_def skv_mach_def ex_n_def ex_eval numeral_2_eq_2)

theorem one_group_serves_witness:
  "\<exists>kv' r kw' r'. applyOp (ex_skv 4 ex_m3 3) (ex_client GET ''7'' [] 1) = Inr (kv', r)
     \<and> applyOp (ex_skv 7 ex_n 2) (ex_client PUT ''7'' ''z'' 1) = Inr (kw', r')
     \<and> wr_err r = ErrNoKey \<and> wr_err r' = ErrWrongGroup"
proof -
  obtain kv' r where kv': "applyOp (ex_skv 4 ex_m3 3) (ex_client GET ''7'' [] 1) = Inr (kv', r)" "wr_err r = ErrNoKey"
    by (simp add: ex_m3_def ex_keys ex_eval)
  obtain kw' r' where kw': "applyOp (ex_skv 7 ex_n 2) (ex_client PUT ''7'' ''z'' 1) = Inr (kw', r')"
    by (simp add: ex_n_def ex_keys ex_eval)
  have "list_all op_ok [ex_update ex_c1, ex_update ex_c2]"
    using ex_ok by (simp add: ex_l_def)
  then have "wr_err r = ErrWrongGroup \<or> wr_err r' = ErrWrongGroup"
    using one_group_serves [OF ex_at(2) ex_ok ex_at7 _ _ _ _ _ _ kv'(1) kw']
    by (simp add: ex_m3_def ex_n_def ex_client_def zeroOp_def)
  then show ?thesis
    using kv' kw' by auto
qed

section \<open>Handing over a shard\<close>





text \<open>C26: 
  C0: The new group gets the storage of the old one. When a leader of the new group, with the
  shard in state \<open>PULLING\<close>, runs a round of \<open>pullShard\<close> and the first server of the old group
  answers, then the storage of that server's shard is in the command that the round appends to
  the log, and executing the command gives the shard this storage and opens it in state
  \<open>WAITING\<close>.
\<close>

theorem handoff_transfers:
  assumes "Pull a \<lparr>pl_ConfigVersion = n, pl_ShardId = s\<rparr> = reply" and "pr_Err reply = OK"
    and "map_of (shards a) s = Some old" and "Storage old = Some m"
    and "map_of (shards b) s = Some new" and "Status new = PULLING" and "Num (currConfig b) = n"
    and "state (skv_rf b) = leaderState" and "leaderInitDone (skv_rf b)"
    and "shardAt (Shards (prevConfig b)) s = Inr g" and "map_of (Groups (prevConfig b)) g = Some (srv # rest)"
    and "call 0 srv \<lparr>pl_ConfigVersion = n, pl_ShardId = s\<rparr> = Some reply"
    and "pullShard call b s n = Inr (b', again)"
  shows "again \<and> (\<exists>op e b'' r. log (skv_rf b') = log (skv_rf b) @ [e] \<and> le_Command e = Some op
     \<and> applyOp b' op = Inr (b'', r) \<and> map_of (shards b'') s = Some \<lparr>Storage = Some m, Status = WAITING\<rparr>
     \<and> goroutines b'' = goroutines b @ [SendLeave s n])"
proof -
  let ?op = "(zeroOp PULL_SHARD)\<lparr>op_ShardId := s, op_ConfigVersion := n, op_Storage := pr_Storage reply\<rparr>"
  have reply: "pr_Storage reply = Some m"
    using assms(1-4) by (auto simp: Pull_def split: if_splits prod.splits)
  have "snd (GetState (skv_rf b))"
    using assms(8) by (simp add: GetState_def)
  then obtain rf res where "Start (skv_rf b) ?op = Inr (rf, res)" and b': "b' = b\<lparr>skv_rf := rf\<rparr>" "again"
    using assms by (auto simp: pullShard_def transferRound_def)
  then have log: "log rf = log (skv_rf b) @ [\<lparr>le_Term = currentTerm (skv_rf b), le_Command = Some ?op\<rparr>]"
    using assms(8,9) by (auto simp: Start_def Let_def persist_def)
  have "\<exists>b'' r. applyOp b' ?op = Inr (b'', r) \<and> map_of (shards b'') s = Some \<lparr>Storage = Some m, Status = WAITING\<rparr>
     \<and> goroutines b'' = goroutines b @ [SendLeave s n]"
    using assms(5-7) reply b' by (simp add: applyOp_def applyPullShard_def zeroOp_def update_conv')
  then show ?thesis
    using b' log by auto
qed

lemma ex_pull:
  "Pull (ex_skv 4 ex_m3 3) \<lparr>pl_ConfigVersion = 2, pl_ShardId = 0\<rparr> = \<lparr>pr_Storage = Some [''2'' \<mapsto> ''a''], pr_Err = OK\<rparr>"
  by (simp add: Pull_def ex_m3_def ex_c2_def)

theorem handoff_transfers_witness:
  "\<exists>b'. pullShard (\<lambda>k srv args. Some (Pull (ex_skv 4 ex_m3 3) args)) (ex_skv 7 ex_n 2) 0 2 = Inr (b', True)
     \<and> length (log (skv_rf b')) = length (log (skv_rf (ex_skv 7 ex_n 2))) + 1"
proof -
  have rf: "state (skv_rf (ex_skv 7 ex_n 2)) = leaderState" "leaderInitDone (skv_rf (ex_skv 7 ex_n 2))"
    "shardAt (Shards (prevConfig (ex_skv 7 ex_n 2))) 0 = Inr 4"
    "map_of (Groups (prevConfig (ex_skv 7 ex_n 2))) 4 = Some [''s'']"
    "map_of (shards (ex_skv 7 ex_n 2)) 0 = Some \<lparr>Storage = None, Status = PULLING\<rparr>"
    "Num (currConfig (ex_skv 7 ex_n 2)) = 2"
    by (simp_all add: ex_skv_def ex_n_def ex_shards_def upt_conv_Cons ex_c1_def ex_c2_def shardAt_def)
  obtain b' again where b': "pullShard (\<lambda>k srv args. Some (Pull (ex_skv 4 ex_m3 3) args)) (ex_skv 7 ex_n 2) 0 2 = Inr (b', again)"
    using rf by (simp add: pullShard_def transferRound_def ex_pull Start_def)
      (simp add: ex_skv_def blankRaft_def set_res_def persist_def)
  have "map_of (shards (ex_skv 4 ex_m3 3)) 0 = Some \<lparr>Storage = Some [''2'' \<mapsto> ''a''], Status = LEAVING\<rparr>"
    by (simp add: ex_m3_def)
  from handoff_transfers [OF ex_pull _ this _ rf(5) _ rf(6,1-4) _ b'] b' show ?thesis
    by (auto simp: ex_pull)
qed

section \<open>Following the configurations\<close>

lemma settled_map: "settled kv \<Longrightarrow> map_of (shards kv) s = Some shard \<Longrightarrow> Status shard = WORKING"
  by (auto simp: settled_def list_all_iff dest: map_of_SomeD)

lemma settled_mapI:
  assumes "distinct (map fst (shards kv))" and "\<And>s shard. map_of (shards kv) s = Some shard \<Longrightarrow> Status shard = WORKING"
  shows "settled kv"
  using assms by (auto simp: settled_def list_all_iff)

lemma settled_later:
  assumes "skv_at g l a" and "skv_at g l b" and "list_all op_ok l"
    and "latestAppliedRaftIndex a \<le> latestAppliedRaftIndex b" and "Num (currConfig b) = Num (currConfig a)"
    and "settled a"
  shows "settled b"
proof (rule settled_mapI)
  show "distinct (map fst (shards b))"
    using skv_at_placed [OF assms(2,3)] by (simp add: placed_def shards_ok_def)
  fix s shard assume "map_of (shards b) s = Some shard"
  then obtain old where "map_of (shards a) s = Some old" "status_le (Status old) (Status shard)"
    using shards_leD [OF skv_at_later(1) [OF assms(1,2,4,5)]] by blast
  then show "Status shard = WORKING"
    using settled_map [OF assms(6)] by (auto simp: status_le_def)
qed

text \<open>
  C0: A configuration changes only when no shard is being moved. If the leader had all shards in
  state \<open>WORKING\<close> when it asked for the next configuration, then every server still has when it
  executes the command, although other commands come in between; it keeps the shards that stay,
  closes those that go with their data as they are, and opens in state \<open>PULLING\<close>, with one
  goroutine each, exactly the shards that it gets.
\<close>

theorem update_between_transfers:
  assumes "skv_at g l leader" and "settled leader" and "skv_at g l kv" and "list_all op_ok l"
    and "latestAppliedRaftIndex leader \<le> latestAppliedRaftIndex kv" and "Num (currConfig kv) = Num (currConfig leader)"
    and "Type op = UPDATE_CONFIG" and "op_ok op" and "Num (op_Config op) = Num (currConfig kv) + 1"
    and "Num (currConfig kv) > 0" and "applyOp kv op = Inr (kv', r)"
  shows "settled kv \<and> currConfig kv' = op_Config op \<and> prevConfig kv' = currConfig kv
     \<and> map_of (shards kv') s =
        (case map_of (shards kv) s of
           Some shard \<Rightarrow> Some (if Shards (op_Config op) ! nat s = g then shard else shard\<lparr>Status := LEAVING\<rparr>)
         | None \<Rightarrow> if 0 \<le> s \<and> s < int NShards \<and> Shards (op_Config op) ! nat s = g
                   then Some \<lparr>Storage = None, Status = PULLING\<rparr> else None)"
proof -
  let ?c = "op_Config op"
  have len: "length (Shards ?c) = NShards"
    using assms(7,8) by (simp add: op_ok_def)
  have kv: "gid kv = g" using assms(3) by (simp add: skv_at_def)
  obtain sh where sh: "leaveShards g (Shards ?c) (fst (pullShards g 0 (Shards ?c) (shards kv) [])) = Inr sh"
    "shards kv' = sh" "currConfig kv' = ?c" "prevConfig kv' = currConfig kv"
    using assms(7,9-11) kv by (auto simp: applyOp_def applyUpdateConfig_def Let_def split: prod.splits)
  have "map_of (shards kv') s = map_option (\<lambda>shard. if Shards ?c ! nat s \<noteq> g then shard\<lparr>Status := LEAVING\<rparr> else shard)
      (map_of (fst (pullShards g 0 (Shards ?c) (shards kv) [])) s)"
    using leaveShards_map [OF sh(1), of s] sh(2) by simp
  moreover have "settled kv"
    by (rule settled_later [OF assms(1,3,4,5,6,2)])
  ultimately show ?thesis
    using sh(3,4) len by (auto simp: pullShards_map split: option.splits)
qed

theorem update_between_transfers_witness:
  "\<exists>kv' r. applyOp (ex_skv 4 ex_m2 2) (ex_update ex_c2) = Inr (kv', r)
     \<and> map_of (shards kv') 0 = Some \<lparr>Storage = Some [''2'' \<mapsto> ''a''], Status = LEAVING\<rparr>"
proof -
  obtain kv' r where kv': "applyOp (ex_skv 4 ex_m2 2) (ex_update ex_c2) = Inr (kv', r)"
    by (simp add: ex_m2_def ex_eval)
  have "settled (ex_skv 4 ex_m2 2)"
    by (simp add: settled_def ex_m2_def ex_shards_def upt_conv_Cons)
  moreover have "op_ok (ex_update ex_c2)"
    using ex_ok by (simp add: ex_l_def)
  ultimately have "map_of (shards kv') 0 = Some \<lparr>Storage = Some [''2'' \<mapsto> ''a''], Status = LEAVING\<rparr>"
    using update_between_transfers [OF ex_at(1) _ ex_at(1) ex_ok _ _ _ _ _ _ kv', of 0]
    by (simp add: ex_m2_def ex_update_def zeroOp_def ex_c1_def ex_c2_def)
  then show ?thesis using kv' by blast
qed

section \<open>Requests of clients\<close>

text \<open>
  C0: What a write does. A server that serves the shard of the key stores the value, appended to
  the old one for \<open>APPEND\<close>, when the request is new, and changes no data when it has executed a
  request of that client with this or a later number; it answers \<open>OK\<close> either way, and the data of
  all other keys and shards stay as they are.
\<close>

theorem write_once:
  assumes "placed kv" and "Type op \<in> {PUT, APPEND}"
    and "map_of (shards kv) (key2shard (Key op)) = Some shard" and "serving shard"
  shows "\<exists>kv' shard'. applyOp kv op = Inr (kv', \<lparr>wr_err = OK, wr_value = []\<rparr>)
     \<and> map_of (shards kv') = (map_of (shards kv))(key2shard (Key op) \<mapsto> shard') \<and> Status shard' = Status shard
     \<and> lookupKey shard' = (if RequestId op > latestOf (latestAppliedRequest kv) (ClientId op)
         then (lookupKey shard)(Key op \<mapsto> (if Type op = PUT then Value op
           else (case lookupKey shard (Key op) of None \<Rightarrow> [] | Some v \<Rightarrow> v) @ Value op))
         else lookupKey shard)
     \<and> latestOf (latestAppliedRequest kv') (ClientId op) =
         max (RequestId op) (latestOf (latestAppliedRequest kv) (ClientId op))"
proof -
  define new where "new = (\<lambda>shard. if Type op = PUT then Value op
      else (case lookupKey shard (Key op) of Some value \<Rightarrow> value @ Value op | None \<Rightarrow> Value op))"
  obtain m where m: "Storage shard = Some m"
    using placedD [OF assms(1,3)] assms(4) by (auto simp: shard_ok_def)
  have op: "applyOp kv op = applyWrite new kv op"
    using assms(2) by (auto simp: applyOp_def applyPut_def applyAppend_def new_def)
  show ?thesis
  proof (cases "RequestId op > latestOf (latestAppliedRequest kv) (ClientId op)")
    case True
    then show ?thesis
      using assms(3,4) m unfolding op
      by (auto simp: applyWrite_def storeKey_def update_conv' lookupKey_def new_def latestOf_update
          fun_eq_iff split: option.splits)
  next
    case False
    moreover have "(map_of (shards kv))(key2shard (Key op) \<mapsto> shard) = map_of (shards kv)"
      using assms(3) by (simp add: fun_upd_idem)
    ultimately show ?thesis
      using assms(3,4) unfolding op
      by (intro exI [of _ "kv\<lparr>latestAppliedRequest := touch (latestAppliedRequest kv) (ClientId op)\<rparr>"]
          exI [of _ shard]) (simp add: applyWrite_def max_def Let_def)
  qed
qed

theorem write_once_witness:
  "\<exists>kv'. applyOp (ex_skv 4 ex_m2 2) (ex_client APPEND ''2'' ''b'' 1) = Inr (kv', \<lparr>wr_err = OK, wr_value = []\<rparr>)
     \<and> map_option (\<lambda>shard. lookupKey shard ''2'') (map_of (shards kv') 0) = Some (Some ''ab'')"
proof -
  have op: "Type (ex_client APPEND ''2'' ''b'' 1) = APPEND" "Key (ex_client APPEND ''2'' ''b'' 1) = ''2''"
    "Value (ex_client APPEND ''2'' ''b'' 1) = ''b''" "ClientId (ex_client APPEND ''2'' ''b'' 1) = 1"
    "RequestId (ex_client APPEND ''2'' ''b'' 1) = 1"
    by (simp_all add: ex_client_def zeroOp_def)
  let ?shard = "\<lparr>Storage = Some [''2'' \<mapsto> ''a''], Status = WORKING\<rparr>"
  have m2: "map_of (shards (ex_skv 4 ex_m2 2)) 0 = Some ?shard" "latestAppliedRequest (ex_skv 4 ex_m2 2) = [1 \<mapsto> 0]"
    by (simp_all add: ex_m2_def)
  have "lookupKey ?shard = [''2'' \<mapsto> ''a'']" "serving ?shard"
    by (simp_all add: lookupKey_def fun_eq_iff serving_def)
  then show ?thesis
    using write_once [OF skv_at_placed [OF ex_at(1) ex_ok], of "ex_client APPEND ''2'' ''b'' 1" ?shard] m2
    by (auto simp: op ex_keys latestOf_def)
qed

section \<open>Restart\<close>

lemma unsettledI: "map_of (shards kv) s = Some shard \<Longrightarrow> Status shard \<noteq> WORKING \<Longrightarrow> \<not> settled kv"
  using settled_map by blast

lemma unsettled_waits: "\<not> settled kv \<Longrightarrow> fetchNextConfig call kv = Inr kv"
  by (simp add: fetchNextConfig_def)

text \<open>
  C0: A server that starts from a snapshot has the shards, configurations and latest requests of
  the server that made it. The transfers in progress are not part of it: a shard that was being
  pulled is still in state \<open>PULLING\<close>, no goroutine pulls it, and the server asks for no further
  configuration because of it.
\<close>

theorem restart_loses_transfers:
  assumes "Make n i ps = Inr rf" and "snapshot ps = serialize kv" and "map_of (shards kv) s = Some shard"
    and "Status shard = PULLING"
  shows "\<exists>kv'. StartServer n i ps mx (gid kv) cs nr = Inr kv' \<and> skv_mach kv' = skv_mach kv
     \<and> latestAppliedRaftIndex kv' = latestAppliedRaftIndex kv \<and> goroutines kv' = []
     \<and> fetchNextConfig call kv' = Inr kv'"
proof -
  obtain kv' where kv': "StartServer n i ps mx (gid kv) cs nr = Inr kv'" "skv_mach kv' = skv_mach kv"
    "latestAppliedRaftIndex kv' = latestAppliedRaftIndex kv" "goroutines kv' = []" "shards kv' = shards kv"
    using assms(1,2) by (simp add: StartServer_def ReadSnapshot_def serialize_def skv_mach_def)
  have "\<not> settled kv'"
    using unsettledI [of kv' s shard] assms(3,4) kv'(5) by simp
  then show ?thesis
    using kv' unsettled_waits [of kv' call] by blast
qed

theorem restart_loses_transfers_witness:
  "\<exists>kv'. StartServer 3 0 \<lparr>raftstate = [], snapshot = serialize (ex_skv 7 ex_n 2)\<rparr> (-1) 7 3 9 = Inr kv'
     \<and> map_of (shards kv') 0 = Some \<lparr>Storage = None, Status = PULLING\<rparr> \<and> goroutines kv' = []"
proof -
  let ?ps = "\<lparr>raftstate = [], snapshot = serialize (ex_skv 7 ex_n 2)\<rparr>"
  have n: "map_of (shards (ex_skv 7 ex_n 2)) 0 = Some \<lparr>Storage = None, Status = PULLING\<rparr>"
    by (simp add: ex_n_def ex_shards_def upt_conv_Cons)
  have "Make 3 0 ?ps = Inr (blankRaft 3 0 ?ps)"
    by (simp add: Make_empty)
  from restart_loses_transfers [OF this _ n, of "-1" 3 9 "\<lambda>r p i args. None"] obtain kv' where
    kv': "StartServer 3 0 ?ps (-1) 7 3 9 = Inr kv'" "skv_mach kv' = ex_n" "goroutines kv' = []"
    by auto
  then have "shards kv' = fst ex_n"
    by (metis skv_mach_fields(1))
  then show ?thesis
    using kv' n by auto
qed

section \<open>Where the transfer falls short\<close>

text \<open>C28: 
  C0: \<open>Leave\<close> ignores the configuration of the request. A late or repeated \<open>Leave\<close> for an earlier
  configuration is logged under the number of the current one and, when it is executed, deletes
  the shard, whatever its state: also a shard that the group got back in the meantime and serves.
\<close>

theorem stale_leave_deletes_shard:
  assumes "Leave_call kv args = Inr (kv1, Waiting i)" and "lv_ConfigVersion args < Num (currConfig kv)"
    and "map_of (shards kv) (lv_ShardId args) = Some shard" and "Status shard = WORKING"
  shows "\<exists>e op kv2. log (skv_rf kv1) = log (skv_rf kv) @ [e] \<and> le_Command e = Some op
     \<and> applyOp kv1 op = Inr (kv2, \<lparr>wr_err = OK, wr_value = []\<rparr>) \<and> map_of (shards kv2) (lv_ShardId args) = None"
proof -
  let ?op = "(zeroOp LEAVE_SHARD)\<lparr>op_ShardId := lv_ShardId args, op_ConfigVersion := Num (currConfig kv)\<rparr>"
  have kv1: "shards kv1 = shards kv" "currConfig kv1 = currConfig kv"
    "log (skv_rf kv1) = log (skv_rf kv) @ [\<lparr>le_Term = currentTerm (skv_rf kv), le_Command = Some ?op\<rparr>]"
    using assms(1) by (auto simp: Leave_call_def submit_def Start_def persist_def Let_def split: if_splits)
  moreover have "\<exists>kv2. applyOp kv1 ?op = Inr (kv2, \<lparr>wr_err = OK, wr_value = []\<rparr>) \<and> map_of (shards kv2) (lv_ShardId args) = None"
    using assms(3) kv1(1,2) by (simp add: applyOp_def applyLeaveShard_def zeroOp_def delete_conv')
  ultimately show ?thesis by auto
qed

theorem stale_leave_deletes_shard_witness:
  "\<exists>kv1. Leave_call (ex_skv 4 ex_m4 4) \<lparr>lv_ConfigVersion = 1, lv_ShardId = 5\<rparr> = Inr (kv1, Waiting 1)
     \<and> length (log (skv_rf kv1)) = length (log (skv_rf (ex_skv 4 ex_m4 4))) + 1"
proof -
  have "map_of (shards (ex_skv 4 ex_m4 4)) 5 = Some \<lparr>Storage = Some [''7'' \<mapsto> ''w''], Status = WORKING\<rparr>"
    by (simp add: ex_m4_def ex_shards_def upt_conv_Cons)
  moreover have "Num (currConfig (ex_skv 4 ex_m4 4)) = 2"
    by (simp add: ex_m4_def ex_c2_def)
  moreover obtain kv1 where kv1: "Leave_call (ex_skv 4 ex_m4 4) \<lparr>lv_ConfigVersion = 1, lv_ShardId = 5\<rparr> = Inr (kv1, Waiting 1)"
    by (simp add: Leave_call_def submit_def Start_def ex_skv_def bare_def ex_m4_def blankRaft_def persist_def
        set_res_def getLogLength_def registerWaitCh_def)
  ultimately show ?thesis
    using stale_leave_deletes_shard [OF kv1] by fastforce
qed

text \<open>
  C0: A shard that comes from nobody stays closed for ever. When the previous configuration gives the
  shard to a group that it does not list, as group 0 after the last group has left, a round of
  \<open>pullShard\<close> asks no server and changes nothing, whatever the network does, and the server follows
  no further configuration.
\<close>

theorem pull_from_nobody_stuck:
  assumes "map_of (shards kv) s = Some shard" and "Status shard = PULLING" and "Num (currConfig kv) = n"
    and "shardAt (Shards (prevConfig kv)) s = Inr g" and "map_of (Groups (prevConfig kv)) g = None"
  shows "pullShard call kv s n = Inr (kv, True) \<and> fetchNextConfig query kv = Inr kv"
proof -
  have "pullShard call kv s n = Inr (kv, True)"
    using assms by (simp add: pullShard_def transferRound_def)
  moreover have "\<not> settled kv"
    using unsettledI [OF assms(1)] assms(2) by simp
  ultimately show ?thesis
    by (simp add: unsettled_waits)
qed

text \<open>Group 4 leaves, and then group 7 joins as the only group.\<close>

definition ex_none :: Config where
  "ex_none = \<lparr>Num = 2, Shards = [0, 0, 0, 0, 0, 0, 0, 0, 0, 0], Groups = []\<rparr>"

definition ex_again :: Config where
  "ex_again = \<lparr>Num = 3, Shards = [7, 7, 7, 7, 7, 7, 7, 7, 7, 7], Groups = [(7, [''t''])]\<rparr>"

definition ex_stuck :: skv_machine where
  "ex_stuck = (ex_shards 0 PULLING None 10, ex_none, ex_again, Map.empty)"

theorem pull_from_nobody_stuck_witness:
  "skv_at 7 [ex_update ex_c1, ex_update ex_none, ex_update ex_again] (ex_skv 7 ex_stuck 3)
   \<and> pullShard (\<lambda>k srv args. Some \<lparr>pr_Storage = Some Map.empty, pr_Err = OK\<rparr>) (ex_skv 7 ex_stuck 3) 0 3 =
     Inr (ex_skv 7 ex_stuck 3, True)"
proof (rule conjI)
  show "skv_at 7 [ex_update ex_c1, ex_update ex_none, ex_update ex_again] (ex_skv 7 ex_stuck 3)"
    by (simp add: skv_at_def replay_def skv_exec_def skv_mach_def ex_stuck_def ex_none_def ex_again_def ex_eval
        numeral_3_eq_3)
  show "pullShard (\<lambda>k srv args. Some \<lparr>pr_Storage = Some Map.empty, pr_Err = OK\<rparr>) (ex_skv 7 ex_stuck 3) 0 3 =
     Inr (ex_skv 7 ex_stuck 3, True)"
    by (rule conjunct1 [OF pull_from_nobody_stuck [where g = 0 and query = "\<lambda>r p i args. None"
        and shard = "\<lparr>Storage = None, Status = PULLING\<rparr>"]])
      (simp_all add: ex_stuck_def ex_shards_def upt_conv_Cons ex_none_def ex_again_def shardAt_def)
qed

text \<open>C29: 
  C0: The latest requests do not move with a shard. A client that gets no answer to an \<open>Append\<close> from
  the old group and repeats it, with the same number, after the shard has moved has it executed
  twice: the new group appends to the data that already contain it.
\<close>

theorem append_twice_after_move:
  "\<exists>a b b' r. skv_at 4 ex_l a \<and> Pull a \<lparr>pl_ConfigVersion = 2, pl_ShardId = 0\<rparr> = \<lparr>pr_Storage = Some [''2'' \<mapsto> ''a''], pr_Err = OK\<rparr>
     \<and> skv_at 7 [ex_update ex_c1, ex_update ex_c2, (zeroOp PULL_SHARD)\<lparr>op_ShardId := 0, op_ConfigVersion := 2,
          op_Storage := pr_Storage (Pull a \<lparr>pl_ConfigVersion = 2, pl_ShardId = 0\<rparr>)\<rparr>] b
     \<and> ex_l ! 1 = ex_client APPEND ''2'' ''a'' 0 \<and> applyOp b (ex_l ! 1) = Inr (b', r) \<and> wr_err r = OK
     \<and> map_option (\<lambda>shard. lookupKey shard ''2'') (map_of (shards b') 0) = Some (Some ''aa'')"
proof -
  define m where "m = ((0, \<lparr>Storage = Some [''2'' \<mapsto> ''a''], Status = WAITING\<rparr>) # ex_shards 1 PULLING None 5,
     ex_c1, ex_c2, Map.empty :: int \<rightharpoonup> int)"
  let ?log = "[ex_update ex_c1, ex_update ex_c2, (zeroOp PULL_SHARD)\<lparr>op_ShardId := 0, op_ConfigVersion := 2,
          op_Storage := Some [''2'' \<mapsto> ''a'']\<rparr>]"
  have b: "skv_at 7 ?log (ex_skv 7 m 3)"
    by (simp add: m_def skv_at_def replay_def skv_exec_def skv_mach_def ex_eval numeral_3_eq_3)
  obtain b' r where b': "applyOp (ex_skv 7 m 3) (ex_client APPEND ''2'' ''a'' 0) = Inr (b', r)" "wr_err r = OK"
     "map_option (\<lambda>shard. lookupKey shard ''2'') (map_of (shards b') 0) = Some (Some ''aa'')"
    by (simp add: m_def ex_keys ex_eval)
  have op: "ex_l ! 1 = ex_client APPEND ''2'' ''a'' 0"
    by (simp add: ex_l_def)
  show ?thesis
    using b b' by (intro exI [of _ "ex_skv 4 ex_m3 3"] exI [of _ "ex_skv 7 m 3"] exI [of _ b'] exI [of _ r])
      (simp only: ex_at ex_pull op PullReply.simps simp_thms)
qed

end
