(* ===== verification/ShardKVClerk.thy ===== *)
theory ShardKVClerk
  imports ShardKV
begin

text \<open>
  The client of the sharded key/value service (\<open>shardkv/client.go\<close>). A round of a call asks the
  servers of the group that its configuration gives for the key, and then fetches the latest
  configuration from the controller, whose clerk is that of \<open>ShardClerk\<close>.

  The network is an argument: \<open>call r k srv args\<close> is what the \<open>k\<close>-th call of round \<open>r\<close> gets
  from the server \<open>srv\<close>, and \<open>query r\<close> answers the clerk of the controller in round \<open>r\<close>.
\<close>

record Clerk =
  sm :: ShardClerk.Clerk
  config :: Config
  clientId :: int
  requestId :: int


datatype 'r attempt = Answer 'r | OtherGroup | NextServer

fun tryGroup :: "(nat \<Rightarrow> string \<Rightarrow> 'r attempt) \<Rightarrow> nat \<Rightarrow> string list \<Rightarrow> 'r option" where
  "tryGroup attempt si [] = None"
| "tryGroup attempt si (srv # rest) =
     (case attempt si srv of
        Answer x \<Rightarrow> Some x | OtherGroup \<Rightarrow> None | NextServer \<Rightarrow> tryGroup attempt (si + 1) rest)"

partial_function (option) clerkLoop ::
  "(nat \<Rightarrow> nat \<Rightarrow> string \<Rightarrow> 'r attempt) \<Rightarrow> (nat \<Rightarrow> nat \<Rightarrow> nat \<Rightarrow> nat \<Rightarrow> QueryArgs \<Rightarrow> QueryReply option) \<Rightarrow>
   string \<Rightarrow> Clerk \<Rightarrow> nat \<Rightarrow> (Clerk \<times> 'r) res option" where
  "clerkLoop attempt query key ck r =
     (case shardAt (Shards (config ck)) (key2shard key) of
        Inl e \<Rightarrow> Some (Inl e)
      | Inr g \<Rightarrow>
          (case (case map_of (Groups (config ck)) g of
                   None \<Rightarrow> None | Some srvs \<Rightarrow> tryGroup (attempt r) 0 srvs) of
             Some x \<Rightarrow> Some (Inr (ck\<lparr>requestId := requestId ck + 1\<rparr>, x))
           | None \<Rightarrow>
               (case Clerk_Query (query r) (sm ck) (-1) of
                  Inl e \<Rightarrow> Some (Inl e)
                | Inr y \<Rightarrow> clerkLoop attempt query key (ck\<lparr>sm := fst y, config := snd y\<rparr>) (r + 1))))"


definition Clerk_PutAppend ::
  "(nat \<Rightarrow> nat \<Rightarrow> string \<Rightarrow> PutAppendArgs \<Rightarrow> Err option) \<Rightarrow>
   (nat \<Rightarrow> nat \<Rightarrow> nat \<Rightarrow> nat \<Rightarrow> QueryArgs \<Rightarrow> QueryReply option) \<Rightarrow>
   Clerk \<Rightarrow> string \<Rightarrow> string \<Rightarrow> string \<Rightarrow> (Clerk \<times> unit) res option" where
  "Clerk_PutAppend call query ck key value op =
     clerkLoop (\<lambda>r si srv.
       case call r si srv \<lparr>pa_Key = key, pa_Value = value, pa_Op = op, pa_ClientId = clientId ck,
                           pa_RequestId = requestId ck\<rparr> of
         None \<Rightarrow> NextServer
       | Some err \<Rightarrow>
           if err = OK then Answer () else if err = ErrWrongGroup then OtherGroup else NextServer) query key ck 0"

definition Clerk_Put ::
  "(nat \<Rightarrow> nat \<Rightarrow> string \<Rightarrow> PutAppendArgs \<Rightarrow> Err option) \<Rightarrow>
   (nat \<Rightarrow> nat \<Rightarrow> nat \<Rightarrow> nat \<Rightarrow> QueryArgs \<Rightarrow> QueryReply option) \<Rightarrow>
   Clerk \<Rightarrow> string \<Rightarrow> string \<Rightarrow> (Clerk \<times> unit) res option" where
  "Clerk_Put call query ck key value = Clerk_PutAppend call query ck key value ''Put''"

definition Clerk_Append ::
  "(nat \<Rightarrow> nat \<Rightarrow> string \<Rightarrow> PutAppendArgs \<Rightarrow> Err option) \<Rightarrow>
   (nat \<Rightarrow> nat \<Rightarrow> nat \<Rightarrow> nat \<Rightarrow> QueryArgs \<Rightarrow> QueryReply option) \<Rightarrow>
   Clerk \<Rightarrow> string \<Rightarrow> string \<Rightarrow> (Clerk \<times> unit) res option" where
  "Clerk_Append call query ck key value = Clerk_PutAppend call query ck key value ''Append''"

section \<open>The loop ends\<close>












end
