(* ===== verification/GoStrings.thy ===== *)
theory GoStrings
  imports Main
begin

text \<open>
  What the program uses of Go's packages \<open>unicode/utf8\<close>, \<open>strings\<close> and \<open>strconv\<close>. A string is a list of bytes, and
  \<open>decodeRune\<close> is the decoding of UTF-8. The fields of a string are its runs of runes that are not
  separators, and \<open>Itoa\<close> has an inverse.
\<close>

section \<open>Operations\<close>

definition byteAt :: "string \<Rightarrow> nat \<Rightarrow> nat" where
  "byteAt s i = (if i < length s then of_char (s ! i) else 0)"

definition between :: "nat \<Rightarrow> nat \<Rightarrow> nat \<Rightarrow> bool" where
  "between lo hi b \<longleftrightarrow> lo \<le> b \<and> b \<le> hi"

text \<open>
  The first rune of a string that is not empty, and its width. A byte that does not begin a
  correct encoding is the rune \<open>U+FFFD\<close>, of width one; a byte that is missing is none of the
  continuation bytes.
\<close>

definition decodeRune :: "string \<Rightarrow> nat \<times> nat" where
  "decodeRune s =
     (let b0 = byteAt s 0; b1 = byteAt s 1; b2 = byteAt s 2; b3 = byteAt s 3
      in if b0 < 0x80 then (b0, 1)
         else if between 0xC2 0xDF b0 \<and> between 0x80 0xBF b1
         then ((b0 - 0xC0) * 64 + (b1 - 0x80), 2)
         else if between 0xE0 0xEF b0 \<and> between (if b0 = 0xE0 then 0xA0 else 0x80) (if b0 = 0xED then 0x9F else 0xBF) b1
           \<and> between 0x80 0xBF b2
         then ((b0 - 0xE0) * 4096 + (b1 - 0x80) * 64 + (b2 - 0x80), 3)
         else if between 0xF0 0xF4 b0 \<and> between (if b0 = 0xF0 then 0x90 else 0x80) (if b0 = 0xF4 then 0x8F else 0xBF) b1
           \<and> between 0x80 0xBF b2 \<and> between 0x80 0xBF b3
         then ((b0 - 0xF0) * 262144 + (b1 - 0x80) * 4096 + (b2 - 0x80) * 64 + (b3 - 0x80), 4)
         else (0xFFFD, 1))"

lemma decodeRune_width: "snd (decodeRune s) > 0"
  by (simp add: decodeRune_def Let_def)

lemma decodeRune_shorter: "(r, w) = decodeRune s \<Longrightarrow> s \<noteq> [] \<Longrightarrow> length s - w < length s"
  using decodeRune_width [of s] by (cases "decodeRune s") auto

text \<open>\<open>strings.FieldsFunc\<close>: the field read so far is \<open>cur\<close>.\<close>

definition endField :: "string \<Rightarrow> string list" where
  "endField cur = (if cur = [] then [] else [cur])"

function fieldsLoop :: "(nat \<Rightarrow> bool) \<Rightarrow> string \<Rightarrow> string \<Rightarrow> string list" where
  "fieldsLoop f cur s =
     (if s = [] then endField cur
      else let (r, w) = decodeRune s
           in if f r then endField cur @ fieldsLoop f [] (drop w s)
              else fieldsLoop f (cur @ take w s) (drop w s))"
  by pat_completeness auto
termination
  by (relation "measure (\<lambda>(f, cur, s). length s)") (simp_all add: decodeRune_shorter)

declare fieldsLoop.simps [simp del]

definition FieldsFunc :: "string \<Rightarrow> (nat \<Rightarrow> bool) \<Rightarrow> string list" where
  "FieldsFunc s f = fieldsLoop f [] s"

text \<open>\<open>strconv.Itoa\<close> of a length, and \<open>strings.Join\<close>.\<close>

fun Itoa :: "nat \<Rightarrow> string" where
  "Itoa n = (if n < 10 then [char_of (48 + n)] else Itoa (n div 10) @ [char_of (48 + n mod 10)])"

declare Itoa.simps [simp del]

fun Join :: "string list \<Rightarrow> string \<Rightarrow> string" where
  "Join [] sep = []"
| "Join [x] sep = x"
| "Join (x # y # zs) sep = x @ sep @ Join (y # zs) sep"

section \<open>Facts\<close>

text \<open>The runes of a string, each with its bytes; the fields are the runs of runes that are not separators.\<close>

function runes :: "string \<Rightarrow> (nat \<times> string) list" where
  "runes s = (if s = [] then [] else let (r, w) = decodeRune s in (r, take w s) # runes (drop w s))"
  by pat_completeness auto
termination
  by (relation "measure length") (simp_all add: decodeRune_shorter)

declare runes.simps [simp del]

lemma fieldsLoop_concat:
  "concat (fieldsLoop f cur s) = cur @ concat (map snd (filter (\<lambda>(r, b). \<not> f r) (runes s)))"
proof (induction f cur s rule: fieldsLoop.induct)
  case (1 f cur s)
  then show ?case
    by (subst fieldsLoop.simps, subst runes.simps) (auto simp: endField_def split: prod.split)
qed

lemma fieldsLoop_nonempty: "[] \<notin> set (fieldsLoop f cur s)"
proof (induction f cur s rule: fieldsLoop.induct)
  case (1 f cur s)
  then show ?case
    by (subst fieldsLoop.simps) (auto simp: endField_def split: prod.split)
qed

lemma FieldsFunc_words:
  "[] \<notin> set (FieldsFunc s f)"
  "concat (FieldsFunc s f) = concat (map snd (filter (\<lambda>(r, b). \<not> f r) (runes s)))"
  by (simp_all add: FieldsFunc_def fieldsLoop_nonempty fieldsLoop_concat)

text \<open>Reading a decimal numeral, the inverse of \<open>Itoa\<close>.\<close>

definition Atoi :: "string \<Rightarrow> nat" where
  "Atoi ds = foldl (\<lambda>n d. 10 * n + (of_char d - 48)) 0 ds"

lemma Atoi_Itoa: "Atoi (Itoa n) = n"
proof (induction n rule: Itoa.induct)
  case (1 n)
  have "of_char (char_of (48 + k) :: char) = 48 + k" if "k < 10" for k :: nat
    using that by simp
  then show ?case
    using 1 by (subst Itoa.simps) (auto simp: Atoi_def)
qed

lemma Itoa_inject [simp]: "Itoa m = Itoa n \<longleftrightarrow> m = n"
  by (metis Atoi_Itoa)

end
