(* ===== verification/SkvHarness.thy ===== *)
theory SkvHarness
  imports ShardKV LabRpc GoStrings
begin

text \<open>
  The test harness of the sharded service (\<open>shardkv/config.go\<close>): controllers, three groups of servers and
  clerks on one network, on which servers and ends have string names.

  As in the other harnesses a running server holds the persister that \<open>saved[i]\<close> points to, the random
  end names, the network servers and the values of \<open>nrand\<close> are arguments, and a \<open>*Clerk\<close> of the service is a
  number. The calls of the clerk \<open>mck\<close> are those of \<open>ShardClerk\<close>, with the network as an argument. Time limits are
  left out.
\<close>

section \<open>The configuration\<close>

record skv_group =
  g_gid :: nat
  g_servers :: "ShardKV option list"
  g_saved :: "(Op, skv_gob) Persister option list"
  g_endnames :: "string list option list"
  g_mendnames :: "string list option list"

record skv_config =
  kc_net :: "string Network"
  kc_nctrlers :: nat
  kc_ctrlerservers :: "unit ShardCtrler option list"
  kc_mck :: "Clerk option"
  kc_ngroups :: nat
  kc_n :: nat
  kc_groups :: "skv_group option list"
  kc_clerks :: "nat \<rightharpoonup> string list"
  kc_nextClientId :: nat
  kc_maxraftstate :: int

definition ctrlername :: "nat \<Rightarrow> string" where
  "ctrlername i = ''ctrler'' @ Itoa i"

definition skv_servername :: "nat \<Rightarrow> nat \<Rightarrow> string" where
  "skv_servername g i = ''server-'' @ Itoa g @ ''-'' @ Itoa i"

text \<open>A new end that is connected and enabled: the loops of the harness, and the function \<open>make_end\<close>.\<close>

definition openEnd :: "string Network \<Rightarrow> string \<Rightarrow> string \<Rightarrow> string Network res" where
  "openEnd rn name target = and_then (MakeEnd rn name) (\<lambda>rn1. Inr (Enable (Connect rn1 name target) name True))"

definition openEnds :: "string Network \<Rightarrow> (nat \<Rightarrow> string) \<Rightarrow> (nat \<Rightarrow> string) \<Rightarrow> nat list \<Rightarrow> string Network res" where
  "openEnds rn names target js = fold_res (\<lambda>rn j. openEnd rn (names j) (target j)) rn js"

definition groupAt :: "skv_config \<Rightarrow> nat \<Rightarrow> skv_group res" where
  "groupAt cfg gi = and_then (nth_res (kc_groups cfg) gi) (\<lambda>g. case g of None \<Rightarrow> Inl NilPanic | Some gg \<Rightarrow> Inr gg)"

definition rowOf :: "string list option \<Rightarrow> string list" where
  "rowOf r = (case r of None \<Rightarrow> [] | Some names \<Rightarrow> names)"

definition groupSaved :: "skv_group \<Rightarrow> nat \<Rightarrow> (Op, skv_gob) Persister option" where
  "groupSaved gg i = (case g_servers gg ! i of Some kv \<Rightarrow> Some (persister (skv_rf kv)) | None \<Rightarrow> g_saved gg ! i)"

section \<open>Sizes\<close>

definition checkLog :: "(Op gob list \<Rightarrow> nat) \<Rightarrow> int \<Rightarrow> skv_group \<Rightarrow> nat \<Rightarrow> unit res" where
  "checkLog enc_len maxstate gg i =
     and_then (nth_res (g_saved gg) i) (\<lambda>_. case groupSaved gg i of None \<Rightarrow> Inl NilPanic
      | Some ps \<Rightarrow>
          if maxstate \<ge> 0 \<and> int (RaftStateSize enc_len ps) > 8 * maxstate then Inl Fatal
          else if maxstate < 0 \<and> length (ReadSnapshot ps) > 0 then Inl Fatal
          else Inr ())"

definition checklogs :: "(Op gob list \<Rightarrow> nat) \<Rightarrow> skv_config \<Rightarrow> unit res" where
  "checklogs enc_len cfg =
     fold_res (\<lambda>_ gi. fold_res (\<lambda>_ i. and_then (groupAt cfg gi) (\<lambda>gg. checkLog enc_len (kc_maxraftstate cfg) gg i)) ()
       [0..<kc_n cfg]) () [0..<kc_ngroups cfg]"

section \<open>Clerks\<close>

text \<open>The slice of end names has the length of a group, its indices are those of the controllers.\<close>

definition skv_makeClient :: "skv_config \<Rightarrow> nat \<Rightarrow> (nat \<Rightarrow> string) \<Rightarrow> skv_config res" where
  "skv_makeClient cfg ck names =
     and_then (fold_res (\<lambda>(rn, eps) j.
         and_then (set_res eps j (names j)) (\<lambda>eps1.
         and_then (openEnd rn (names j) (ctrlername j)) (\<lambda>rn1. Inr (rn1, eps1))))
       (kc_net cfg, replicate (kc_n cfg) []) [0..<kc_nctrlers cfg]) (\<lambda>(rn, eps).
       Inr (cfg\<lparr>kc_net := rn, kc_clerks := (kc_clerks cfg)(ck \<mapsto> eps), kc_nextClientId := kc_nextClientId cfg + 1\<rparr>))"

definition skv_deleteClient :: "skv_config \<Rightarrow> nat \<Rightarrow> skv_config" where
  "skv_deleteClient cfg ck = cfg\<lparr>kc_clerks := (kc_clerks cfg)(ck := None)\<rparr>"

definition make_end :: "skv_config \<Rightarrow> string \<Rightarrow> string \<Rightarrow> skv_config res" where
  "make_end cfg name target = and_then (openEnd (kc_net cfg) name target) (\<lambda>rn. Inr (cfg\<lparr>kc_net := rn\<rparr>))"

section \<open>Servers\<close>

definition skv_ShutdownServer :: "skv_config \<Rightarrow> nat \<Rightarrow> nat \<Rightarrow> skv_config res" where
  "skv_ShutdownServer cfg gi i =
     and_then (groupAt cfg gi) (\<lambda>gg.
     and_then (fold_res (\<lambda>rn j. and_then (nth_res (g_endnames gg) i) (\<lambda>row.
         and_then (nth_res (rowOf row) j) (\<lambda>name. Inr (Enable rn name False)))) (kc_net cfg) [0..<length (g_servers gg)]) (\<lambda>rn1.
     and_then (nth_res (g_mendnames gg) i) (\<lambda>mrow.
       let rn2 = foldl (\<lambda>rn name. Enable rn name False) rn1 (rowOf mrow);
           rn3 = DeleteServer rn2 (skv_servername (g_gid gg) i)
       in and_then (set_res (g_saved gg) i (map_option Copy (groupSaved gg i))) (\<lambda>sv.
          and_then (set_res (g_servers gg) i None) (\<lambda>srvs.
            Inr (cfg\<lparr>kc_net := rn3, kc_groups := (kc_groups cfg)[gi := Some (gg\<lparr>g_saved := sv, g_servers := srvs\<rparr>)]\<rparr>))))))"

definition skv_ShutdownGroup :: "skv_config \<Rightarrow> nat \<Rightarrow> skv_config res" where
  "skv_ShutdownGroup cfg gi = fold_res (\<lambda>c i. skv_ShutdownServer c gi i) cfg [0..<kc_n cfg]"

definition skv_StartServer ::
  "skv_config \<Rightarrow> nat \<Rightarrow> nat \<Rightarrow> (nat \<Rightarrow> string) \<Rightarrow> (nat \<Rightarrow> string) \<Rightarrow> pointer \<Rightarrow> int \<Rightarrow> skv_config res" where
  "skv_StartServer cfg gi i names mnames srv nrand =
     and_then (groupAt cfg gi) (\<lambda>gg.
     and_then (set_res (g_endnames gg) i (Some (map names [0..<kc_n cfg]))) (\<lambda>eps.
     and_then (openEnds (kc_net cfg) names (skv_servername (g_gid gg)) [0..<kc_n cfg]) (\<lambda>rn1.
     and_then (set_res (g_mendnames gg) i (Some (map mnames [0..<kc_nctrlers cfg]))) (\<lambda>meps.
     and_then (openEnds rn1 mnames ctrlername [0..<kc_nctrlers cfg]) (\<lambda>rn2.
       let ps = (case groupSaved gg i of Some old \<Rightarrow> Copy old | None \<Rightarrow> MakePersister)
       in and_then (set_res (g_saved gg) i (Some ps)) (\<lambda>sv.
          and_then (ShardKV.StartServer (kc_n cfg) i ps (kc_maxraftstate cfg) (int (g_gid gg)) (kc_nctrlers cfg) nrand) (\<lambda>kv.
          and_then (set_res (g_servers gg) i (Some kv)) (\<lambda>srvs.
            Inr (cfg\<lparr>kc_net := AddServer rn2 (skv_servername (g_gid gg) i) srv,
                     kc_groups := (kc_groups cfg)[gi := Some (gg\<lparr>g_endnames := eps, g_mendnames := meps, g_saved := sv, g_servers := srvs\<rparr>)]\<rparr>)))))))))"

definition skv_StartGroup ::
  "skv_config \<Rightarrow> nat \<Rightarrow> (nat \<Rightarrow> nat \<Rightarrow> string) \<Rightarrow> (nat \<Rightarrow> nat \<Rightarrow> string) \<Rightarrow> (nat \<Rightarrow> pointer) \<Rightarrow> (nat \<Rightarrow> int) \<Rightarrow> skv_config res" where
  "skv_StartGroup cfg gi names mnames srv nrand =
     fold_res (\<lambda>c i. skv_StartServer c gi i (names i) (mnames i) (srv i) (nrand i)) cfg [0..<kc_n cfg]"

definition StartCtrlerserver :: "skv_config \<Rightarrow> nat \<Rightarrow> (nat \<Rightarrow> string) \<Rightarrow> pointer \<Rightarrow> skv_config res" where
  "StartCtrlerserver cfg i names srv =
     and_then (openEnds (kc_net cfg) names ctrlername [0..<kc_nctrlers cfg]) (\<lambda>rn.
     and_then (ShardCtrler.StartServer (kc_nctrlers cfg) i MakePersister) (\<lambda>sc.
     and_then (set_res (kc_ctrlerservers cfg) i (Some sc)) (\<lambda>srvs.
       Inr (cfg\<lparr>kc_ctrlerservers := srvs, kc_net := AddServer rn (ctrlername i) srv\<rparr>))))"

definition shardclerk :: "skv_config \<Rightarrow> (nat \<Rightarrow> string) \<Rightarrow> int \<Rightarrow> (skv_config \<times> Clerk) res" where
  "shardclerk cfg names nrand =
     and_then (openEnds (kc_net cfg) names ctrlername [0..<kc_nctrlers cfg]) (\<lambda>rn.
       Inr (cfg\<lparr>kc_net := rn\<rparr>, MakeClerk (kc_nctrlers cfg) nrand))"

section \<open>Joining and leaving\<close>

definition joinMap :: "skv_config \<Rightarrow> nat list \<Rightarrow> (int \<times> string list) list res" where
  "joinMap cfg gis =
     fold_res (\<lambda>m g. and_then (groupAt cfg g) (\<lambda>gg.
       Inr (AList.update (int (g_gid gg)) (map (skv_servername (g_gid gg)) [0..<kc_n cfg]) m))) [] gis"

definition joinm ::
  "(nat \<Rightarrow> nat \<Rightarrow> nat \<Rightarrow> JoinArgs \<Rightarrow> ShardCtrler.Err option) \<Rightarrow> skv_config \<Rightarrow> nat list \<Rightarrow> skv_config res option" where
  "joinm call cfg gis =
     (case and_then (joinMap cfg gis) (\<lambda>m. case kc_mck cfg of None \<Rightarrow> Inl NilPanic | Some ck \<Rightarrow> Inr (m, ck)) of
        Inl e \<Rightarrow> Some (Inl e)
      | Inr (m, ck) \<Rightarrow> map_option (\<lambda>r. and_then r (\<lambda>(ck1, _). Inr (cfg\<lparr>kc_mck := Some ck1\<rparr>))) (Clerk_Join call ck m))"

definition leavem ::
  "(nat \<Rightarrow> nat \<Rightarrow> nat \<Rightarrow> ShardCtrler.LeaveArgs \<Rightarrow> ShardCtrler.Err option) \<Rightarrow> skv_config \<Rightarrow> nat list \<Rightarrow> skv_config res option" where
  "leavem call cfg gis =
     (case and_then (fold_res (\<lambda>gids g. and_then (groupAt cfg g) (\<lambda>gg. Inr (gids @ [int (g_gid gg)]))) [] gis)
        (\<lambda>gids. case kc_mck cfg of None \<Rightarrow> Inl NilPanic | Some ck \<Rightarrow> Inr (gids, ck)) of
        Inl e \<Rightarrow> Some (Inl e)
      | Inr (gids, ck) \<Rightarrow> map_option (\<lambda>r. and_then r (\<lambda>(ck1, _). Inr (cfg\<lparr>kc_mck := Some ck1\<rparr>))) (Clerk_Leave call ck gids))"

section \<open>Setting up\<close>

text \<open>The random names of a run: those of the controllers, of \<open>mck\<close>, and of the servers of the groups.\<close>

record skv_names =
  n_ctrler :: "nat \<Rightarrow> nat \<Rightarrow> string"
  n_mck :: "nat \<Rightarrow> string"
  n_peer :: "nat \<Rightarrow> nat \<Rightarrow> nat \<Rightarrow> string"
  n_mend :: "nat \<Rightarrow> nat \<Rightarrow> nat \<Rightarrow> string"

definition empty_skv_config :: "int \<Rightarrow> skv_config" where
  "empty_skv_config maxstate =
     \<lparr>kc_net = MakeNetwork, kc_nctrlers = 3, kc_ctrlerservers = replicate 3 None, kc_mck = None, kc_ngroups = 0, kc_n = 0,
      kc_groups = [], kc_clerks = Map.empty, kc_nextClientId = 0, kc_maxraftstate = maxstate\<rparr>"

definition newGroup :: "skv_config \<Rightarrow> nat \<Rightarrow> skv_group" where
  "newGroup cfg gi =
     \<lparr>g_gid = 100 + gi, g_servers = replicate (kc_n cfg) None, g_saved = replicate (kc_n cfg) None,
      g_endnames = replicate (kc_n cfg) None, g_mendnames = replicate (kc_nctrlers cfg) None\<rparr>"

definition setupGroup ::
  "skv_names \<Rightarrow> (nat \<Rightarrow> nat \<Rightarrow> pointer) \<Rightarrow> (nat \<Rightarrow> nat \<Rightarrow> int) \<Rightarrow> skv_config \<Rightarrow> nat \<Rightarrow> skv_config res" where
  "setupGroup nms srv nrand cfg gi =
     and_then (set_res (kc_groups cfg) gi (Some (newGroup cfg gi))) (\<lambda>gs.
       skv_StartGroup (cfg\<lparr>kc_groups := gs\<rparr>) gi (n_peer nms gi) (n_mend nms gi) (srv gi) (nrand gi))"

definition skv_make_config ::
  "nat \<Rightarrow> bool \<Rightarrow> int \<Rightarrow> skv_names \<Rightarrow> (nat \<Rightarrow> pointer) \<Rightarrow> (nat \<Rightarrow> nat \<Rightarrow> pointer) \<Rightarrow> int \<Rightarrow> (nat \<Rightarrow> nat \<Rightarrow> int) \<Rightarrow> skv_config res" where
  "skv_make_config n unreliable maxstate nms csrv srv mrand nrand =
     and_then (fold_res (\<lambda>c i. StartCtrlerserver c i (n_ctrler nms i) (csrv i)) (empty_skv_config maxstate) [0..<3]) (\<lambda>cfg1.
     and_then (shardclerk cfg1 (n_mck nms) mrand) (\<lambda>(cfg2, mck).
       let cfg3 = cfg2\<lparr>kc_mck := Some mck, kc_ngroups := 3, kc_groups := replicate 3 None, kc_n := n\<rparr>
       in and_then (fold_res (setupGroup nms srv nrand) cfg3 [0..<3]) (\<lambda>cfg4.
            Inr (cfg4\<lparr>kc_clerks := Map.empty, kc_nextClientId := n + 1000, kc_net := Reliable (kc_net cfg4) (\<not> unreliable)\<rparr>))))"

definition skv_cleanup :: "skv_config \<Rightarrow> skv_config res" where
  "skv_cleanup cfg =
     and_then (fold_res skv_ShutdownGroup cfg [0..<kc_ngroups cfg]) (\<lambda>cfg1.
     and_then (if None \<in> set (kc_ctrlerservers cfg1) then Inl NilPanic else Cleanup (kc_net cfg1)) (\<lambda>rn.
       Inr (cfg1\<lparr>kc_ctrlerservers := map (map_option sc_Kill) (kc_ctrlerservers cfg1), kc_net := rn\<rparr>)))"

end
