(* ===== verification/SkvHarnessSpec.thy ===== *)
theory SkvHarnessSpec
  imports SkvHarness
begin

text \<open>
  What the harness of the sharded service guarantees: server names are unambiguous, the names that a
  joining group gives to the controller lead to its running servers, and for which sizes it works.
\<close>

section \<open>Names\<close>

lemma of_char_Char_dash: "of_char CHR ''-'' = (45 :: nat)"
  by simp

lemma Itoa_no_dash: "CHR ''-'' \<notin> set (Itoa n)"
proof (induction n rule: Itoa.induct)
  case (1 n)
  have nd: "CHR ''-'' \<noteq> char_of (48 + k)" if "k < 10" for k :: nat
  proof
    assume "CHR ''-'' = char_of (48 + k)"
    then have "of_char (char_of (48 + k) :: char) = (45 :: nat)" by (metis of_char_Char_dash)
    then show False using that by simp
  qed
  then show ?case using 1 nd [of n] nd [of "n mod 10"] by (subst Itoa.simps) simp
qed

lemma dashed_inject: "Itoa m @ CHR ''-'' # xs = Itoa n @ CHR ''-'' # ys \<longleftrightarrow> m = n \<and> xs = ys"
proof
  assume e: "Itoa m @ CHR ''-'' # xs = Itoa n @ CHR ''-'' # ys"
  have t: "takeWhile (\<lambda>c. c \<noteq> CHR ''-'') (Itoa k @ CHR ''-'' # zs) = Itoa k" for k zs
  proof -
    have "\<forall>c \<in> set (Itoa k). c \<noteq> CHR ''-''" using Itoa_no_dash by metis
    then show ?thesis by (simp add: takeWhile_append2)
  qed
  have "Itoa m = Itoa n" using e t [of m] t [of n] by metis
  then show "m = n \<and> xs = ys" using e by simp
qed simp

lemma servername_inject [simp]: "skv_servername g i = skv_servername g' i' \<longleftrightarrow> g = g' \<and> i = i'"
  by (simp add: skv_servername_def dashed_inject)

lemma ctrlername_not_server [simp]: "ctrlername i \<noteq> skv_servername g j" "skv_servername g j \<noteq> ctrlername i"
  by (simp_all add: ctrlername_def skv_servername_def)

section \<open>The invariant\<close>

definition on_net :: "skv_config \<Rightarrow> nat \<Rightarrow> nat \<Rightarrow> bool" where
  "on_net cfg gi i \<longleftrightarrow> serverOf (kc_net cfg) (skv_servername (100 + gi) i) \<noteq> None"

definition group_ok :: "nat \<Rightarrow> skv_config \<Rightarrow> nat \<Rightarrow> bool" where
  "group_ok n cfg gi \<longleftrightarrow> (case kc_groups cfg ! gi of
       None \<Rightarrow> \<forall>i. \<not> on_net cfg gi i
     | Some gg \<Rightarrow> g_gid gg = 100 + gi \<and> length (g_servers gg) = n \<and> length (g_mendnames gg) = 3
         \<and> (\<forall>i<n. on_net cfg gi i \<longleftrightarrow> g_servers gg ! i \<noteq> None))"

definition skv_ok :: "nat \<Rightarrow> skv_config \<Rightarrow> bool" where
  "skv_ok n cfg \<longleftrightarrow> kc_n cfg = n \<and> kc_nctrlers cfg = 3 \<and> length (kc_groups cfg) = 3 \<and> (\<forall>gi<3. group_ok n cfg gi)"

text \<open>Changes that leave the groups and the servers of the network alone.\<close>

definition same_groups :: "skv_config \<Rightarrow> skv_config \<Rightarrow> bool" where
  "same_groups cfg cfg' \<longleftrightarrow> kc_n cfg' = kc_n cfg \<and> kc_nctrlers cfg' = kc_nctrlers cfg \<and> kc_groups cfg' = kc_groups cfg
     \<and> (\<forall>gi i. on_net cfg' gi i \<longleftrightarrow> on_net cfg gi i)"

lemma same_groups_ok: "same_groups cfg cfg' \<Longrightarrow> skv_ok n cfg \<Longrightarrow> skv_ok n cfg'"
  by (simp add: skv_ok_def same_groups_def group_ok_def cong: option.case_cong)

lemma openEnd_servers: "openEnd rn name target = Inr rn' \<Longrightarrow> Network.servers rn' = Network.servers rn"
  by (auto simp: openEnd_def MakeEnd_def Connect_def Enable_def split: if_splits)

lemma fold_keeps:
  assumes "fold_res f a xs = Inr b" and "\<And>a x b. f a x = Inr b \<Longrightarrow> h b = h a"
  shows "h b = h a"
  using assms(1) by (induction xs arbitrary: a) (auto dest: assms(2))

lemma openEnds_servers: "openEnds rn names target js = Inr rn' \<Longrightarrow> Network.servers rn' = Network.servers rn"
  unfolding openEnds_def by (rule fold_keeps) (auto dest: openEnd_servers)

lemma Enable_servers [simp]: "Network.servers (Enable rn e b) = Network.servers rn"
  by (simp add: Enable_def)

lemma foldl_Enable_servers [simp]: "Network.servers (foldl (\<lambda>rn name. Enable rn name b) rn ns) = Network.servers rn"
  by (induction ns arbitrary: rn) simp_all

lemma groupAtD: "groupAt cfg gi = Inr gg \<Longrightarrow> gi < length (kc_groups cfg) \<and> kc_groups cfg ! gi = Some gg"
  by (cases "kc_groups cfg ! gi") (auto simp: groupAt_def nth_res_def split: if_splits)

lemma ShutdownServer_effect:
  assumes "skv_ShutdownServer cfg gi i = Inr cfg'"
  obtains gg gg' where "gi < length (kc_groups cfg)" and "kc_groups cfg ! gi = Some gg" and "i < length (g_servers gg)"
    and "kc_groups cfg' = (kc_groups cfg)[gi := Some gg']" and "g_gid gg' = g_gid gg" and "g_servers gg' = (g_servers gg)[i := None]"
    and "g_mendnames gg' = g_mendnames gg" and "kc_n cfg' = kc_n cfg" and "kc_nctrlers cfg' = kc_nctrlers cfg"
    and "Network.servers (kc_net cfg') = (Network.servers (kc_net cfg))(skv_servername (g_gid gg) i \<mapsto> None)"
proof -
  obtain gg rn1 mrow sv srvs where g: "groupAt cfg gi = Inr gg"
    and f: "fold_res (\<lambda>rn j. and_then (nth_res (g_endnames gg) i) (\<lambda>row.
         and_then (nth_res (rowOf row) j) (\<lambda>name. Inr (Enable rn name False)))) (kc_net cfg) [0..<length (g_servers gg)] = Inr rn1"
    and s: "set_res (g_servers gg) i None = Inr srvs"
    and cfg': "cfg' = cfg\<lparr>kc_net := DeleteServer (foldl (\<lambda>rn name. Enable rn name False) rn1 (rowOf mrow)) (skv_servername (g_gid gg) i),
      kc_groups := (kc_groups cfg)[gi := Some (gg\<lparr>g_saved := sv, g_servers := srvs\<rparr>)]\<rparr>"
    using assms by (auto simp: skv_ShutdownServer_def Let_def)
  have "Network.servers rn1 = Network.servers (kc_net cfg)" by (rule fold_keeps [OF f]) auto
  moreover have "gi < length (kc_groups cfg)" "kc_groups cfg ! gi = Some gg"
    using groupAtD [OF g] by simp_all
  moreover note set_res_InrD [OF s]
  ultimately show ?thesis
    by (intro that [of gg "gg\<lparr>g_saved := sv, g_servers := srvs\<rparr>"]) (simp_all add: cfg' DeleteServer_def)
qed

lemma StartServer_effect:
  assumes "skv_StartServer cfg gi i names mnames srv nrand = Inr cfg'"
  obtains gg gg' kv where "gi < length (kc_groups cfg)" and "kc_groups cfg ! gi = Some gg" and "i < length (g_servers gg)"
    and "i < length (g_mendnames gg)" and "kc_groups cfg' = (kc_groups cfg)[gi := Some gg']" and "g_gid gg' = g_gid gg"
    and "g_servers gg' = (g_servers gg)[i := Some kv]" and "length (g_mendnames gg') = length (g_mendnames gg)"
    and "kc_n cfg' = kc_n cfg" and "kc_nctrlers cfg' = kc_nctrlers cfg"
    and "Network.servers (kc_net cfg') = (Network.servers (kc_net cfg))(skv_servername (g_gid gg) i \<mapsto> Some srv)"
proof -
  obtain gg eps rn1 meps rn2 sv kv srvs where g: "groupAt cfg gi = Inr gg"
    and o: "openEnds (kc_net cfg) names (skv_servername (g_gid gg)) [0..<kc_n cfg] = Inr rn1"
      "openEnds rn1 mnames ctrlername [0..<kc_nctrlers cfg] = Inr rn2"
    and s: "set_res (g_mendnames gg) i (Some (map mnames [0..<kc_nctrlers cfg])) = Inr meps" "set_res (g_servers gg) i (Some kv) = Inr srvs"
    and cfg': "cfg' = cfg\<lparr>kc_net := AddServer rn2 (skv_servername (g_gid gg) i) srv,
      kc_groups := (kc_groups cfg)[gi := Some (gg\<lparr>g_endnames := eps, g_mendnames := meps, g_saved := sv, g_servers := srvs\<rparr>)]\<rparr>"
    using assms by (auto simp: skv_StartServer_def Let_def)
  have "Network.servers rn2 = Network.servers (kc_net cfg)" using openEnds_servers o by metis
  moreover have "gi < length (kc_groups cfg)" "kc_groups cfg ! gi = Some gg"
    using groupAtD [OF g] by simp_all
  moreover note set_res_InrD [OF s(1)] set_res_InrD [OF s(2)]
  ultimately show ?thesis
    by (intro that [of gg "gg\<lparr>g_endnames := eps, g_mendnames := meps, g_saved := sv, g_servers := srvs\<rparr>" kv])
      (simp_all add: cfg' AddServer_def)
qed

lemma group_changed:
  assumes "skv_ok n cfg" and "kc_groups cfg ! gi = Some gg" and "gi < 3" and "i < n"
    and "kc_groups cfg' = (kc_groups cfg)[gi := Some gg']" and "g_gid gg' = g_gid gg" and "g_servers gg' = (g_servers gg)[i := sv]"
    and "length (g_mendnames gg') = length (g_mendnames gg)" and "kc_n cfg' = kc_n cfg" and "kc_nctrlers cfg' = kc_nctrlers cfg"
    and "Network.servers (kc_net cfg') = (Network.servers (kc_net cfg))(skv_servername (g_gid gg) i \<mapsto> p)" and "p = None \<longleftrightarrow> sv = None"
  shows "skv_ok n cfg'"
proof -
  have gg: "g_gid gg = 100 + gi" "length (g_servers gg) = n" "length (g_mendnames gg) = 3" "\<forall>k<n. on_net cfg gi k \<longleftrightarrow> g_servers gg ! k \<noteq> None"
    and len: "length (kc_groups cfg) = 3"
    using assms(1-3) by (auto simp: skv_ok_def group_ok_def)
  have net: "on_net cfg' g k \<longleftrightarrow> (if g = gi \<and> k = i then sv \<noteq> None else on_net cfg g k)" for g k
    using assms(11,12) gg(1) by (auto simp: on_net_def serverOf_def)
  have "group_ok n cfg' g" if "g < 3" for g
  proof (cases "g = gi")
    case True
    then show ?thesis
      using gg len assms(3-8) net by (auto simp: group_ok_def nth_list_update)
  next
    case False
    then show ?thesis
      using that assms(1,5) net by (simp add: skv_ok_def group_ok_def cong: option.case_cong)
  qed
  then show ?thesis using assms(1,5,9,10) by (simp add: skv_ok_def)
qed

lemma ShutdownServer_ok:
  assumes "skv_ShutdownServer cfg gi i = Inr cfg'" and ok: "skv_ok n cfg"
  shows "skv_ok n cfg'"
  using assms(1)
proof (rule ShutdownServer_effect)
  fix gg gg'
  assume g: "gi < length (kc_groups cfg)" "kc_groups cfg ! gi = Some gg" "i < length (g_servers gg)"
    and r: "kc_groups cfg' = (kc_groups cfg)[gi := Some gg']" "g_gid gg' = g_gid gg" "g_servers gg' = (g_servers gg)[i := None]"
    and m: "g_mendnames gg' = g_mendnames gg" and k: "kc_n cfg' = kc_n cfg" "kc_nctrlers cfg' = kc_nctrlers cfg"
    and net: "Network.servers (kc_net cfg') = (Network.servers (kc_net cfg))(skv_servername (g_gid gg) i \<mapsto> None)"
  have gi: "gi < 3" using g(1) ok by (simp add: skv_ok_def)
  then have i: "i < n" using g ok by (auto simp: skv_ok_def group_ok_def)
  show ?thesis by (rule group_changed [OF ok g(2) gi i r _ k net]) (simp_all add: m)
qed

lemma StartServer_ok:
  assumes "skv_StartServer cfg gi i names mnames srv nrand = Inr cfg'" and ok: "skv_ok n cfg"
  shows "skv_ok n cfg' \<and> i < 3 \<and> (\<forall>g. kc_groups cfg' ! g = None \<longleftrightarrow> kc_groups cfg ! g = None)"
  using assms(1)
proof (rule StartServer_effect)
  fix gg gg' kv
  assume g: "gi < length (kc_groups cfg)" "kc_groups cfg ! gi = Some gg" "i < length (g_servers gg)" "i < length (g_mendnames gg)"
    and r: "kc_groups cfg' = (kc_groups cfg)[gi := Some gg']" "g_gid gg' = g_gid gg" "g_servers gg' = (g_servers gg)[i := Some kv]"
      "length (g_mendnames gg') = length (g_mendnames gg)" and k: "kc_n cfg' = kc_n cfg" "kc_nctrlers cfg' = kc_nctrlers cfg"
    and net: "Network.servers (kc_net cfg') = (Network.servers (kc_net cfg))(skv_servername (g_gid gg) i \<mapsto> Some srv)"
  have gi: "gi < 3" using g(1) ok by (simp add: skv_ok_def)
  then have i: "i < n" "i < 3" using g ok by (auto simp: skv_ok_def group_ok_def)
  have "skv_ok n cfg'" by (rule group_changed [OF ok g(2) gi i(1) r k net]) simp
  moreover have "kc_groups cfg' ! k = None \<longleftrightarrow> kc_groups cfg ! k = None" for k
    using g(1,2) r(1) by (cases "k = gi") simp_all
  ultimately show ?thesis using i by simp
qed

text \<open>Every start of a group that returns was of a server that has a place in the slice of the controller ends.\<close>

lemma StartGroup_ok:
  assumes "skv_StartGroup cfg gi names mnames srv nrand = Inr cfg'" and "skv_ok n cfg"
  shows "skv_ok n cfg' \<and> n \<le> 3 \<and> (\<forall>g. kc_groups cfg' ! g = None \<longleftrightarrow> kc_groups cfg ! g = None)"
proof -
  have "skv_ok n cfg' \<and> (\<forall>i \<in> set is. i < 3) \<and> (\<forall>g. kc_groups cfg' ! g = None \<longleftrightarrow> kc_groups cfg ! g = None)"
    if "fold_res (\<lambda>c i. skv_StartServer c gi i (names i) (mnames i) (srv i) (nrand i)) cfg is = Inr cfg'" "skv_ok n cfg" for "is" cfg
    using that
  proof (induction "is" arbitrary: cfg)
    case (Cons i "is")
    then obtain c1 where s: "skv_StartServer cfg gi i (names i) (mnames i) (srv i) (nrand i) = Inr c1"
      and f: "fold_res (\<lambda>c i. skv_StartServer c gi i (names i) (mnames i) (srv i) (nrand i)) c1 is = Inr cfg'" by auto
    note ok1 = StartServer_ok [OF s Cons.prems(2)]
    then show ?case using Cons.IH [OF f] by auto
  qed simp
  then have r: "skv_ok n cfg' \<and> (\<forall>i<n. i < 3) \<and> (\<forall>g. kc_groups cfg' ! g = None \<longleftrightarrow> kc_groups cfg ! g = None)"
    using assms by (auto simp: skv_StartGroup_def skv_ok_def)
  then have "\<not> 3 < n" by auto
  then show ?thesis using r by auto
qed

lemma setupGroup_ok:
  assumes "setupGroup nms srv nrand cfg gi = Inr cfg'" and ok: "skv_ok n cfg" and "kc_groups cfg ! gi = None"
  shows "skv_ok n cfg' \<and> n \<le> 3 \<and> (\<forall>g. kc_groups cfg' ! g = None \<longleftrightarrow> g \<noteq> gi \<and> kc_groups cfg ! g = None)"
proof -
  obtain gs where s: "set_res (kc_groups cfg) gi (Some (newGroup cfg gi)) = Inr gs"
    and st: "skv_StartGroup (cfg\<lparr>kc_groups := gs\<rparr>) gi (n_peer nms gi) (n_mend nms gi) (srv gi) (nrand gi) = Inr cfg'"
    using assms(1) by (auto simp: setupGroup_def)
  have gi: "gi < length (kc_groups cfg)" "gs = (kc_groups cfg)[gi := Some (newGroup cfg gi)]" using set_res_InrD [OF s] by simp_all
  have "skv_ok n (cfg\<lparr>kc_groups := gs\<rparr>)"
    using ok assms(3) gi by (auto simp: skv_ok_def group_ok_def on_net_def nth_list_update newGroup_def split: option.splits)
  moreover have "gs ! g = None \<longleftrightarrow> g \<noteq> gi \<and> kc_groups cfg ! g = None" for g
    using gi by (cases "g = gi") simp_all
  ultimately show ?thesis using StartGroup_ok [OF st] by simp
qed

lemma StartCtrlerserver_frame:
  assumes "StartCtrlerserver cfg i names srv = Inr cfg'"
  shows "same_groups cfg cfg'"
proof -
  obtain rn srvs where o: "openEnds (kc_net cfg) names ctrlername [0..<kc_nctrlers cfg] = Inr rn"
    and cfg': "cfg' = cfg\<lparr>kc_ctrlerservers := srvs, kc_net := AddServer rn (ctrlername i) srv\<rparr>"
    using assms by (auto simp: StartCtrlerserver_def)
  show ?thesis
    using openEnds_servers [OF o] by (simp add: same_groups_def cfg' on_net_def serverOf_def AddServer_def)
qed

lemma same_groups_trans: "same_groups a b \<Longrightarrow> same_groups b c \<Longrightarrow> same_groups a c"
  by (simp add: same_groups_def)

lemma controllers_frame:
  assumes "fold_res (\<lambda>c i. StartCtrlerserver c i (names i) (csrv i)) cfg is = Inr cfg'"
  shows "same_groups cfg cfg'"
  using assms
proof (induction "is" arbitrary: cfg)
  case (Cons i "is")
  then obtain c1 where "StartCtrlerserver cfg i (names i) (csrv i) = Inr c1"
    and "fold_res (\<lambda>c i. StartCtrlerserver c i (names i) (csrv i)) c1 is = Inr cfg'" by auto
  then show ?case using Cons.IH same_groups_trans StartCtrlerserver_frame by blast
qed (simp add: same_groups_def)

lemma skv_make_config_ok:
  assumes "skv_make_config n unreliable maxstate nms csrv srv mrand nrand = Inr cfg"
  shows "skv_ok n cfg \<and> n \<le> 3 \<and> (\<forall>g<3. kc_groups cfg ! g \<noteq> None)"
proof -
  obtain c1 rn c4 ck where f: "fold_res (\<lambda>c i. StartCtrlerserver c i (n_ctrler nms i) (csrv i)) (empty_skv_config maxstate) [0..<3] = Inr c1"
    and o: "openEnds (kc_net c1) (n_mck nms) ctrlername [0..<kc_nctrlers c1] = Inr rn"
    and s: "fold_res (setupGroup nms srv nrand) (c1\<lparr>kc_net := rn, kc_mck := Some ck, kc_ngroups := 3,
        kc_groups := replicate 3 None, kc_n := n\<rparr>) [0..<3] = Inr c4" (is "fold_res _ ?c3 _ = _")
    and cfg: "cfg = c4\<lparr>kc_clerks := Map.empty, kc_nextClientId := n + 1000, kc_net := Reliable (kc_net c4) (\<not> unreliable)\<rparr>"
    using assms by (auto simp: skv_make_config_def shardclerk_def Let_def)
  have none: "\<not> on_net c1 gi i" "kc_nctrlers c1 = 3" for gi i
    using controllers_frame [OF f]
    by (simp_all add: same_groups_def empty_skv_config_def on_net_def serverOf_def MakeNetwork_def)
  have "skv_ok n ?c3"
    using none openEnds_servers [OF o] by (auto simp: skv_ok_def group_ok_def on_net_def serverOf_def)
  moreover have "kc_groups ?c3 ! g = None" if "g < 3" for g using that by simp
  moreover obtain a b where st: "setupGroup nms srv nrand ?c3 0 = Inr a" "setupGroup nms srv nrand a 1 = Inr b" "setupGroup nms srv nrand b 2 = Inr c4"
    using s by (auto simp: upt_rec numeral_2_eq_2 numeral_3_eq_3)
  ultimately have a: "skv_ok n a" "n \<le> 3" "\<forall>g. kc_groups a ! g = None \<longleftrightarrow> g \<noteq> 0 \<and> kc_groups ?c3 ! g = None"
    using setupGroup_ok [OF st(1)] by simp_all
  then have b: "skv_ok n b" "\<forall>g. kc_groups b ! g = None \<longleftrightarrow> g \<noteq> 1 \<and> kc_groups a ! g = None"
    using setupGroup_ok [OF st(2)] by simp_all
  then have c: "skv_ok n c4" "\<forall>g. kc_groups c4 ! g = None \<longleftrightarrow> g \<noteq> 2 \<and> kc_groups b ! g = None"
    using setupGroup_ok [OF st(3)] a by simp_all
  have "same_groups c4 cfg" by (simp add: same_groups_def cfg on_net_def serverOf_def Reliable_def)
  moreover have "kc_groups c4 ! g \<noteq> None" if "g < 3" for g
    using that a b c by (auto simp: less_Suc_eq numeral_3_eq_3 numeral_2_eq_2)
  ultimately show ?thesis using same_groups_ok [of c4 cfg n] c(1) a(2) by (auto simp: same_groups_def)
qed

section \<open>Runs of the harness\<close>

text \<open>What a test does; in between the servers change and open ends to servers of other groups.\<close>

inductive skv_step :: "skv_config \<Rightarrow> skv_config \<Rightarrow> bool" where
  k_client: "skv_makeClient cfg ck names = Inr cfg' \<Longrightarrow> skv_step cfg cfg'"
| k_delete: "skv_step cfg (skv_deleteClient cfg ck)"
| k_end: "make_end cfg name target = Inr cfg' \<Longrightarrow> skv_step cfg cfg'"
| k_shutdown: "skv_ShutdownServer cfg gi i = Inr cfg' \<Longrightarrow> skv_step cfg cfg'"
| k_start: "skv_StartServer cfg gi i names mnames srv nrand = Inr cfg' \<Longrightarrow> skv_step cfg cfg'"
| k_join: "joinm call cfg gis = Some (Inr cfg') \<Longrightarrow> skv_step cfg cfg'"
| k_leave: "leavem callL cfg gis = Some (Inr cfg') \<Longrightarrow> skv_step cfg cfg'"
| k_server: "gi < length (kc_groups cfg) \<Longrightarrow> kc_groups cfg ! gi = Some gg \<Longrightarrow> g_servers gg ! i = Some kv \<Longrightarrow>
    skv_step cfg (cfg\<lparr>kc_groups := (kc_groups cfg)[gi := Some (gg\<lparr>g_servers := (g_servers gg)[i := Some kv']\<rparr>)]\<rparr>)"

lemma makeClient_frame:
  assumes "skv_makeClient cfg ck names = Inr cfg'"
  shows "same_groups cfg cfg'" and "kc_nctrlers cfg \<le> kc_n cfg"
proof -
  let ?f = "\<lambda>(rn, eps) j. and_then (set_res eps j (names j)) (\<lambda>eps1.
         and_then (openEnd rn (names j) (ctrlername j)) (\<lambda>rn1. Inr (rn1, eps1)))"
  obtain rn eps where f: "fold_res ?f (kc_net cfg, replicate (kc_n cfg) []) [0..<kc_nctrlers cfg] = Inr (rn, eps)"
    and cfg': "cfg' = cfg\<lparr>kc_net := rn, kc_clerks := (kc_clerks cfg)(ck \<mapsto> eps), kc_nextClientId := kc_nextClientId cfg + 1\<rparr>"
    using assms by (auto simp: skv_makeClient_def)
  have g: "Network.servers (fst b) = Network.servers (fst a) \<and> (\<forall>j \<in> set js. j < length (snd a))"
    if "fold_res ?f a js = Inr b" for a b js
    using that
  proof (induction js arbitrary: a)
    case (Cons j js)
    obtain rn0 eps0 where a: "a = (rn0, eps0)" by (cases a)
    then obtain eps1 rn1 where s: "set_res eps0 j (names j) = Inr eps1" and o: "openEnd rn0 (names j) (ctrlername j) = Inr rn1"
      and r: "fold_res ?f (rn1, eps1) js = Inr b" using Cons.prems by auto
    show ?case using Cons.IH [OF r] openEnd_servers [OF o] set_res_InrD [OF s] a by auto
  qed simp
  show "same_groups cfg cfg'" using g [OF f] by (simp add: same_groups_def cfg' on_net_def serverOf_def)
  have "\<forall>j<kc_nctrlers cfg. j < kc_n cfg" using g [OF f] by auto
  then show "kc_nctrlers cfg \<le> kc_n cfg" by (metis not_le order_less_irrefl)
qed

lemma skv_step_ok:
  assumes "skv_step cfg cfg'" and ok: "skv_ok n cfg"
  shows "skv_ok n cfg'" and "\<forall>g<3. kc_groups cfg ! g \<noteq> None \<Longrightarrow> \<forall>g<3. kc_groups cfg' ! g \<noteq> None"
proof -
  have "skv_ok n cfg' \<and> (\<forall>g. kc_groups cfg' ! g = None \<longleftrightarrow> kc_groups cfg ! g = None)"
    using assms(1)
  proof cases
    case (k_client ck names)
    then show ?thesis using makeClient_frame(1) same_groups_ok [OF _ ok] by (auto simp: same_groups_def)
  next
    case (k_delete ck)
    then have "same_groups cfg cfg'" by (simp add: same_groups_def skv_deleteClient_def on_net_def)
    then show ?thesis using same_groups_ok [OF _ ok] by (simp add: same_groups_def)
  next
    case (k_end name target)
    then have "same_groups cfg cfg'"
      using openEnd_servers by (auto simp: same_groups_def make_end_def on_net_def serverOf_def)
    then show ?thesis using same_groups_ok [OF _ ok] by (simp add: same_groups_def)
  next
    case (k_shutdown gi i)
    have "kc_groups cfg' ! g = None \<longleftrightarrow> kc_groups cfg ! g = None" for g
      using k_shutdown by (rule ShutdownServer_effect) (cases "g = gi", simp_all)
    then show ?thesis using ShutdownServer_ok [OF k_shutdown ok] by simp
  next
    case (k_start gi i names mnames srv nrand)
    then show ?thesis using StartServer_ok [OF k_start ok] by simp
  next
    case (k_join call gis)
    then obtain ck where "cfg' = cfg\<lparr>kc_mck := ck\<rparr>" by (auto simp: joinm_def split: sum.splits prod.splits)
    then have "same_groups cfg cfg'" by (simp add: same_groups_def on_net_def)
    then show ?thesis using same_groups_ok [OF _ ok] by (simp add: same_groups_def)
  next
    case (k_leave callL gis)
    then obtain ck where "cfg' = cfg\<lparr>kc_mck := ck\<rparr>" by (auto simp: leavem_def split: sum.splits prod.splits)
    then have "same_groups cfg cfg'" by (simp add: same_groups_def on_net_def)
    then show ?thesis using same_groups_ok [OF _ ok] by (simp add: same_groups_def)
  next
    case (k_server gi gg i kv kv')
    have net: "on_net cfg' g k \<longleftrightarrow> on_net cfg g k" for g k by (simp add: k_server(1) on_net_def)
    have "group_ok n cfg gi" using ok k_server(2) by (simp add: skv_ok_def)
    then have gg: "g_gid gg = 100 + gi" "length (g_servers gg) = n" "length (g_mendnames gg) = 3" "\<forall>k<n. on_net cfg gi k \<longleftrightarrow> g_servers gg ! k \<noteq> None"
      by (simp_all add: group_ok_def k_server(3))
    have at: "kc_groups cfg' ! gi = Some (gg\<lparr>g_servers := (g_servers gg)[i := Some kv']\<rparr>)" by (simp add: k_server(1,2))
    have "(g_servers gg)[i := Some kv'] ! k \<noteq> None \<longleftrightarrow> g_servers gg ! k \<noteq> None" if "k < n" for k
      using that gg(2) k_server(4) by (cases "k = i") simp_all
    then have "group_ok n cfg' gi" using gg by (simp add: group_ok_def at net)
    then have "group_ok n cfg' g" if "g < 3" for g
      using that ok net by (cases "g = gi") (simp_all add: skv_ok_def group_ok_def k_server(1) cong: option.case_cong)
    then have "skv_ok n cfg'" using ok by (simp add: skv_ok_def k_server(1))
    moreover have "kc_groups cfg' ! g = None \<longleftrightarrow> kc_groups cfg ! g = None" for g
      using k_server by (cases "g = gi") simp_all
    ultimately show ?thesis by simp
  qed
  then show "skv_ok n cfg'" "\<forall>g<3. kc_groups cfg ! g \<noteq> None \<Longrightarrow> \<forall>g<3. kc_groups cfg' ! g \<noteq> None" by simp_all
qed

lemma skv_run_ok:
  assumes "skv_make_config n unreliable maxstate nms csrv srv mrand nrand = Inr cfg0" and "skv_step\<^sup>*\<^sup>* cfg0 cfg"
  shows "skv_ok n cfg" and "\<forall>g<3. kc_groups cfg ! g \<noteq> None"
proof -
  have "skv_ok n cfg \<and> (\<forall>g<3. kc_groups cfg ! g \<noteq> None)"
    using assms(2)
  proof induction
    case base
    then show ?case using skv_make_config_ok [OF assms(1)] by blast
  next
    case (step a b)
    then show ?case using skv_step_ok by blast
  qed
  then show "skv_ok n cfg" "\<forall>g<3. kc_groups cfg ! g \<noteq> None" by simp_all
qed

section \<open>Joining groups\<close>

lemma joinMap_names:
  assumes "\<And>g. g \<in> set gis \<Longrightarrow> \<exists>gg. groupAt cfg g = Inr gg \<and> g_gid gg = 100 + g"
  shows "\<exists>m. joinMap cfg gis = Inr m
    \<and> (\<forall>g \<in> set gis. map_of m (int (100 + g)) = Some (map (skv_servername (100 + g)) [0..<kc_n cfg]))"
proof -
  let ?f = "\<lambda>m g. and_then (groupAt cfg g) (\<lambda>gg.
       Inr (AList.update (int (g_gid gg)) (map (skv_servername (g_gid gg)) [0..<kc_n cfg]) m))"
  let ?names = "\<lambda>g. map (skv_servername (100 + g)) [0..<kc_n cfg]"
  have "\<exists>m'. fold_res ?f m gis = Inr m' \<and> (\<forall>g. map_of m' (int (100 + g)) = (if g \<in> set gis then Some (?names g) else map_of m (int (100 + g))))" for m
    using assms
  proof (induction gis arbitrary: m)
    case (Cons g gis)
    then obtain gg where gg: "groupAt cfg g = Inr gg" "g_gid gg = 100 + g" by fastforce
    let ?m1 = "AList.update (int (100 + g)) (?names g) m"
    obtain m' where "fold_res ?f ?m1 gis = Inr m'"
      and "\<forall>k. map_of m' (int (100 + k)) = (if k \<in> set gis then Some (?names k) else map_of ?m1 (int (100 + k)))"
      using Cons.IH [of ?m1] Cons.prems by auto
    then show ?case using gg by (auto simp: update_conv')
  qed simp
  then show ?thesis unfolding joinMap_def by (metis (no_types, lifting))
qed

lemma openEnd_read:
  assumes "openEnd rn e target = Inr rn'" and "endname req = e"
  shows "processReq_read rn' req = (case serverOf rn target of None \<Rightarrow> Late noReply
    | Some p \<Rightarrow> Accepted \<lparr>servername = target, server = p, was_reliable = reliable rn, longreordering = longReordering rn\<rparr>)"
  using assms
  by (auto simp: openEnd_def MakeEnd_def Connect_def Enable_def processReq_read_def readEndnameInfo_def isEnabled_def serverOf_def
      split: if_splits option.splits)

text \<open>The names that a join sends to the controller lead to the servers of the groups: for every group of the join the map has
  one name per server, and whoever opens an end to the \<open>i\<close>-th name, in whatever state of the test, has
  its requests accepted for server \<open>i\<close> of that group exactly when this server is running.\<close>

theorem joined_names_reach:
  assumes "skv_make_config n unreliable maxstate nms csrv srv mrand nrand = Inr cfg0" and "skv_step\<^sup>*\<^sup>* cfg0 cfg"
    and "set gis \<subseteq> {..<3}" and "gi \<in> set gis" and "i < n"
  shows "\<exists>m ns gg. joinMap cfg gis = Inr m \<and> map_of m (int (100 + gi)) = Some ns \<and> length ns = n
    \<and> ns ! i = skv_servername (100 + gi) i \<and> kc_groups cfg ! gi = Some gg \<and> length (g_servers gg) = n
    \<and> (\<forall>e rn (req :: (string, 't) reqMsg). openEnd (kc_net cfg) e (ns ! i) = Inr rn \<longrightarrow> endname req = e \<longrightarrow>
         (if g_servers gg ! i = None then processReq_read rn req = Late noReply
          else \<exists>rt. processReq_read rn req = Accepted rt \<and> servername rt = skv_servername (100 + gi) i))"
proof -
  have ok: "skv_ok n cfg" and all: "\<forall>g<3. kc_groups cfg ! g \<noteq> None" using skv_run_ok [OF assms(1,2)] by simp_all
  have n: "kc_n cfg = n" using ok by (simp add: skv_ok_def)
  have gg: "\<exists>gg. kc_groups cfg ! g = Some gg \<and> groupAt cfg g = Inr gg \<and> g_gid gg = 100 + g \<and> length (g_servers gg) = n
      \<and> (\<forall>k<n. on_net cfg g k \<longleftrightarrow> g_servers gg ! k \<noteq> None)" if "g < 3" for g
    using that ok all by (auto simp: skv_ok_def group_ok_def groupAt_def split: option.splits)
  then have sub: "\<exists>gg. groupAt cfg g = Inr gg \<and> g_gid gg = 100 + g" if "g \<in> set gis" for g using that assms(3) by blast
  obtain m where m: "joinMap cfg gis = Inr m" "map_of m (int (100 + gi)) = Some (map (skv_servername (100 + gi)) [0..<n])"
    using joinMap_names [of gis cfg] assms(4) n sub by blast
  have "gi < 3" using assms(3,4) by auto
  then obtain g where g: "kc_groups cfg ! gi = Some g" "length (g_servers g) = n" "\<forall>k<n. on_net cfg gi k \<longleftrightarrow> g_servers g ! k \<noteq> None"
    using gg by blast
  have "if g_servers g ! i = None then processReq_read rn req = Late noReply
      else \<exists>rt. processReq_read rn req = Accepted rt \<and> servername rt = skv_servername (100 + gi) i"
    if o: "openEnd (kc_net cfg) e (skv_servername (100 + gi) i) = Inr rn" "endname req = e" for e rn and req :: "(string, 't) reqMsg"
    using openEnd_read [OF o] g(3) assms(5) by (auto simp: on_net_def split: option.splits)
  then show ?thesis
    using m g assms(5) by (intro exI [of _ m] exI [of _ "map (skv_servername (100 + gi)) [0..<n]"] exI [of _ g]) simp
qed

section \<open>Setting up returns\<close>

text \<open>The places of the random names of a run.\<close>

datatype slot = CtrlerEnd nat nat | MckEnd nat | PeerEnd nat nat nat | MendEnd nat nat nat

fun slotName :: "skv_names \<Rightarrow> slot \<Rightarrow> string" where
  "slotName nms (CtrlerEnd i j) = n_ctrler nms i j"
| "slotName nms (MckEnd j) = n_mck nms j"
| "slotName nms (PeerEnd g i j) = n_peer nms g i j"
| "slotName nms (MendEnd g i j) = n_mend nms g i j"

lemma openEnds_total:
  assumes inj: "inj (slotName nms)" and "ends rn = slotName nms ` S" and "\<And>j. j \<in> set js \<Longrightarrow> names j = slotName nms (f j)" and "inj f"
    and "\<And>j. j \<in> set js \<Longrightarrow> f j \<notin> S" and "distinct js"
  shows "\<exists>rn'. openEnds rn names target js = Inr rn' \<and> ends rn' = slotName nms ` (S \<union> f ` set js)"
  using assms(2-)
proof (induction js arbitrary: rn S)
  case (Cons j js)
  have "names j \<notin> ends rn" using Cons.prems(1,2,4) inj by (auto simp: inj_image_mem_iff)
  then obtain rn1 where o: "openEnd rn (names j) (target j) = Inr rn1" "ends rn1 = slotName nms ` (insert (f j) S)"
    using Cons.prems(1,2) by (auto simp: openEnd_def MakeEnd_def Connect_def Enable_def)
  have "f k \<notin> insert (f j) S" if "k \<in> set js" for k
    using that Cons.prems(3-5) by (auto simp: inj_eq)
  then obtain rn' where "openEnds rn1 names target js = Inr rn'" "ends rn' = slotName nms ` (insert (f j) S \<union> f ` set js)"
    using Cons.IH [OF o(2)] Cons.prems(2,3,5) by auto
  then show ?case using o(1) by (auto simp: openEnds_def)
qed (simp add: openEnds_def)

lemma StartCtrlerserver_total:
  assumes inj: "inj (slotName nms)" and "ends (kc_net cfg) = slotName nms ` S" and "kc_nctrlers cfg = 3" and "length (kc_ctrlerservers cfg) = 3"
    and "i < 3" and "\<And>j. CtrlerEnd i j \<notin> S"
  shows "\<exists>cfg'. StartCtrlerserver cfg i (n_ctrler nms i) p = Inr cfg' \<and> ends (kc_net cfg') = slotName nms ` (S \<union> CtrlerEnd i ` {..<3})
    \<and> kc_nctrlers cfg' = 3 \<and> length (kc_ctrlerservers cfg') = 3 \<and> kc_groups cfg' = kc_groups cfg"
proof -
  have "inj (CtrlerEnd i)" by (simp add: inj_def)
  then obtain rn where rn: "openEnds (kc_net cfg) (n_ctrler nms i) ctrlername [0..<3] = Inr rn" "ends rn = slotName nms ` (S \<union> CtrlerEnd i ` set [0..<3])"
    using openEnds_total [OF inj assms(2), of "[0..<3]" "n_ctrler nms i" "CtrlerEnd i" ctrlername] assms(6) by auto
  obtain sc :: "unit ShardCtrler" where "ShardCtrler.StartServer 3 i MakePersister = Inr sc"
    by (simp add: ShardCtrler.StartServer_def Make_def ReadRaftState_def MakePersister_def)
  then show ?thesis
    using rn assms(3-5) by (simp add: StartCtrlerserver_def AddServer_def atLeast0LessThan)
qed

lemma StartServer_total:
  assumes inj: "inj (slotName nms)" and used: "ends (kc_net cfg) = slotName nms ` S" and k: "kc_nctrlers cfg = 3" "kc_n cfg = n"
    and g: "gi < length (kc_groups cfg)" "kc_groups cfg ! gi = Some gg"
    and len: "length (g_servers gg) = n" "length (g_saved gg) = n" "length (g_endnames gg) = n" "length (g_mendnames gg) = 3"
    and i: "i < n" "i < 3" and new: "g_servers gg ! i = None" "g_saved gg ! i = None"
    and fresh: "\<And>j. PeerEnd gi i j \<notin> S" "\<And>j. MendEnd gi i j \<notin> S"
  shows "\<exists>cfg' gg'. skv_StartServer cfg gi i (n_peer nms gi i) (n_mend nms gi i) p r = Inr cfg'
    \<and> ends (kc_net cfg') = slotName nms ` (S \<union> PeerEnd gi i ` {..<n} \<union> MendEnd gi i ` {..<3})
    \<and> kc_nctrlers cfg' = 3 \<and> kc_n cfg' = n \<and> kc_groups cfg' = (kc_groups cfg)[gi := Some gg']
    \<and> length (g_servers gg') = n \<and> length (g_saved gg') = n \<and> length (g_endnames gg') = n \<and> length (g_mendnames gg') = 3
    \<and> (\<forall>k. k \<noteq> i \<longrightarrow> g_servers gg' ! k = g_servers gg ! k \<and> g_saved gg' ! k = g_saved gg ! k)"
proof -
  have f: "inj (PeerEnd gi i)" "inj (MendEnd gi i)" by (simp_all add: inj_def)
  obtain rn1 where rn1: "openEnds (kc_net cfg) (n_peer nms gi i) (skv_servername (g_gid gg)) [0..<n] = Inr rn1"
    "ends rn1 = slotName nms ` (S \<union> PeerEnd gi i ` set [0..<n])"
    using openEnds_total [OF inj used _ f(1), of "[0..<n]" "n_peer nms gi i" "skv_servername (g_gid gg)"] fresh(1) by auto
  have "MendEnd gi i j \<notin> S \<union> PeerEnd gi i ` set [0..<n]" for j using fresh(2) by auto
  then obtain rn2 where rn2: "openEnds rn1 (n_mend nms gi i) ctrlername [0..<3] = Inr rn2"
    "ends rn2 = slotName nms ` (S \<union> PeerEnd gi i ` set [0..<n] \<union> MendEnd gi i ` set [0..<3])"
    using openEnds_total [OF inj rn1(2) _ f(2), of "[0..<3]" "n_mend nms gi i" ctrlername] by auto
  obtain kv where kv: "ShardKV.StartServer n i MakePersister (kc_maxraftstate cfg) (int (g_gid gg)) 3 r = Inr kv"
    by (simp add: ShardKV.StartServer_def Make_def ReadRaftState_def ReadSnapshot_def MakePersister_def)
  have "groupAt cfg gi = Inr gg" "groupSaved gg i = None" using g new by (simp_all add: groupAt_def groupSaved_def)
  moreover define gg' where "gg' = gg\<lparr>g_endnames := (g_endnames gg)[i := Some (map (n_peer nms gi i) [0..<n])],
    g_mendnames := (g_mendnames gg)[i := Some (map (n_mend nms gi i) [0..<3])], g_saved := (g_saved gg)[i := Some MakePersister],
    g_servers := (g_servers gg)[i := Some kv]\<rparr>"
  ultimately have "skv_StartServer cfg gi i (n_peer nms gi i) (n_mend nms gi i) p r = Inr (cfg\<lparr>kc_net := AddServer rn2 (skv_servername (g_gid gg) i) p,
      kc_groups := (kc_groups cfg)[gi := Some gg']\<rparr>)"
    using rn1(1) rn2(1) kv k len i by (simp add: skv_StartServer_def)
  moreover have "length (g_servers gg') = n" "length (g_saved gg') = n" "length (g_endnames gg') = n" "length (g_mendnames gg') = 3"
    "\<forall>k. k \<noteq> i \<longrightarrow> g_servers gg' ! k = g_servers gg ! k \<and> g_saved gg' ! k = g_saved gg ! k"
    using len by (simp_all add: gg'_def)
  ultimately show ?thesis
    using rn2(2) k by (intro exI [of _ "cfg\<lparr>kc_net := AddServer rn2 (skv_servername (g_gid gg) i) p, kc_groups := (kc_groups cfg)[gi := Some gg']\<rparr>"]
      exI [of _ gg']) (simp add: AddServer_def atLeast0LessThan)
qed

text \<open>The names that are used all have places of a certain kind.\<close>

definition used_within :: "skv_names \<Rightarrow> skv_config \<Rightarrow> (slot \<Rightarrow> bool) \<Rightarrow> bool" where
  "used_within nms cfg P \<longleftrightarrow> (\<exists>S. ends (kc_net cfg) = slotName nms ` S \<and> (\<forall>x \<in> S. P x))"

lemma used_withinI: "ends (kc_net cfg) = slotName nms ` S \<Longrightarrow> (\<And>x. x \<in> S \<Longrightarrow> P x) \<Longrightarrow> used_within nms cfg P"
  unfolding used_within_def by blast

definition in_group :: "nat \<Rightarrow> nat \<Rightarrow> slot \<Rightarrow> bool" where
  "in_group g k x \<longleftrightarrow> (\<exists>i j. i < k \<and> (x = PeerEnd g i j \<or> x = MendEnd g i j))"

definition group_new :: "nat \<Rightarrow> nat \<Rightarrow> skv_group \<Rightarrow> bool" where
  "group_new n k gg \<longleftrightarrow> length (g_servers gg) = n \<and> length (g_saved gg) = n \<and> length (g_endnames gg) = n \<and> length (g_mendnames gg) = 3
     \<and> (\<forall>i<n. k \<le> i \<longrightarrow> g_servers gg ! i = None \<and> g_saved gg ! i = None)"

lemma start_next_server:
  assumes inj: "inj (slotName nms)" and used: "used_within nms cfg (\<lambda>x. P x \<or> in_group gi k x)" and P: "\<forall>x. P x \<longrightarrow> (\<forall>k. \<not> in_group gi k x)"
    and c: "kc_nctrlers cfg = 3" "kc_n cfg = n" and g: "gi < length (kc_groups cfg)" "kc_groups cfg ! gi = Some gg" "group_new n k gg"
    and k: "k < n" "n \<le> 3"
  shows "\<exists>cfg' gg'. skv_StartServer cfg gi k (n_peer nms gi k) (n_mend nms gi k) p r = Inr cfg'
    \<and> used_within nms cfg' (\<lambda>x. P x \<or> in_group gi (Suc k) x) \<and> kc_nctrlers cfg' = 3 \<and> kc_n cfg' = n
    \<and> length (kc_groups cfg') = length (kc_groups cfg) \<and> kc_groups cfg' ! gi = Some gg' \<and> group_new n (Suc k) gg'"
proof -
  obtain S where S: "ends (kc_net cfg) = slotName nms ` S" "\<forall>x \<in> S. P x \<or> in_group gi k x" using used unfolding used_within_def by blast
  have "in_group gi (Suc k) (PeerEnd gi k j)" "in_group gi (Suc k) (MendEnd gi k j)" "\<not> in_group gi k (PeerEnd gi k j)" "\<not> in_group gi k (MendEnd gi k j)" for j
    by (auto simp: in_group_def)
  then have fresh: "PeerEnd gi k j \<notin> S" "MendEnd gi k j \<notin> S" for j using S(2) P by blast+
  have len: "length (g_servers gg) = n" "length (g_saved gg) = n" "length (g_endnames gg) = n" "length (g_mendnames gg) = 3"
    and new: "g_servers gg ! k = None" "g_saved gg ! k = None"
    using g(3) k(1) by (simp_all add: group_new_def)
  have k3: "k < 3" using k by simp
  obtain cfg' gg' where st: "skv_StartServer cfg gi k (n_peer nms gi k) (n_mend nms gi k) p r = Inr cfg'"
    and e: "ends (kc_net cfg') = slotName nms ` (S \<union> PeerEnd gi k ` {..<n} \<union> MendEnd gi k ` {..<3})"
    and c': "kc_nctrlers cfg' = 3" "kc_n cfg' = n" "kc_groups cfg' = (kc_groups cfg)[gi := Some gg']"
    and gg': "length (g_servers gg') = n" "length (g_saved gg') = n" "length (g_endnames gg') = n" "length (g_mendnames gg') = 3"
      "\<forall>i. i \<noteq> k \<longrightarrow> g_servers gg' ! i = g_servers gg ! i \<and> g_saved gg' ! i = g_saved gg ! i"
    using StartServer_total [OF inj S(1) c g(1,2) len k(1) k3 new fresh, of p r] by (elim exE conjE) (rule that)
  have "P x \<or> in_group gi (Suc k) x" if "x \<in> S \<union> PeerEnd gi k ` {..<n} \<union> MendEnd gi k ` {..<3}" for x
    using that S(2) by (auto simp: in_group_def less_Suc_eq)
  then have "used_within nms cfg' (\<lambda>x. P x \<or> in_group gi (Suc k) x)" using e by (intro used_withinI)
  moreover have "g_servers gg' ! i = None \<and> g_saved gg' ! i = None" if "i < n" "Suc k \<le> i" for i
    using that g(3) gg'(5) by (simp add: group_new_def)
  then have "group_new n (Suc k) gg'" using gg'(1-4) by (simp add: group_new_def)
  ultimately show ?thesis using st c' g(1) by (intro exI [of _ cfg'] exI [of _ gg']) simp
qed

lemma setupGroup_total:
  assumes inj: "inj (slotName nms)" and used: "used_within nms cfg P" and P: "\<forall>x. P x \<longrightarrow> (\<forall>k. \<not> in_group gi k x)"
    and c: "kc_nctrlers cfg = 3" "kc_n cfg = n" "gi < length (kc_groups cfg)" and n: "n \<le> 3"
  shows "\<exists>cfg'. setupGroup nms srv nrand cfg gi = Inr cfg' \<and> used_within nms cfg' (\<lambda>x. P x \<or> in_group gi n x)
    \<and> kc_nctrlers cfg' = 3 \<and> kc_n cfg' = n \<and> length (kc_groups cfg') = length (kc_groups cfg)"
proof -
  let ?cfg = "cfg\<lparr>kc_groups := (kc_groups cfg)[gi := Some (newGroup cfg gi)]\<rparr>"
  let ?f = "\<lambda>c i. skv_StartServer c gi i (n_peer nms gi i) (n_mend nms gi i) (srv gi i) (nrand gi i)"
  have "\<exists>c gg. fold_res ?f ?cfg [0..<k] = Inr c \<and> used_within nms c (\<lambda>x. P x \<or> in_group gi k x) \<and> kc_nctrlers c = 3 \<and> kc_n c = n
      \<and> length (kc_groups c) = length (kc_groups cfg) \<and> kc_groups c ! gi = Some gg \<and> group_new n k gg" if "k \<le> n" for k
    using that
  proof (induction k)
    case 0
    have "group_new n 0 (newGroup cfg gi)" using c by (simp add: group_new_def newGroup_def)
    moreover have "used_within nms ?cfg (\<lambda>x. P x \<or> in_group gi 0 x)" using used by (auto simp: used_within_def)
    ultimately show ?case using c by simp
  next
    case (Suc k)
    then obtain c1 gg where f: "fold_res ?f ?cfg [0..<k] = Inr c1" and u: "used_within nms c1 (\<lambda>x. P x \<or> in_group gi k x)"
      and k1: "kc_nctrlers c1 = 3" "kc_n c1 = n" "length (kc_groups c1) = length (kc_groups cfg)"
      and g: "kc_groups c1 ! gi = Some gg" "group_new n k gg" by auto
    have "gi < length (kc_groups c1)" "k < n" using k1(3) c(3) Suc.prems by simp_all
    then show ?case
      using start_next_server [OF inj u P k1(1,2) _ g _ n, of "srv gi k" "nrand gi k"] f k1(3) by (auto simp: fold_res_snoc)
  qed
  from this [of n] obtain c1 gg where "fold_res ?f ?cfg [0..<n] = Inr c1" "used_within nms c1 (\<lambda>x. P x \<or> in_group gi n x)"
    "kc_nctrlers c1 = 3" "kc_n c1 = n" "length (kc_groups c1) = length (kc_groups cfg)" by auto
  then show ?thesis using c by (simp add: setupGroup_def skv_StartGroup_def)
qed

lemma controllers_total:
  assumes inj: "inj (slotName nms)" and k: "k \<le> 3"
  shows "\<exists>c. fold_res (\<lambda>c i. StartCtrlerserver c i (n_ctrler nms i) (csrv i)) (empty_skv_config maxstate) [0..<k] = Inr c
    \<and> used_within nms c (\<lambda>x. \<exists>i j. i < k \<and> x = CtrlerEnd i j) \<and> kc_nctrlers c = 3 \<and> length (kc_ctrlerservers c) = 3"
  using k
proof (induction k)
  case 0
  show ?case by (simp add: used_within_def empty_skv_config_def MakeNetwork_def)
next
  case (Suc k)
  then obtain c where f: "fold_res (\<lambda>c i. StartCtrlerserver c i (n_ctrler nms i) (csrv i)) (empty_skv_config maxstate) [0..<k] = Inr c"
    and u: "used_within nms c (\<lambda>x. \<exists>i j. i < k \<and> x = CtrlerEnd i j)" and c: "kc_nctrlers c = 3" "length (kc_ctrlerservers c) = 3" by auto
  obtain S where S: "ends (kc_net c) = slotName nms ` S" "\<forall>x \<in> S. \<exists>i j. i < k \<and> x = CtrlerEnd i j" using u unfolding used_within_def by blast
  have "CtrlerEnd k j \<notin> S" for j using S(2) by blast
  then obtain c' where st: "StartCtrlerserver c k (n_ctrler nms k) (csrv k) = Inr c'" "ends (kc_net c') = slotName nms ` (S \<union> CtrlerEnd k ` {..<3})"
    "kc_nctrlers c' = 3" "length (kc_ctrlerservers c') = 3"
    using StartCtrlerserver_total [OF inj S(1) c, of k "csrv k"] Suc.prems by auto
  have "used_within nms c' (\<lambda>x. \<exists>i j. i < Suc k \<and> x = CtrlerEnd i j)"
    by (rule used_withinI [OF st(2)]) (use S(2) in \<open>auto simp: less_Suc_eq\<close>)
  then show ?case using f st by (simp add: fold_res_snoc)
qed

lemma skv_make_config_total:
  assumes inj: "inj (slotName nms)" and n: "n \<le> 3"
  shows "\<exists>cfg. skv_make_config n unreliable maxstate nms csrv srv mrand nrand = Inr cfg"
proof -
  obtain c1 where f: "fold_res (\<lambda>c i. StartCtrlerserver c i (n_ctrler nms i) (csrv i)) (empty_skv_config maxstate) [0..<3] = Inr c1"
    and u: "used_within nms c1 (\<lambda>x. \<exists>i j. i < 3 \<and> x = CtrlerEnd i j)" and c1: "kc_nctrlers c1 = 3"
    using controllers_total [OF inj order_refl] by blast
  obtain S where S: "ends (kc_net c1) = slotName nms ` S" "\<forall>x \<in> S. \<exists>i j. i < 3 \<and> x = CtrlerEnd i j" using u unfolding used_within_def by blast
  have "inj MckEnd" by (simp add: inj_def)
  moreover have "MckEnd j \<notin> S" for j using S(2) by blast
  ultimately obtain rn where rn: "openEnds (kc_net c1) (n_mck nms) ctrlername [0..<3] = Inr rn" "ends rn = slotName nms ` (S \<union> MckEnd ` set [0..<3])"
    using openEnds_total [OF inj S(1), of "[0..<3]" "n_mck nms" MckEnd ctrlername] by auto
  let ?P = "\<lambda>x. (\<exists>i j. x = CtrlerEnd i j) \<or> (\<exists>j. x = MckEnd j)"
  let ?c3 = "c1\<lparr>kc_net := rn, kc_mck := Some (MakeClerk 3 mrand), kc_ngroups := 3, kc_groups := replicate 3 None, kc_n := n\<rparr>"
  have u3: "used_within nms ?c3 ?P"
    by (rule used_withinI [of _ _ "S \<union> MckEnd ` set [0..<3]"]) (use rn(2) S(2) in auto)
  have c3: "kc_nctrlers ?c3 = 3" "kc_n ?c3 = n" "0 < length (kc_groups ?c3)" using c1 by simp_all
  have "\<forall>x. ?P x \<longrightarrow> (\<forall>k. \<not> in_group 0 k x)" by (auto simp: in_group_def)
  note s1 = setupGroup_total [OF inj u3 this c3 n, of srv nrand]
  then obtain a where a: "setupGroup nms srv nrand ?c3 0 = Inr a" "used_within nms a (\<lambda>x. ?P x \<or> in_group 0 n x)"
    "kc_nctrlers a = 3" "kc_n a = n" "length (kc_groups a) = length (kc_groups ?c3)" by (elim exE conjE) (rule that)
  then have la: "1 < length (kc_groups a)" "length (kc_groups a) = 3" by simp_all
  have "\<forall>x. ?P x \<or> in_group 0 n x \<longrightarrow> (\<forall>k. \<not> in_group 1 k x)" by (auto simp: in_group_def)
  note s2 = setupGroup_total [OF inj a(2) this a(3,4) la(1) n, of srv nrand]
  then obtain b where b: "setupGroup nms srv nrand a 1 = Inr b" "used_within nms b (\<lambda>x. (?P x \<or> in_group 0 n x) \<or> in_group 1 n x)"
    "kc_nctrlers b = 3" "kc_n b = n" "length (kc_groups b) = length (kc_groups a)" by (elim exE conjE) (rule that)
  have lb: "2 < length (kc_groups b)" using b(5) la(2) by simp
  have "\<forall>x. (?P x \<or> in_group 0 n x) \<or> in_group 1 n x \<longrightarrow> (\<forall>k. \<not> in_group 2 k x)" by (auto simp: in_group_def)
  note s3 = setupGroup_total [OF inj b(2) this b(3,4) lb n, of srv nrand]
  then obtain c4 where "setupGroup nms srv nrand b 2 = Inr c4" by blast
  then have "fold_res (setupGroup nms srv nrand) ?c3 [0..<3] = Inr c4"
    using a(1) b(1) by (simp add: upt_rec numeral_2_eq_2 numeral_3_eq_3)
  then show ?thesis using f rn(1) c1 by (simp add: skv_make_config_def shardclerk_def)
qed

text \<open>The harness sets up a test exactly for groups of at most three servers, when the random names are different: the
  slice \<open>mendnames\<close> has one place per controller, of which there are three, and is indexed by the servers of a group.
  And a clerk can only be made in a test with groups of three: its slice of end names has one place per
  server of a group and is indexed by the controllers.\<close>

theorem config_sizes:
  assumes "inj (slotName nms)"
  shows "((\<exists>cfg. skv_make_config n unreliable maxstate nms csrv srv mrand nrand = Inr cfg) \<longleftrightarrow> n \<le> 3)
    \<and> (\<forall>cfg0 cfg ck names cfg'. skv_make_config n unreliable maxstate nms csrv srv mrand nrand = Inr cfg0 \<longrightarrow> skv_step\<^sup>*\<^sup>* cfg0 cfg \<longrightarrow>
         skv_makeClient cfg ck names = Inr cfg' \<longrightarrow> n = 3)"
proof (intro conjI allI impI)
  show "(\<exists>cfg. skv_make_config n unreliable maxstate nms csrv srv mrand nrand = Inr cfg) \<longleftrightarrow> n \<le> 3"
    using skv_make_config_ok skv_make_config_total [OF assms] by blast
  fix cfg0 cfg ck names cfg'
  assume m: "skv_make_config n unreliable maxstate nms csrv srv mrand nrand = Inr cfg0" and r: "skv_step\<^sup>*\<^sup>* cfg0 cfg"
    and c: "skv_makeClient cfg ck names = Inr cfg'"
  have "n \<le> 3" using skv_make_config_ok [OF m] by blast
  moreover have "3 \<le> n" using makeClient_frame(2) [OF c] skv_run_ok(1) [OF m r] by (simp add: skv_ok_def)
  ultimately show "n = 3" by simp
qed

text \<open>Names that are different: a letter for the kind of end and its numbers.\<close>

definition spelled :: skv_names where
  "spelled = \<lparr>n_ctrler = (\<lambda>i j. ''c'' @ Itoa i @ ''-'' @ Itoa j), n_mck = (\<lambda>j. ''m'' @ Itoa j),
     n_peer = (\<lambda>g i j. ''p'' @ Itoa g @ ''-'' @ Itoa i @ ''-'' @ Itoa j), n_mend = (\<lambda>g i j. ''e'' @ Itoa g @ ''-'' @ Itoa i @ ''-'' @ Itoa j)\<rparr>"

lemma spelled_inj: "inj (slotName spelled)"
proof (rule injI)
  show "x = y" if "slotName spelled x = slotName spelled y" for x y
    using that by (cases x; cases y) (simp_all add: spelled_def dashed_inject)
qed

theorem config_sizes_witness:
  "(\<exists>cfg. skv_make_config 3 False (-1) spelled (\<lambda>i. i) (\<lambda>g i. 3 + 3 * g + i) 7 (\<lambda>g i. int (3 * g + i)) = Inr cfg)
    \<and> \<not> (\<exists>cfg. skv_make_config 4 False (-1) spelled (\<lambda>i. i) (\<lambda>g i. 3 + 4 * g + i) 7 (\<lambda>g i. int (4 * g + i)) = Inr cfg)"
  using config_sizes [OF spelled_inj, of 3 False "-1" "\<lambda>i. i" "\<lambda>g i. 3 + 3 * g + i" 7 "\<lambda>g i. int (3 * g + i)"]
    config_sizes [OF spelled_inj, of 4 False "-1" "\<lambda>i. i" "\<lambda>g i. 3 + 4 * g + i" 7 "\<lambda>g i. int (4 * g + i)"] by auto

theorem joined_names_reach_witness:
  "\<exists>cfg m gg. skv_make_config 3 False (-1) spelled (\<lambda>i. i) (\<lambda>g i. 3 + 3 * g + i) 7 (\<lambda>g i. int (3 * g + i)) = Inr cfg
    \<and> joinMap cfg [2] = Inr m \<and> (\<exists>ns. map_of m 102 = Some ns \<and> length ns = 3 \<and> ns ! 1 = skv_servername 102 1)
    \<and> kc_groups cfg ! 2 = Some gg \<and> length (g_servers gg) = 3"
proof -
  obtain cfg where m: "skv_make_config 3 False (-1) spelled (\<lambda>i. i) (\<lambda>g i. 3 + 3 * g + i) 7 (\<lambda>g i. int (3 * g + i)) = Inr cfg"
    using skv_make_config_total [OF spelled_inj order_refl, of False "-1" "\<lambda>i. i" "\<lambda>g i. 3 + 3 * g + i" 7 "\<lambda>g i. int (3 * g + i)"] by blast
  show ?thesis
    using joined_names_reach [OF m rtranclp.rtrancl_refl, of "[2]" 2 1] m by auto
qed

end
