(* ===== verification/MapReduce.thy ===== *)
theory MapReduce
  imports Prelude "HOL-Library.Word" "HOL-Library.List_Lexorder" "HOL-Library.Char_ord"
begin

text \<open>
  MapReduce (\<open>mr/coordinator.go\<close>, \<open>mr/worker.go\<close>, \<open>mr/rpc.go\<close>, \<open>main/mrsequential.go\<close>).

  The file system is a map from file names to contents. The names that the program builds
  with \<open>Sprintf\<close> from task numbers are the constructors of \<open>file_name\<close>, so different files
  have different names, and no input file has the name of one of them. A JSON stream is the
  list of the values in it. \<open>sort.Sort\<close> is an argument \<open>sortf\<close>: the library only promises a
  sorted permutation. \<open>mapf\<close> and \<open>reducef\<close> are the functions of the application.

  \<open>timers\<close> holds the checker goroutines that the coordinator has started and that have not
  run yet.
\<close>

unbundle bit_operations_syntax

section \<open>Data\<close>

record KeyValue =
  Key :: string
  Value :: string

datatype file_name = InputFile string | MapTmp int int | MapOut int int | ReduceTmp int | ReduceOut int

datatype contents = Text string | Pairs "KeyValue list" | Lines "string list"

type_synonym fs = "file_name \<rightharpoonup> contents"

record MapTask =
  mt_Phase :: int
  FileName :: string
  mt_TaskNumber :: int

record ReduceTask =
  rt_Phase :: int
  rt_TaskNumber :: int

datatype checker = MapChecker int | ReduceChecker int

record Coordinator =
  c_NMap :: int
  c_NReduce :: int
  IsMapFinished :: bool
  c_IsFinished :: bool
  MapTaskList :: "MapTask list"
  ReduceTaskList :: "ReduceTask list"
  timers :: "checker list"

record Args =
  AskForTask :: bool
  a_IsMap :: bool
  a_MapTaskId :: int
  a_ReduceTaskId :: int
  a_TaskNumber :: int

record Reply =
  r_IsFinished :: bool
  r_IsMap :: bool
  MapFileName :: string
  r_MapTaskId :: int
  r_ReduceTaskId :: int
  r_NMap :: int
  r_NReduce :: int
  r_TaskNumber :: int

section \<open>The coordinator\<close>

definition SetMapPhase :: "int \<Rightarrow> MapTask \<Rightarrow> MapTask" where
  "SetMapPhase phase task = task\<lparr>mt_Phase := phase\<rparr>"

definition SetReducePhase :: "int \<Rightarrow> ReduceTask \<Rightarrow> ReduceTask" where
  "SetReducePhase phase task = task\<lparr>rt_Phase := phase\<rparr>"

fun firstIdle :: "int list \<Rightarrow> int \<Rightarrow> int" where
  "firstIdle [] i = -1"
| "firstIdle (phase # rest) i = (if phase = -1 then i else firstIdle rest (i + 1))"

definition GetUnassignedMapTask :: "Coordinator \<Rightarrow> int" where
  "GetUnassignedMapTask c = firstIdle (map mt_Phase (MapTaskList c)) 0"

definition GetUnassignedReduceTask :: "Coordinator \<Rightarrow> int" where
  "GetUnassignedReduceTask c = firstIdle (map rt_Phase (ReduceTaskList c)) 0"

definition MapTaskChecker :: "Coordinator \<Rightarrow> int \<Rightarrow> Coordinator res" where
  "MapTaskChecker c i =
     and_then (index_res (MapTaskList c) i) (\<lambda>task.
       if mt_Phase task \<noteq> 1
       then and_then (update_res (MapTaskList c) i ((SetMapPhase (-1) task)\<lparr>mt_TaskNumber := mt_TaskNumber task + 1\<rparr>)) (\<lambda>tasks.
              Inr (c\<lparr>MapTaskList := tasks\<rparr>))
       else Inr c)"

definition ReduceTaskChecker :: "Coordinator \<Rightarrow> int \<Rightarrow> Coordinator res" where
  "ReduceTaskChecker c i =
     and_then (index_res (ReduceTaskList c) i) (\<lambda>task.
       if rt_Phase task \<noteq> 1
       then and_then (update_res (ReduceTaskList c) i ((SetReducePhase (-1) task)\<lparr>rt_TaskNumber := rt_TaskNumber task + 1\<rparr>)) (\<lambda>tasks.
              Inr (c\<lparr>ReduceTaskList := tasks\<rparr>))
       else Inr c)"

definition Done :: "Coordinator \<Rightarrow> bool" where
  "Done c \<longleftrightarrow> list_all (\<lambda>task. rt_Phase task = 1) (ReduceTaskList c)"

text \<open>A reply with the fields that every request gets, and zero values.\<close>

definition emptyReply :: "Coordinator \<Rightarrow> Reply" where
  "emptyReply c = \<lparr>r_IsFinished = False, r_IsMap = False, MapFileName = [], r_MapTaskId = 0, r_ReduceTaskId = 0,
     r_NMap = c_NMap c, r_NReduce = c_NReduce c, r_TaskNumber = 0\<rparr>"

definition assignReduce :: "Coordinator \<Rightarrow> (Coordinator \<times> Reply) res" where
  "assignReduce c =
     (let i = GetUnassignedReduceTask c; reply = (emptyReply c)\<lparr>r_IsMap := False, r_ReduceTaskId := i\<rparr>
      in if i \<ge> 0 then
           and_then (index_res (ReduceTaskList c) i) (\<lambda>task.
           and_then (update_res (ReduceTaskList c) i (SetReducePhase 0 task)) (\<lambda>tasks.
             Inr (c\<lparr>ReduceTaskList := tasks, timers := timers c @ [ReduceChecker i]\<rparr>,
                  reply\<lparr>r_TaskNumber := rt_TaskNumber task\<rparr>)))
         else Inr (c, reply))"

definition assignMap :: "Coordinator \<Rightarrow> (Coordinator \<times> Reply) res" where
  "assignMap c =
     (let i = GetUnassignedMapTask c; reply = (emptyReply c)\<lparr>r_IsMap := True, r_MapTaskId := i\<rparr>
      in if i \<ge> 0 then
           and_then (index_res (MapTaskList c) i) (\<lambda>task.
           and_then (update_res (MapTaskList c) i (SetMapPhase 0 task)) (\<lambda>tasks.
             Inr (c\<lparr>MapTaskList := tasks, timers := timers c @ [MapChecker i]\<rparr>,
                  reply\<lparr>MapFileName := FileName task, r_TaskNumber := mt_TaskNumber task\<rparr>)))
         else Inr (c, reply))"

definition rename :: "fs \<Rightarrow> file_name \<Rightarrow> file_name \<Rightarrow> fs res" where
  "rename disk old new =
     (case disk old of None \<Rightarrow> Inl Fatal | Some f \<Rightarrow> Inr ((disk(old := None))(new \<mapsto> f)))"

definition upto_int :: "int \<Rightarrow> int list" where
  "upto_int n = map int [0..<nat n]"

text \<open>
  A report in two parts: what the handler does up to its scan of the phases, and the store of what
  the scan found. The lock it holds is that of its own task, so the parts of two reports interleave.
\<close>

definition reportMapScan :: "Coordinator \<Rightarrow> fs \<Rightarrow> Args \<Rightarrow> (Coordinator \<times> fs \<times> bool option) res" where
  "reportMapScan c disk args =
     (let i = a_MapTaskId args
      in and_then (index_res (MapTaskList c) i) (\<lambda>task.
           if a_TaskNumber args \<noteq> mt_TaskNumber task then Inr (c, disk, None)
           else and_then (fold_res (\<lambda>d k. rename d (MapTmp i k) (MapOut i k)) disk (upto_int (c_NReduce c))) (\<lambda>disk1.
                and_then (update_res (MapTaskList c) i (SetMapPhase 1 task)) (\<lambda>tasks.
                  Inr (c\<lparr>MapTaskList := tasks\<rparr>, disk1, Some (list_all (\<lambda>t. mt_Phase t = 1) tasks))))))"

definition reportReduceScan :: "Coordinator \<Rightarrow> fs \<Rightarrow> Args \<Rightarrow> (Coordinator \<times> fs \<times> bool option) res" where
  "reportReduceScan c disk args =
     (let i = a_ReduceTaskId args
      in and_then (index_res (ReduceTaskList c) i) (\<lambda>task.
           if a_TaskNumber args \<noteq> rt_TaskNumber task then Inr (c, disk, None)
           else and_then (rename disk (ReduceTmp i) (ReduceOut i)) (\<lambda>disk1.
                and_then (update_res (ReduceTaskList c) i (SetReducePhase 1 task)) (\<lambda>tasks.
                  let c1 = c\<lparr>ReduceTaskList := tasks\<rparr> in Inr (c1, disk1, Some (Done c1))))))"

definition reportStore :: "bool \<Rightarrow> bool option \<Rightarrow> Coordinator \<Rightarrow> Coordinator" where
  "reportStore isMap found c =
     (case found of None \<Rightarrow> c
      | Some b \<Rightarrow> if isMap then c\<lparr>IsMapFinished := b\<rparr> else c\<lparr>c_IsFinished := b\<rparr>)"

definition reportScan :: "Coordinator \<Rightarrow> fs \<Rightarrow> Args \<Rightarrow> (Coordinator \<times> fs \<times> bool option) res" where
  "reportScan c disk args = (if a_IsMap args then reportMapScan c disk args else reportReduceScan c disk args)"

definition RPCHandler :: "Coordinator \<Rightarrow> fs \<Rightarrow> Args \<Rightarrow> (Coordinator \<times> fs \<times> Reply) res" where
  "RPCHandler c disk args =
     (if AskForTask args then
        if c_IsFinished c then Inr (c, disk, (emptyReply c)\<lparr>r_IsFinished := True\<rparr>)
        else and_then (if IsMapFinished c then assignReduce c else assignMap c) (\<lambda>(c1, reply).
               Inr (c1, disk, reply))
      else and_then (reportScan c disk args) (\<lambda>(c1, disk1, found).
             Inr (reportStore (a_IsMap args) found c1, disk1, emptyReply c)))"

definition MakeCoordinator :: "string list \<Rightarrow> int \<Rightarrow> Coordinator" where
  "MakeCoordinator files nReduce =
     \<lparr>c_NMap = int (length files), c_NReduce = nReduce, IsMapFinished = False, c_IsFinished = False,
      MapTaskList = map (\<lambda>f. \<lparr>mt_Phase = -1, FileName = f, mt_TaskNumber = 0\<rparr>) files,
      ReduceTaskList = map (\<lambda>i. \<lparr>rt_Phase = -1, rt_TaskNumber = 0\<rparr>) (upto_int nReduce), timers = []\<rparr>"

section \<open>The worker\<close>

text \<open>The hash FNV-1a of 32 bits, of the standard library, and its non-negative part.\<close>

definition fnv32a :: "string \<Rightarrow> 32 word" where
  "fnv32a key = foldl (\<lambda>h b. (h XOR of_nat (of_char b)) * 16777619) 2166136261 key"

definition ihash :: "string \<Rightarrow> int" where
  "ihash key = uint (fnv32a key AND 0x7fffffff)"

definition addPair :: "int \<Rightarrow> KeyValue list list \<Rightarrow> KeyValue \<Rightarrow> KeyValue list list res" where
  "addPair nReduce middleResult kv =
     (if nReduce = 0 then Inl DivPanic
      else let i = ihash (Key kv) mod nReduce
           in and_then (index_res middleResult i) (\<lambda>bucket. update_res middleResult i (bucket @ [kv])))"

definition splitPairs :: "int \<Rightarrow> KeyValue list \<Rightarrow> KeyValue list list res" where
  "splitPairs nReduce kvs = fold_res (addPair nReduce) (replicate (nat nReduce) []) kvs"

definition writeTmp :: "int \<Rightarrow> KeyValue list list \<Rightarrow> fs \<Rightarrow> int \<Rightarrow> fs res" where
  "writeTmp m middleResult disk i =
     and_then (index_res middleResult i) (\<lambda>bucket. Inr (disk(MapTmp m i \<mapsto> Pairs bucket)))"

definition mapWork :: "(string \<Rightarrow> string \<Rightarrow> KeyValue list) \<Rightarrow> fs \<Rightarrow> Reply \<Rightarrow> fs res" where
  "mapWork mapf disk reply =
     (case disk (InputFile (MapFileName reply)) of
        Some (Text content) \<Rightarrow>
          and_then (splitPairs (r_NReduce reply) (mapf (MapFileName reply) content)) (\<lambda>middleResult.
            fold_res (writeTmp (r_MapTaskId reply) middleResult) disk (upto_int (r_NReduce reply)))
      | _ \<Rightarrow> Inl Fatal)"

text \<open>A file that cannot be opened gives no pairs: the error is ignored and the first decoding fails.\<close>

definition readPairs :: "fs \<Rightarrow> file_name \<Rightarrow> KeyValue list" where
  "readPairs disk name = (case disk name of Some (Pairs kvs) \<Rightarrow> kvs | _ \<Rightarrow> [])"

definition line :: "string \<Rightarrow> string \<Rightarrow> string" where
  "line key output = key @ '' '' @ output @ [CHR 0x0A]"

text \<open>The loop over the runs of equal keys; the list is the part from index \<open>i\<close> on.\<close>

function reduceLoop :: "(string \<Rightarrow> string list \<Rightarrow> string) \<Rightarrow> KeyValue list \<Rightarrow> string list" where
  "reduceLoop reducef [] = []"
| "reduceLoop reducef (kv # rest) =
     line (Key kv) (reducef (Key kv) (map Value (kv # takeWhile (\<lambda>x. Key x = Key kv) rest)))
     # reduceLoop reducef (dropWhile (\<lambda>x. Key x = Key kv) rest)"
  by pat_completeness auto
termination
  by (relation "measure (\<lambda>(reducef, kvs). length kvs)") (simp_all add: length_dropWhile_le le_imp_less_Suc)

definition reduceWork ::
  "(KeyValue list \<Rightarrow> KeyValue list) \<Rightarrow> (string \<Rightarrow> string list \<Rightarrow> string) \<Rightarrow> fs \<Rightarrow> Reply \<Rightarrow> fs" where
  "reduceWork sortf reducef disk reply =
     (let r = r_ReduceTaskId reply;
          reduceResult = concat (map (\<lambda>i. readPairs disk (MapOut i r)) (upto_int (r_NMap reply)))
      in disk(ReduceTmp r \<mapsto> Lines (reduceLoop reducef (sortf reduceResult))))"

text \<open>The requests of a worker: for a task, and the report of a task it has finished.\<close>

definition askArgs :: Args where
  "askArgs = \<lparr>AskForTask = True, a_IsMap = False, a_MapTaskId = 0, a_ReduceTaskId = 0, a_TaskNumber = 0\<rparr>"

definition reportArgs :: "Reply \<Rightarrow> Args" where
  "reportArgs reply =
     (if r_IsMap reply
      then \<lparr>AskForTask = False, a_IsMap = True, a_MapTaskId = r_MapTaskId reply, a_ReduceTaskId = 0,
            a_TaskNumber = r_TaskNumber reply\<rparr>
      else \<lparr>AskForTask = False, a_IsMap = False, a_MapTaskId = 0, a_ReduceTaskId = r_ReduceTaskId reply,
            a_TaskNumber = r_TaskNumber reply\<rparr>)"

section \<open>The sequential program\<close>

definition readInput :: "fs \<Rightarrow> string \<Rightarrow> string res" where
  "readInput disk name = (case disk (InputFile name) of Some (Text content) \<Rightarrow> Inr content | _ \<Rightarrow> Inl Fatal)"

definition sequential ::
  "(KeyValue list \<Rightarrow> KeyValue list) \<Rightarrow> (string \<Rightarrow> string \<Rightarrow> KeyValue list) \<Rightarrow>
   (string \<Rightarrow> string list \<Rightarrow> string) \<Rightarrow> fs \<Rightarrow> string list \<Rightarrow> fs res" where
  "sequential sortf mapf reducef disk names =
     and_then (fold_res (\<lambda>kvs name. and_then (readInput disk name) (\<lambda>content. Inr (kvs @ mapf name content))) [] names)
       (\<lambda>intermediate. Inr (disk(ReduceOut 0 \<mapsto> Lines (reduceLoop reducef (sortf intermediate)))))"

end
