(* ===== verification/MapReduceOut.thy ===== *)
theory MapReduceOut
  imports MapReduce
begin

text \<open>
  What a MapReduce job computes. The output of the loop over sorted pairs is one line for every
  key, the hash splits the pairs by key, and so the lines of all reduce tasks together are the
  lines of the sequential program.
\<close>

section \<open>Hash and split\<close>

lemma ihash_range: "0 \<le> ihash key" "ihash key < 2 ^ 31"
proof -
  show "0 \<le> ihash key" by (simp add: ihash_def)
  have "ihash key = uint (take_bit 31 (fnv32a key))"
    by (simp add: ihash_def take_bit_eq_mask mask_eq_exp_minus_1)
  also have "\<dots> < 2 ^ 31"
    using take_bit_int_less_exp [of 31 "uint (fnv32a key)"] by (simp add: unsigned_take_bit_eq)
  finally show "ihash key < 2 ^ 31" .
qed

lemma upto_int_simps:
  "length (upto_int n) = nat n" "0 \<le> i \<Longrightarrow> i < n \<Longrightarrow> upto_int n ! nat i = i"
  "set (upto_int n) = {0..<n}" "distinct (upto_int n)"
proof -
  show "set (upto_int n) = {0..<n}"
    by (auto simp: upto_int_def image_int_atLeastLessThan)
qed (simp_all add: upto_int_def distinct_map inj_on_def)

definition bucket :: "int \<Rightarrow> KeyValue list \<Rightarrow> int \<Rightarrow> KeyValue list" where
  "bucket n kvs r = filter (\<lambda>kv. ihash (Key kv) mod n = r) kvs"

lemma addPair_bucket:
  assumes "n > 0"
  shows "addPair n (map (bucket n kvs) (upto_int n)) kv = Inr (map (bucket n (kvs @ [kv])) (upto_int n))"
proof -
  let ?i = "ihash (Key kv) mod n"
  have i: "0 \<le> ?i" "?i < n" using assms by simp_all
  then have "(map (bucket n kvs) (upto_int n))[nat ?i := bucket n kvs ?i @ [kv]] = map (bucket n (kvs @ [kv])) (upto_int n)"
    by (intro nth_equalityI) (auto simp: upto_int_simps nth_list_update bucket_def upto_int_def)
  moreover have "nat ?i < nat n" using i by simp
  ultimately show ?thesis
    using assms i by (simp add: addPair_def Let_def upto_int_simps)
qed

lemma splitPairs_buckets: "n > 0 \<Longrightarrow> splitPairs n kvs = Inr (map (bucket n kvs) (upto_int n))"
proof (induction kvs rule: rev_induct)
  case Nil
  have "replicate (nat n) [] = map (bucket n []) (upto_int n)"
    by (intro nth_equalityI) (simp_all add: upto_int_simps bucket_def)
  then show ?case by (simp add: splitPairs_def)
next
  case (snoc kv kvs)
  then show ?case
    using addPair_bucket [of n kvs kv] by (simp add: splitPairs_def fold_res_snoc)
qed

section \<open>The lines of a reduce task\<close>

definition values_of :: "string \<Rightarrow> KeyValue list \<Rightarrow> string list" where
  "values_of k kvs = map Value (filter (\<lambda>kv. Key kv = k) kvs)"

text \<open>What \<open>sort.Sort\<close> promises, and functions that do not depend on the order of the values.\<close>

definition is_sort :: "(KeyValue list \<Rightarrow> KeyValue list) \<Rightarrow> bool" where
  "is_sort sortf \<longleftrightarrow> (\<forall>kvs. mset (sortf kvs) = mset kvs \<and> sorted (map Key (sortf kvs)))"

definition order_free :: "(string \<Rightarrow> string list \<Rightarrow> string) \<Rightarrow> bool" where
  "order_free reducef \<longleftrightarrow> (\<forall>k vs ws. mset vs = mset ws \<longrightarrow> reducef k vs = reducef k ws)"

lemma sorted_run:
  assumes "sorted (map Key (kv # rest))"
  shows "filter (\<lambda>x. Key x = Key kv) rest = takeWhile (\<lambda>x. Key x = Key kv) rest"
    and "x \<in> set (dropWhile (\<lambda>x. Key x = Key kv) rest) \<Longrightarrow> Key x \<noteq> Key kv"
proof -
  have "filter (\<lambda>x. Key x = Key kv) rest = takeWhile (\<lambda>x. Key x = Key kv) rest
      \<and> (\<forall>x \<in> set (dropWhile (\<lambda>x. Key x = Key kv) rest). Key x \<noteq> Key kv)"
    using assms
  proof (induction rest)
    case (Cons a rest)
    show ?case
    proof (cases "Key a = Key kv")
      case True
      have "sorted (map Key (kv # rest))"
        using Cons.prems by simp
      from Cons.IH [OF this] True show ?thesis
        by (simp only: filter.simps takeWhile.simps dropWhile.simps if_True simp_thms) blast
    next
      case False
      have "Key kv \<le> Key a" "\<forall>x \<in> set rest. Key a \<le> Key x"
        using Cons.prems by auto
      then have "\<forall>x \<in> set rest. Key x \<noteq> Key kv"
        using False by (metis order_antisym)
      then show ?thesis
        using False by (simp add: filter_empty_conv)
    qed
  qed simp
  then show "filter (\<lambda>x. Key x = Key kv) rest = takeWhile (\<lambda>x. Key x = Key kv) rest"
    "x \<in> set (dropWhile (\<lambda>x. Key x = Key kv) rest) \<Longrightarrow> Key x \<noteq> Key kv" by blast+
qed

lemma reduceLoop_lines:
  "sorted (map Key kvs) \<Longrightarrow>
   mset (reduceLoop reducef kvs) =
     image_mset (\<lambda>k. line k (reducef k (values_of k kvs))) (mset_set (Key ` set kvs))"
proof (induction reducef kvs rule: reduceLoop.induct)
  case (2 reducef kv rest)
  let ?P = "\<lambda>x. Key x = Key kv"
  let ?more = "dropWhile ?P rest"
  have sorted: "sorted (map Key ?more)"
    using "2.prems" sorted_dropWhile [of "map Key rest" "\<lambda>k. k = Key kv"] by (simp add: dropWhile_map comp_def)
  have other: "Key kv \<notin> Key ` set ?more"
    using sorted_run(2) [OF "2.prems"] by (metis imageE)
  have run: "\<And>x. x \<in> set (takeWhile ?P rest) \<Longrightarrow> Key x = Key kv"
    by (auto dest: set_takeWhileD)
  have "set rest = set (takeWhile ?P rest) \<union> set ?more"
    by (metis set_append takeWhile_dropWhile_id)
  moreover have "Key ` set (takeWhile ?P rest) \<subseteq> {Key kv}"
    using run by blast
  ultimately have keys: "Key ` set (kv # rest) = insert (Key kv) (Key ` set ?more)"
    by (auto simp: image_Un)
  have same: "values_of k (kv # rest) = values_of k ?more" if "k \<noteq> Key kv" for k
  proof -
    have "filter (\<lambda>x. Key x = k) rest = filter (\<lambda>x. Key x = k) (takeWhile ?P rest) @ filter (\<lambda>x. Key x = k) ?more"
      by (metis filter_append takeWhile_dropWhile_id)
    moreover have "filter (\<lambda>x. Key x = k) (takeWhile ?P rest) = []"
      using that run by (intro filter_False) blast
    ultimately show ?thesis
      using that by (simp add: values_of_def)
  qed
  have "values_of (Key kv) (kv # rest) = map Value (kv # takeWhile ?P rest)"
    using sorted_run(1) [OF "2.prems"] by (simp add: values_of_def)
  moreover have "image_mset (\<lambda>k. line k (reducef k (values_of k (kv # rest)))) (mset_set (Key ` set ?more)) =
      image_mset (\<lambda>k. line k (reducef k (values_of k ?more))) (mset_set (Key ` set ?more))"
  proof (rule image_mset_cong)
    fix k assume "k \<in># mset_set (Key ` set ?more)"
    then have "k \<noteq> Key kv" using other by (metis elem_mset_set finite_imageI finite_set)
    from same [OF this] show "line k (reducef k (values_of k (kv # rest))) = line k (reducef k (values_of k ?more))"
      by (rule arg_cong [where f = "\<lambda>vs. line k (reducef k vs)"])
  qed
  moreover note other
  ultimately show ?case
    using "2.IH" [OF sorted] keys by (simp del: list.set)
qed simp

lemma reduce_lines:
  assumes "is_sort sortf" and "order_free reducef"
  shows "mset (reduceLoop reducef (sortf kvs)) =
     image_mset (\<lambda>k. line k (reducef k (values_of k kvs))) (mset_set (Key ` set kvs))"
proof -
  have m: "mset (sortf kvs) = mset kvs" and s: "sorted (map Key (sortf kvs))"
    using assms(1) by (simp_all add: is_sort_def)
  have "mset (values_of k (sortf kvs)) = mset (values_of k kvs)" for k
    by (simp add: values_of_def m)
  then have "reducef k (values_of k (sortf kvs)) = reducef k (values_of k kvs)" for k
    using assms(2) unfolding order_free_def by blast
  moreover have "set (sortf kvs) = set kvs"
    using m by (metis set_mset_mset)
  ultimately show ?thesis
    using reduceLoop_lines [OF s, of reducef] by simp
qed

section \<open>All reduce tasks\<close>

lemma mset_concat_upt: "mset (concat (map g [0..<n])) = (\<Sum>r<n. mset (g r))"
  by (induction n) (simp_all add: add.commute)

lemma image_mset_sum: "image_mset f (\<Sum>r<(n :: nat). g r) = (\<Sum>r<n. image_mset f (g r))"
  by (induction n) simp_all

lemma split_mset:
  assumes "\<And>x. x \<in># M \<Longrightarrow> f x < (n :: nat)"
  shows "(\<Sum>r<n. filter_mset (\<lambda>x. f x = r) M) = M"
proof (rule multiset_eqI)
  fix x
  have "count (\<Sum>r<n. filter_mset (\<lambda>x. f x = r) M) x = (\<Sum>r<n. if r = f x then count M x else 0)"
    by (simp add: count_sum eq_commute)
  also have "\<dots> = count M x"
    using assms [of x] by (cases "x \<in># M") (simp_all add: not_in_iff)
  finally show "count (\<Sum>r<n. filter_mset (\<lambda>x. f x = r) M) x = count M x" .
qed

lemma buckets_lines:
  assumes "is_sort sortf" and "order_free reducef" and "n > 0"
  shows "mset (concat (map (\<lambda>r. reduceLoop reducef (sortf (bucket n kvs r))) (upto_int n))) =
     mset (reduceLoop reducef (sortf kvs))"
proof -
  let ?line = "\<lambda>k. line k (reducef k (values_of k kvs))" and ?K = "mset_set (Key ` set kvs)"
  let ?f = "\<lambda>k. nat (ihash k mod n)"
  have part: "mset (reduceLoop reducef (sortf (bucket n kvs (int r)))) = image_mset ?line (filter_mset (\<lambda>k. ?f k = r) ?K)" for r
  proof -
    have keys: "Key ` set (bucket n kvs (int r)) = {k \<in> Key ` set kvs. ?f k = r}"
      using assms(3) by (auto simp: bucket_def)
    have "values_of k (bucket n kvs (int r)) = values_of k kvs" if "?f k = r" for k
      using that assms(3) by (auto simp: values_of_def bucket_def intro!: arg_cong [where f = "map Value"] filter_cong)
    then show ?thesis
      unfolding reduce_lines [OF assms(1,2)] keys
      by (auto simp: filter_mset_mset_set intro!: image_mset_cong)
  qed
  have "mset (concat (map (\<lambda>r. reduceLoop reducef (sortf (bucket n kvs r))) (upto_int n))) =
      (\<Sum>r<nat n. image_mset ?line (filter_mset (\<lambda>k. ?f k = r) ?K))"
    by (simp add: upto_int_def comp_def mset_concat_upt part)
  also have "\<dots> = image_mset ?line (\<Sum>r<nat n. filter_mset (\<lambda>k. ?f k = r) ?K)"
    by (simp add: image_mset_sum)
  also have "(\<Sum>r<nat n. filter_mset (\<lambda>k. ?f k = r) ?K) = ?K"
    using assms(3) by (intro split_mset) simp
  finally show ?thesis
    using reduce_lines [OF assms(1,2), of kvs] by simp
qed

end
