(* ===== verification/MapReduceJob.thy ===== *)
theory MapReduceJob
  imports MapReduceOut
begin

text \<open>
  A MapReduce job as a step relation: the coordinator, its files, its timers and any number of
  workers. The steps are the requests of the workers (\<open>RPCHandler\<close>), their work (\<open>mapWork\<close>,
  \<open>reduceWork\<close>), crashes, lost replies, and the timers (\<open>MapTaskChecker\<close>, \<open>ReduceTaskChecker\<close>).

  A worker writes its files in one step. In the program it truncates a file and then writes it, so
  another worker or the coordinator can see the file empty in between; with \<open>careful = False\<close> this
  step is part of the relation.
\<close>

section \<open>Leases\<close>

text \<open>
  The numbering of assignments, by itself: tasks have a phase and a number, workers hold a task with
  the number it had when they got it. A worker that holds a task under its current number is the
  only one, and the task is then in phase 0; every task in phase 0 has a timer.
\<close>

definition lease_ok :: "('t \<Rightarrow> int) \<Rightarrow> ('t \<Rightarrow> int) \<Rightarrow> ('w \<Rightarrow> ('t \<times> int) option) \<Rightarrow> 't set \<Rightarrow> bool" where
  "lease_ok P N H T \<longleftrightarrow>
     (\<forall>w t k. H w = Some (t, k) \<longrightarrow> k \<le> N t \<and> (k = N t \<longrightarrow> P t = 0))
     \<and> (\<forall>w w' t. H w = Some (t, N t) \<longrightarrow> H w' = Some (t, N t) \<longrightarrow> w = w')
     \<and> (\<forall>t. P t = 0 \<longrightarrow> t \<in> T)"

lemma lease_okI:
  assumes "\<And>w t k. H w = Some (t, k) \<Longrightarrow> k \<le> N t" "\<And>w t. H w = Some (t, N t) \<Longrightarrow> P t = 0"
    "\<And>w w' t. H w = Some (t, N t) \<Longrightarrow> H w' = Some (t, N t) \<Longrightarrow> w = w'" "\<And>t. P t = 0 \<Longrightarrow> t \<in> T"
  shows "lease_ok P N H T"
  unfolding lease_ok_def using assms by blast

lemma lease_current: "lease_ok P N H T \<Longrightarrow> H w = Some (t, N t) \<Longrightarrow> P t = 0"
  by (simp add: lease_ok_def)

lemma lease_old: "lease_ok P N H T \<Longrightarrow> H w = Some (t, k) \<Longrightarrow> k \<le> N t"
  by (simp add: lease_ok_def)

lemma lease_unique: "lease_ok P N H T \<Longrightarrow> H w = Some (t, N t) \<Longrightarrow> H w' = Some (t, N t) \<Longrightarrow> w = w'"
  unfolding lease_ok_def by blast

lemma lease_timer: "lease_ok P N H T \<Longrightarrow> P t = 0 \<Longrightarrow> t \<in> T"
  by (simp add: lease_ok_def)

lemmas lease_facts = lease_current lease_old lease_unique lease_timer

lemma lease_start: "(\<And>t. P t \<noteq> 0) \<Longrightarrow> lease_ok P N (\<lambda>w. None) T"
  by (simp add: lease_ok_def)

lemma lease_drop: "lease_ok P N H T \<Longrightarrow> lease_ok P N (H(w := None)) T"
  by (rule lease_okI) (auto dest: lease_facts split: if_splits)

lemma lease_timer_done: "lease_ok P N H T \<Longrightarrow> P t \<noteq> 0 \<Longrightarrow> T - {t} \<subseteq> T' \<Longrightarrow> lease_ok P N H T'"
  by (rule lease_okI) (auto dest: lease_facts)

lemma lease_assign_lost:
  assumes "lease_ok P N H T" and "P t = -1"
  shows "lease_ok (P(t := 0)) N H (insert t T)"
  using assms by (intro lease_okI) (auto dest: lease_facts split: if_splits)

lemma lease_assign:
  assumes "lease_ok P N H T" and "P t = -1"
  shows "lease_ok (P(t := 0)) N (H(w := Some (t, N t))) (insert t T)"
proof -
  have none: "H w' \<noteq> Some (t, N t)" for w'
    using lease_current [OF assms(1), of w' t] assms(2) by auto
  show ?thesis
    using assms(1) none by (intro lease_okI) (auto dest: lease_facts split: if_splits)
qed

lemma lease_expire:
  assumes "lease_ok P N H T" and "T - {t} \<subseteq> T'"
  shows "lease_ok (P(t := -1)) (N(t := N t + 1)) H T'"
proof -
  have none: "H w' \<noteq> Some (t, N t + 1)" for w'
    using lease_old [OF assms(1), of w' t "N t + 1"] by auto
  have old: "k \<le> N t + 1" if "H w' = Some (t, k)" for w' k
    using lease_old [OF assms(1) that] by simp
  show ?thesis
    using assms none old by (intro lease_okI) (auto dest: lease_facts split: if_splits)
qed

lemma lease_finish:
  assumes "lease_ok P N H T" and "H w = Some (t, N t)"
  shows "lease_ok (P(t := 1)) N (H(w := None)) T"
proof -
  have only: "w' = w" if "H w' = Some (t, N t)" for w'
    using lease_unique [OF assms(1)] assms(2) that by blast
  show ?thesis
    using assms(1) only by (intro lease_okI) (auto dest: lease_facts split: if_splits)
qed

section \<open>The tasks of a coordinator\<close>

datatype task = MapT int | ReduceT int

definition phase :: "Coordinator \<Rightarrow> task \<Rightarrow> int" where
  "phase c t = (case t of
     MapT i \<Rightarrow> if 0 \<le> i \<and> nat i < length (MapTaskList c) then mt_Phase (MapTaskList c ! nat i) else 2
   | ReduceT i \<Rightarrow> if 0 \<le> i \<and> nat i < length (ReduceTaskList c) then rt_Phase (ReduceTaskList c ! nat i) else 2)"

definition number :: "Coordinator \<Rightarrow> task \<Rightarrow> int" where
  "number c t = (case t of
     MapT i \<Rightarrow> if 0 \<le> i \<and> nat i < length (MapTaskList c) then mt_TaskNumber (MapTaskList c ! nat i) else 0
   | ReduceT i \<Rightarrow> if 0 \<le> i \<and> nat i < length (ReduceTaskList c) then rt_TaskNumber (ReduceTaskList c ! nat i) else 0)"

definition timed :: "Coordinator \<Rightarrow> task set" where
  "timed c = (\<lambda>chk. case chk of MapChecker i \<Rightarrow> MapT i | ReduceChecker i \<Rightarrow> ReduceT i) ` set (timers c)"

lemma phase_cong:
  "MapTaskList c' = MapTaskList c \<Longrightarrow> ReduceTaskList c' = ReduceTaskList c \<Longrightarrow>
   phase c' = phase c \<and> number c' = number c"
  by (simp add: phase_def number_def fun_eq_iff split: task.split)

lemma phase_map_update:
  assumes "0 \<le> i" and "nat i < length (MapTaskList c)"
    and "MapTaskList c' = (MapTaskList c)[nat i := x]" and "ReduceTaskList c' = ReduceTaskList c"
  shows "phase c' = (phase c)(MapT i := mt_Phase x)" "number c' = (number c)(MapT i := mt_TaskNumber x)"
proof -
  have "nat j = nat i \<longleftrightarrow> j = i" if "0 \<le> j" for j
    using assms(1) that by (simp add: eq_nat_nat_iff)
  then show "phase c' = (phase c)(MapT i := mt_Phase x)" "number c' = (number c)(MapT i := mt_TaskNumber x)"
    using assms by (auto simp: phase_def number_def fun_eq_iff nth_list_update split: task.split)
qed

lemma phase_reduce_update:
  assumes "0 \<le> i" and "nat i < length (ReduceTaskList c)"
    and "ReduceTaskList c' = (ReduceTaskList c)[nat i := x]" and "MapTaskList c' = MapTaskList c"
  shows "phase c' = (phase c)(ReduceT i := rt_Phase x)" "number c' = (number c)(ReduceT i := rt_TaskNumber x)"
proof -
  have "nat j = nat i \<longleftrightarrow> j = i" if "0 \<le> j" for j
    using assms(1) that by (simp add: eq_nat_nat_iff)
  then show "phase c' = (phase c)(ReduceT i := rt_Phase x)" "number c' = (number c)(ReduceT i := rt_TaskNumber x)"
    using assms by (auto simp: phase_def number_def fun_eq_iff nth_list_update split: task.split)
qed

lemma firstIdle_found:
  "firstIdle ps k = -1 \<or> (\<exists>j < length ps. firstIdle ps k = k + int j \<and> ps ! j = -1)"
proof (induction ps arbitrary: k)
  case (Cons p ps)
  show ?case
  proof (cases "p = -1")
    case False
    then show ?thesis
      using Cons.IH [of "k + 1"] by (auto intro: exI [of _ "Suc j" for j])
  qed auto
qed simp

section \<open>The job\<close>

text \<open>
  What a job is started with: the input files, the number of reduce tasks, the files at the start,
  the functions of the application, and the sorting of the library.
\<close>

record app =
  app_files :: "string list"
  app_nReduce :: int
  app_disk :: fs
  app_mapf :: "string \<Rightarrow> string \<Rightarrow> KeyValue list"
  app_reducef :: "string \<Rightarrow> string list \<Rightarrow> string"
  app_sortf :: "KeyValue list \<Rightarrow> KeyValue list"

text \<open>
  Where a worker is in its loop: before a request, with a task, with the files of the task written,
  with its report being handled (the scan of the handler is done), gone.
\<close>

datatype wstate = Idle | Assigned Reply | Written Reply | Storing bool "bool option" | Exited

definition workerNext :: "Reply \<Rightarrow> wstate" where
  "workerNext reply =
     (if r_IsFinished reply then Exited
      else if r_IsMap reply then (if r_MapTaskId reply \<ge> 0 then Assigned reply else Idle)
      else (if r_ReduceTaskId reply \<ge> 0 then Assigned reply else Idle))"

record job =
  coord :: Coordinator
  disk :: fs
  wst :: "nat \<Rightarrow> wstate"

definition work :: "app \<Rightarrow> fs \<Rightarrow> Reply \<Rightarrow> fs res" where
  "work a d reply =
     (if r_IsMap reply then mapWork (app_mapf a) d reply
      else Inr (reduceWork (app_sortf a) (app_reducef a) d reply))"

definition taskChecker :: "Coordinator \<Rightarrow> checker \<Rightarrow> Coordinator res" where
  "taskChecker c chk = (case chk of MapChecker i \<Rightarrow> MapTaskChecker c i | ReduceChecker i \<Rightarrow> ReduceTaskChecker c i)"

definition startJob :: "app \<Rightarrow> job" where
  "startJob a = \<lparr>coord = MakeCoordinator (app_files a) (app_nReduce a), disk = app_disk a, wst = (\<lambda>w. Idle)\<rparr>"

text \<open>
  The steps. \<open>ask_lost\<close> is a request whose reply does not reach the worker, \<open>drop\<close> a worker that dies
  or whose report is lost, \<open>partial\<close> a worker that dies with some of its files written. \<open>truncate\<close> is
  the moment in which a worker has removed or truncated a file it is going to write.
\<close>

inductive mrstep :: "bool \<Rightarrow> app \<Rightarrow> job \<Rightarrow> job \<Rightarrow> bool" for careful a where
  ask: "wst s w = Idle \<Longrightarrow> RPCHandler (coord s) (disk s) askArgs = Inr (c', d', reply) \<Longrightarrow>
    mrstep careful a s (s\<lparr>coord := c', disk := d', wst := (wst s)(w := workerNext reply)\<rparr>)"
| ask_lost: "RPCHandler (coord s) (disk s) askArgs = Inr (c', d', reply) \<Longrightarrow>
    mrstep careful a s (s\<lparr>coord := c', disk := d'\<rparr>)"
| work: "wst s w = Assigned reply \<Longrightarrow> work a (disk s) reply = Inr d' \<Longrightarrow>
    mrstep careful a s (s\<lparr>disk := d', wst := (wst s)(w := Written reply)\<rparr>)"
| partial: "wst s w = Assigned reply \<Longrightarrow> work a (disk s) reply = Inr d' \<Longrightarrow>
    mrstep careful a s (s\<lparr>disk := (\<lambda>f. if f \<in> K then d' f else disk s f), wst := (wst s)(w := Exited)\<rparr>)"
| truncate: "\<not> careful \<Longrightarrow> wst s w = Assigned reply \<Longrightarrow>
    f = (if r_IsMap reply then MapTmp (r_MapTaskId reply) k else ReduceTmp (r_ReduceTaskId reply)) \<Longrightarrow>
    x \<in> {None, Some (if r_IsMap reply then Pairs [] else Lines [])} \<Longrightarrow>
    mrstep careful a s (s\<lparr>disk := (disk s)(f := x)\<rparr>)"
| report: "wst s w = Written reply \<Longrightarrow> reportScan (coord s) (disk s) (reportArgs reply) = Inr (c', d', found) \<Longrightarrow>
    mrstep careful a s (s\<lparr>coord := c', disk := d', wst := (wst s)(w := Storing (r_IsMap reply) found)\<rparr>)"
| store: "wst s w = Storing isMap found \<Longrightarrow>
    mrstep careful a s (s\<lparr>coord := reportStore isMap found (coord s), wst := (wst s)(w := Idle)\<rparr>)"
| drop: "wst s w \<in> {Assigned reply, Written reply} \<Longrightarrow> x \<in> {Idle, Exited} \<Longrightarrow>
    mrstep careful a s (s\<lparr>wst := (wst s)(w := x)\<rparr>)"
| timer: "chk \<in> set (timers (coord s)) \<Longrightarrow> taskChecker (coord s) chk = Inr c' \<Longrightarrow>
    mrstep careful a s (s\<lparr>coord := c'\<lparr>timers := remove1 chk (timers c')\<rparr>\<rparr>)"

section \<open>What the files hold\<close>

definition app_pairs :: "app \<Rightarrow> int \<Rightarrow> KeyValue list" where
  "app_pairs a m =
     (let name = app_files a ! nat m
      in case app_disk a (InputFile name) of Some (Text content) \<Rightarrow> app_mapf a name content | _ \<Rightarrow> [])"

definition app_bucket :: "app \<Rightarrow> int \<Rightarrow> int \<Rightarrow> KeyValue list" where
  "app_bucket a m r = bucket (app_nReduce a) (app_pairs a m) r"

definition app_out :: "app \<Rightarrow> int \<Rightarrow> string list" where
  "app_out a r = reduceLoop (app_reducef a)
     (app_sortf a (concat (map (\<lambda>m. app_bucket a m r) (upto_int (int (length (app_files a)))))))"

definition app_ok :: "app \<Rightarrow> bool" where
  "app_ok a \<longleftrightarrow> app_nReduce a > 0
     \<and> (\<forall>name \<in> set (app_files a). \<exists>content. app_disk a (InputFile name) = Some (Text content))
     \<and> (\<forall>m k. app_disk a (MapTmp m k) = None \<and> app_disk a (MapOut m k) = None)
     \<and> (\<forall>r. app_disk a (ReduceTmp r) = None \<and> app_disk a (ReduceOut r) = None)"

definition disk_ok :: "app \<Rightarrow> fs \<Rightarrow> bool" where
  "disk_ok a d \<longleftrightarrow> (\<forall>name. d (InputFile name) = app_disk a (InputFile name))
     \<and> (\<forall>m k. d (MapTmp m k) \<in> {None, Some (Pairs (app_bucket a m k))})
     \<and> (\<forall>m k. d (MapOut m k) \<in> {None, Some (Pairs (app_bucket a m k))})
     \<and> (\<forall>r. d (ReduceTmp r) \<in> {None, Some (Lines (app_out a r))})
     \<and> (\<forall>r. d (ReduceOut r) \<in> {None, Some (Lines (app_out a r))})"

lemma disk_ok_mix: "disk_ok a d \<Longrightarrow> disk_ok a d' \<Longrightarrow> disk_ok a (\<lambda>f. if f \<in> K then d' f else d f)"
  by (simp add: disk_ok_def)

lemma writeTmp_fold:
  "set ks \<subseteq> {0..<n} \<Longrightarrow>
   fold_res (writeTmp m (map g (upto_int n))) d ks =
     Inr (\<lambda>f. case f of MapTmp m' k \<Rightarrow> if m' = m \<and> k \<in> set ks then Some (Pairs (g k)) else d f | _ \<Rightarrow> d f)"
proof (induction ks arbitrary: d)
  case Nil
  then show ?case by (simp add: fun_eq_iff split: file_name.split)
next
  case (Cons k ks)
  then have "index_res (map g (upto_int n)) k = Inr (g k)"
    by (simp add: index_res_Inr upto_int_simps)
  then have "writeTmp m (map g (upto_int n)) d k = Inr (d(MapTmp m k \<mapsto> Pairs (g k)))"
    by (simp add: writeTmp_def)
  then show ?case
    using Cons by (auto simp: fun_eq_iff split: file_name.split)
qed

lemma rename_fold:
  "distinct ks \<Longrightarrow> \<forall>k \<in> set ks. d (MapTmp i k) \<noteq> None \<Longrightarrow>
   fold_res (\<lambda>d k. rename d (MapTmp i k) (MapOut i k)) d ks =
     Inr (\<lambda>f. case f of
        MapTmp m k \<Rightarrow> if m = i \<and> k \<in> set ks then None else d f
      | MapOut m k \<Rightarrow> if m = i \<and> k \<in> set ks then d (MapTmp i k) else d f
      | _ \<Rightarrow> d f)"
proof (induction ks arbitrary: d)
  case Nil
  then show ?case by (simp add: fun_eq_iff split: file_name.split)
next
  case (Cons k ks)
  then obtain x where "d (MapTmp i k) = Some x" by auto
  let ?d = "(d(MapTmp i k := None))(MapOut i k \<mapsto> x)"
  have "rename d (MapTmp i k) (MapOut i k) = Inr ?d"
    using \<open>d (MapTmp i k) = Some x\<close> by (simp add: rename_def)
  then have "fold_res (\<lambda>d k. rename d (MapTmp i k) (MapOut i k)) d (k # ks) =
      fold_res (\<lambda>d k. rename d (MapTmp i k) (MapOut i k)) ?d ks"
    by (simp only: fold_res.simps and_then_simps)
  also have "\<dots> = Inr (\<lambda>f. case f of
        MapTmp m k \<Rightarrow> if m = i \<and> k \<in> set ks then None else ?d f
      | MapOut m k \<Rightarrow> if m = i \<and> k \<in> set ks then ?d (MapTmp i k) else ?d f
      | _ \<Rightarrow> ?d f)"
    using Cons.prems by (intro Cons.IH) auto
  finally show ?case
    using Cons.prems \<open>d (MapTmp i k) = Some x\<close>
    by (elim trans, intro arg_cong [where f = Inr] ext) (auto split: file_name.split)
qed

section \<open>The invariant\<close>

definition maps_done :: "Coordinator \<Rightarrow> bool" where
  "maps_done c \<longleftrightarrow> list_all (\<lambda>t. mt_Phase t = 1) (MapTaskList c)"

definition static_ok :: "app \<Rightarrow> Coordinator \<Rightarrow> bool" where
  "static_ok a c \<longleftrightarrow> c_NMap c = int (length (app_files a)) \<and> c_NReduce c = app_nReduce a
     \<and> map FileName (MapTaskList c) = app_files a \<and> length (ReduceTaskList c) = nat (app_nReduce a)"

definition task_of :: "Reply \<Rightarrow> task" where
  "task_of reply = (if r_IsMap reply then MapT (r_MapTaskId reply) else ReduceT (r_ReduceTaskId reply))"

fun held :: "wstate \<Rightarrow> Reply option" where
  "held (Assigned reply) = Some reply"
| "held (Written reply) = Some reply"
| "held _ = None"

definition leases :: "(nat \<Rightarrow> wstate) \<Rightarrow> nat \<Rightarrow> (task \<times> int) option" where
  "leases ws w = map_option (\<lambda>reply. (task_of reply, r_TaskNumber reply)) (held (ws w))"

definition reply_ok :: "app \<Rightarrow> Coordinator \<Rightarrow> Reply \<Rightarrow> bool" where
  "reply_ok a c reply \<longleftrightarrow> r_NReduce reply = app_nReduce a \<and> r_NMap reply = int (length (app_files a))
     \<and> (if r_IsMap reply
        then 0 \<le> r_MapTaskId reply \<and> nat (r_MapTaskId reply) < length (app_files a)
             \<and> MapFileName reply = app_files a ! nat (r_MapTaskId reply)
        else 0 \<le> r_ReduceTaskId reply \<and> r_ReduceTaskId reply < app_nReduce a \<and> maps_done c)"

definition done_ok :: "app \<Rightarrow> Coordinator \<Rightarrow> fs \<Rightarrow> bool" where
  "done_ok a c d \<longleftrightarrow>
     (\<forall>m. \<forall>k \<in> {0..<app_nReduce a}. phase c (MapT m) = 1 \<longrightarrow> d (MapOut m k) \<noteq> None)
     \<and> (\<forall>r. phase c (ReduceT r) = 1 \<longrightarrow> d (ReduceOut r) \<noteq> None)
     \<and> (IsMapFinished c \<longrightarrow> maps_done c) \<and> (c_IsFinished c \<longrightarrow> Done c)"

definition tmp_there :: "app \<Rightarrow> fs \<Rightarrow> Reply \<Rightarrow> bool" where
  "tmp_there a d reply \<longleftrightarrow>
     (if r_IsMap reply then \<forall>k \<in> {0..<app_nReduce a}. d (MapTmp (r_MapTaskId reply) k) \<noteq> None
      else d (ReduceTmp (r_ReduceTaskId reply)) \<noteq> None)"

definition worker_ok :: "app \<Rightarrow> Coordinator \<Rightarrow> fs \<Rightarrow> wstate \<Rightarrow> bool" where
  "worker_ok a c d x \<longleftrightarrow> (case x of
     Assigned reply \<Rightarrow> reply_ok a c reply
   | Written reply \<Rightarrow> reply_ok a c reply \<and> (r_TaskNumber reply = number c (task_of reply) \<longrightarrow> tmp_there a d reply)
   | Storing isMap found \<Rightarrow> found = Some True \<longrightarrow> (if isMap then maps_done c else Done c)
   | _ \<Rightarrow> True)"

definition job_inv :: "app \<Rightarrow> job \<Rightarrow> bool" where
  "job_inv a s \<longleftrightarrow> static_ok a (coord s) \<and> disk_ok a (disk s) \<and> done_ok a (coord s) (disk s)
     \<and> lease_ok (phase (coord s)) (number (coord s)) (leases (wst s)) (timed (coord s))
     \<and> (\<forall>w. worker_ok a (coord s) (disk s) (wst s w))"

text \<open>What every step of the coordinator keeps: the tasks, and that a finished task is finished.\<close>

definition coord_le :: "Coordinator \<Rightarrow> Coordinator \<Rightarrow> bool" where
  "coord_le c c' \<longleftrightarrow> c_NMap c' = c_NMap c \<and> c_NReduce c' = c_NReduce c
     \<and> map FileName (MapTaskList c') = map FileName (MapTaskList c)
     \<and> length (ReduceTaskList c') = length (ReduceTaskList c)
     \<and> (\<forall>t. phase c t = 1 \<longrightarrow> phase c' t = 1)"

lemma coord_le_refl: "coord_le c c"
  by (simp add: coord_le_def)

lemma coord_le_trans: "coord_le c c1 \<Longrightarrow> coord_le c1 c2 \<Longrightarrow> coord_le c c2"
  by (simp add: coord_le_def)

lemma maps_done_phase: "maps_done c \<longleftrightarrow> (\<forall>i < length (MapTaskList c). phase c (MapT (int i)) = 1)"
  by (simp add: maps_done_def list_all_length phase_def)

lemma Done_phase: "Done c \<longleftrightarrow> (\<forall>i < length (ReduceTaskList c). phase c (ReduceT (int i)) = 1)"
  by (simp add: Done_def list_all_length phase_def)

lemma coord_le_done: "coord_le c c' \<Longrightarrow> (maps_done c \<longrightarrow> maps_done c') \<and> (Done c \<longrightarrow> Done c')"
  using map_eq_imp_length_eq [of FileName "MapTaskList c'" FileName "MapTaskList c"]
  by (simp add: coord_le_def maps_done_phase Done_phase)

lemma coord_le_static: "coord_le c c' \<Longrightarrow> static_ok a c \<Longrightarrow> static_ok a c'"
  by (simp add: coord_le_def static_ok_def)

lemma coord_le_reply: "coord_le c c' \<Longrightarrow> reply_ok a c reply \<Longrightarrow> reply_ok a c' reply"
  using coord_le_done by (auto simp: reply_ok_def)

lemma static_ok_length: "static_ok a c \<Longrightarrow> length (MapTaskList c) = length (app_files a)"
  by (metis length_map static_ok_def)

lemma leases_upd: "leases (ws(w := x)) = (leases ws)(w := map_option (\<lambda>reply. (task_of reply, r_TaskNumber reply)) (held x))"
  by (simp add: leases_def fun_eq_iff)

lemma leases_keep: "held x = held (ws w) \<Longrightarrow> leases (ws(w := x)) = leases ws"
  by (simp add: leases_def fun_eq_iff)

text \<open>A worker other than the one that moves keeps its part of the invariant.\<close>

lemma worker_ok_mono:
  assumes "worker_ok a c d x" and "coord_le c c'"
    and "\<And>reply. x = Written reply \<Longrightarrow> r_TaskNumber reply = number c' (task_of reply) \<Longrightarrow>
           r_TaskNumber reply = number c (task_of reply) \<and> (tmp_there a d reply \<longrightarrow> tmp_there a d' reply)"
  shows "worker_ok a c' d' x"
  using assms(1,3) coord_le_reply [OF assms(2)] coord_le_done [OF assms(2)]
  by (auto simp: worker_ok_def split: wstate.splits)

end
