(* ===== verification/MapReduceInv.thy ===== *)
theory MapReduceInv
  imports MapReduceJob
begin

text \<open>
  The invariant of a MapReduce job is kept by every step: requests, work, reports in two parts, lost
  messages, crashes and timers. What the output files hold when the reduce tasks are done, and
  schedules to run a job on concrete inputs.
\<close>

section \<open>Requests for a task\<close>

definition granted :: "app \<Rightarrow> Coordinator \<Rightarrow> Coordinator \<Rightarrow> Reply \<Rightarrow> bool" where
  "granted a c c' reply \<longleftrightarrow> phase c (task_of reply) = -1 \<and> phase c' = (phase c)(task_of reply := 0)
     \<and> number c' = number c \<and> timed c' = insert (task_of reply) (timed c) \<and> coord_le c c'
     \<and> IsMapFinished c' = IsMapFinished c \<and> c_IsFinished c' = c_IsFinished c
     \<and> r_TaskNumber reply = number c (task_of reply) \<and> workerNext reply = Assigned reply \<and> reply_ok a c' reply"

lemma assignMap_granted:
  assumes st: "static_ok a c" and as: "assignMap c = Inr (c', reply)"
  shows "granted a c c' reply \<or> (c' = c \<and> held (workerNext reply) = None)"
proof (cases "GetUnassignedMapTask c \<ge> 0")
  case True
  then obtain j where j: "GetUnassignedMapTask c = int j" "j < length (MapTaskList c)" "mt_Phase (MapTaskList c ! j) = -1"
    using firstIdle_found [of "map mt_Phase (MapTaskList c)" 0] by (auto simp: GetUnassignedMapTask_def)
  let ?t = "MapTaskList c ! j"
  have c': "c' = c\<lparr>MapTaskList := (MapTaskList c)[j := SetMapPhase 0 ?t], timers := timers c @ [MapChecker (int j)]\<rparr>"
    and reply: "reply = (emptyReply c)\<lparr>r_IsMap := True, r_MapTaskId := int j, MapFileName := FileName ?t, r_TaskNumber := mt_TaskNumber ?t\<rparr>"
    using as j by (auto simp: assignMap_def Let_def)
  have t: "task_of reply = MapT (int j)" by (simp add: reply task_of_def)
  have ph: "phase c' = (phase c)(MapT (int j) := 0)" "number c' = number c"
    using phase_map_update [of "int j" c c' "SetMapPhase 0 ?t"] j by (simp_all add: c' SetMapPhase_def number_def fun_eq_iff)
  have "map FileName (MapTaskList c') = map FileName (MapTaskList c)"
    using j by (simp add: c' SetMapPhase_def map_update list_update_same_conv)
  then have le: "coord_le c c'"
    using ph(1) j by (simp add: coord_le_def c' phase_def)
  have name: "FileName ?t = app_files a ! j" "length (app_files a) = length (MapTaskList c)"
    using st j nth_map [of j "MapTaskList c" FileName] static_ok_length [OF st] by (simp_all add: static_ok_def)
  have "granted a c c' reply"
    using j ph le name st unfolding granted_def t
    by (simp add: phase_def number_def timed_def c' reply reply_ok_def emptyReply_def workerNext_def static_ok_def)
  then show ?thesis ..
next
  case False
  then show ?thesis
    using as by (auto simp: assignMap_def Let_def workerNext_def)
qed

lemma assignReduce_granted:
  assumes st: "static_ok a c" and dn: "maps_done c" and as: "assignReduce c = Inr (c', reply)"
  shows "granted a c c' reply \<or> (c' = c \<and> held (workerNext reply) = None)"
proof (cases "GetUnassignedReduceTask c \<ge> 0")
  case True
  then obtain j where j: "GetUnassignedReduceTask c = int j" "j < length (ReduceTaskList c)" "rt_Phase (ReduceTaskList c ! j) = -1"
    using firstIdle_found [of "map rt_Phase (ReduceTaskList c)" 0] by (auto simp: GetUnassignedReduceTask_def)
  let ?t = "ReduceTaskList c ! j"
  have c': "c' = c\<lparr>ReduceTaskList := (ReduceTaskList c)[j := SetReducePhase 0 ?t], timers := timers c @ [ReduceChecker (int j)]\<rparr>"
    and reply: "reply = (emptyReply c)\<lparr>r_IsMap := False, r_ReduceTaskId := int j, r_TaskNumber := rt_TaskNumber ?t\<rparr>"
    using as j by (auto simp: assignReduce_def Let_def)
  have t: "task_of reply = ReduceT (int j)" by (simp add: reply task_of_def)
  have ph: "phase c' = (phase c)(ReduceT (int j) := 0)" "number c' = number c"
    using phase_reduce_update [of "int j" c c' "SetReducePhase 0 ?t"] j by (simp_all add: c' SetReducePhase_def number_def fun_eq_iff)
  have le: "coord_le c c'"
    using ph(1) j by (simp add: coord_le_def c' phase_def)
  have len: "int j < app_nReduce a" "maps_done c'"
    using st j dn coord_le_done [OF le] by (auto simp: static_ok_def)
  have "granted a c c' reply"
    using j ph le len st unfolding granted_def t
    by (simp add: phase_def number_def timed_def c' reply reply_ok_def emptyReply_def workerNext_def static_ok_def)
  then show ?thesis ..
next
  case False
  then show ?thesis
    using as by (auto simp: assignReduce_def Let_def workerNext_def)
qed


lemma ask_granted:
  assumes "static_ok a c" and "done_ok a c d" and "RPCHandler c d askArgs = Inr (c', d', reply)"
  shows "d' = d \<and> (granted a c c' reply \<or> (c' = c \<and> held (workerNext reply) = None))"
proof (cases "c_IsFinished c")
  case True
  then show ?thesis
    using assms(3) by (auto simp: RPCHandler_def askArgs_def workerNext_def)
next
  case False
  then have d: "d' = d" and as: "(if IsMapFinished c then assignReduce c else assignMap c) = Inr (c', reply)"
    using assms(3) by (auto simp: RPCHandler_def askArgs_def)
  show ?thesis
  proof (cases "IsMapFinished c")
    case True
    then have "maps_done c" using assms(2) by (simp add: done_ok_def)
    then show ?thesis
      using assignReduce_granted [OF assms(1)] as True d by simp
  next
    case False
    then show ?thesis
      using assignMap_granted [OF assms(1)] as d by simp
  qed
qed

lemma done_ok_keep:
  assumes "done_ok a c d" "coord_le c c'" "\<And>t. phase c' t = 1 \<Longrightarrow> phase c t = 1"
    "IsMapFinished c' = IsMapFinished c" "c_IsFinished c' = c_IsFinished c"
  shows "done_ok a c' d"
  using assms(1,3,4,5) coord_le_done [OF assms(2)] unfolding done_ok_def by auto

lemma worker_ok_idle: "worker_ok a c d Idle" "worker_ok a c d Exited"
  by (simp_all add: worker_ok_def)

lemma workerNext_ok: "held (workerNext reply) = None \<Longrightarrow> worker_ok a c d (workerNext reply)"
  by (auto simp: workerNext_def worker_ok_idle split: if_splits)

lemma granted_workers:
  assumes "granted a c c' reply" and "worker_ok a c d x"
  shows "worker_ok a c' d x"
  using assms by (intro worker_ok_mono [OF assms(2)]) (auto simp: granted_def)

lemma job_granted:
  assumes inv: "job_inv a s" and g: "granted a (coord s) c' reply"
  shows "job_inv a (s\<lparr>coord := c'\<rparr>)"
    and "wst s w = Idle \<Longrightarrow> job_inv a (s\<lparr>coord := c', wst := (wst s)(w := Assigned reply)\<rparr>)"
proof -
  let ?c = "coord s" and ?t = "task_of reply"
  have parts: "static_ok a c'" "done_ok a c' (disk s)" "\<And>w. worker_ok a c' (disk s) (wst s w)"
    using inv g granted_workers [OF g] done_ok_keep [of a ?c "disk s" c'] coord_le_static [of ?c c' a]
    by (auto simp: job_inv_def granted_def split: if_splits)
  have l: "lease_ok (phase ?c) (number ?c) (leases (wst s)) (timed ?c)"
    using inv by (simp add: job_inv_def)
  have ph: "phase c' = (phase ?c)(?t := 0)" "number c' = number ?c" "timed c' = insert ?t (timed ?c)" "phase ?c ?t = -1"
    and num: "r_TaskNumber reply = number ?c ?t" and ok: "reply_ok a c' reply"
    using g by (simp_all add: granted_def)
  show "job_inv a (s\<lparr>coord := c'\<rparr>)"
    using parts lease_assign_lost [OF l ph(4)] inv by (simp add: job_inv_def ph)
  show "job_inv a (s\<lparr>coord := c', wst := (wst s)(w := Assigned reply)\<rparr>)"
    using parts lease_assign [OF l ph(4), of w] inv ok
    by (simp add: job_inv_def ph leases_upd num) (simp add: worker_ok_def)
qed

lemma job_ask:
  assumes inv: "job_inv a s" and h: "RPCHandler (coord s) (disk s) askArgs = Inr (c', d', reply)"
  shows "job_inv a (s\<lparr>coord := c', disk := d'\<rparr>)"
    and "wst s w = Idle \<Longrightarrow> job_inv a (s\<lparr>coord := c', disk := d', wst := (wst s)(w := workerNext reply)\<rparr>)"
proof -
  have d: "d' = disk s" and or: "granted a (coord s) c' reply \<or> (c' = coord s \<and> held (workerNext reply) = None)"
    using ask_granted [of a, OF _ _ h] inv by (simp_all add: job_inv_def)
  have same: "s\<lparr>coord := c', disk := d'\<rparr> = s\<lparr>coord := c'\<rparr>"
    "s\<lparr>coord := c', disk := d', wst := ws\<rparr> = s\<lparr>coord := c', wst := ws\<rparr>" for ws
    by (simp_all add: d)
  show "job_inv a (s\<lparr>coord := c', disk := d'\<rparr>)"
    using or job_granted(1) [OF inv] inv unfolding same by auto
  show "job_inv a (s\<lparr>coord := c', disk := d', wst := (wst s)(w := workerNext reply)\<rparr>)" if idle: "wst s w = Idle"
    using or
  proof
    assume "granted a (coord s) c' reply"
    then show ?thesis
      using job_granted(2) [OF inv _ idle] unfolding same by (simp add: granted_def)
  next
    assume n: "c' = coord s \<and> held (workerNext reply) = None"
    then have "leases ((wst s)(w := workerNext reply)) = leases (wst s)"
      using idle by (simp add: leases_keep)
    then show ?thesis
      using n inv workerNext_ok [of reply] unfolding same by (simp add: job_inv_def)
  qed
qed

section \<open>The work\<close>

lemma disk_ok_outD:
  assumes "disk_ok a d"
  shows "d (MapOut m k) \<noteq> None \<Longrightarrow> d (MapOut m k) = Some (Pairs (app_bucket a m k))"
    and "d (ReduceOut r) \<noteq> None \<Longrightarrow> d (ReduceOut r) = Some (Lines (app_out a r))"
  using assms unfolding disk_ok_def by (metis insertE singletonD)+

lemma mapWork_ok:
  assumes app: "app_ok a" and d: "disk_ok a d" and r: "reply_ok a c reply" "r_IsMap reply"
  shows "\<exists>d'. mapWork (app_mapf a) d reply = Inr d' \<and> disk_ok a d' \<and> tmp_there a d' reply \<and> (\<forall>f. d f \<noteq> None \<longrightarrow> d' f \<noteq> None)"
proof -
  let ?n = "app_nReduce a" and ?m = "r_MapTaskId reply" and ?name = "MapFileName reply"
  have name: "?name = app_files a ! nat ?m" "?name \<in> set (app_files a)" and n: "r_NReduce reply = ?n" "?n > 0"
    using r app by (simp_all add: reply_ok_def app_ok_def)
  obtain content where content: "app_disk a (InputFile ?name) = Some (Text content)"
    using app name(2) by (auto simp: app_ok_def)
  then have "d (InputFile ?name) = Some (Text content)" and p: "app_pairs a ?m = app_mapf a ?name content"
    using d by (simp_all add: disk_ok_def app_pairs_def name(1))
  then have "mapWork (app_mapf a) d reply =
      fold_res (writeTmp ?m (map (bucket ?n (app_pairs a ?m)) (upto_int ?n))) d (upto_int ?n)"
    using n by (simp add: mapWork_def splitPairs_buckets)
  also have "\<dots> = Inr (\<lambda>f. case f of MapTmp m' k \<Rightarrow> if m' = ?m \<and> k \<in> set (upto_int ?n) then Some (Pairs (bucket ?n (app_pairs a ?m) k)) else d f | _ \<Rightarrow> d f)"
    by (rule writeTmp_fold) (simp add: upto_int_simps)
  finally show ?thesis
    using d r(2) by (auto simp: disk_ok_def tmp_there_def app_bucket_def upto_int_simps split: file_name.split)
qed

lemma reduceWork_ok:
  assumes d: "disk_ok a d" and st: "static_ok a c" and dn: "done_ok a c d" and r: "reply_ok a c reply" "\<not> r_IsMap reply"
  shows "disk_ok a (reduceWork (app_sortf a) (app_reducef a) d reply)"
    and "tmp_there a (reduceWork (app_sortf a) (app_reducef a) d reply) reply"
    and "d f \<noteq> None \<Longrightarrow> reduceWork (app_sortf a) (app_reducef a) d reply f \<noteq> None"
proof -
  let ?r = "r_ReduceTaskId reply"
  have "readPairs d (MapOut i ?r) = app_bucket a i ?r" if i: "i \<in> set (upto_int (int (length (app_files a))))" for i
  proof -
    have "0 \<le> i" "nat i < length (MapTaskList c)"
      using i static_ok_length [OF st] by (auto simp: upto_int_simps)
    moreover have "\<forall>i < length (MapTaskList c). phase c (MapT (int i)) = 1"
      using r by (simp add: reply_ok_def maps_done_phase)
    ultimately have "phase c (MapT i) = 1"
      by (metis int_nat_eq)
    then have "d (MapOut i ?r) \<noteq> None"
      using dn r \<open>0 \<le> i\<close> by (simp add: done_ok_def reply_ok_def)
    then have "d (MapOut i ?r) = Some (Pairs (app_bucket a i ?r))"
      by (rule disk_ok_outD(1) [OF d])
    then show ?thesis by (simp add: readPairs_def)
  qed
  then have "map (\<lambda>i. readPairs d (MapOut i ?r)) (upto_int (r_NMap reply)) =
      map (\<lambda>i. app_bucket a i ?r) (upto_int (int (length (app_files a))))"
    using r by (simp add: reply_ok_def)
  then have w: "reduceWork (app_sortf a) (app_reducef a) d reply = d(ReduceTmp ?r \<mapsto> Lines (app_out a ?r))"
    by (simp add: reduceWork_def app_out_def Let_def)
  show "disk_ok a (reduceWork (app_sortf a) (app_reducef a) d reply)"
    and "tmp_there a (reduceWork (app_sortf a) (app_reducef a) d reply) reply"
    and "d f \<noteq> None \<Longrightarrow> reduceWork (app_sortf a) (app_reducef a) d reply f \<noteq> None"
    using d r(2) by (auto simp: w disk_ok_def tmp_there_def)
qed

lemma work_ok:
  assumes "app_ok a" "job_inv a s" "wst s w = Assigned reply"
  shows "\<exists>d'. work a (disk s) reply = Inr d' \<and> disk_ok a d' \<and> tmp_there a d' reply \<and> (\<forall>f. disk s f \<noteq> None \<longrightarrow> d' f \<noteq> None)"
proof -
  have w: "worker_ok a (coord s) (disk s) (wst s w)"
    and i: "disk_ok a (disk s)" "static_ok a (coord s)" "done_ok a (coord s) (disk s)"
    using assms(2) by (simp_all add: job_inv_def)
  have r: "reply_ok a (coord s) reply"
    using w assms(3) by (simp add: worker_ok_def)
  show ?thesis
  proof (cases "r_IsMap reply")
    case True
    then show ?thesis
      using mapWork_ok [OF assms(1) i(1) r] by (simp add: work_def)
  next
    case False
    then show ?thesis
      using reduceWork_ok [OF i r] by (simp add: work_def)
  qed
qed

lemma job_disk:
  assumes inv: "job_inv a s" and d': "disk_ok a d'" and more: "\<And>f. disk s f \<noteq> None \<Longrightarrow> d' f \<noteq> None"
  shows "job_inv a (s\<lparr>disk := d'\<rparr>)"
proof -
  have tmp: "tmp_there a (disk s) reply \<longrightarrow> tmp_there a d' reply" for reply
    using more unfolding tmp_there_def by (cases "r_IsMap reply") (simp_all only: if_True if_False, blast+)
  have "worker_ok a (coord s) d' (wst s w)" for w
  proof (rule worker_ok_mono [OF _ coord_le_refl])
    show "worker_ok a (coord s) (disk s) (wst s w)" using inv by (simp add: job_inv_def)
  qed (use tmp in simp)
  moreover have "done_ok a (coord s) d'"
    using inv more unfolding job_inv_def done_ok_def by blast
  ultimately show ?thesis
    using inv d' by (simp add: job_inv_def)
qed

lemma job_drop:
  assumes "job_inv a s" and "x \<in> {Idle, Exited}"
  shows "job_inv a (s\<lparr>wst := (wst s)(w := x)\<rparr>)"
proof -
  have "held x = None" "worker_ok a (coord s) (disk s) x"
    using assms(2) by (auto simp: worker_ok_idle)
  then show ?thesis
    using assms(1) by (simp add: job_inv_def leases_upd lease_drop)
qed

lemma job_work:
  assumes app: "app_ok a" and inv: "job_inv a s" and w: "wst s w = Assigned reply" and wk: "work a (disk s) reply = Inr d'"
  shows "job_inv a (s\<lparr>disk := d', wst := (wst s)(w := Written reply)\<rparr>)"
    and "job_inv a (s\<lparr>disk := (\<lambda>f. if f \<in> K then d' f else disk s f), wst := (wst s)(w := Exited)\<rparr>)"
proof -
  have d': "disk_ok a d'" "tmp_there a d' reply" "\<And>f. disk s f \<noteq> None \<Longrightarrow> d' f \<noteq> None"
    using work_ok [OF app inv w] wk by auto
  have wok: "worker_ok a (coord s) (disk s) (wst s w)" and d: "disk_ok a (disk s)"
    using inv by (simp_all add: job_inv_def)
  have r: "reply_ok a (coord s) reply"
    using wok by (simp add: worker_ok_def w)
  have "leases ((wst s)(w := Written reply)) = leases (wst s)"
    using w by (simp add: leases_keep)
  then show "job_inv a (s\<lparr>disk := d', wst := (wst s)(w := Written reply)\<rparr>)"
    using job_disk [OF inv d'(1) d'(3)] d'(2) r by (simp add: job_inv_def worker_ok_def)
  have "job_inv a (s\<lparr>disk := (\<lambda>f. if f \<in> K then d' f else disk s f)\<rparr>)"
    using d'(3) by (intro job_disk [OF inv] disk_ok_mix d d'(1)) auto
  then show "job_inv a (s\<lparr>disk := (\<lambda>f. if f \<in> K then d' f else disk s f), wst := (wst s)(w := Exited)\<rparr>)"
    using job_drop [of a "s\<lparr>disk := (\<lambda>f. if f \<in> K then d' f else disk s f)\<rparr>" Exited w] by simp
qed

section \<open>Reports\<close>

fun is_tmp :: "task \<Rightarrow> file_name \<Rightarrow> bool" where
  "is_tmp t (MapTmp m k) \<longleftrightarrow> t = MapT m"
| "is_tmp t (ReduceTmp r) \<longleftrightarrow> t = ReduceT r"
| "is_tmp t _ \<longleftrightarrow> False"

fun out_there :: "app \<Rightarrow> fs \<Rightarrow> task \<Rightarrow> bool" where
  "out_there a d (MapT m) \<longleftrightarrow> (\<forall>k \<in> {0..<app_nReduce a}. d (MapOut m k) \<noteq> None)"
| "out_there a d (ReduceT r) \<longleftrightarrow> d (ReduceOut r) \<noteq> None"

lemma done_ok_out:
  "done_ok a c d \<longleftrightarrow> (\<forall>t. phase c t = 1 \<longrightarrow> out_there a d t) \<and> (IsMapFinished c \<longrightarrow> maps_done c) \<and> (c_IsFinished c \<longrightarrow> Done c)"
proof -
  have "(\<forall>t. phase c t = 1 \<longrightarrow> out_there a d t) \<longleftrightarrow>
    (\<forall>m. phase c (MapT m) = 1 \<longrightarrow> out_there a d (MapT m)) \<and> (\<forall>r. phase c (ReduceT r) = 1 \<longrightarrow> out_there a d (ReduceT r))"
    by (metis task.exhaust)
  then show ?thesis by (auto simp: done_ok_def)
qed

lemma tmp_there_keep:
  assumes "tmp_there a d reply" and "\<And>f. d f \<noteq> None \<Longrightarrow> \<not> is_tmp t f \<Longrightarrow> d' f \<noteq> None" and "task_of reply \<noteq> t"
  shows "tmp_there a d' reply"
  using assms by (cases "r_IsMap reply") (simp_all add: tmp_there_def task_of_def)

lemma out_there_keep:
  assumes "out_there a d u" and "\<And>f. d f \<noteq> None \<Longrightarrow> \<not> is_tmp t f \<Longrightarrow> d' f \<noteq> None"
  shows "out_there a d' u"
  using assms by (cases u) simp_all

lemma job_finish:
  assumes inv: "job_inv a s" and w: "wst s w = Written reply"
    and cur: "r_TaskNumber reply = number (coord s) (task_of reply)"
    and ph: "phase c' = (phase (coord s))(task_of reply := 1)" "number c' = number (coord s)" "timed c' = timed (coord s)"
    and le: "coord_le (coord s) c'"
    and fl: "IsMapFinished c' = IsMapFinished (coord s)" "c_IsFinished c' = c_IsFinished (coord s)"
    and d': "disk_ok a d'" "\<And>f. disk s f \<noteq> None \<Longrightarrow> \<not> is_tmp (task_of reply) f \<Longrightarrow> d' f \<noteq> None"
      "out_there a d' (task_of reply)"
    and found: "found = Some True \<longrightarrow> (if r_IsMap reply then maps_done c' else Done c')"
  shows "job_inv a (s\<lparr>coord := c', disk := d', wst := (wst s)(w := Storing (r_IsMap reply) found)\<rparr>)"
proof -
  let ?c = "coord s" and ?t = "task_of reply"
  have l: "lease_ok (phase ?c) (number ?c) (leases (wst s)) (timed ?c)"
    and wok: "worker_ok a ?c (disk s) (wst s v)" and dn: "done_ok a ?c (disk s)" for v
    using inv by (simp_all add: job_inv_def)
  have h: "leases (wst s) w = Some (?t, number ?c ?t)"
    using w cur by (simp add: leases_def)
  have "worker_ok a c' d' (wst s v)" if "v \<noteq> w" for v
  proof (rule worker_ok_mono [OF wok le])
    fix reply'
    assume v: "wst s v = Written reply'" and "r_TaskNumber reply' = number c' (task_of reply')"
    then have n: "r_TaskNumber reply' = number ?c (task_of reply')" by (simp add: ph)
    then have "task_of reply' \<noteq> ?t"
      using lease_unique [OF l h, of v] v \<open>v \<noteq> w\<close> by (auto simp: leases_def)
    then show "r_TaskNumber reply' = number ?c (task_of reply') \<and> (tmp_there a (disk s) reply' \<longrightarrow> tmp_there a d' reply')"
      using n tmp_there_keep [of a "disk s" reply' ?t d'] d'(2) by blast
  qed
  moreover have "done_ok a c' d'"
    using dn d'(3) out_there_keep [of a "disk s" _ ?t d'] d'(2) coord_le_done [OF le] fl
    unfolding done_ok_out ph(1) by (metis fun_upd_apply)
  moreover have "lease_ok (phase c') (number c') (leases ((wst s)(w := Storing (r_IsMap reply) found))) (timed c')"
    using lease_finish [OF l h] by (simp add: ph leases_upd)
  ultimately show ?thesis
    using inv d'(1) found coord_le_static [OF le] by (simp add: job_inv_def worker_ok_def)
qed

lemma job_stale:
  assumes "job_inv a s"
  shows "job_inv a (s\<lparr>wst := (wst s)(w := Storing isMap None)\<rparr>)"
  using assms by (simp add: job_inv_def leases_upd lease_drop) (simp add: worker_ok_def)

lemma reportMap_ok:
  assumes inv: "job_inv a s" and w: "wst s w = Written reply" and m: "r_IsMap reply"
    and cur: "r_TaskNumber reply = number (coord s) (task_of reply)"
  shows "\<exists>c' d' found. reportMapScan (coord s) (disk s) (reportArgs reply) = Inr (c', d', Some found) \<and> phase c' (task_of reply) = 1
      \<and> job_inv a (s\<lparr>coord := c', disk := d', wst := (wst s)(w := Storing True (Some found))\<rparr>)"
proof -
  let ?c = "coord s" and ?d = "disk s" and ?i = "r_MapTaskId reply" and ?ks = "upto_int (app_nReduce a)"
  have wok: "worker_ok a ?c ?d (wst s w)" and st: "static_ok a ?c" and dok: "disk_ok a ?d"
    using inv by (simp_all add: job_inv_def)
  have r: "0 \<le> ?i" "nat ?i < length (MapTaskList ?c)" and tmp: "\<forall>k \<in> set ?ks. ?d (MapTmp ?i k) \<noteq> None"
    using wok w m cur static_ok_length [OF st] by (auto simp: worker_ok_def reply_ok_def tmp_there_def upto_int_simps)
  let ?t = "MapTaskList ?c ! nat ?i"
  let ?c' = "?c\<lparr>MapTaskList := (MapTaskList ?c)[nat ?i := SetMapPhase 1 ?t]\<rparr>"
  define d' where "d' = (\<lambda>f. case f of
        MapTmp m k \<Rightarrow> if m = ?i \<and> k \<in> set ?ks then None else ?d f
      | MapOut m k \<Rightarrow> if m = ?i \<and> k \<in> set ?ks then ?d (MapTmp ?i k) else ?d f
      | _ \<Rightarrow> ?d f)"
  have ren: "fold_res (\<lambda>d k. rename d (MapTmp ?i k) (MapOut ?i k)) ?d ?ks = Inr d'"
    unfolding d'_def by (rule rename_fold [OF upto_int_simps(4) tmp])
  have t: "task_of reply = MapT ?i" and n: "r_TaskNumber reply = mt_TaskNumber ?t" and nr: "c_NReduce ?c = app_nReduce a"
    using m cur r st by (simp_all add: task_of_def number_def static_ok_def)
  have scan: "reportMapScan ?c ?d (reportArgs reply) = Inr (?c', d', Some (maps_done ?c'))"
    using r n ren m nr by (simp add: reportMapScan_def reportArgs_def maps_done_def Let_def)
  have ph: "phase ?c' = (phase ?c)(task_of reply := 1)" "number ?c' = number ?c"
    using phase_map_update [of ?i ?c ?c' "SetMapPhase 1 ?t"] r by (simp_all add: t SetMapPhase_def number_def fun_eq_iff)
  have le: "coord_le ?c ?c'"
    using ph r by (simp add: coord_le_def SetMapPhase_def map_update list_update_same_conv)
  have d'ok: "disk_ok a d'" "out_there a d' (task_of reply)"
    using dok tmp by (simp_all add: d'_def disk_ok_def t upto_int_simps)
  have keep: "d' f \<noteq> None" if "?d f \<noteq> None" "\<not> is_tmp (task_of reply) f" for f
    using that tmp by (cases f) (simp_all add: d'_def t)
  have "job_inv a (s\<lparr>coord := ?c', disk := d', wst := (wst s)(w := Storing (r_IsMap reply) (Some (maps_done ?c')))\<rparr>)"
    by (rule job_finish [OF inv w cur ph _ le _ _ d'ok(1) keep d'ok(2)]) (simp_all add: m timed_def)
  then show ?thesis
    using scan m ph(1) by auto
qed

lemma reportReduce_ok:
  assumes inv: "job_inv a s" and w: "wst s w = Written reply" and m: "\<not> r_IsMap reply"
    and cur: "r_TaskNumber reply = number (coord s) (task_of reply)"
  shows "\<exists>c' d' found. reportReduceScan (coord s) (disk s) (reportArgs reply) = Inr (c', d', Some found) \<and> phase c' (task_of reply) = 1
      \<and> job_inv a (s\<lparr>coord := c', disk := d', wst := (wst s)(w := Storing False (Some found))\<rparr>)"
proof -
  let ?c = "coord s" and ?d = "disk s" and ?i = "r_ReduceTaskId reply"
  have wok: "worker_ok a ?c ?d (wst s w)" and st: "static_ok a ?c" and dok: "disk_ok a ?d"
    using inv by (simp_all add: job_inv_def)
  have r: "0 \<le> ?i" "nat ?i < length (ReduceTaskList ?c)" and "?d (ReduceTmp ?i) \<noteq> None"
    using wok w m cur st by (auto simp: worker_ok_def reply_ok_def tmp_there_def static_ok_def)
  then obtain x where x: "?d (ReduceTmp ?i) = Some x" by auto
  let ?t = "ReduceTaskList ?c ! nat ?i"
  let ?c' = "?c\<lparr>ReduceTaskList := (ReduceTaskList ?c)[nat ?i := SetReducePhase 1 ?t]\<rparr>"
  let ?d' = "(?d(ReduceTmp ?i := None))(ReduceOut ?i \<mapsto> x)"
  have t: "task_of reply = ReduceT ?i" and n: "r_TaskNumber reply = rt_TaskNumber ?t"
    using m cur r by (simp_all add: task_of_def number_def)
  have scan: "reportReduceScan ?c ?d (reportArgs reply) = Inr (?c', ?d', Some (Done ?c'))"
    using r n x m by (simp add: reportReduceScan_def reportArgs_def rename_def Let_def)
  have ph: "phase ?c' = (phase ?c)(task_of reply := 1)" "number ?c' = number ?c"
    using phase_reduce_update [of ?i ?c ?c' "SetReducePhase 1 ?t"] r by (simp_all add: t SetReducePhase_def number_def fun_eq_iff)
  have le: "coord_le ?c ?c'"
    using ph r by (simp add: coord_le_def)
  have "x = Lines (app_out a ?i)"
    using dok x unfolding disk_ok_def by (metis insertE option.distinct(1) option.inject singletonD)
  then have d'ok: "disk_ok a ?d'" "out_there a ?d' (task_of reply)"
    using dok by (simp_all add: disk_ok_def t)
  have keep: "?d' f \<noteq> None" if "?d f \<noteq> None" "\<not> is_tmp (task_of reply) f" for f
    using that by (cases f) (auto simp: t)
  have "job_inv a (s\<lparr>coord := ?c', disk := ?d', wst := (wst s)(w := Storing (r_IsMap reply) (Some (Done ?c')))\<rparr>)"
    by (rule job_finish [OF inv w cur ph _ le _ _ d'ok(1) keep d'ok(2)]) (simp_all add: m timed_def)
  then show ?thesis
    using scan m ph(1) by auto
qed

lemma report_outcome:
  assumes inv: "job_inv a s" and w: "wst s w = Written reply"
  shows "\<exists>c' d' found. reportScan (coord s) (disk s) (reportArgs reply) = Inr (c', d', found)
      \<and> (found = None) = (r_TaskNumber reply \<noteq> number (coord s) (task_of reply))
      \<and> (found = None \<or> phase c' (task_of reply) = 1) \<and> (found \<noteq> None \<or> c' = coord s \<and> d' = disk s)
      \<and> job_inv a (s\<lparr>coord := c', disk := d', wst := (wst s)(w := Storing (r_IsMap reply) found)\<rparr>)"
proof -
  let ?c = "coord s"
  have wok: "worker_ok a ?c (disk s) (wst s w)" and st: "static_ok a ?c"
    using inv by (simp_all add: job_inv_def)
  have args: "a_IsMap (reportArgs reply) = r_IsMap reply" "a_TaskNumber (reportArgs reply) = r_TaskNumber reply"
    by (simp_all add: reportArgs_def)
  show ?thesis
  proof (cases "r_TaskNumber reply = number ?c (task_of reply)")
    case True
    then show ?thesis
      using reportMap_ok [OF inv w _ True] reportReduce_ok [OF inv w _ True] args
      by (cases "r_IsMap reply") (fastforce simp: reportScan_def)+
  next
    case False
    have "reply_ok a ?c reply" using wok w by (simp add: worker_ok_def)
    then have "reportScan ?c (disk s) (reportArgs reply) = Inr (?c, disk s, None)"
      using False st static_ok_length [OF st] unfolding reportScan_def args(1)
      by (cases "r_IsMap reply")
        (auto simp: reportMapScan_def reportReduceScan_def reportArgs_def reply_ok_def task_of_def number_def static_ok_def)
    then show ?thesis
      using job_stale [OF inv, of w "r_IsMap reply"] False by simp
  qed
qed

lemma job_store:
  assumes inv: "job_inv a s" and w: "wst s w = Storing isMap found"
  shows "job_inv a (s\<lparr>coord := reportStore isMap found (coord s), wst := (wst s)(w := Idle)\<rparr>)"
proof -
  let ?c = "coord s" and ?c' = "reportStore isMap found (coord s)"
  have same: "MapTaskList ?c' = MapTaskList ?c" "ReduceTaskList ?c' = ReduceTaskList ?c" "timers ?c' = timers ?c"
    "c_NMap ?c' = c_NMap ?c" "c_NReduce ?c' = c_NReduce ?c"
    by (simp_all add: reportStore_def split: option.split)
  then have ph: "phase ?c' = phase ?c" "number ?c' = number ?c" "timed ?c' = timed ?c"
    using phase_cong [of ?c' ?c] by (simp_all add: timed_def)
  have le: "coord_le ?c ?c'" by (simp add: coord_le_def same ph)
  have wok: "worker_ok a ?c (disk s) (wst s v)" and dn: "done_ok a ?c (disk s)" for v
    using inv by (simp_all add: job_inv_def)
  have "worker_ok a ?c' (disk s) (wst s v)" for v
    by (rule worker_ok_mono [OF wok le]) (simp add: ph)
  moreover have "done_ok a ?c' (disk s)"
    using dn wok [of w] w coord_le_done [OF le] unfolding done_ok_out ph
    by (auto simp: worker_ok_def reportStore_def split: option.splits if_splits)
  ultimately have "job_inv a (s\<lparr>coord := ?c'\<rparr>)"
    using inv coord_le_static [OF le] by (simp add: job_inv_def ph)
  then show ?thesis
    using job_drop [of a "s\<lparr>coord := ?c'\<rparr>" Idle w] by simp
qed

section \<open>Timers\<close>

definition checker_task :: "checker \<Rightarrow> task" where
  "checker_task chk = (case chk of MapChecker i \<Rightarrow> MapT i | ReduceChecker i \<Rightarrow> ReduceT i)"

lemma timed_image: "timed c = checker_task ` set (timers c)"
  by (simp add: timed_def checker_task_def)

lemma taskChecker_spec:
  assumes "taskChecker c chk = Inr c'"
  shows "(phase c (checker_task chk) = 1 \<and> c' = c)
    \<or> (phase c (checker_task chk) \<noteq> 1 \<and> phase c' = (phase c)(checker_task chk := -1)
        \<and> number c' = (number c)(checker_task chk := number c (checker_task chk) + 1)
        \<and> coord_le c c' \<and> timers c' = timers c \<and> IsMapFinished c' = IsMapFinished c \<and> c_IsFinished c' = c_IsFinished c)"
proof (cases chk)
  case (MapChecker i)
  then have ck: "MapTaskChecker c i = Inr c'" and t: "checker_task chk = MapT i"
    using assms by (simp_all add: taskChecker_def checker_task_def)
  have r: "0 \<le> i" "nat i < length (MapTaskList c)"
    using ck by (auto simp: MapTaskChecker_def dest: index_res_InrD)
  let ?t = "MapTaskList c ! nat i"
  let ?x = "(SetMapPhase (-1) ?t)\<lparr>mt_TaskNumber := mt_TaskNumber ?t + 1\<rparr>"
  show ?thesis
  proof (cases "mt_Phase ?t = 1")
    case True
    then show ?thesis using ck r by (simp add: t MapTaskChecker_def phase_def)
  next
    case False
    then have c': "c' = c\<lparr>MapTaskList := (MapTaskList c)[nat i := ?x]\<rparr>"
      using ck r by (simp add: MapTaskChecker_def)
    have ph: "phase c' = (phase c)(MapT i := -1)" "number c' = (number c)(MapT i := mt_TaskNumber ?t + 1)"
      using phase_map_update [of i c c' ?x] r by (simp_all add: c' SetMapPhase_def)
    then show ?thesis
      using r False by (simp add: t coord_le_def phase_def number_def c' SetMapPhase_def map_update list_update_same_conv)
  qed
next
  case (ReduceChecker i)
  then have ck: "ReduceTaskChecker c i = Inr c'" and t: "checker_task chk = ReduceT i"
    using assms by (simp_all add: taskChecker_def checker_task_def)
  have r: "0 \<le> i" "nat i < length (ReduceTaskList c)"
    using ck by (auto simp: ReduceTaskChecker_def dest: index_res_InrD)
  let ?t = "ReduceTaskList c ! nat i"
  let ?x = "(SetReducePhase (-1) ?t)\<lparr>rt_TaskNumber := rt_TaskNumber ?t + 1\<rparr>"
  show ?thesis
  proof (cases "rt_Phase ?t = 1")
    case True
    then show ?thesis using ck r by (simp add: t ReduceTaskChecker_def phase_def)
  next
    case False
    then have c': "c' = c\<lparr>ReduceTaskList := (ReduceTaskList c)[nat i := ?x]\<rparr>"
      using ck r by (simp add: ReduceTaskChecker_def)
    have ph: "phase c' = (phase c)(ReduceT i := -1)" "number c' = (number c)(ReduceT i := rt_TaskNumber ?t + 1)"
      using phase_reduce_update [of i c c' ?x] r by (simp_all add: c' SetReducePhase_def)
    then show ?thesis
      using r False by (simp add: t coord_le_def phase_def number_def c' SetReducePhase_def)
  qed
qed

lemma taskChecker_total:
  assumes "phase c (checker_task chk) = 0"
  shows "\<exists>c'. taskChecker c chk = Inr c'"
  using assms
  by (cases chk) (auto simp: phase_def checker_task_def taskChecker_def MapTaskChecker_def ReduceTaskChecker_def split: if_splits)

lemma timed_remove: "timed c - {checker_task chk} \<subseteq> timed (c'\<lparr>timers := remove1 chk (timers c)\<rparr>)"
proof -
  have "set (timers c) - {chk} \<subseteq> set (remove1 chk (timers c))"
    using in_set_remove1 by fastforce
  then show ?thesis
    by (auto simp: timed_image)
qed

lemma job_timer:
  assumes inv: "job_inv a s" and ck: "taskChecker (coord s) chk = Inr c'"
  shows "job_inv a (s\<lparr>coord := c'\<lparr>timers := remove1 chk (timers c')\<rparr>\<rparr>)"
proof -
  let ?c = "coord s" and ?c'' = "c'\<lparr>timers := remove1 chk (timers c')\<rparr>" and ?t = "checker_task chk"
  have l: "lease_ok (phase ?c) (number ?c) (leases (wst s)) (timed ?c)" and dn: "done_ok a ?c (disk s)"
    and wok: "worker_ok a ?c (disk s) (wst s v)" for v
    using inv by (simp_all add: job_inv_def)
  have ph: "phase ?c'' = phase c'" "number ?c'' = number c'" using phase_cong [of ?c'' c'] by simp_all
  from taskChecker_spec [OF ck] show ?thesis
  proof (elim disjE conjE)
    assume p: "phase ?c ?t = 1" and c': "c' = ?c"
    have le: "coord_le ?c ?c''" unfolding coord_le_def ph by (simp add: c')
    have lease: "lease_ok (phase ?c) (number ?c) (leases (wst s)) (timed ?c'')"
      using timed_remove [of ?c chk c'] lease_timer_done [OF l, of ?t] p c' by simp
    have "worker_ok a ?c'' (disk s) (wst s v)" for v
      using ph c' by (intro worker_ok_mono [OF wok le]) simp
    moreover have "done_ok a ?c'' (disk s)"
      using ph c' by (intro done_ok_keep [OF dn le]) auto
    ultimately show ?thesis
      using inv lease coord_le_static [OF le] ph c' by (simp add: job_inv_def)
  next
    assume p: "phase ?c ?t \<noteq> 1" "phase c' = (phase ?c)(?t := -1)" "number c' = (number ?c)(?t := number ?c ?t + 1)"
      "coord_le ?c c'" "timers c' = timers ?c" "IsMapFinished c' = IsMapFinished ?c" "c_IsFinished c' = c_IsFinished ?c"
    have le: "coord_le ?c ?c''" using p(4) unfolding coord_le_def ph by simp
    have lease: "lease_ok (phase c') (number c') (leases (wst s)) (timed ?c'')"
      using timed_remove [of ?c chk c'] lease_expire [OF l, of ?t] p by simp
    have "worker_ok a ?c'' (disk s) (wst s v)" for v
    proof (rule worker_ok_mono [OF wok le])
      fix reply
      assume v: "wst s v = Written reply" "r_TaskNumber reply = number ?c'' (task_of reply)"
      have "r_TaskNumber reply \<le> number ?c (task_of reply)"
        using lease_old [OF l, of v "task_of reply"] v(1) by (simp add: leases_def)
      then show "r_TaskNumber reply = number ?c (task_of reply)
          \<and> (tmp_there a (disk s) reply \<longrightarrow> tmp_there a (disk s) reply)"
        using v(2) p(3) ph by (auto split: if_splits)
    qed
    moreover have "done_ok a ?c'' (disk s)"
      using ph p by (intro done_ok_keep [OF dn le]) (auto split: if_splits)
    ultimately show ?thesis
      using inv lease coord_le_static [OF le] ph by (simp add: job_inv_def)
  qed
qed

section \<open>Every reachable state\<close>

lemma job_inv_start:
  assumes "app_ok a"
  shows "job_inv a (startJob a)"
proof -
  let ?c = "MakeCoordinator (app_files a) (app_nReduce a)"
  have "phase ?c t \<noteq> 0" "phase ?c t \<noteq> 1" for t
    by (simp_all add: phase_def MakeCoordinator_def split: task.split)
  then have l: "lease_ok (phase ?c) (number ?c) (\<lambda>w. None) (timed ?c)" and dn: "done_ok a ?c (app_disk a)"
    by (simp_all add: lease_start done_ok_out) (simp_all add: MakeCoordinator_def)
  have "static_ok a ?c"
    by (simp add: static_ok_def MakeCoordinator_def upto_int_simps comp_def)
  moreover have "disk_ok a (app_disk a)"
    using assms by (simp add: disk_ok_def app_ok_def)
  moreover have "leases (\<lambda>w. Idle) = (\<lambda>w. None)"
    by (simp add: leases_def fun_eq_iff)
  ultimately show ?thesis
    using l dn by (simp add: job_inv_def startJob_def worker_ok_idle)
qed

lemma mrstep_inv:
  assumes "mrstep True a s s'" "app_ok a" "job_inv a s"
  shows "job_inv a s'"
  using assms(1)
proof cases
  case (report w reply c' d' found)
  then show ?thesis
    using report_outcome [OF assms(3), of w reply] by auto
next
  case (drop w reply x)
  then show ?thesis
    using job_drop [OF assms(3)] by simp
qed (simp_all add: job_ask [OF assms(3)] job_work [OF assms(2,3)] job_store [OF assms(3)] job_timer [OF assms(3)])

lemma reach_inv:
  assumes "(mrstep True a)\<^sup>*\<^sup>* (startJob a) s" "app_ok a"
  shows "job_inv a s"
  using assms(1) by induction (use mrstep_inv assms(2) job_inv_start in blast)+

section \<open>The output\<close>

definition out_lines :: "fs \<Rightarrow> int \<Rightarrow> string list" where
  "out_lines d r = (case d (ReduceOut r) of Some (Lines ls) \<Rightarrow> ls | _ \<Rightarrow> [])"

definition all_pairs :: "app \<Rightarrow> KeyValue list" where
  "all_pairs a = concat (map (app_pairs a) (upto_int (int (length (app_files a)))))"

lemma app_out_bucket:
  "app_out a r = reduceLoop (app_reducef a) (app_sortf a (bucket (app_nReduce a) (all_pairs a) r))"
  by (simp add: app_out_def all_pairs_def app_bucket_def [abs_def] bucket_def [abs_def] filter_concat comp_def)

lemma sequential_pairs:
  assumes "\<forall>name \<in> set names. \<exists>content. d (InputFile name) = Some (Text content)"
  shows "fold_res (\<lambda>kvs name. and_then (readInput d name) (\<lambda>content. Inr (kvs @ mapf name content))) kvs names =
    Inr (kvs @ concat (map (\<lambda>name. case d (InputFile name) of Some (Text content) \<Rightarrow> mapf name content | _ \<Rightarrow> []) names))"
  using assms by (induction names arbitrary: kvs) (auto simp: readInput_def)

lemma sequential_result:
  assumes "app_ok a"
  shows "sequential (app_sortf a) (app_mapf a) (app_reducef a) (app_disk a) (app_files a) =
    Inr ((app_disk a)(ReduceOut 0 \<mapsto> Lines (reduceLoop (app_reducef a) (app_sortf a (all_pairs a)))))"
proof -
  let ?p = "\<lambda>name. case app_disk a (InputFile name) of Some (Text content) \<Rightarrow> app_mapf a name content | _ \<Rightarrow> []"
  have "map (app_pairs a) (upto_int (int (length (app_files a)))) = map ?p (app_files a)"
    by (rule nth_equalityI) (simp_all add: upto_int_def app_pairs_def Let_def)
  then show ?thesis
    using assms sequential_pairs [of "app_files a" "app_disk a" "app_mapf a" "[]"]
    by (simp add: sequential_def app_ok_def all_pairs_def)
qed

lemma done_out_lines:
  assumes inv: "job_inv a s" and dn: "Done (coord s)" and r: "r \<in> set (upto_int (app_nReduce a))"
  shows "out_lines (disk s) r = app_out a r"
proof -
  have "length (ReduceTaskList (coord s)) = nat (app_nReduce a)"
    using inv by (simp add: job_inv_def static_ok_def)
  moreover have "0 \<le> r" "r < app_nReduce a" using r by (simp_all add: upto_int_simps)
  ultimately have "phase (coord s) (ReduceT r) = 1"
    using dn unfolding Done_phase by (metis int_nat_eq nat_less_eq_zless)
  then have "disk s (ReduceOut r) \<noteq> None"
    using inv by (simp add: job_inv_def done_ok_def)
  moreover have "disk_ok a (disk s)" using inv by (simp add: job_inv_def)
  ultimately have "disk s (ReduceOut r) = Some (Lines (app_out a r))"
    using disk_ok_outD(2) by blast
  then show ?thesis by (simp add: out_lines_def)
qed

section \<open>Schedules\<close>

text \<open>A schedule of steps, to run a job on concrete inputs.\<close>

datatype act = Ask nat | DoWork nat | Truncate nat int | Report nat | Store nat | Expire checker

definition ok :: "'a res \<Rightarrow> 'a option" where
  "ok x = (case x of Inl e \<Rightarrow> None | Inr y \<Rightarrow> Some y)"

fun run :: "bool \<Rightarrow> app \<Rightarrow> job \<Rightarrow> act \<Rightarrow> job option" where
  "run careful a s (Ask w) =
     (case (wst s w, RPCHandler (coord s) (disk s) askArgs) of
        (Idle, Inr (c', d', reply)) \<Rightarrow> Some (s\<lparr>coord := c', disk := d', wst := (wst s)(w := workerNext reply)\<rparr>)
      | _ \<Rightarrow> None)"
| "run careful a s (DoWork w) =
     (case wst s w of
        Assigned reply \<Rightarrow> map_option (\<lambda>d'. s\<lparr>disk := d', wst := (wst s)(w := Written reply)\<rparr>) (ok (work a (disk s) reply))
      | _ \<Rightarrow> None)"
| "run careful a s (Truncate w k) =
     (case wst s w of
        Assigned reply \<Rightarrow> if careful \<or> \<not> r_IsMap reply then None
          else Some (s\<lparr>disk := (disk s)(MapTmp (r_MapTaskId reply) k := Some (Pairs []))\<rparr>)
      | _ \<Rightarrow> None)"
| "run careful a s (Report w) =
     (case wst s w of
        Written reply \<Rightarrow> map_option (\<lambda>(c', d', found).
          s\<lparr>coord := c', disk := d', wst := (wst s)(w := Storing (r_IsMap reply) found)\<rparr>)
            (ok (reportScan (coord s) (disk s) (reportArgs reply)))
      | _ \<Rightarrow> None)"
| "run careful a s (Store w) =
     (case wst s w of
        Storing isMap found \<Rightarrow> Some (s\<lparr>coord := reportStore isMap found (coord s), wst := (wst s)(w := Idle)\<rparr>)
      | _ \<Rightarrow> None)"
| "run careful a s (Expire chk) =
     (if chk \<in> set (timers (coord s))
      then map_option (\<lambda>c'. s\<lparr>coord := c'\<lparr>timers := remove1 chk (timers c')\<rparr>\<rparr>) (ok (taskChecker (coord s) chk))
      else None)"

fun runs :: "bool \<Rightarrow> app \<Rightarrow> job \<Rightarrow> act list \<Rightarrow> job option" where
  "runs careful a s [] = Some s"
| "runs careful a s (x # xs) = (case run careful a s x of None \<Rightarrow> None | Some s' \<Rightarrow> runs careful a s' xs)"

lemma ok_Some: "ok x = Some y \<longleftrightarrow> x = Inr y"
  by (simp add: ok_def split: sum.split)

lemma run_step: "run careful a s x = Some s' \<Longrightarrow> mrstep careful a s s'"
proof (induction careful a s x rule: run.induct)
  case (3 careful a s w k)
  then show ?case
    by (auto split: wstate.splits if_splits intro: mrstep.truncate [where k = k])
qed (auto simp: ok_Some split: wstate.splits sum.splits prod.splits if_splits intro: mrstep.intros)

lemma runs_reach: "runs careful a s xs = Some s' \<Longrightarrow> (mrstep careful a)\<^sup>*\<^sup>* s s'"
proof (induction xs arbitrary: s)
  case (Cons x xs)
  then obtain s1 where "run careful a s x = Some s1" "(mrstep careful a)\<^sup>*\<^sup>* s1 s'"
    by (auto split: option.splits)
  then show ?case
    by (meson converse_rtranclp_into_rtranclp run_step)
qed simp

fun actor :: "act \<Rightarrow> nat option" where
  "actor (Ask w) = Some w"
| "actor (DoWork w) = Some w"
| "actor (Truncate w k) = Some w"
| "actor (Report w) = Some w"
| "actor (Store w) = Some w"
| "actor (Expire chk) = None"

lemma run_other: "run careful a s x = Some s' \<Longrightarrow> Some w \<noteq> actor x \<Longrightarrow> wst s' w = wst s w"
  by (cases x) (auto split: wstate.splits sum.splits prod.splits if_splits)

lemma runs_other: "runs careful a s xs = Some s' \<Longrightarrow> Some w \<notin> actor ` set xs \<Longrightarrow> wst s' w = wst s w"
  by (induction xs arbitrary: s) (auto split: option.splits simp: run_other [where w = w])

end
