(* ===== verification/MapReduceApps.thy ===== *)
theory MapReduceApps
  imports MapReduceSpec GoStrings
begin

text \<open>
  The applications that run on MapReduce: word count (\<open>mrapps/wc.go\<close>), the indexer
  (\<open>mrapps/indexer.go\<close>) and the pure parts of two test applications (\<open>nocrash.go\<close>,
  \<open>early_exit.go\<close>), and the output of a finished job of the first two.

  The Unicode table behind \<open>unicode.IsLetter\<close> is an argument, and so is the order in which the indexer ranges over its map.
\<close>

section \<open>The applications\<close>

definition wc_Map :: "(nat \<Rightarrow> bool) \<Rightarrow> string \<Rightarrow> string \<Rightarrow> KeyValue list" where
  "wc_Map isLetter filename contents =
     (let words = FieldsFunc contents (\<lambda>r. \<not> isLetter r)
      in map (\<lambda>w. \<lparr>Key = w, Value = ''1''\<rparr>) words)"

definition wc_Reduce :: "string \<Rightarrow> string list \<Rightarrow> string" where
  "wc_Reduce key vs = Itoa (length vs)"

text \<open>The keys of the map \<open>m\<close> are the different words, in the order \<open>pick\<close> that the runtime picks.\<close>

definition indexer_Map ::
  "(string list \<Rightarrow> string list) \<Rightarrow> (nat \<Rightarrow> bool) \<Rightarrow> string \<Rightarrow> string \<Rightarrow> KeyValue list" where
  "indexer_Map pick isLetter document value =
     (let words = FieldsFunc value (\<lambda>x. \<not> isLetter x)
      in map (\<lambda>w. \<lparr>Key = w, Value = document\<rparr>) (pick (remdups words)))"

definition indexer_Reduce :: "string \<Rightarrow> string list \<Rightarrow> string" where
  "indexer_Reduce key vs = (let sorted_vs = sort vs in Itoa (length sorted_vs) @ '' '' @ Join sorted_vs '','')"

definition nocrash_Map :: "string \<Rightarrow> string \<Rightarrow> KeyValue list" where
  "nocrash_Map filename contents =
     [\<lparr>Key = ''a'', Value = filename\<rparr>, \<lparr>Key = ''b'', Value = Itoa (length filename)\<rparr>,
      \<lparr>Key = ''c'', Value = Itoa (length contents)\<rparr>, \<lparr>Key = ''d'', Value = ''xyzzy''\<rparr>]"

definition nocrash_Reduce :: "string \<Rightarrow> string list \<Rightarrow> string" where
  "nocrash_Reduce key vs = (let vv = sort vs in Join vv '' '')"

definition early_exit_Map :: "string \<Rightarrow> string \<Rightarrow> KeyValue list" where
  "early_exit_Map filename contents = [\<lparr>Key = filename, Value = ''1''\<rparr>]"

definition early_exit_Reduce :: "string \<Rightarrow> string list \<Rightarrow> string" where
  "early_exit_Reduce key vs = Itoa (length vs)"

section \<open>Facts\<close>

lemma sort_mset_cong: "mset (vs :: string list) = mset ws \<Longrightarrow> sort vs = sort ws"
  by (metis properties_for_sort sorted_sort mset_sort)

lemma apps_order_free:
  "order_free wc_Reduce" "order_free indexer_Reduce" "order_free nocrash_Reduce" "order_free early_exit_Reduce"
proof -
  show "order_free indexer_Reduce"
    by (simp add: order_free_def indexer_Reduce_def) (metis size_mset sort_mset_cong)
qed (auto simp: order_free_def wc_Reduce_def nocrash_Reduce_def early_exit_Reduce_def dest: sort_mset_cong mset_eq_length)

section \<open>The output of a job\<close>

lemma job_lines:
  assumes "app_ok a" and "is_sort (app_sortf a)" and "order_free (app_reducef a)"
    and "(mrstep True a)\<^sup>*\<^sup>* (startJob a) s" and "Done (coord s)"
  shows "mset (concat (map (out_lines (disk s)) (upto_int (app_nReduce a)))) =
    image_mset (\<lambda>k. line k (app_reducef a k (values_of k (all_pairs a)))) (mset_set (Key ` set (all_pairs a)))"
proof -
  have "map (out_lines (disk s)) (upto_int (app_nReduce a)) =
      map (\<lambda>r. reduceLoop (app_reducef a) (app_sortf a (bucket (app_nReduce a) (all_pairs a) r))) (upto_int (app_nReduce a))"
    using done_out_lines [OF reach_inv [OF assms(4,1)] assms(5)] by (simp add: app_out_bucket)
  then show ?thesis
    using buckets_lines [OF assms(2,3)] reduce_lines [OF assms(2,3)] assms(1) unfolding app_ok_def by presburger
qed

definition input_text :: "app \<Rightarrow> string \<Rightarrow> string" where
  "input_text a name = (case app_disk a (InputFile name) of Some (Text content) \<Rightarrow> content | _ \<Rightarrow> [])"

lemma all_pairs_files:
  assumes "app_ok a"
  shows "all_pairs a = concat (map (\<lambda>name. app_mapf a name (input_text a name)) (app_files a))"
proof -
  have "map (app_pairs a) (upto_int (int (length (app_files a)))) =
      map (\<lambda>name. app_mapf a name (input_text a name)) (app_files a)"
  proof (rule nth_equalityI)
    fix i assume "i < length (map (app_pairs a) (upto_int (int (length (app_files a)))))"
    then have i: "i < length (app_files a)" by (simp add: upto_int_def)
    then obtain c where "app_disk a (InputFile (app_files a ! i)) = Some (Text c)"
      using assms unfolding app_ok_def by (meson nth_mem)
    then show "map (app_pairs a) (upto_int (int (length (app_files a)))) ! i =
        map (\<lambda>name. app_mapf a name (input_text a name)) (app_files a) ! i"
      using i by (simp add: upto_int_def app_pairs_def input_text_def Let_def)
  qed (simp add: upto_int_def)
  then show ?thesis by (simp add: all_pairs_def)
qed

definition words_of :: "(nat \<Rightarrow> bool) \<Rightarrow> app \<Rightarrow> string \<Rightarrow> string list" where
  "words_of isLetter a name = FieldsFunc (input_text a name) (\<lambda>r. \<not> isLetter r)"

definition all_words :: "(nat \<Rightarrow> bool) \<Rightarrow> app \<Rightarrow> string list" where
  "all_words isLetter a = concat (map (words_of isLetter a) (app_files a))"


lemma index_pairs:
  assumes "app_ok a" and "app_mapf a = indexer_Map pick isLetter" and "\<And>ws. mset (pick ws) = mset ws"
  shows "values_of w (all_pairs a) = filter (\<lambda>name. w \<in> set (words_of isLetter a name)) (app_files a)"
    and "Key ` set (all_pairs a) = set (all_words isLetter a)"
proof -
  let ?ws = "\<lambda>name. pick (remdups (words_of isLetter a name))"
  let ?kv = "\<lambda>name. map (\<lambda>w. \<lparr>Key = w, Value = name\<rparr>) (?ws name)"
  have p: "all_pairs a = concat (map ?kv (app_files a))"
    by (simp add: all_pairs_files [OF assms(1)] assms(2) indexer_Map_def words_of_def)
  have s: "set (?ws name) = set (words_of isLetter a name)" and d: "distinct (?ws name)" for name
    using assms(3) by (metis set_mset_mset set_remdups, metis distinct_remdups mset_eq_imp_distinct_iff)
  have one: "filter (\<lambda>x. x = w) xs = (if w \<in> set xs then [w] else [])" if "distinct xs" for xs :: "string list"
    using that by (induction xs) (auto simp: filter_empty_conv)
  have "values_of w (concat (map ?kv names)) = filter (\<lambda>name. w \<in> set (words_of isLetter a name)) names" for names
  proof (induction names)
    case (Cons name names)
    have "values_of w (?kv name) = (if w \<in> set (words_of isLetter a name) then [name] else [])"
      using one [OF d] s by (simp add: values_of_def filter_map comp_def)
    then show ?case using Cons by (simp add: values_of_def)
  qed (simp add: values_of_def)
  then show "values_of w (all_pairs a) = filter (\<lambda>name. w \<in> set (words_of isLetter a name)) (app_files a)"
    by (simp add: p)
  show "Key ` set (all_pairs a) = set (all_words isLetter a)"
    by (auto simp: p s all_words_def image_UN image_image)
qed

text \<open>Two small jobs for the applications: two files, one reduce task, and the letters of ASCII.\<close>

definition ascii_letter :: "nat \<Rightarrow> bool" where
  "ascii_letter r \<longleftrightarrow> between 65 90 r \<or> between 97 122 r"

definition texts :: fs where
  "texts f = (if f = InputFile ''f'' then Some (Text ''a b, a'') else if f = InputFile ''g'' then Some (Text ''b'') else None)"

definition wc_job :: app where
  "wc_job = \<lparr>app_files = [''f'', ''g''], app_nReduce = 1, app_disk = texts,
     app_mapf = wc_Map ascii_letter, app_reducef = wc_Reduce, app_sortf = sort_key Key\<rparr>"

definition index_job :: app where
  "index_job = wc_job\<lparr>app_mapf := indexer_Map rev ascii_letter, app_reducef := indexer_Reduce\<rparr>"

definition two_maps :: "act list" where
  "two_maps = [Ask 0, DoWork 0, Report 0, Store 0, Ask 0, DoWork 0, Report 0, Store 0, Ask 0, DoWork 0, Report 0, Store 0]"

lemma jobs_ok:
  "app_ok wc_job" "is_sort (app_sortf wc_job)" "app_ok index_job" "is_sort (app_sortf index_job)"
  by (auto simp: wc_job_def index_job_def app_ok_def is_sort_def texts_def)

lemma jobs_finish:
  "after True wc_job two_maps (\<lambda>s. Done (coord s))"
  "after True index_job two_maps (\<lambda>s. Done (coord s))"
  by code_simp+

lemma jobs_words:
  "all_words ascii_letter wc_job = [''a'', ''b'', ''a'', ''b'']" "all_words ascii_letter index_job = [''a'', ''b'', ''a'', ''b'']"
  "words_of ascii_letter index_job ''f'' = [''a'', ''b'', ''a'']" "words_of ascii_letter index_job ''g'' = [''b'']"
  by code_simp+

lemma jobs_keys: "mset_set {''a'', ''b'', ''a'', ''b''} = {#''a'', ''b''#}"
proof -
  have "{''a'', ''b'', ''a'', ''b''} = {''a'', ''b''}" by auto
  then show ?thesis by simp
qed

lemma jobs_fields:
  "app_nReduce wc_job = 1" "app_mapf wc_job = wc_Map ascii_letter" "app_reducef wc_job = wc_Reduce"
  "app_nReduce index_job = 1" "app_mapf index_job = indexer_Map rev ascii_letter" "app_reducef index_job = indexer_Reduce"
  "app_files index_job = [''f'', ''g'']"
  by (simp_all add: index_job_def wc_job_def)

lemma small_numerals: "Itoa 1 = ''1''" "Itoa 2 = ''2''"
  by code_simp+



text \<open>A finished index has, for every different word of the input files, the line with the number of the
  files that have the word and their names in sorted order, and no other line, whatever the schedule
  of the workers and the order in which the map function ranges over its words.\<close>

theorem index_lists_files:
  assumes "app_ok a" and "is_sort (app_sortf a)"
    and "app_mapf a = indexer_Map pick isLetter" and "app_reducef a = indexer_Reduce"
    and "\<And>ws. mset (pick ws) = mset ws"
    and "(mrstep True a)\<^sup>*\<^sup>* (startJob a) s" and "Done (coord s)"
  shows "mset (concat (map (out_lines (disk s)) (upto_int (app_nReduce a)))) =
    image_mset (\<lambda>w. line w (let fs = sort (filter (\<lambda>name. w \<in> set (words_of isLetter a name)) (app_files a))
        in Itoa (length fs) @ '' '' @ Join fs '','')) (mset_set (set (all_words isLetter a)))"
  using job_lines [OF assms(1,2) _ assms(6,7)] apps_order_free(2) assms(4)
  by (simp add: indexer_Reduce_def index_pairs [OF assms(1,3,5)])

theorem index_lists_files_witness:
  "\<exists>s. (mrstep True index_job)\<^sup>*\<^sup>* (startJob index_job) s \<and> Done (coord s)
     \<and> mset (concat (map (out_lines (disk s)) (upto_int 1))) = {#line ''a'' ''1 f'', line ''b'' ''2 f,g''#}"
proof -
  obtain s where s: "(mrstep True index_job)\<^sup>*\<^sup>* (startJob index_job) s" "Done (coord s)"
    using jobs_finish(2) by (rule afterE) simp
  have "mset (concat (map (out_lines (disk s)) (upto_int 1))) = {#line ''a'' ''1 f'', line ''b'' ''2 f,g''#}"
    using index_lists_files [OF jobs_ok(3,4) jobs_fields(5,6) _ s] small_numerals
    by (simp add: jobs_words jobs_fields jobs_keys numeral_2_eq_2)
  then show ?thesis using s by blast
qed

end
