(* ===== verification/Bitset.thy ===== *)
theory Bitset
  imports Prelude "HOL-Library.Word"
begin

text \<open>
  The bit sets of the linearizability checker (\<open>porcupine/bitset.go\<close>): 64-bit chunks, and that they
  represent sets of positions. An index outside the slice panics.
\<close>

unbundle bit_operations_syntax

section \<open>Operations\<close>

type_synonym bitset = "64 word list"

definition newBitset :: "nat \<Rightarrow> bitset" where
  "newBitset bits =
     (let extra = (if bits mod 64 \<noteq> 0 then 1 else 0); chunks = bits div 64 + extra
      in replicate chunks 0)"

definition bs_clone :: "bitset \<Rightarrow> bitset" where
  "bs_clone b = map (\<lambda>v. v) b"

definition bitsetIndex :: "nat \<Rightarrow> nat \<times> nat" where
  "bitsetIndex pos = (pos div 64, pos mod 64)"

definition bs_set :: "bitset \<Rightarrow> nat \<Rightarrow> bitset res" where
  "bs_set b pos =
     (let (major, minor) = bitsetIndex pos
      in and_then (nth_res b major) (\<lambda>v. set_res b major (v OR push_bit minor 1)))"

definition bs_clear :: "bitset \<Rightarrow> nat \<Rightarrow> bitset res" where
  "bs_clear b pos =
     (let (major, minor) = bitsetIndex pos
      in and_then (nth_res b major) (\<lambda>v. set_res b major (v AND NOT (push_bit minor 1))))"

definition bs_get :: "bitset \<Rightarrow> nat \<Rightarrow> bool res" where
  "bs_get b pos =
     (let (major, minor) = bitsetIndex pos
      in and_then (nth_res b major) (\<lambda>v. Inr (v AND push_bit minor 1 \<noteq> 0)))"

text \<open>The number of ones of a word, of the standard library (\<open>bits.OnesCount64\<close>).\<close>

definition OnesCount64 :: "64 word \<Rightarrow> nat" where
  "OnesCount64 v = length (filter (bit v) [0..<64])"

definition popcnt :: "bitset \<Rightarrow> nat" where
  "popcnt b = foldl (\<lambda>total v. total + OnesCount64 v) 0 b"

definition bs_hash :: "bitset \<Rightarrow> 64 word" where
  "bs_hash b = foldl (\<lambda>hash v. hash XOR v) (of_nat (popcnt b)) b"

fun equalsFrom :: "bitset \<Rightarrow> bitset \<Rightarrow> bool" where
  "equalsFrom (v # b) (v2 # b2) = (if v \<noteq> v2 then False else equalsFrom b b2)"
| "equalsFrom _ _ = True"

definition equals :: "bitset \<Rightarrow> bitset \<Rightarrow> bool" where
  "equals b b2 = (if length b \<noteq> length b2 then False else equalsFrom b b2)"

section \<open>The set that a bit set represents\<close>

definition elems :: "bitset \<Rightarrow> nat set" where
  "elems b = {pos. pos div 64 < length b \<and> bit (b ! (pos div 64)) (pos mod 64)}"

lemma elems_new: "elems (newBitset n) = {}"
  by (auto simp: elems_def newBitset_def Let_def)

lemma length_new: "pos < n \<Longrightarrow> pos div 64 < length (newBitset n)"
  by (auto simp: newBitset_def Let_def)

lemma clone_same: "bs_clone b = b"
  by (simp add: bs_clone_def)

lemma div_mod_eq: "(pos' :: nat) div 64 = pos div 64 \<Longrightarrow> pos' mod 64 = pos mod 64 \<longleftrightarrow> pos' = pos"
  by (metis mult_div_mod_eq)

lemma bit_mask: "n < 64 \<Longrightarrow> bit ((2 :: 64 word) ^ m) n \<longleftrightarrow> n = m"
  by (auto simp: bit_exp_iff)

lemma set_elems:
  assumes "pos div 64 < length b"
  shows "\<exists>b'. bs_set b pos = Inr b' \<and> elems b' = insert pos (elems b) \<and> length b' = length b"
proof -
  let ?b = "b[pos div 64 := b ! (pos div 64) OR push_bit (pos mod 64) 1]"
  have "elems ?b = insert pos (elems b)"
    using assms by (auto simp: elems_def nth_list_update bit_or_iff bit_mask div_mod_eq split: if_splits)
  then show ?thesis
    using assms by (simp add: bs_set_def bitsetIndex_def)
qed

lemma clear_elems:
  assumes "pos div 64 < length b"
  shows "\<exists>b'. bs_clear b pos = Inr b' \<and> elems b' = elems b - {pos} \<and> length b' = length b"
proof -
  let ?b = "b[pos div 64 := b ! (pos div 64) AND NOT (push_bit (pos mod 64) 1)]"
  have "elems ?b = elems b - {pos}"
    using assms by (auto simp: elems_def nth_list_update bit_and_iff bit_not_iff bit_mask div_mod_eq split: if_splits)
  then show ?thesis
    using assms by (simp add: bs_clear_def bitsetIndex_def)
qed

lemma equals_elems:
  assumes "length b = length b2"
  shows "equals b b2 \<longleftrightarrow> elems b = elems b2"
proof -
  have "equalsFrom b b2 \<longleftrightarrow> b = b2"
    using assms by (induction b b2 rule: equalsFrom.induct) auto
  moreover have "b = b2" if e: "elems b = elems b2"
  proof (rule nth_equalityI [OF assms], rule bit_word_eqI)
    fix i n
    assume i: "i < length b" and n: "n < LENGTH(64)"
    have "(i * 64 + n \<in> elems b) = (i * 64 + n \<in> elems b2)" by (simp add: e)
    then show "bit (b ! i) n = bit (b2 ! i) n"
      using i n assms by (simp add: elems_def)
  qed
  ultimately show ?thesis
    using assms by (auto simp: equals_def)
qed

lemma get_elems: "pos div 64 < length b \<Longrightarrow> bs_get b pos = Inr (pos \<in> elems b)"
proof -
  assume "pos div 64 < length b"
  moreover have "(v AND 2 ^ (pos mod 64) \<noteq> 0) = bit v (pos mod 64)" for v :: "64 word"
    by (simp add: bit_iff_and_push_bit_not_eq_0)
  ultimately show ?thesis
    by (simp add: bs_get_def bitsetIndex_def elems_def)
qed

lemma elems_snoc: "elems (b @ [v]) = elems b \<union> (\<lambda>n. length b * 64 + n) ` {n. n < 64 \<and> bit v n}"
proof -
  have "pos \<in> (\<lambda>n. length b * 64 + n) ` {n. n < 64 \<and> bit v n}" if "pos div 64 = length b" "bit v (pos mod 64)" for pos
    using that div_mult_mod_eq [of pos 64] by (intro image_eqI [of _ _ "pos mod 64"]) auto
  then show ?thesis
    by (auto simp: elems_def nth_append less_Suc_eq)
qed

lemma finite_elems: "finite (elems b)"
proof (rule finite_subset)
  show "elems b \<subseteq> {..<64 * length b}" by (auto simp: elems_def)
qed simp

lemma popcnt_snoc: "popcnt (b @ [v]) = popcnt b + OnesCount64 v"
  by (simp add: popcnt_def)

lemma popcnt_card: "popcnt b = card (elems b)"
proof (induction b rule: rev_induct)
  case Nil
  then show ?case by (simp add: popcnt_def elems_def)
next
  case (snoc v b)
  have "OnesCount64 v = card (set (filter (bit v) [0..<64]))"
    unfolding OnesCount64_def by (rule distinct_card [symmetric]) simp
  also have "set (filter (bit v) [0..<64]) = {n. n < 64 \<and> bit v n}" by auto
  also have "card \<dots> = card ((\<lambda>n. length b * 64 + n) ` {n. n < 64 \<and> bit v n})"
    by (rule card_image [symmetric]) (simp add: inj_on_def)
  finally have "OnesCount64 v = card ((\<lambda>n. length b * 64 + n) ` {n. n < 64 \<and> bit v n})" .
  moreover have "elems b \<inter> (\<lambda>n. length b * 64 + n) ` {n. n < 64 \<and> bit v n} = {}"
    by (auto simp: elems_def)
  ultimately show ?case
    using finite_elems [of b] by (simp add: popcnt_snoc elems_snoc card_Un_disjoint snoc.IH)
qed

end
