(* ===== verification/Porcupine.thy ===== *)
theory Porcupine
  imports Bitset
begin

text \<open>
  The linearizability checker (\<open>porcupine/model.go\<close>, \<open>porcupine/checker.go\<close>, \<open>porcupine/porcupine.go\<close>)
  that the tests of the services run on the histories of their clients.

  Values of type \<open>interface{}\<close> have the type \<open>'v\<close>. A linked node has an address, and the heap maps
  addresses to nodes; a nil pointer is \<open>None\<close>, and its dereference a panic. The node of an entry is
  allocated at the index of the entry, the head at the next address. The functions of a model may
  panic. What \<open>sort.Sort\<close> does to equal elements is not specified: it is an argument, as is what the
  goroutines read from \<open>kill\<close> and the order in which they finish. The functions of a model that
  describe values for a page are in \<open>PorcView\<close>.
\<close>

section \<open>Models and histories\<close>

record 'v Operation =
  o_ClientId :: int
  o_Input :: 'v
  o_Call :: int
  o_Output :: 'v
  o_Return :: int

datatype EventKind = CallEvent | ReturnEvent

record 'v Event =
  ev_ClientId :: int
  ev_Kind :: EventKind
  ev_Value :: 'v
  ev_Id :: int

record ('s, 'v) Model =
  m_Partition :: "('v Operation list \<Rightarrow> 'v Operation list list res) option"
  m_PartitionEvent :: "('v Event list \<Rightarrow> 'v Event list list res) option"
  m_Init :: 's
  m_Step :: "'s \<Rightarrow> 'v \<Rightarrow> 'v \<Rightarrow> (bool \<times> 's) res"
  m_Equal :: "('s \<Rightarrow> 's \<Rightarrow> bool) option"

definition NoPartition :: "'v Operation list \<Rightarrow> 'v Operation list list res" where
  "NoPartition history = Inr [history]"

definition NoPartitionEvent :: "'v Event list \<Rightarrow> 'v Event list list res" where
  "NoPartitionEvent history = Inr [history]"

definition ShallowEqual :: "'s \<Rightarrow> 's \<Rightarrow> bool" where
  "ShallowEqual state1 state2 \<longleftrightarrow> state1 = state2"

definition fillDefault :: "('s, 'v) Model \<Rightarrow> ('s, 'v) Model" where
  "fillDefault model =
     (let m1 = (if m_Partition model = None then model\<lparr>m_Partition := Some NoPartition\<rparr> else model);
          m2 = (if m_PartitionEvent m1 = None then m1\<lparr>m_PartitionEvent := Some NoPartitionEvent\<rparr> else m1)
      in if m_Equal m2 = None then m2\<lparr>m_Equal := Some ShallowEqual\<rparr> else m2)"

datatype CheckResult = Unknown | Ok | Illegal

section \<open>Entries\<close>

datatype entryKind = callEntry | returnEntry

record 'v entry =
  e_kind :: entryKind
  e_value :: 'v
  e_id :: int
  e_time :: int
  e_clientId :: int

definition Less :: "'v entry \<Rightarrow> 'v entry \<Rightarrow> bool" where
  "Less a b = (if e_time a \<noteq> e_time b then e_time a < e_time b else e_kind a = callEntry \<and> e_kind b = returnEntry)"

fun entriesFrom :: "int \<Rightarrow> 'v Operation list \<Rightarrow> 'v entry list" where
  "entriesFrom i [] = []"
| "entriesFrom i (elem # history) =
     \<lparr>e_kind = callEntry, e_value = o_Input elem, e_id = i, e_time = o_Call elem, e_clientId = o_ClientId elem\<rparr>
     # \<lparr>e_kind = returnEntry, e_value = o_Output elem, e_id = i, e_time = o_Return elem, e_clientId = o_ClientId elem\<rparr>
     # entriesFrom (i + 1) history"

definition makeEntries :: "('v entry list \<Rightarrow> 'v entry list) \<Rightarrow> 'v Operation list \<Rightarrow> 'v entry list" where
  "makeEntries sorter history = sorter (entriesFrom 0 history)"

fun renumberFrom :: "(int \<rightharpoonup> int) \<Rightarrow> int \<Rightarrow> 'v Event list \<Rightarrow> 'v Event list" where
  "renumberFrom m i [] = []"
| "renumberFrom m i (v # events) =
     (case m (ev_Id v) of
        Some r \<Rightarrow> v\<lparr>ev_Id := r\<rparr> # renumberFrom m i events
      | None \<Rightarrow> v\<lparr>ev_Id := i\<rparr> # renumberFrom (m(ev_Id v \<mapsto> i)) (i + 1) events)"

definition renumber :: "'v Event list \<Rightarrow> 'v Event list" where
  "renumber events = renumberFrom Map.empty 0 events"

fun convertFrom :: "int \<Rightarrow> 'v Event list \<Rightarrow> 'v entry list" where
  "convertFrom i [] = []"
| "convertFrom i (elem # events) =
     \<lparr>e_kind = (if ev_Kind elem = ReturnEvent then returnEntry else callEntry), e_value = ev_Value elem,
      e_id = ev_Id elem, e_time = i, e_clientId = ev_ClientId elem\<rparr> # convertFrom (i + 1) events"

definition convertEntries :: "'v Event list \<Rightarrow> 'v entry list" where
  "convertEntries events = convertFrom 0 events"

section \<open>Linked nodes\<close>

type_synonym ptr = "nat option"

record 'v node =
  n_value :: "'v option"
  n_match :: ptr
  n_id :: int
  n_next :: ptr
  n_prev :: ptr

type_synonym 'v heap = "nat \<rightharpoonup> 'v node"

definition load :: "'v heap \<Rightarrow> ptr \<Rightarrow> 'v node res" where
  "load h p = (case p of None \<Rightarrow> Inl NilPanic | Some a \<Rightarrow> (case h a of None \<Rightarrow> Inl NilPanic | Some n \<Rightarrow> Inr n))"

definition storeNext :: "'v heap \<Rightarrow> ptr \<Rightarrow> ptr \<Rightarrow> 'v heap res" where
  "storeNext h p q =
     (case p of None \<Rightarrow> Inl NilPanic
      | Some a \<Rightarrow> (case h a of None \<Rightarrow> Inl NilPanic | Some n \<Rightarrow> Inr (h(a \<mapsto> n\<lparr>n_next := q\<rparr>))))"

definition storePrev :: "'v heap \<Rightarrow> ptr \<Rightarrow> ptr \<Rightarrow> 'v heap res" where
  "storePrev h p q =
     (case p of None \<Rightarrow> Inl NilPanic
      | Some a \<Rightarrow> (case h a of None \<Rightarrow> Inl NilPanic | Some n \<Rightarrow> Inr (h(a \<mapsto> n\<lparr>n_prev := q\<rparr>))))"

definition insertBefore :: "'v heap \<Rightarrow> nat \<Rightarrow> ptr \<Rightarrow> 'v heap res" where
  "insertBefore h n mark =
     (if mark = None then Inr h
      else and_then (load h mark) (\<lambda>mk. let beforeMark = n_prev mk in
           and_then (storePrev h mark (Some n)) (\<lambda>h.
           and_then (storeNext h (Some n) mark) (\<lambda>h.
             if beforeMark = None then Inr h
             else and_then (storePrev h (Some n) beforeMark) (\<lambda>h. storeNext h beforeMark (Some n))))))"

partial_function (option) nodeLength :: "'v heap \<Rightarrow> ptr \<Rightarrow> nat \<Rightarrow> nat res option" where
  "nodeLength h n l =
     (if n = None then Some (Inr l)
      else case load h n of Inl e \<Rightarrow> Some (Inl e) | Inr nd \<Rightarrow> nodeLength h (n_next nd) (l + 1))"

declare nodeLength.simps [code]

fun linkLoop :: "(nat \<times> 'v entry) list \<Rightarrow> 'v heap \<Rightarrow> ptr \<Rightarrow> (int \<rightharpoonup> nat) \<Rightarrow> ('v heap \<times> ptr) res" where
  "linkLoop [] h root match = Inr (h, root)"
| "linkLoop ((i, elem) # rest) h root match =
     (if e_kind elem = returnEntry
      then and_then (insertBefore (h(i \<mapsto> \<lparr>n_value = Some (e_value elem), n_match = None, n_id = e_id elem, n_next = None, n_prev = None\<rparr>)) i root)
             (\<lambda>h. linkLoop rest h (Some i) (match(e_id elem \<mapsto> i)))
      else and_then (insertBefore (h(i \<mapsto> \<lparr>n_value = Some (e_value elem), n_match = match (e_id elem), n_id = e_id elem, n_next = None, n_prev = None\<rparr>)) i root)
             (\<lambda>h. linkLoop rest h (Some i) match))"

definition makeLinkedEntries :: "'v entry list \<Rightarrow> ('v heap \<times> ptr) res" where
  "makeLinkedEntries entries = linkLoop (rev (enumerate 0 entries)) Map.empty None Map.empty"

definition lift :: "'v heap \<Rightarrow> nat \<Rightarrow> 'v heap res" where
  "lift h entry =
     and_then (load h (Some entry)) (\<lambda>n. and_then (storeNext h (n_prev n) (n_next n)) (\<lambda>h.
     and_then (load h (Some entry)) (\<lambda>n. and_then (storePrev h (n_next n) (n_prev n)) (\<lambda>h.
     and_then (load h (n_match n)) (\<lambda>m. and_then (storeNext h (n_prev m) (n_next m)) (\<lambda>h.
     and_then (load h (n_match n)) (\<lambda>m.
       if n_next m = None then Inr h else storePrev h (n_next m) (n_prev m))))))))"

definition unlift :: "'v heap \<Rightarrow> nat \<Rightarrow> 'v heap res" where
  "unlift h entry =
     and_then (load h (Some entry)) (\<lambda>n. let match = n_match n in
     and_then (load h match) (\<lambda>m. and_then (storeNext h (n_prev m) match) (\<lambda>h.
     and_then (load h match) (\<lambda>m. and_then (if n_next m = None then Inr h else storePrev h (n_next m) match) (\<lambda>h.
     and_then (load h (Some entry)) (\<lambda>n. and_then (storeNext h (n_prev n) (Some entry)) (\<lambda>h.
     and_then (load h (Some entry)) (\<lambda>n. storePrev h (n_next n) (Some entry)))))))))"

section \<open>The search\<close>

record 's cacheEntry =
  linearized :: bitset
  ce_state :: 's

type_synonym 's cache = "64 word \<Rightarrow> 's cacheEntry list"

fun cacheScan :: "('s \<Rightarrow> 's \<Rightarrow> bool) option \<Rightarrow> 's cacheEntry \<Rightarrow> 's cacheEntry list \<Rightarrow> bool res" where
  "cacheScan eq entry [] = Inr False"
| "cacheScan eq entry (elem # rest) =
     (if equals (linearized entry) (linearized elem)
      then case eq of None \<Rightarrow> Inl NilPanic
           | Some f \<Rightarrow> if f (ce_state entry) (ce_state elem) then Inr True else cacheScan eq entry rest
      else cacheScan eq entry rest)"

definition cacheContains :: "('s, 'v) Model \<Rightarrow> 's cache \<Rightarrow> 's cacheEntry \<Rightarrow> bool res" where
  "cacheContains model cache entry = cacheScan (m_Equal model) entry (cache (bs_hash (linearized entry)))"

text \<open>
  A pointer to a sequence of ids is the number of the iteration that made it, with the sequence: two
  elements of \<open>longest\<close> are the same pointer when the numbers are the same.
\<close>

type_synonym longest = "(nat \<times> int list) option list"

record ('s, 'v) search =
  s_heap :: "'v heap"
  s_entry :: ptr
  s_linearized :: bitset
  s_cache :: "'s cache"
  s_calls :: "(nat \<times> 's) list"
  s_state :: 's
  s_longest :: longest
  s_ticks :: nat

datatype ('s, 'v) outcome = Return bool longest | Continue "('s, 'v) search"

definition callIds :: "'v heap \<Rightarrow> (nat \<times> 's) list \<Rightarrow> int list res" where
  "callIds h calls = fold_res (\<lambda>seq v. and_then (load h (Some (fst v))) (\<lambda>n. Inr (seq @ [n_id n]))) [] calls"

definition toUint :: "int \<Rightarrow> nat" where
  "toUint i = nat (i mod 2 ^ 64)"

definition updateLongest :: "'v heap \<Rightarrow> nat \<Rightarrow> (nat \<times> 's) list \<Rightarrow> longest \<Rightarrow> longest res" where
  "updateLongest h tick calls longest =
     and_then (callIds h calls) (\<lambda>seq.
       fold_res (\<lambda>longest i.
         and_then (index_res longest i) (\<lambda>old.
           if (case old of None \<Rightarrow> True | Some (k, s) \<Rightarrow> length calls > length s)
           then update_res longest i (Some (tick, seq)) else Inr longest)) longest seq)"

text \<open>The branch of a call: the next operation is tried, unless the result is already known.\<close>

definition tryCall :: "('s, 'v) Model \<Rightarrow> nat \<Rightarrow> ('s, 'v) search \<Rightarrow> nat \<Rightarrow> 'v node \<Rightarrow> ('s, 'v) search res" where
  "tryCall model headEntry s entry n =
     and_then (load (s_heap s) (n_match n)) (\<lambda>matching.
     and_then (case (n_value n, n_value matching) of (Some i, Some out) \<Rightarrow> m_Step model (s_state s) i out | _ \<Rightarrow> Inl TypePanic)
       (\<lambda>(ok, newState).
       if ok then
         and_then (bs_set (bs_clone (s_linearized s)) (toUint (n_id n))) (\<lambda>newLinearized.
         let newCacheEntry = \<lparr>linearized = newLinearized, ce_state = newState\<rparr> in
         and_then (cacheContains model (s_cache s) newCacheEntry) (\<lambda>known.
           if \<not> known then
             let hash = bs_hash newLinearized in
             and_then (bs_set (s_linearized s) (toUint (n_id n))) (\<lambda>lin.
             and_then (lift (s_heap s) entry) (\<lambda>h.
             and_then (load h (Some headEntry)) (\<lambda>first.
               Inr (s\<lparr>s_heap := h, s_entry := n_next first, s_linearized := lin,
                      s_cache := (s_cache s)(hash := s_cache s hash @ [newCacheEntry]),
                      s_calls := s_calls s @ [(entry, s_state s)], s_state := newState\<rparr>))))
           else Inr (s\<lparr>s_entry := n_next n\<rparr>)))
       else Inr (s\<lparr>s_entry := n_next n\<rparr>)))"

text \<open>The branch of a return: the last call is undone.\<close>

definition undoCall :: "bool \<Rightarrow> ('s, 'v) search \<Rightarrow> ('s, 'v) search res" where
  "undoCall computePartial s =
     and_then (if computePartial then updateLongest (s_heap s) (s_ticks s) (s_calls s) (s_longest s) else Inr (s_longest s)) (\<lambda>longest.
     let (entry, state) = last (s_calls s) in
     and_then (load (s_heap s) (Some entry)) (\<lambda>n.
     and_then (bs_clear (s_linearized s) (toUint (n_id n))) (\<lambda>lin.
     and_then (unlift (s_heap s) entry) (\<lambda>h.
     and_then (load h (Some entry)) (\<lambda>n.
       Inr (s\<lparr>s_heap := h, s_entry := n_next n, s_linearized := lin, s_calls := butlast (s_calls s),
              s_state := state, s_longest := longest\<rparr>))))))"

definition checkBody :: "('s, 'v) Model \<Rightarrow> bool \<Rightarrow> bool \<Rightarrow> nat \<Rightarrow> ('s, 'v) search \<Rightarrow> ('s, 'v) outcome res" where
  "checkBody model computePartial killed headEntry s =
     (if killed then Inr (Return False (s_longest s))
      else and_then (load (s_heap s) (s_entry s)) (\<lambda>n.
        if n_match n \<noteq> None
        then and_then (tryCall model headEntry s (the (s_entry s)) n) (\<lambda>s'. Inr (Continue s'))
        else if s_calls s = [] then Inr (Return False (s_longest s))
        else and_then (undoCall computePartial s) (\<lambda>s'. Inr (Continue s'))))"

definition checkEnd :: "nat \<Rightarrow> ('s, 'v) search \<Rightarrow> (bool \<times> longest) res" where
  "checkEnd n s = and_then (callIds (s_heap s) (s_calls s)) (\<lambda>seq. Inr (True, replicate n (Some (s_ticks s, seq))))"

partial_function (option) checkLoop ::
  "('s, 'v) Model \<Rightarrow> bool \<Rightarrow> (nat \<Rightarrow> bool) \<Rightarrow> nat \<Rightarrow> nat \<Rightarrow> ('s, 'v) search \<Rightarrow> (bool \<times> longest) res option" where
  "checkLoop model computePartial kill n headEntry s =
     (case load (s_heap s) (Some headEntry) of Inl e \<Rightarrow> Some (Inl e)
      | Inr first \<Rightarrow>
        if n_next first = None then Some (checkEnd n s)
        else (case checkBody model computePartial (kill (s_ticks s)) headEntry s of
                Inl e \<Rightarrow> Some (Inl e)
              | Inr (Return b l) \<Rightarrow> Some (Inr (b, l))
              | Inr (Continue s') \<Rightarrow> checkLoop model computePartial kill n headEntry (s'\<lparr>s_ticks := s_ticks s + 1\<rparr>)))"

declare checkLoop.simps [code]

definition startSearch :: "('s, 'v) Model \<Rightarrow> 'v heap \<Rightarrow> ptr \<Rightarrow> nat \<Rightarrow> ('s, 'v) search" where
  "startSearch model h entry n =
     \<lparr>s_heap = h, s_entry = entry, s_linearized = newBitset n, s_cache = (\<lambda>hash. []), s_calls = [],
      s_state = m_Init model, s_longest = replicate n None, s_ticks = 0\<rparr>"

definition headNode :: "'v node" where
  "headNode = \<lparr>n_value = None, n_match = None, n_id = -1, n_next = None, n_prev = None\<rparr>"

definition checkSingle ::
  "('s, 'v) Model \<Rightarrow> 'v entry list \<Rightarrow> bool \<Rightarrow> (nat \<Rightarrow> bool) \<Rightarrow> (bool \<times> longest) res option" where
  "checkSingle model history computePartial kill =
     (case makeLinkedEntries history of Inl e \<Rightarrow> Some (Inl e)
      | Inr (h, entry) \<Rightarrow>
        (case nodeLength h entry 0 of None \<Rightarrow> None | Some (Inl e) \<Rightarrow> Some (Inl e)
         | Some (Inr l) \<Rightarrow>
           (let n = l div 2; headEntry = length history
            in case insertBefore (h(headEntry \<mapsto> headNode)) headEntry entry of Inl e \<Rightarrow> Some (Inl e)
               | Inr h \<Rightarrow> checkLoop model computePartial kill n headEntry (startSearch model h entry n))))"

section \<open>All partitions\<close>

text \<open>What the loop over the channels receives: the result of a goroutine, or the timeout.\<close>

datatype arrival = Arrived nat | Timeout

fun selectLoop ::
  "(nat \<Rightarrow> (bool \<times> longest) res option) \<Rightarrow> bool \<Rightarrow> int \<Rightarrow> nat \<Rightarrow> bool \<Rightarrow> nat \<Rightarrow> arrival list \<Rightarrow> (bool \<times> bool) res option" where
  "selectLoop run computeInfo timeout n ok received [] = None"
| "selectLoop run computeInfo timeout n ok received (Arrived i # rest) =
     (case run i of None \<Rightarrow> None | Some (Inl e) \<Rightarrow> Some (Inl e)
      | Some (Inr (result, l)) \<Rightarrow>
        if \<not> (ok \<and> result) \<and> \<not> computeInfo then Some (Inr (ok \<and> result, False))
        else if received + 1 \<ge> n then Some (Inr (ok \<and> result, False))
        else selectLoop run computeInfo timeout n (ok \<and> result) (received + 1) rest)"
| "selectLoop run computeInfo timeout n ok received (Timeout # rest) =
     (if timeout > 0 then Some (Inr (ok, True)) else None)"

record 'v linearizationInfo =
  li_history :: "'v entry list list"
  partialLinearizations :: "int list list list"

fun uniquePartials :: "nat set \<Rightarrow> longest \<Rightarrow> int list list" where
  "uniquePartials seen [] = []"
| "uniquePartials seen (None # rest) = uniquePartials seen rest"
| "uniquePartials seen (Some (k, seq) # rest) =
     (if k \<in> seen then uniquePartials seen rest else seq # uniquePartials (insert k seen) rest)"

fun allPartials :: "(nat \<Rightarrow> (bool \<times> longest) res option) \<Rightarrow> nat list \<Rightarrow> int list list list res option" where
  "allPartials run [] = Some (Inr [])"
| "allPartials run (i # rest) =
     (case run i of None \<Rightarrow> None | Some (Inl e) \<Rightarrow> Some (Inl e)
      | Some (Inr (b, longest)) \<Rightarrow>
        (case allPartials run rest of None \<Rightarrow> None | Some (Inl e) \<Rightarrow> Some (Inl e)
         | Some (Inr partials) \<Rightarrow> Some (Inr (uniquePartials {} longest # partials))))"

definition checkParallel ::
  "('s, 'v) Model \<Rightarrow> 'v entry list list \<Rightarrow> bool \<Rightarrow> int \<Rightarrow> (nat \<Rightarrow> nat \<Rightarrow> bool) \<Rightarrow> arrival list \<Rightarrow>
   (CheckResult \<times> 'v linearizationInfo) res option" where
  "checkParallel model history computeInfo timeout kills arrivals =
     (let run = (\<lambda>i. checkSingle model (history ! i) computeInfo (kills i)) in
      case selectLoop run computeInfo timeout (length history) True 0 arrivals of None \<Rightarrow> None
      | Some (Inl e) \<Rightarrow> Some (Inl e)
      | Some (Inr (ok, timedOut)) \<Rightarrow>
        (let result = (if \<not> ok then Illegal else if timedOut then Unknown else Ok) in
         if computeInfo
         then (case allPartials run [0..<length history] of None \<Rightarrow> None | Some (Inl e) \<Rightarrow> Some (Inl e)
               | Some (Inr partials) \<Rightarrow> Some (Inr (result, \<lparr>li_history = history, partialLinearizations = partials\<rparr>)))
         else Some (Inr (result, \<lparr>li_history = [], partialLinearizations = []\<rparr>))))"

text \<open>What the environment of a check decides: the sorting, what is read from \<open>kill\<close>, the arrivals.\<close>

record 'v env =
  sorter :: "'v entry list \<Rightarrow> 'v entry list"
  kills :: "nat \<Rightarrow> nat \<Rightarrow> bool"
  arrivals :: "arrival list"

definition checkEvents ::
  "'v env \<Rightarrow> ('s, 'v) Model \<Rightarrow> 'v Event list \<Rightarrow> bool \<Rightarrow> int \<Rightarrow> (CheckResult \<times> 'v linearizationInfo) res option" where
  "checkEvents env model history verbose timeout =
     (let model = fillDefault model in
      case (case m_PartitionEvent model of None \<Rightarrow> Inl NilPanic | Some f \<Rightarrow> f history) of Inl e \<Rightarrow> Some (Inl e)
      | Inr partitions \<Rightarrow>
        checkParallel model (map (\<lambda>subhistory. convertEntries (renumber subhistory)) partitions) verbose timeout (kills env) (arrivals env))"

definition checkOperations ::
  "'v env \<Rightarrow> ('s, 'v) Model \<Rightarrow> 'v Operation list \<Rightarrow> bool \<Rightarrow> int \<Rightarrow> (CheckResult \<times> 'v linearizationInfo) res option" where
  "checkOperations env model history verbose timeout =
     (let model = fillDefault model in
      case (case m_Partition model of None \<Rightarrow> Inl NilPanic | Some f \<Rightarrow> f history) of Inl e \<Rightarrow> Some (Inl e)
      | Inr partitions \<Rightarrow>
        checkParallel model (map (makeEntries (sorter env)) partitions) verbose timeout (kills env) (arrivals env))"

definition resultOf :: "(CheckResult \<times> 'v linearizationInfo) res option \<Rightarrow> CheckResult res option" where
  "resultOf r = map_option (\<lambda>x. and_then x (\<lambda>(res, info). Inr res)) r"

definition CheckOperations :: "'v env \<Rightarrow> ('s, 'v) Model \<Rightarrow> 'v Operation list \<Rightarrow> bool res option" where
  "CheckOperations env model history =
     map_option (\<lambda>x. and_then x (\<lambda>res. Inr (res = Ok))) (resultOf (checkOperations env model history False 0))"

definition CheckOperationsTimeout :: "'v env \<Rightarrow> ('s, 'v) Model \<Rightarrow> 'v Operation list \<Rightarrow> int \<Rightarrow> CheckResult res option" where
  "CheckOperationsTimeout env model history timeout = resultOf (checkOperations env model history False timeout)"

definition CheckOperationsVerbose ::
  "'v env \<Rightarrow> ('s, 'v) Model \<Rightarrow> 'v Operation list \<Rightarrow> int \<Rightarrow> (CheckResult \<times> 'v linearizationInfo) res option" where
  "CheckOperationsVerbose env model history timeout = checkOperations env model history True timeout"

definition CheckEvents :: "'v env \<Rightarrow> ('s, 'v) Model \<Rightarrow> 'v Event list \<Rightarrow> bool res option" where
  "CheckEvents env model history =
     map_option (\<lambda>x. and_then x (\<lambda>res. Inr (res = Ok))) (resultOf (checkEvents env model history False 0))"

definition CheckEventsTimeout :: "'v env \<Rightarrow> ('s, 'v) Model \<Rightarrow> 'v Event list \<Rightarrow> int \<Rightarrow> CheckResult res option" where
  "CheckEventsTimeout env model history timeout = resultOf (checkEvents env model history False timeout)"

definition CheckEventsVerbose ::
  "'v env \<Rightarrow> ('s, 'v) Model \<Rightarrow> 'v Event list \<Rightarrow> int \<Rightarrow> (CheckResult \<times> 'v linearizationInfo) res option" where
  "CheckEventsVerbose env model history timeout = checkEvents env model history True timeout"

end
