(* ===== verification/PorcHeap.thy ===== *)
theory PorcHeap
  imports Porcupine
begin

text \<open>
  The doubly linked list of the checker: what a list of addresses linked in the heap is, that \<open>lift\<close>
  takes a call and its return out, that \<open>unlift\<close> puts them back where they were, and what
  \<open>makeLinkedEntries\<close> builds.
\<close>

section \<open>Links\<close>

definition nxt :: "'v heap \<Rightarrow> nat \<Rightarrow> ptr" where
  "nxt h a = n_next (the (h a))"

definition prv :: "'v heap \<Rightarrow> nat \<Rightarrow> ptr" where
  "prv h a = n_prev (the (h a))"

definition setN :: "'v heap \<Rightarrow> nat \<Rightarrow> ptr \<Rightarrow> 'v heap" where
  "setN h a q = h(a \<mapsto> (the (h a))\<lparr>n_next := q\<rparr>)"

definition setP :: "'v heap \<Rightarrow> nat \<Rightarrow> ptr \<Rightarrow> 'v heap" where
  "setP h a q = h(a \<mapsto> (the (h a))\<lparr>n_prev := q\<rparr>)"

lemma set_links [simp]:
  "nxt (setN h a q) b = (if b = a then q else nxt h b)" "prv (setN h a q) b = prv h b"
  "prv (setP h a q) b = (if b = a then q else prv h b)" "nxt (setP h a q) b = nxt h b"
  "dom (setN h a q) = insert a (dom h)" "dom (setP h a q) = insert a (dom h)"
  by (simp_all add: nxt_def prv_def setN_def setP_def)

lemma load_Some: "a \<in> dom h \<Longrightarrow> load h (Some a) = Inr (the (h a))"
  by (auto simp: load_def)

lemma store_Some:
  "a \<in> dom h \<Longrightarrow> storeNext h (Some a) q = Inr (setN h a q)"
  "a \<in> dom h \<Longrightarrow> storePrev h (Some a) q = Inr (setP h a q)"
  by (auto simp: storeNext_def storePrev_def setN_def setP_def)

text \<open>The part of a node that links do not touch.\<close>

definition fixed :: "'v heap \<Rightarrow> nat \<Rightarrow> 'v option \<times> ptr \<times> int" where
  "fixed h a = (n_value (the (h a)), n_match (the (h a)), n_id (the (h a)))"

lemma fixed_set [simp]: "fixed (setN h a q) = fixed h" "fixed (setP h a q) = fixed h"
  by (simp_all add: fixed_def setN_def setP_def fun_eq_iff)

definition hd_ptr :: "nat list \<Rightarrow> ptr \<Rightarrow> ptr" where
  "hd_ptr xs q = (case xs of [] \<Rightarrow> q | x # _ \<Rightarrow> Some x)"

definition last_ptr :: "ptr \<Rightarrow> nat list \<Rightarrow> ptr" where
  "last_ptr p xs = (if xs = [] then p else Some (last xs))"

lemma ptr_simps [simp]:
  "hd_ptr [] q = q" "hd_ptr (x # xs) q = Some x" "last_ptr p [] = p" "last_ptr p (xs @ [x]) = Some x" "last_ptr p [x] = Some x"
  "xs \<noteq> [] \<Longrightarrow> last_ptr p (x # xs) = last_ptr p xs"
  by (simp_all add: hd_ptr_def last_ptr_def)

lemma hd_ptr_append: "hd_ptr (xs @ ys) q = hd_ptr xs (hd_ptr ys q)"
  by (cases xs) simp_all

lemma last_ptr_append: "last_ptr p (xs @ ys) = last_ptr (last_ptr p xs) ys"
  by (simp add: last_ptr_def)

fun seg :: "'v heap \<Rightarrow> ptr \<Rightarrow> nat list \<Rightarrow> ptr \<Rightarrow> bool" where
  "seg h p [] q \<longleftrightarrow> True"
| "seg h p (a # xs) q \<longleftrightarrow> a \<in> dom h \<and> prv h a = p \<and> nxt h a = hd_ptr xs q \<and> seg h (Some a) xs q"

lemma last_ptr_Some: "last_ptr (Some a) xs = last_ptr p (a # xs)"
  by (simp add: last_ptr_def)

lemma seg_append: "seg h p (xs @ ys) q \<longleftrightarrow> seg h p xs (hd_ptr ys q) \<and> seg h (last_ptr p xs) ys q"
proof (induction xs arbitrary: p)
  case (Cons a xs)
  then show ?case by (auto simp: hd_ptr_append last_ptr_Some [of a xs p])
qed simp

lemma seg_frame:
  assumes "seg h p xs q" "\<And>a. a \<in> set xs \<Longrightarrow> nxt h' a = nxt h a \<and> prv h' a = prv h a" "dom h' = dom h"
  shows "seg h' p xs q"
  using assms by (induction xs arbitrary: p) auto

lemma seg_dom: "seg h p xs q \<Longrightarrow> set xs \<subseteq> dom h"
  by (induction xs arbitrary: p) auto

section \<open>Taking a node out and putting it back\<close>

definition unlink :: "'v heap \<Rightarrow> nat \<Rightarrow> 'v heap" where
  "unlink h a =
     (let h1 = setN h (the (prv h a)) (nxt h a)
      in case nxt h a of None \<Rightarrow> h1 | Some b \<Rightarrow> setP h1 b (prv h a))"

definition relink :: "'v heap \<Rightarrow> nat \<Rightarrow> 'v heap" where
  "relink h a =
     (let h1 = setN h (the (prv h a)) (Some a)
      in case nxt h a of None \<Rightarrow> h1 | Some b \<Rightarrow> setP h1 b (Some a))"

lemma link_frame:
  assumes "set xs \<inter> {c, b} = {}" "c \<in> dom h" "b \<in> dom h"
  shows "seg h p xs q \<Longrightarrow> seg (setP (setN h c q1) b q2) p xs q" "seg h p xs q \<Longrightarrow> seg (setN h c q1) p xs q"
proof -
  have "x \<noteq> c \<and> x \<noteq> b" if "x \<in> set xs" for x using that assms(1) by auto
  then show "seg h p xs q \<Longrightarrow> seg (setP (setN h c q1) b q2) p xs q" "seg h p xs q \<Longrightarrow> seg (setN h c q1) p xs q"
    using assms(2,3) by (simp_all add: seg_frame insert_absorb)
qed

lemma unlink_split:
  assumes s: "seg h None (ys @ c # a # suf) None" and d: "distinct (ys @ c # a # suf)"
  shows "unlink h a = (case suf of [] \<Rightarrow> setN h c None | b # bs \<Rightarrow> setP (setN h c (Some b)) b (Some c))"
    and "seg (unlink h a) None (ys @ c # suf) None" "prv h a = Some c" "nxt h a = hd_ptr suf None" "dom (unlink h a) = dom h"
proof -
  show a: "prv h a = Some c" "nxt h a = hd_ptr suf None"
    using s by (simp_all add: seg_append)
  then show u: "unlink h a = (case suf of [] \<Rightarrow> setN h c None | b # bs \<Rightarrow> setP (setN h c (Some b)) b (Some c))"
    by (cases suf) (simp_all add: unlink_def)
  have dm: "c \<in> dom h" "set suf \<subseteq> dom h" using seg_dom [OF s] by auto
  then show "dom (unlink h a) = dom h" unfolding u by (cases suf) auto
  show "seg (unlink h a) None (ys @ c # suf) None"
    using s d dm unfolding u by (cases suf) (auto simp: seg_append intro: link_frame)
qed

lemma relink_split:
  assumes s: "seg h None (ys @ c # suf) None" and d: "distinct (ys @ c # a # suf)"
    and a: "a \<in> dom h" "prv h a = Some c" "nxt h a = hd_ptr suf None"
  shows "relink h a = (case suf of [] \<Rightarrow> setN h c (Some a) | b # bs \<Rightarrow> setP (setN h c (Some a)) b (Some a))"
    and "seg (relink h a) None (ys @ c # a # suf) None" "dom (relink h a) = dom h"
proof -
  show u: "relink h a = (case suf of [] \<Rightarrow> setN h c (Some a) | b # bs \<Rightarrow> setP (setN h c (Some a)) b (Some a))"
    using a by (cases suf) (simp_all add: relink_def)
  have dm: "c \<in> dom h" "set suf \<subseteq> dom h" using seg_dom [OF s] by auto
  then show "dom (relink h a) = dom h" unfolding u by (cases suf) auto
  show "seg (relink h a) None (ys @ c # a # suf) None"
    using s d dm a unfolding u by (cases suf) (auto simp: seg_append intro: link_frame)
qed

lemma unlink_seg:
  assumes s: "seg h None (pre @ a # suf) None" and d: "distinct (pre @ a # suf)" and p: "pre \<noteq> []"
  shows "seg (unlink h a) None (pre @ suf) None" "prv h a = Some (last pre)" "nxt h a = hd_ptr suf None"
    and "fixed (unlink h a) = fixed h" "dom (unlink h a) = dom h"
    and "x \<notin> set (pre @ suf) \<Longrightarrow> nxt (unlink h a) x = nxt h x \<and> prv (unlink h a) x = prv h x"
proof -
  obtain ys c where pre: "pre = ys @ [c]" using p by (metis append_butlast_last_id)
  then have s': "seg h None (ys @ c # a # suf) None" and d': "distinct (ys @ c # a # suf)" using s d by simp_all
  note u = unlink_split [OF s' d']
  show "seg (unlink h a) None (pre @ suf) None" "prv h a = Some (last pre)" "nxt h a = hd_ptr suf None" "dom (unlink h a) = dom h"
    using u pre by simp_all
  show "fixed (unlink h a) = fixed h" "x \<notin> set (pre @ suf) \<Longrightarrow> nxt (unlink h a) x = nxt h x \<and> prv (unlink h a) x = prv h x"
    unfolding u(1) pre by (cases suf; simp)+
qed

lemma relink_seg:
  assumes s: "seg h None (pre @ suf) None" and d: "distinct (pre @ a # suf)" and p: "pre \<noteq> []"
    and a: "a \<in> dom h" "prv h a = Some (last pre)" "nxt h a = hd_ptr suf None"
  shows "seg (relink h a) None (pre @ a # suf) None"
    and "fixed (relink h a) = fixed h" "dom (relink h a) = dom h"
    and "x \<notin> set (pre @ suf) \<Longrightarrow> nxt (relink h a) x = nxt h x \<and> prv (relink h a) x = prv h x"
proof -
  obtain ys c where pre: "pre = ys @ [c]" using p by (metis append_butlast_last_id)
  then have s': "seg h None (ys @ c # suf) None" and d': "distinct (ys @ c # a # suf)" and c: "prv h a = Some c"
    using s d a by simp_all
  note u = relink_split [OF s' d' a(1) c a(3)]
  show "seg (relink h a) None (pre @ a # suf) None" "dom (relink h a) = dom h"
    using u pre by simp_all
  show "fixed (relink h a) = fixed h" "x \<notin> set (pre @ suf) \<Longrightarrow> nxt (relink h a) x = nxt h x \<and> prv (relink h a) x = prv h x"
    unfolding u(1) pre by (cases suf; simp)+
qed

section \<open>Lifting a call and its return\<close>

text \<open>The nodes of a lifted call keep the links that \<open>unlift\<close> needs.\<close>

definition lifted :: "'v heap \<Rightarrow> nat list \<Rightarrow> nat \<Rightarrow> nat list \<Rightarrow> nat \<Rightarrow> nat list \<Rightarrow> bool" where
  "lifted h pre a mid m post \<longleftrightarrow> a \<in> dom h \<and> m \<in> dom h \<and> n_match (the (h a)) = Some m
     \<and> prv h a = Some (last pre) \<and> nxt h a = hd_ptr (mid @ [m]) None
     \<and> prv h m = Some (last (pre @ mid)) \<and> nxt h m = hd_ptr post None"

lemma match_fixed: "fixed h' = fixed h \<Longrightarrow> n_match (the (h' a)) = n_match (the (h a)) \<and> n_id (the (h' a)) = n_id (the (h a)) \<and> n_value (the (h' a)) = n_value (the (h a))"
  by (simp add: fixed_def fun_eq_iff)

lemma link_folds:
  "n_next (the (h a)) = nxt h a" "n_prev (the (h a)) = prv h a"
  "n_match (the (setN h c q a)) = n_match (the (h a))" "n_match (the (setP h c q a)) = n_match (the (h a))"
  by (simp_all add: nxt_def prv_def setN_def setP_def)

lemma lift_code:
  assumes a: "a \<in> dom h" "prv h a = Some p" "nxt h a = Some b" "a \<noteq> p" "p \<in> dom h" "b \<in> dom h"
    and m: "n_match (the (h a)) = Some m" "m \<in> dom h"
    and h1: "prv (unlink h a) m = Some p'" "p' \<in> dom h" "p' \<noteq> m" "set_option (nxt (unlink h a) m) \<subseteq> dom h"
  shows "lift h a = Inr (unlink (unlink h a) m)"
proof -
  have u: "unlink h a = setP (setN h p (Some b)) b (Some p)" by (simp add: unlink_def a)
  have dm: "dom (unlink h a) = dom h" using a by (simp add: u insert_absorb)
  have "lift h a = and_then (load (unlink h a) (Some m)) (\<lambda>n. and_then (storeNext (unlink h a) (n_prev n) (n_next n)) (\<lambda>h.
     and_then (load h (Some m)) (\<lambda>m. if n_next m = None then Inr h else storePrev h (n_next m) (n_prev m))))"
    using a m by (simp add: lift_def load_Some store_Some link_folds u)
  also have "\<dots> = (let h2 = setN (unlink h a) p' (nxt (unlink h a) m) in
      case nxt (unlink h a) m of None \<Rightarrow> Inr h2 | Some c \<Rightarrow> Inr (setP h2 c (prv (unlink h a) m)))"
    using m h1 by (auto simp: load_Some store_Some link_folds dm Let_def split: option.split)
  also have "\<dots> = Inr (unlink (unlink h a) m)"
    unfolding unlink_def [of "unlink h a" m] using h1 by (simp add: Let_def split: option.split)
  finally show ?thesis .
qed

lemma unlift_code:
  assumes m: "a \<in> dom h" "n_match (the (h a)) = Some m" "m \<in> dom h" "prv h m = Some p'" "p' \<in> dom h" "p' \<noteq> m"
      "set_option (nxt h m) \<subseteq> dom h"
    and a: "prv (relink h m) a = Some p" "nxt (relink h m) a = Some b" "a \<noteq> p" "p \<in> dom h" "b \<in> dom h" "dom (relink h m) = dom h"
  shows "unlift h a = Inr (relink (relink h m) a)"
proof -
  have r: "relink h m = (let h1 = setN h p' (Some m) in case nxt h m of None \<Rightarrow> h1 | Some c \<Rightarrow> setP h1 c (Some m))"
    by (simp add: relink_def m)
  define K where "K = (\<lambda>h :: 'a heap. and_then (load h (Some a)) (\<lambda>n. and_then (storeNext h (n_prev n) (Some a)) (\<lambda>h.
     and_then (load h (Some a)) (\<lambda>n. storePrev h (n_next n) (Some a)))))"
  have "unlift h a = and_then (load h (Some m)) (\<lambda>n. and_then (storeNext h (n_prev n) (Some m)) (\<lambda>h.
     and_then (load h (Some m)) (\<lambda>n. and_then (if n_next n = None then Inr h else storePrev h (n_next n) (Some m)) K)))"
    using m(1,2) by (simp add: unlift_def load_Some K_def Let_def cong: if_cong)
  also have "\<dots> = K (relink h m)"
    using m by (auto simp: load_Some store_Some link_folds r Let_def split: option.split)
  also have "\<dots> = Inr (relink (relink h m) a)"
    unfolding relink_def [of "relink h m" a] K_def using a m(1) by (simp add: load_Some store_Some link_folds Let_def)
  finally show ?thesis .
qed

lemma lift_links:
  assumes s: "seg h None (pre @ a # mid @ m # post) None" and d: "distinct (pre @ a # mid @ m # post)"
    and p: "pre \<noteq> []" and ma: "n_match (the (h a)) = Some m"
  shows "\<exists>h'. lift h a = Inr h' \<and> seg h' None (pre @ mid @ post) None \<and> fixed h' = fixed h \<and> dom h' = dom h
    \<and> lifted h' pre a mid m post
    \<and> (\<forall>x. x \<notin> set (pre @ a # mid @ m # post) \<longrightarrow> nxt h' x = nxt h x \<and> prv h' x = prv h x)"
proof -
  let ?h1 = "unlink h a" and ?h2 = "unlink (unlink h a) m"
  note u1 = unlink_seg [OF s d p]
  have s1: "seg ?h1 None ((pre @ mid) @ m # post) None" and d1: "distinct ((pre @ mid) @ m # post)" and p1: "pre @ mid \<noteq> []"
    using u1(1) d p by auto
  note u2 = unlink_seg [OF s1 d1 p1]
  have dm: "a \<in> dom h" "m \<in> dom h" "last pre \<in> dom h" "last (pre @ mid) \<in> dom h" "set (mid @ m # post) \<subseteq> dom h"
    using seg_dom [OF s] last_in_set [OF p] last_in_set [OF p1] by auto
  obtain b bs where b: "mid @ m # post = b # bs" by (cases mid) auto
  have ne: "a \<noteq> last pre" "last (pre @ mid) \<noteq> m"
    using d last_in_set [OF p] last_in_set [OF p1] by (auto simp del: last_in_set)
  have "lift h a = Inr ?h2"
  proof (rule lift_code [OF dm(1) u1(2) _ ne(1) dm(3) _ ma dm(2) u2(2) dm(4) ne(2)])
    show "nxt h a = Some b" using u1(3) b by simp
    show "b \<in> dom h" using dm(5) b by auto
    show "set_option (nxt ?h1 m) \<subseteq> dom h" using u2(3) dm(5) by (auto simp: hd_ptr_def split: list.splits)
  qed
  moreover have "lifted ?h2 pre a mid m post"
  proof -
    have "a \<notin> set (pre @ mid @ m # post)" "m \<notin> set (pre @ mid @ post)" using d by auto
    then show ?thesis
      using u1 u2 dm match_fixed [of ?h2 h a] ma by (simp add: lifted_def hd_ptr_append)
  qed
  moreover have "\<forall>x. x \<notin> set (pre @ a # mid @ m # post) \<longrightarrow> nxt ?h2 x = nxt h x \<and> prv ?h2 x = prv h x"
    using u1(6) u2(6) by simp
  ultimately show ?thesis
    using u1 u2 by auto
qed

lemma unlift_links:
  assumes s: "seg h None (pre @ mid @ post) None" and d: "distinct (pre @ a # mid @ m # post)"
    and p: "pre \<noteq> []" and l: "lifted h pre a mid m post"
  shows "\<exists>h'. unlift h a = Inr h' \<and> seg h' None (pre @ a # mid @ m # post) None \<and> fixed h' = fixed h \<and> dom h' = dom h
    \<and> (\<forall>x. x \<notin> set (pre @ a # mid @ m # post) \<longrightarrow> nxt h' x = nxt h x \<and> prv h' x = prv h x)"
proof -
  let ?h1 = "relink h m" and ?h2 = "relink (relink h m) a"
  have l': "a \<in> dom h" "m \<in> dom h" "n_match (the (h a)) = Some m" "prv h a = Some (last pre)" "nxt h a = hd_ptr (mid @ [m]) None"
    "prv h m = Some (last (pre @ mid))" "nxt h m = hd_ptr post None"
    using l by (simp_all add: lifted_def)
  have s0: "seg h None ((pre @ mid) @ post) None" and d0: "distinct ((pre @ mid) @ m # post)" and p0: "pre @ mid \<noteq> []"
    using s d p by auto
  note r1 = relink_seg [OF s0 d0 p0 l'(2,6,7)]
  have s1: "seg ?h1 None (pre @ mid @ m # post) None" using r1(1) by simp
  have a1: "a \<in> dom ?h1" "prv ?h1 a = Some (last pre)" "nxt ?h1 a = hd_ptr (mid @ m # post) None"
    using r1(3) r1(4) [of a] d l' by (auto simp: hd_ptr_append)
  note r2 = relink_seg [OF s1 _ p a1]
  have dm: "last pre \<in> dom h" "last (pre @ mid) \<in> dom h" "set (mid @ m # post) \<subseteq> dom h"
    using seg_dom [OF s0] last_in_set [OF p] last_in_set [OF p0] l'(2) by auto
  obtain b bs where b: "mid @ m # post = b # bs" by (cases mid) auto
  have ne: "a \<noteq> last pre" "last (pre @ mid) \<noteq> m"
    using d last_in_set [OF p] last_in_set [OF p0] by (auto simp del: last_in_set)
  have "unlift h a = Inr ?h2"
  proof (rule unlift_code [OF l'(1,3,2,6) dm(2) ne(2) _ a1(2) _ ne(1) dm(1) _ r1(3)])
    show "nxt ?h1 a = Some b" using a1(3) b by simp
    show "b \<in> dom h" using dm(3) b by auto
    show "set_option (nxt h m) \<subseteq> dom h" using l'(7) dm(3) by (auto simp: hd_ptr_def split: list.splits)
  qed
  then show ?thesis
    using r1 r2 d by auto
qed

section \<open>Building the list\<close>

lemma seg_new: "a \<notin> dom h \<Longrightarrow> seg h p xs q \<Longrightarrow> seg (h(a \<mapsto> nd)) p xs q"
  by (induction xs arbitrary: p) (auto simp: nxt_def prv_def domIff)

lemma insertBefore_front:
  assumes s: "seg h None xs None" and d: "distinct xs" and a: "a \<notin> dom h" and nd: "n_next nd = None" "n_prev nd = None"
  shows "\<exists>h'. insertBefore (h(a \<mapsto> nd)) a (hd_ptr xs None) = Inr h' \<and> seg h' None (a # xs) None
    \<and> dom h' = insert a (dom h) \<and> fixed h' = fixed (h(a \<mapsto> nd))"
proof (cases xs)
  case Nil
  then show ?thesis
    using nd by (simp add: insertBefore_def) (simp add: nxt_def prv_def)
next
  case (Cons b bs)
  let ?h = "h(a \<mapsto> nd)" and ?h' = "setN (setP (h(a \<mapsto> nd)) b (Some a)) a (Some b)"
  have s1: "seg ?h None (b # bs) None" using seg_new [OF a s] Cons by simp
  have ab: "a \<noteq> b" "b \<in> dom ?h" "a \<notin> set bs" using seg_dom [OF s] a Cons by auto
  have "prv h b = None" using s Cons by simp
  then have "insertBefore ?h a (hd_ptr xs None) = Inr ?h'"
    using Cons ab s1 by (simp add: insertBefore_def load_Some store_Some link_folds Let_def)
  moreover have "seg ?h' (Some b) bs None"
  proof (rule seg_frame)
    show "seg ?h (Some b) bs None" using s1 by simp
    show "dom ?h' = dom ?h" using ab by (simp add: insert_absorb)
    show "nxt ?h' x = nxt ?h x \<and> prv ?h' x = prv ?h x" if "x \<in> set bs" for x
      using that ab d Cons by auto
  qed
  moreover have "prv ?h' a = None" using ab nd by (simp add: prv_def [of ?h])
  ultimately show ?thesis
    using s1 ab Cons by (auto simp: insert_absorb)
qed

text \<open>
  Entries of a complete history: every id below \<open>n\<close> has one call and one return, in this order. Ids
  are integers of 64 bits.
  \<open>partner\<close> is the index of the return of a call.
\<close>

definition is_call :: "'v entry \<Rightarrow> bool" where
  "is_call e \<longleftrightarrow> e_kind e = callEntry"

definition wf_entries :: "'v entry list \<Rightarrow> nat \<Rightarrow> bool" where
  "wf_entries E n \<longleftrightarrow> length E = 2 * n \<and> int n \<le> 2 ^ 63 \<and> distinct (map (\<lambda>e. (e_kind e, e_id e)) E)
     \<and> (\<forall>e \<in> set E. 0 \<le> e_id e \<and> e_id e < int n)
     \<and> (\<forall>a < length E. is_call (E ! a) \<longrightarrow>
          (\<exists>b < length E. a < b \<and> \<not> is_call (E ! b) \<and> e_id (E ! b) = e_id (E ! a)))"

definition partner :: "'v entry list \<Rightarrow> nat \<Rightarrow> nat" where
  "partner E a = (THE b. b < length E \<and> \<not> is_call (E ! b) \<and> e_id (E ! b) = e_id (E ! a))"

lemma not_call: "\<not> is_call e \<longleftrightarrow> e_kind e = returnEntry"
  by (cases "e_kind e") (simp_all add: is_call_def)

lemma wf_inj:
  assumes "wf_entries E n" "a < length E" "b < length E" "is_call (E ! a) = is_call (E ! b)" "e_id (E ! a) = e_id (E ! b)"
  shows "a = b"
proof -
  have "e_kind (E ! a) = e_kind (E ! b)"
    using assms(4) not_call is_call_def by metis
  then show ?thesis
    using assms nth_eq_iff_index_eq [of "map (\<lambda>e. (e_kind e, e_id e)) E" a b] by (simp add: wf_entries_def)
qed

lemma partner_eq:
  assumes "wf_entries E n" "b < length E" "\<not> is_call (E ! b)" "e_id (E ! b) = e_id (E ! a)"
  shows "partner E a = b"
  unfolding partner_def using assms wf_inj [OF assms(1)] by (intro the_equality) auto

lemma partner_props:
  assumes "wf_entries E n" "a < length E" "is_call (E ! a)"
  shows "a < partner E a" "partner E a < length E" "\<not> is_call (E ! partner E a)" "e_id (E ! partner E a) = e_id (E ! a)"
proof -
  obtain b where b: "b < length E" "a < b" "\<not> is_call (E ! b)" "e_id (E ! b) = e_id (E ! a)"
    using assms by (auto simp: wf_entries_def)
  moreover have "partner E a = b" using partner_eq [OF assms(1) b(1,3,4)] .
  ultimately show "a < partner E a" "partner E a < length E" "\<not> is_call (E ! partner E a)" "e_id (E ! partner E a) = e_id (E ! a)"
    by simp_all
qed

definition static_nodes :: "'v heap \<Rightarrow> 'v entry list \<Rightarrow> nat set \<Rightarrow> bool" where
  "static_nodes h E A \<longleftrightarrow> (\<forall>a \<in> A. a \<in> dom h
     \<and> fixed h a = (Some (e_value (E ! a)), if is_call (E ! a) then Some (partner E a) else None, e_id (E ! a)))"

lemma link_one:
  assumes wf: "wf_entries E n" and k: "k < length E" and s: "seg h None [Suc k..<length E] None" and dm: "dom h = {Suc k..<length E}"
    and st: "static_nodes h E {Suc k..<length E}"
    and mt: "\<And>b. Suc k \<le> b \<Longrightarrow> b < length E \<Longrightarrow> \<not> is_call (E ! b) \<Longrightarrow> match (e_id (E ! b)) = Some b"
  shows "\<exists>h' match'. linkLoop ((k, E ! k) # rest) h (hd_ptr [Suc k..<length E] None) match = linkLoop rest h' (Some k) match'
    \<and> seg h' None [k..<length E] None \<and> dom h' = {k..<length E} \<and> static_nodes h' E {k..<length E}
    \<and> (\<forall>b. k \<le> b \<longrightarrow> b < length E \<longrightarrow> \<not> is_call (E ! b) \<longrightarrow> match' (e_id (E ! b)) = Some b)"
proof -
  let ?e = "E ! k" and ?mt = "if is_call (E ! k) then Some (partner E k) else None"
  let ?nd = "\<lparr>n_value = Some (e_value ?e), n_match = ?mt, n_id = e_id ?e, n_next = None, n_prev = None\<rparr>"
  have nk: "k \<notin> dom h" by (simp add: dm)
  obtain h' where h': "insertBefore (h(k \<mapsto> ?nd)) k (hd_ptr [Suc k..<length E] None) = Inr h'"
    "seg h' None (k # [Suc k..<length E]) None" "dom h' = insert k (dom h)" "fixed h' = fixed (h(k \<mapsto> ?nd))"
    using insertBefore_front [OF s _ nk, of ?nd] by auto
  have m: "match (e_id ?e) = Some (partner E k)" if "is_call ?e"
    using mt [of "partner E k"] partner_props [OF wf k that] by simp
  let ?match = "if is_call ?e then match else match(e_id ?e \<mapsto> k)"
  have "linkLoop ((k, ?e) # rest) h (hd_ptr [Suc k..<length E] None) match = linkLoop rest h' (Some k) ?match"
    using h'(1) m by (cases "is_call ?e") (simp_all add: not_call, simp_all add: is_call_def)
  moreover have "[k..<length E] = k # [Suc k..<length E]" using k by (simp add: upt_conv_Cons)
  moreover have "static_nodes h' E {k..<length E}"
    using st nk h'(3,4) dm by (auto simp: static_nodes_def fixed_def fun_eq_iff)
  moreover have "?match (e_id (E ! b)) = Some b" if "k \<le> b" "b < length E" "\<not> is_call (E ! b)" for b
    using that mt [of b] wf_inj [OF wf that(2) k] by (cases "b = k") auto
  ultimately show ?thesis
    using h' dm k by (intro exI [of _ h'] exI [of _ ?match]) auto
qed

lemma linkLoop_links:
  assumes wf: "wf_entries E n" and "k \<le> length E" "seg h None [k..<length E] None" "dom h = {k..<length E}"
    "static_nodes h E {k..<length E}"
    "\<forall>b. k \<le> b \<longrightarrow> b < length E \<longrightarrow> \<not> is_call (E ! b) \<longrightarrow> match (e_id (E ! b)) = Some b"
  shows "\<exists>h'. linkLoop (rev (enumerate 0 (take k E))) h (hd_ptr [k..<length E] None) match = Inr (h', hd_ptr [0..<length E] None)
    \<and> seg h' None [0..<length E] None \<and> dom h' = {0..<length E} \<and> static_nodes h' E {0..<length E}"
  using assms(2-)
proof (induction k arbitrary: h match)
  case (Suc k)
  then have k: "k < length E" by simp
  have e: "rev (enumerate 0 (take (Suc k) E)) = (k, E ! k) # rev (enumerate 0 (take k E))"
    using k by (simp add: take_Suc_conv_app_nth enumerate_append_eq)
  obtain h1 match1 where h1: "linkLoop ((k, E ! k) # rev (enumerate 0 (take k E))) h (hd_ptr [Suc k..<length E] None) match
      = linkLoop (rev (enumerate 0 (take k E))) h1 (Some k) match1"
    "seg h1 None [k..<length E] None" "dom h1 = {k..<length E}" "static_nodes h1 E {k..<length E}"
    "\<forall>b. k \<le> b \<longrightarrow> b < length E \<longrightarrow> \<not> is_call (E ! b) \<longrightarrow> match1 (e_id (E ! b)) = Some b"
    using link_one [OF wf k Suc.prems(2-4), of match "rev (enumerate 0 (take k E))"] Suc.prems(5) by auto
  moreover have "hd_ptr [k..<length E] None = Some k" using k by (simp add: upt_conv_Cons)
  ultimately show ?case
    using Suc.IH [OF _ h1(2-5)] k unfolding e by simp
qed simp

lemma makeLinkedEntries_links:
  assumes "wf_entries E n"
  shows "\<exists>h. makeLinkedEntries E = Inr (h, hd_ptr [0..<length E] None) \<and> seg h None [0..<length E] None
    \<and> dom h = {0..<length E} \<and> static_nodes h E {0..<length E}"
  using linkLoop_links [OF assms, of "length E" Map.empty Map.empty]
  by (simp add: makeLinkedEntries_def static_nodes_def)

lemma nodeLength_seg: "seg h p xs None \<Longrightarrow> nodeLength h (hd_ptr xs None) l = Some (Inr (l + length xs))"
proof (induction xs arbitrary: p l)
  case Nil
  then show ?case by (simp add: nodeLength.simps)
next
  case (Cons a xs)
  then show ?case
    using Cons.IH [of "Some a" "Suc l"] by (subst nodeLength.simps) (simp add: load_Some link_folds)
qed

text \<open>The heap with the head in front of the list.\<close>

lemma head_links:
  assumes "wf_entries E n"
  shows "\<exists>h h'. makeLinkedEntries E = Inr (h, hd_ptr [0..<length E] None)
    \<and> nodeLength h (hd_ptr [0..<length E] None) 0 = Some (Inr (2 * n))
    \<and> insertBefore (h(length E \<mapsto> headNode)) (length E) (hd_ptr [0..<length E] None) = Inr h'
    \<and> seg h' None (length E # [0..<length E]) None \<and> static_nodes h' E {0..<length E}"
proof -
  obtain h where h: "makeLinkedEntries E = Inr (h, hd_ptr [0..<length E] None)" "seg h None [0..<length E] None"
    "dom h = {0..<length E}" "static_nodes h E {0..<length E}"
    using makeLinkedEntries_links [OF assms] by auto
  obtain h' where h': "insertBefore (h(length E \<mapsto> headNode)) (length E) (hd_ptr [0..<length E] None) = Inr h'"
    "seg h' None (length E # [0..<length E]) None" "dom h' = insert (length E) (dom h)" "fixed h' = fixed (h(length E \<mapsto> headNode))"
    using insertBefore_front [OF h(2), of "length E" headNode] h(3) by (auto simp: headNode_def)
  have "static_nodes h' E {0..<length E}"
    using h(3,4) h'(3,4) by (simp add: static_nodes_def fixed_def fun_eq_iff)
  then show ?thesis
    using h h' nodeLength_seg [OF h(2)] assms by (simp add: wf_entries_def)
qed

end
