(* ===== verification/PorcSearch.thy ===== *)
theory PorcSearch
  imports PorcHeap
begin

text \<open>
  The search of \<open>checkSingle\<close> over a complete history: what its state represents at every iteration,
  what one iteration does, and that the search finds a linearization exactly when there is one.
\<close>

section \<open>The reference\<close>

text \<open>
  The remaining entries can be linearized from a state when there are none, or when some call before
  the first return can be executed and the others can be linearized after it.
\<close>

inductive lin :: "('s, 'v) Model \<Rightarrow> 'v entry list \<Rightarrow> 's \<Rightarrow> bool" for m where
  lin_Nil: "lin m [] s"
| lin_step: "c \<in> set (takeWhile is_call L) \<Longrightarrow> r \<in> set L \<Longrightarrow> \<not> is_call r \<Longrightarrow> e_id r = e_id c \<Longrightarrow>
    m_Step m s (e_value c) (e_value r) = Inr (True, s') \<Longrightarrow> lin m (filter (\<lambda>e. e_id e \<noteq> e_id c) L) s' \<Longrightarrow> lin m L s"

inductive_cases lin_elim: "lin m L s"

text \<open>What the state comparison of a model has to promise: equal states allow the same steps.\<close>

definition step_ok :: "('s, 'v) Model \<Rightarrow> 's \<Rightarrow> 'v \<Rightarrow> 'v \<Rightarrow> 's \<Rightarrow> bool" where
  "step_ok m s i out s' \<longleftrightarrow> m_Step m s i out = Inr (True, s')"

definition equal_ok :: "('s, 'v) Model \<Rightarrow> bool" where
  "equal_ok m \<longleftrightarrow> (\<exists>f. m_Equal m = Some f
     \<and> (\<forall>s t i out s'. f s t \<longrightarrow> step_ok m t i out s' \<longrightarrow> (\<exists>s''. step_ok m s i out s'' \<and> f s'' s'))
     \<and> (\<forall>s t i out s'. f s t \<longrightarrow> step_ok m s i out s' \<longrightarrow> (\<exists>t'. step_ok m t i out t' \<and> f s' t')))"

lemma lin_equal:
  assumes "lin m L s" "f s t" "\<And>s t i out s'. f s t \<Longrightarrow> step_ok m s i out s' \<Longrightarrow> \<exists>t'. step_ok m t i out t' \<and> f s' t'"
  shows "lin m L t"
  using assms(1,2)
proof (induction arbitrary: t rule: lin.induct)
  case (lin_step c L r s s')
  then obtain t' where "step_ok m t (e_value c) (e_value r) t'" "f s' t'"
    using assms(3) [of s t "e_value c" "e_value r" s'] by (auto simp: step_ok_def)
  then show ?case
    using lin_step by (intro lin.lin_step [of c L r m t t']) (auto simp: step_ok_def)
qed (rule lin_Nil)

section \<open>What is left of a history\<close>

definition nid :: "'v entry list \<Rightarrow> nat \<Rightarrow> nat" where
  "nid E a = nat (e_id (E ! a))"

definition rem :: "'v entry list \<Rightarrow> nat set \<Rightarrow> nat list" where
  "rem E S = filter (\<lambda>b. nid E b \<notin> S) [0..<length E]"

definition callAt :: "'v entry list \<Rightarrow> nat \<Rightarrow> bool" where
  "callAt E a \<longleftrightarrow> is_call (E ! a)"

definition goes :: "('s, 'v) Model \<Rightarrow> 'v entry list \<Rightarrow> 's \<Rightarrow> nat \<Rightarrow> 's \<Rightarrow> bool" where
  "goes m E s a s' \<longleftrightarrow> m_Step m s (e_value (E ! a)) (e_value (E ! partner E a)) = Inr (True, s')"

definition alive :: "('s, 'v) Model \<Rightarrow> 'v entry list \<Rightarrow> nat set \<Rightarrow> 's \<Rightarrow> bool" where
  "alive m E S s \<longleftrightarrow> lin m (map ((!) E) (rem E S)) s"

lemma rem_facts: "b \<in> set (rem E S) \<longleftrightarrow> b < length E \<and> nid E b \<notin> S" "distinct (rem E S)"
  by (auto simp: rem_def)

lemma nid_eq:
  assumes "wf_entries E n" "a < length E" "b < length E"
  shows "nid E a = nid E b \<longleftrightarrow> e_id (E ! a) = e_id (E ! b)"
proof -
  have "0 \<le> e_id (E ! a)" "0 \<le> e_id (E ! b)"
    using assms nth_mem [of a E] nth_mem [of b E] by (auto simp: wf_entries_def)
  then show ?thesis by (simp add: nid_def eq_nat_nat_iff)
qed

lemma nid_less: "wf_entries E n \<Longrightarrow> a < length E \<Longrightarrow> nid E a < n"
proof -
  assume "wf_entries E n" "a < length E"
  moreover from this have "E ! a \<in> set E" by simp
  ultimately have "0 \<le> e_id (E ! a)" "e_id (E ! a) < int n" unfolding wf_entries_def by blast+
  then show "nid E a < n" by (simp add: nid_def)
qed

lemma filter_rem:
  assumes "wf_entries E n" "a < length E"
  shows "filter (\<lambda>e. e_id e \<noteq> e_id (E ! a)) (map ((!) E) (rem E S)) = map ((!) E) (rem E (insert (nid E a) S))"
proof -
  have "filter (\<lambda>b. e_id (E ! b) \<noteq> e_id (E ! a) \<and> nid E b \<notin> S) [0..<length E] = filter (\<lambda>b. nid E b \<notin> insert (nid E a) S) [0..<length E]"
    using nid_eq [OF assms(1) _ assms(2)] by (intro filter_cong) auto
  then show ?thesis
    by (simp add: rem_def filter_map comp_def conj_commute)
qed

lemma partner_rem:
  assumes "wf_entries E n" "a \<in> set (rem E S)" "callAt E a"
  shows "partner E a \<in> set (rem E S)" "nid E (partner E a) = nid E a"
  using assms partner_props [OF assms(1), of a] by (auto simp: rem_facts callAt_def nid_def)

lemma alive_step:
  assumes wf: "wf_entries E n"
  shows "alive m E S s \<longleftrightarrow> rem E S = [] \<or>
    (\<exists>a \<in> set (takeWhile (callAt E) (rem E S)). \<exists>s'. goes m E s a s' \<and> alive m E (insert (nid E a) S) s')"
    (is "_ \<longleftrightarrow> _ \<or> ?step")
proof
  have tw: "takeWhile is_call (map ((!) E) (rem E S)) = map ((!) E) (takeWhile (callAt E) (rem E S))"
    by (simp add: takeWhile_map comp_def callAt_def [abs_def])
  {
    assume "alive m E S s"
    then have "lin m (map ((!) E) (rem E S)) s" by (simp add: alive_def)
    then show "rem E S = [] \<or> ?step"
    proof (cases rule: lin.cases)
      case (lin_step c r s')
      then obtain a where a: "a \<in> set (takeWhile (callAt E) (rem E S))" "c = E ! a" using tw by auto
      then have a': "a \<in> set (rem E S)" "callAt E a" using set_takeWhileD by fastforce+
      obtain b where b: "b < length E" "r = E ! b" using lin_step(2) by (auto simp: rem_facts)
      then have "partner E a = b"
        using lin_step a by (intro partner_eq [OF wf]) auto
      then have "goes m E s a s'" using lin_step a b by (simp add: goes_def)
      moreover have "alive m E (insert (nid E a) S) s'"
        using lin_step(6) filter_rem [OF wf, of a S] a a' by (simp add: alive_def rem_facts)
      ultimately show ?thesis using a by blast
    qed simp
  }
  assume "rem E S = [] \<or> ?step"
  then show "alive m E S s"
  proof
    assume ?step
    then obtain a s' where a: "a \<in> set (takeWhile (callAt E) (rem E S))" "goes m E s a s'" "alive m E (insert (nid E a) S) s'"
      by blast
    then have a': "a \<in> set (rem E S)" "callAt E a" using set_takeWhileD by fastforce+
    have p: "partner E a \<in> set (rem E S)" "\<not> is_call (E ! partner E a)" "e_id (E ! partner E a) = e_id (E ! a)"
      using partner_rem [OF wf a'] partner_props [OF wf, of a] a' by (simp_all add: callAt_def rem_facts)
    show ?thesis
      unfolding alive_def
    proof (rule lin.lin_step)
      show "E ! a \<in> set (takeWhile is_call (map ((!) E) (rem E S)))" using tw a(1) by auto
      show "E ! partner E a \<in> set (map ((!) E) (rem E S))" using p(1) by auto
      show "lin m (filter (\<lambda>e. e_id e \<noteq> e_id (E ! a)) (map ((!) E) (rem E S))) s'"
        using filter_rem [OF wf, of a S] a(3) a'(1) by (simp add: alive_def rem_facts)
    qed (use p a(2) in \<open>simp_all add: goes_def\<close>)
  qed (simp add: alive_def lin_Nil)
qed

lemma rem_insert: "rem E (insert i S) = filter (\<lambda>b. nid E b \<noteq> i) (rem E S)"
  by (simp add: rem_def) (metis (mono_tags, lifting))

text \<open>The call \<open>a\<close> and its return in the list of what is left.\<close>

lemma rem_split:
  assumes wf: "wf_entries E n" and r: "rem E S = tried @ a # cur" and t: "\<forall>b \<in> set tried. callAt E b" and a: "callAt E a"
  shows "\<exists>mid post. cur = mid @ partner E a # post \<and> rem E (insert (nid E a) S) = tried @ mid @ post
    \<and> distinct (tried @ a # mid @ partner E a # post)"
proof -
  have ar: "a \<in> set (rem E S)" using r by simp
  then have al: "a < length E" by (simp add: rem_facts)
  note p = partner_rem [OF wf ar a] partner_props [OF wf, of a]
  have "\<not> callAt E (partner E a)" "partner E a \<noteq> a"
    using p ar a by (auto simp: callAt_def rem_facts)
  then have "partner E a \<in> set cur" using p(1) t a unfolding r by auto
  then obtain mid post where cur: "cur = mid @ partner E a # post" by (meson split_list)
  have d: "distinct (tried @ a # mid @ partner E a # post)" using rem_facts(2) [of E S] r cur by simp
  have other: "nid E b \<noteq> nid E a" if "b \<in> set (tried @ mid @ post)" for b
  proof
    assume e: "nid E b = nid E a"
    have b: "b < length E" using that r cur rem_facts(1) [of b E S] by auto
    then have "e_id (E ! b) = e_id (E ! a)" using nid_eq [OF wf b al] e by simp
    then have "b = a \<or> b = partner E a"
      using b a wf_inj [OF wf b al] partner_eq [OF wf b, of a] by (cases "is_call (E ! b)") (auto simp: callAt_def)
    then show False using that d by auto
  qed
  have "rem E (insert (nid E a) S) = filter (\<lambda>b. nid E b \<noteq> nid E a) (tried @ a # mid @ partner E a # post)"
    by (simp only: rem_insert r cur)
  also have "\<dots> = tried @ mid @ post"
    using other p(2) by (auto simp: filter_id_conv)
  finally show ?thesis using cur d by blast
qed

section \<open>The stack of calls\<close>

fun stack_ok :: "'v heap \<Rightarrow> 'v entry list \<Rightarrow> nat list \<Rightarrow> nat list \<Rightarrow> bool" where
  "stack_ok h E [] xs \<longleftrightarrow> xs = [0..<length E]"
| "stack_ok h E (a # as) xs \<longleftrightarrow> (\<exists>pre mid post. xs = pre @ mid @ post \<and> lifted h (length E # pre) a mid (partner E a) post
     \<and> distinct (pre @ a # mid @ partner E a # post) \<and> callAt E a \<and> (\<forall>b \<in> set pre. callAt E b)
     \<and> stack_ok h E as (pre @ a # mid @ partner E a # post))"

lemma stack_ok_range: "stack_ok h E as xs \<Longrightarrow> set xs \<subseteq> {0..<length E}"
proof (induction as arbitrary: xs)
  case (Cons a as)
  then obtain pre mid post where "xs = pre @ mid @ post" "stack_ok h E as (pre @ a # mid @ partner E a # post)" by auto
  then show ?case using Cons.IH by fastforce
qed simp

lemma stack_ok_frame:
  assumes "stack_ok h E as xs" "fixed h' = fixed h" "dom h' = dom h"
    "\<And>x. x \<notin> insert (length E) (set xs) \<Longrightarrow> nxt h' x = nxt h x \<and> prv h' x = prv h x"
  shows "stack_ok h' E as xs"
  using assms(1,4)
proof (induction as arbitrary: xs)
  case (Cons a as)
  then obtain pre mid post where xs: "xs = pre @ mid @ post" and l: "lifted h (length E # pre) a mid (partner E a) post"
    and d: "distinct (pre @ a # mid @ partner E a # post)" and c: "callAt E a" "\<forall>b \<in> set pre. callAt E b"
    and so: "stack_ok h E as (pre @ a # mid @ partner E a # post)"
    by auto
  have "a < length E" "partner E a < length E" using stack_ok_range [OF so] by auto
  then have "a \<notin> insert (length E) (set xs)" "partner E a \<notin> insert (length E) (set xs)" using d xs by auto
  then have "lifted h' (length E # pre) a mid (partner E a) post"
    using l Cons.prems(2) assms(3) match_fixed [OF assms(2)] by (simp add: lifted_def)
  moreover have "stack_ok h' E as (pre @ a # mid @ partner E a # post)"
    using Cons.prems(2) xs by (intro Cons.IH [OF so]) simp
  ultimately show ?case using xs d c by auto
qed simp

lemma stack_rem:
  assumes wf: "wf_entries E n"
  shows "stack_ok h E as xs \<Longrightarrow> rem E (nid E ` set as) = xs"
proof (induction as arbitrary: xs)
  case (Cons a as)
  then obtain pre mid post where xs: "xs = pre @ mid @ post" and c: "callAt E a" "\<forall>b \<in> set pre. callAt E b"
    and d: "distinct (pre @ a # mid @ partner E a # post)" and so: "stack_ok h E as (pre @ a # mid @ partner E a # post)"
    by auto
  have "rem E (nid E ` set as) = pre @ a # mid @ partner E a # post" using Cons.IH [OF so] .
  from rem_split [OF wf this c(2,1)] obtain mid' post' where
    "mid @ partner E a # post = mid' @ partner E a # post'" "rem E (insert (nid E a) (nid E ` set as)) = pre @ mid' @ post'" by blast
  moreover have "partner E a \<notin> set mid" "partner E a \<notin> set post" using d by auto
  ultimately have "mid = mid' \<and> post = post'" "rem E (insert (nid E a) (nid E ` set as)) = pre @ mid' @ post'"
    using append_Cons_eq_iff [of "partner E a" mid post mid' post'] by simp_all
  then show ?case using xs by simp
qed (simp add: rem_def)

section \<open>Legal sequences of calls\<close>

fun legal :: "('s, 'v) Model \<Rightarrow> 'v entry list \<Rightarrow> 's \<Rightarrow> nat set \<Rightarrow> (nat \<times> 's) list \<Rightarrow> 's \<Rightarrow> bool" where
  "legal m E s S [] s' \<longleftrightarrow> s' = s"
| "legal m E s S ((a, st) # cs) s' \<longleftrightarrow> st = s \<and> a \<in> set (takeWhile (callAt E) (rem E S))
     \<and> (\<exists>t. goes m E s a t \<and> legal m E t (insert (nid E a) S) cs s')"

lemma legal_snoc:
  "legal m E s S (cs @ [(a, st)]) s' \<longleftrightarrow> legal m E s S cs st
     \<and> a \<in> set (takeWhile (callAt E) (rem E (S \<union> nid E ` fst ` set cs))) \<and> goes m E st a s'"
proof (induction cs arbitrary: s S)
  case (Cons c cs)
  then show ?case by (cases c) (simp, blast)
qed auto

text \<open>A partial linearization, as the ids of its operations in order.\<close>

definition partial_lin :: "('s, 'v) Model \<Rightarrow> 'v entry list \<Rightarrow> int list \<Rightarrow> bool" where
  "partial_lin m E ids \<longleftrightarrow> (\<exists>cs s'. legal m E (m_Init m) {} cs s' \<and> ids = map (\<lambda>c. e_id (E ! fst c)) cs)"

lemma legal_alive:
  assumes "wf_entries E n"
  shows "legal m E s S cs s' \<Longrightarrow> alive m E (S \<union> nid E ` fst ` set cs) s' \<Longrightarrow> alive m E S s"
proof (induction cs arbitrary: s S)
  case (Cons c cs)
  obtain a st where c: "c = (a, st)" by (cases c)
  then obtain t where t: "a \<in> set (takeWhile (callAt E) (rem E S))" "goes m E s a t" "legal m E t (insert (nid E a) S) cs s'"
    using Cons.prems(1) by auto
  have "insert (nid E a) S \<union> nid E ` fst ` set cs = S \<union> nid E ` fst ` set (c # cs)" using c by auto
  then have "alive m E (insert (nid E a) S) t"
    using Cons.IH [OF t(3)] Cons.prems(2) by simp
  then show ?case
    using t alive_step [OF assms, of m S s] by blast
qed simp

section \<open>What the state of the search represents\<close>

text \<open>
  The calls that are linearized are \<open>as\<close>, the last one first. What is left is the linked list; the
  part \<open>tried\<close> of it has been tried, and the search stands at the first element of \<open>cur\<close>.
\<close>

definition sinv :: "('s, 'v) Model \<Rightarrow> 'v entry list \<Rightarrow> nat \<Rightarrow> ('s, 'v) search \<Rightarrow> nat list \<Rightarrow> nat list \<Rightarrow> nat list \<Rightarrow> bool" where
  "sinv m E n s as tried cur \<longleftrightarrow> map fst (s_calls s) = rev as
     \<and> rem E (nid E ` set as) = tried @ cur \<and> (\<forall>b \<in> set tried. callAt E b) \<and> s_entry s = hd_ptr cur None
     \<and> seg (s_heap s) None (length E # tried @ cur) None \<and> static_nodes (s_heap s) E {0..<length E}
     \<and> stack_ok (s_heap s) E as (tried @ cur)
     \<and> elems (s_linearized s) = nid E ` set as \<and> length (s_linearized s) = length (newBitset n)
     \<and> legal m E (m_Init m) {} (s_calls s) (s_state s)
     \<and> (\<forall>h. \<forall>ce \<in> set (s_cache s h). length (linearized ce) = length (newBitset n))
     \<and> length (s_longest s) = n \<and> (\<forall>k seq. Some (k, seq) \<in> set (s_longest s) \<longrightarrow> partial_lin m E seq)"

definition known :: "('s, 'v) search \<Rightarrow> (nat set \<times> 's) set" where
  "known s = (\<lambda>ce. (elems (linearized ce), ce_state ce)) ` (\<Union>h. set (s_cache s h))"

lemma known_add:
  assumes "s_cache s' = (s_cache s)(h := s_cache s h @ [ce])"
  shows "known s' = insert (elems (linearized ce), ce_state ce) (known s)"
proof -
  have "(\<Union>h'. set (((s_cache s)(h := s_cache s h @ [ce])) h')) = insert ce (\<Union>h'. set (s_cache s h'))"
    by (auto split: if_splits)
  then show ?thesis by (simp add: known_def assms)
qed

lemma sinvD:
  assumes "sinv m E n s as tried cur"
  shows "map fst (s_calls s) = rev as" "rem E (nid E ` set as) = tried @ cur" "\<forall>b \<in> set tried. callAt E b"
    "s_entry s = hd_ptr cur None" "seg (s_heap s) None (length E # tried @ cur) None"
    "static_nodes (s_heap s) E {0..<length E}" "stack_ok (s_heap s) E as (tried @ cur)"
    "elems (s_linearized s) = nid E ` set as" "length (s_linearized s) = length (newBitset n)"
    "legal m E (m_Init m) {} (s_calls s) (s_state s)"
    "\<forall>h. \<forall>ce \<in> set (s_cache s h). length (linearized ce) = length (newBitset n)"
    "length (s_longest s) = n" "\<forall>k seq. Some (k, seq) \<in> set (s_longest s) \<longrightarrow> partial_lin m E seq"
  using assms by (simp_all add: sinv_def)

lemma sinv_ticks: "sinv m E n (s\<lparr>s_ticks := k\<rparr>) as tried cur = sinv m E n s as tried cur" "known (s\<lparr>s_ticks := k\<rparr>) = known s"
  by (simp_all add: sinv_def known_def)

text \<open>The node of an address.\<close>

lemma sinv_node:
  assumes "sinv m E n s as tried cur" "a < length E"
  shows "load (s_heap s) (Some a) = Inr (the (s_heap s a))" "n_value (the (s_heap s a)) = Some (e_value (E ! a))"
    "n_match (the (s_heap s a)) = (if callAt E a then Some (partner E a) else None)" "n_id (the (s_heap s a)) = e_id (E ! a)"
  using sinvD(6) [OF assms(1)] assms(2) by (simp_all add: static_nodes_def load_Some fixed_def callAt_def)

lemma sinv_less: "sinv m E n s as tried cur \<Longrightarrow> b \<in> set (tried @ cur) \<Longrightarrow> b < length E"
  using sinvD(2) rem_facts(1) by metis

lemma sinv_next: "sinv m E n s as tried (a # cur) \<Longrightarrow> n_next (the (s_heap s a)) = hd_ptr cur None"
  using sinvD(5) [of m E n s as tried "a # cur"] by (simp add: link_folds seg_append)

lemma sinv_head:
  "sinv m E n s as tried cur \<Longrightarrow> load (s_heap s) (Some (length E)) = Inr (the (s_heap s (length E)))
    \<and> n_next (the (s_heap s (length E))) = hd_ptr (tried @ cur) None"
  using sinvD(5) [of m E n s as tried cur] by (simp add: link_folds load_Some)

lemma sinv_skip:
  assumes "sinv m E n s as tried (a # cur)" "callAt E a"
  shows "sinv m E n (s\<lparr>s_entry := n_next (the (s_heap s a))\<rparr>) as (tried @ [a]) cur"
  using assms sinv_next [OF assms(1)] by (simp add: sinv_def)

lemma as_facts:
  assumes "stack_ok h E as xs"
  shows "\<forall>a \<in> set as. a < length E \<and> callAt E a"
  using assms
proof (induction as arbitrary: xs)
  case (Cons a as)
  then obtain pre mid post where "callAt E a" "stack_ok h E as (pre @ a # mid @ partner E a # post)" by auto
  then show ?case using Cons.IH stack_ok_range by fastforce
qed simp

lemma sinv_ids:
  assumes "wf_entries E n" "sinv m E n s as tried cur"
  shows "callIds (s_heap s) (s_calls s) = Inr (map (\<lambda>c. e_id (E ! fst c)) (s_calls s))"
    and "c \<in> set (s_calls s) \<Longrightarrow> 0 \<le> e_id (E ! fst c) \<and> nat (e_id (E ! fst c)) < n"
proof -
  have less: "fst c < length E" if "c \<in> set (s_calls s)" for c
  proof -
    have "fst c \<in> set as" using that sinvD(1) [OF assms(2)] by (metis image_eqI set_map set_rev)
    then show ?thesis using as_facts [OF sinvD(7) [OF assms(2)]] by simp
  qed
  have "fold_res (\<lambda>seq v. and_then (load (s_heap s) (Some (fst v))) (\<lambda>n. Inr (seq @ [n_id n]))) ids cs = Inr (ids @ map (\<lambda>c. e_id (E ! fst c)) cs)"
    if "set cs \<subseteq> set (s_calls s)" for ids cs
    using that
  proof (induction cs arbitrary: ids)
    case (Cons c cs)
    then show ?case using sinv_node [OF assms(2) less [of c]] by simp
  qed simp
  then show "callIds (s_heap s) (s_calls s) = Inr (map (\<lambda>c. e_id (E ! fst c)) (s_calls s))"
    by (simp add: callIds_def)
  show "0 \<le> e_id (E ! fst c) \<and> nat (e_id (E ! fst c)) < n" if "c \<in> set (s_calls s)"
  proof -
    have "E ! fst c \<in> set E" using less [OF that] by simp
    then show ?thesis using assms(1) unfolding wf_entries_def by auto
  qed
qed

lemma sinv_partial:
  assumes "sinv m E n s as tried cur"
  shows "partial_lin m E (map (\<lambda>c. e_id (E ! fst c)) (s_calls s))"
  using sinvD(10) [OF assms] by (auto simp: partial_lin_def)

section \<open>One iteration\<close>

lemma toUint_nid:
  assumes "wf_entries E n" "a < length E"
  shows "toUint (e_id (E ! a)) = nid E a" "nid E a div 64 < length (newBitset n)"
proof -
  have "E ! a \<in> set E" using assms(2) by simp
  then have "0 \<le> e_id (E ! a)" "e_id (E ! a) < int n" "int n \<le> 2 ^ 63"
    using assms(1) unfolding wf_entries_def by blast+
  then show "toUint (e_id (E ! a)) = nid E a"
    by (simp add: toUint_def nid_def)
  show "nid E a div 64 < length (newBitset n)"
    using length_new [OF nid_less [OF assms]] .
qed

lemma takeWhile_mem: "\<forall>b \<in> set xs. P b \<Longrightarrow> P a \<Longrightarrow> a \<in> set (takeWhile P (xs @ a # ys))"
  by (induction xs) auto

lemma sinv_lift:
  assumes wf: "wf_entries E n" and inv: "sinv m E n s as tried (a # cur)" and a: "callAt E a" and g: "goes m E (s_state s) a s'"
  shows "\<exists>h' b'. lift (s_heap s) a = Inr h' \<and> bs_set (s_linearized s) (toUint (e_id (E ! a))) = Inr b'
    \<and> load h' (Some (length E)) = Inr (the (h' (length E))) \<and> elems b' = nid E ` set (a # as)
    \<and> sinv m E n (s\<lparr>s_heap := h', s_entry := n_next (the (h' (length E))), s_linearized := b',
         s_cache := (s_cache s)(hash := s_cache s hash @ [\<lparr>linearized = b', ce_state = s'\<rparr>]),
         s_calls := s_calls s @ [(a, s_state s)], s_state := s'\<rparr>) (a # as) [] (rem E (nid E ` set (a # as)))"
proof -
  note i = sinvD [OF inv]
  have al: "a < length E" using sinv_less [OF inv] by simp
  obtain mid post where cur: "cur = mid @ partner E a # post"
    and rm: "rem E (insert (nid E a) (nid E ` set as)) = tried @ mid @ post"
    and d: "distinct (tried @ a # mid @ partner E a # post)"
    using rem_split [OF wf i(2,3) a] by blast
  have range: "length E \<notin> set (tried @ a # mid @ partner E a # post)"
    using sinv_less [OF inv] cur by fastforce
  have ma: "n_match (the (s_heap s a)) = Some (partner E a)" using sinv_node [OF inv al] a by simp
  have "seg (s_heap s) None ((length E # tried) @ a # mid @ partner E a # post) None"
    "distinct ((length E # tried) @ a # mid @ partner E a # post)"
    using i(5) cur d range by simp_all
  from lift_links [OF this _ ma] obtain h' where h': "lift (s_heap s) a = Inr h'"
    "seg h' None ((length E # tried) @ mid @ post) None" "fixed h' = fixed (s_heap s)" "dom h' = dom (s_heap s)"
    "lifted h' (length E # tried) a mid (partner E a) post"
    "\<forall>x. x \<notin> set ((length E # tried) @ a # mid @ partner E a # post) \<longrightarrow> nxt h' x = nxt (s_heap s) x \<and> prv h' x = prv (s_heap s) x"
    by blast
  have st: "static_nodes h' E {0..<length E}" using i(6) h'(3,4) by (simp add: static_nodes_def)
  have "stack_ok h' E as (tried @ a # mid @ partner E a # post)"
  proof (rule stack_ok_frame [OF _ h'(3,4)])
    show "stack_ok (s_heap s) E as (tried @ a # mid @ partner E a # post)" using i(7) cur by simp
    show "nxt h' x = nxt (s_heap s) x \<and> prv h' x = prv (s_heap s) x"
      if "x \<notin> insert (length E) (set (tried @ a # mid @ partner E a # post))" for x
      using that h'(6) by simp
  qed
  then have so: "stack_ok h' E (a # as) (tried @ mid @ post)"
    unfolding stack_ok.simps using h'(5) d a i(3) by blast
  obtain b' where b': "bs_set (s_linearized s) (nid E a) = Inr b'" "elems b' = insert (nid E a) (nid E ` set as)"
    "length b' = length (newBitset n)"
    using set_elems [of "nid E a" "s_linearized s"] toUint_nid [OF wf al] i(8,9) by auto
  have "nid E ` fst ` set (s_calls s) = nid E ` set as"
    using i(1) by (metis set_map set_rev)
  then have "legal m E (m_Init m) {} (s_calls s @ [(a, s_state s)]) s'"
    using i(10) i(2) g takeWhile_mem [of tried "callAt E" a] i(3) a by (simp add: legal_snoc)
  then show ?thesis
    using h' st so b' i rm toUint_nid(1) [OF wf al]
    by (intro exI [of _ h'] exI [of _ b']) (auto simp: sinv_def link_folds load_Some)
qed

lemma updateLongest_ok:
  assumes wf: "wf_entries E n" and inv: "sinv m E n s as tried cur"
  shows "\<exists>l. updateLongest (s_heap s) k (s_calls s) (s_longest s) = Inr l \<and> length l = n
    \<and> (\<forall>k seq. Some (k, seq) \<in> set l \<longrightarrow> partial_lin m E seq)"
proof -
  let ?ids = "map (\<lambda>c. e_id (E ! fst c)) (s_calls s)"
  have "\<exists>l'. fold_res (\<lambda>longest i. and_then (index_res longest i) (\<lambda>old.
      if (case old of None \<Rightarrow> True | Some (k, q) \<Rightarrow> length (s_calls s) > length q)
      then update_res longest i (Some (k, ?ids)) else Inr longest)) l ids = Inr l' \<and> length l' = n
      \<and> (\<forall>k seq. Some (k, seq) \<in> set l' \<longrightarrow> partial_lin m E seq)"
    if "set ids \<subseteq> set ?ids" "length l = n" "\<forall>k seq. Some (k, seq) \<in> set l \<longrightarrow> partial_lin m E seq" for l ids
    using that
  proof (induction ids arbitrary: l)
    case (Cons i ids)
    then have i: "0 \<le> i" "nat i < length l" using sinv_ids(2) [OF wf inv] by auto
    have "\<forall>k seq. Some (k, seq) \<in> set (l[nat i := Some (k', ?ids)]) \<longrightarrow> partial_lin m E seq" for k'
      using Cons.prems(3) sinv_partial [OF inv] by (auto dest!: set_update_subset_insert [THEN subsetD])
    then show ?case
      using Cons i by simp
  qed simp
  then show ?thesis
    using sinv_ids(1) [OF wf inv] sinvD(12,13) [OF inv] by (simp add: updateLongest_def)
qed

lemma sinv_undo:
  assumes wf: "wf_entries E n" and inv: "sinv m E n s (a # as) tried cur"
  shows "\<exists>s' tried' cur'. undoCall cp s = Inr s' \<and> rem E (nid E ` set as) = tried' @ a # cur'
    \<and> sinv m E n s' as (tried' @ [a]) cur' \<and> s_cache s' = s_cache s \<and> s_state s' = snd (last (s_calls s))
    \<and> s_calls s' = butlast (s_calls s)"
proof -
  note i = sinvD [OF inv]
  obtain cs st where cs: "s_calls s = cs @ [(a, st)]" "map fst cs = rev as"
    using i(1) by (auto simp: map_eq_append_conv)
  obtain pre mid post where xs: "tried @ cur = pre @ mid @ post" and l: "lifted (s_heap s) (length E # pre) a mid (partner E a) post"
    and d: "distinct (pre @ a # mid @ partner E a # post)" and c: "callAt E a" "\<forall>b \<in> set pre. callAt E b"
    and so: "stack_ok (s_heap s) E as (pre @ a # mid @ partner E a # post)"
    using i(7) by auto
  let ?ys = "pre @ a # mid @ partner E a # post"
  have range: "set ?ys \<subseteq> {0..<length E}" using stack_ok_range [OF so] .
  then have al: "a < length E" by auto
  have sg: "seg (s_heap s) None ((length E # pre) @ mid @ post) None" using i(5) xs by simp
  have dd: "distinct ((length E # pre) @ a # mid @ partner E a # post)" using d range by auto
  from unlift_links [OF sg dd _ l] obtain h' where h': "unlift (s_heap s) a = Inr h'"
    "seg h' None ((length E # pre) @ a # mid @ partner E a # post) None" "fixed h' = fixed (s_heap s)" "dom h' = dom (s_heap s)"
    "\<forall>x. x \<notin> set ((length E # pre) @ a # mid @ partner E a # post) \<longrightarrow> nxt h' x = nxt (s_heap s) x \<and> prv h' x = prv (s_heap s) x"
    by blast
  have so': "stack_ok h' E as ?ys"
    using h'(5) by (intro stack_ok_frame [OF so h'(3,4)]) simp
  have rm: "rem E (nid E ` set as) = ?ys" by (rule stack_rem [OF wf so'])
  have na: "nid E a \<notin> nid E ` set as" using rem_facts(1) [of a E "nid E ` set as"] rm by simp
  obtain l where lo: "(if cp then updateLongest (s_heap s) (s_ticks s) (s_calls s) (s_longest s) else Inr (s_longest s)) = Inr l"
    "length l = n" "\<forall>k seq. Some (k, seq) \<in> set l \<longrightarrow> partial_lin m E seq"
    using updateLongest_ok [OF wf inv, of "s_ticks s"] i(12,13) by (cases cp) auto
  obtain b' where b': "bs_clear (s_linearized s) (nid E a) = Inr b'" "elems b' = nid E ` set as" "length b' = length (newBitset n)"
    using clear_elems [of "nid E a" "s_linearized s"] toUint_nid [OF wf al] i(8,9) na by auto
  let ?s' = "s\<lparr>s_heap := h', s_entry := n_next (the (h' a)), s_linearized := b', s_calls := cs, s_state := st, s_longest := l\<rparr>"
  have ad: "a \<in> dom h'" using seg_dom [OF h'(2)] by simp
  have "undoCall cp s = Inr ?s'"
    using lo(1) cs sinv_node [OF inv al] toUint_nid(1) [OF wf al] b'(1) h'(1) load_Some [OF ad]
    unfolding undoCall_def by simp
  moreover have "legal m E (m_Init m) {} cs st" using i(10) cs by (simp add: legal_snoc)
  then have "sinv m E n ?s' as (pre @ [a]) (mid @ partner E a # post)"
    using cs rm c h' i so' b' lo by (simp add: sinv_def static_nodes_def link_folds seg_append)
  ultimately show ?thesis using rm cs by (intro exI [of _ ?s'] exI [of _ pre] exI [of _ "mid @ partner E a # post"]) simp
qed

end
