(* ===== verification/PorcCheck.thy ===== *)
theory PorcCheck
  imports PorcSearch
begin

text \<open>
  \<open>checkSingle\<close> decides whether a complete history can be linearized: the search ends, a state in its
  cache leads nowhere, and every element of \<open>longest\<close> is a partial linearization. A search that is
  stopped by \<open>kill\<close> never says that a history can be linearized when it cannot.
\<close>

section \<open>Iterations\<close>

definition iter :: "('s, 'v) Model \<Rightarrow> bool \<Rightarrow> 'v entry list \<Rightarrow> ('s, 'v) search \<Rightarrow> ('s, 'v) search \<Rightarrow> bool" where
  "iter m cp E s s' \<longleftrightarrow> length E \<in> dom (s_heap s) \<and> n_next (the (s_heap s (length E))) \<noteq> None
     \<and> (\<exists>t. checkBody m cp False (length E) s = Inr (Continue t) \<and> s' = t\<lparr>s_ticks := s_ticks s + 1\<rparr>)"

definition total_on :: "('s, 'v) Model \<Rightarrow> 'v entry list \<Rightarrow> bool" where
  "total_on m E \<longleftrightarrow> (\<forall>s. \<forall>a < length E. callAt E a \<longrightarrow>
     (\<exists>b s'. m_Step m s (e_value (E ! a)) (e_value (E ! partner E a)) = Inr (b, s')))"

lemma cacheScan_spec:
  assumes "\<forall>ce \<in> set ces. length (linearized ce) = length (linearized e)"
  shows "cacheScan (Some f) e ces = Inr (\<exists>ce \<in> set ces. elems (linearized e) = elems (linearized ce) \<and> f (ce_state e) (ce_state ce))"
  using assms by (induction ces) (auto simp: equals_elems)

lemma tryCall_eq:
  assumes wf: "wf_entries E n" and inv: "sinv m E n s as tried (a # cur)" and a: "callAt E a"
    and st: "m_Step m (s_state s) (e_value (E ! a)) (e_value (E ! partner E a)) = Inr (ok, s')"
  shows "tryCall m (length E) s a (the (s_heap s a)) =
    (if ok then
       and_then (bs_set (s_linearized s) (toUint (e_id (E ! a)))) (\<lambda>b'.
       and_then (cacheContains m (s_cache s) \<lparr>linearized = b', ce_state = s'\<rparr>) (\<lambda>known.
         if \<not> known then
           and_then (lift (s_heap s) a) (\<lambda>h. and_then (load h (Some (length E))) (\<lambda>first.
             Inr (s\<lparr>s_heap := h, s_entry := n_next first, s_linearized := b',
               s_cache := (s_cache s)(bs_hash b' := s_cache s (bs_hash b') @ [\<lparr>linearized = b', ce_state = s'\<rparr>]),
               s_calls := s_calls s @ [(a, s_state s)], s_state := s'\<rparr>)))
         else Inr (s\<lparr>s_entry := n_next (the (s_heap s a))\<rparr>)))
     else Inr (s\<lparr>s_entry := n_next (the (s_heap s a))\<rparr>))"
proof -
  have al: "a < length E" using sinv_less [OF inv] by simp
  have pl: "partner E a < length E" using partner_props(2) [OF wf al] a by (simp add: callAt_def)
  obtain b' where b': "bs_set (s_linearized s) (toUint (e_id (E ! a))) = Inr b'"
    using set_elems [of "nid E a" "s_linearized s"] toUint_nid [OF wf al] sinvD(9) [OF inv] by auto
  show ?thesis
    using sinv_node [OF inv al] sinv_node [OF inv pl] st a b'
    by (simp add: tryCall_def clone_same Let_def cong: if_cong)
qed

lemma try_next:
  assumes wf: "wf_entries E n" and tot: "total_on m E" and eq: "m_Equal m = Some f"
    and inv: "sinv m E n s as tried (a # cur)" and a: "callAt E a"
  shows "(\<exists>s1. iter m cp E s s1 \<and> sinv m E n s1 as (tried @ [a]) cur \<and> s_state s1 = s_state s \<and> s_calls s1 = s_calls s
        \<and> known s1 = known s \<and> (\<forall>s'. goes m E (s_state s) a s' \<longrightarrow> (\<exists>t. (nid E ` set (a # as), t) \<in> known s \<and> f s' t)))
    \<or> (\<exists>s1 s'. iter m cp E s s1 \<and> goes m E (s_state s) a s' \<and> sinv m E n s1 (a # as) [] (rem E (nid E ` set (a # as)))
        \<and> s_state s1 = s' \<and> s_calls s1 = s_calls s @ [(a, s_state s)]
        \<and> known s1 = insert (nid E ` set (a # as), s') (known s))"
    (is "?skip \<or> ?lift")
proof -
  have al: "a < length E" using sinv_less [OF inv] by simp
  obtain ok s' where st: "m_Step m (s_state s) (e_value (E ! a)) (e_value (E ! partner E a)) = Inr (ok, s')"
    using tot al a unfolding total_on_def by blast
  have body: "checkBody m cp False (length E) s = and_then (tryCall m (length E) s a (the (s_heap s a))) (\<lambda>s'. Inr (Continue s'))"
    using sinvD(4) [OF inv] sinv_node [OF inv al] a by (simp add: checkBody_def)
  have ne: "length E \<in> dom (s_heap s) \<and> n_next (the (s_heap s (length E))) \<noteq> None"
    using sinv_head [OF inv] sinvD(5) [OF inv] by (cases tried) simp_all
  let ?skip1 = "s\<lparr>s_entry := n_next (the (s_heap s a))\<rparr>"
  have skip: ?skip if t: "tryCall m (length E) s a (the (s_heap s a)) = Inr ?skip1"
    and k: "\<forall>s'. goes m E (s_state s) a s' \<longrightarrow> (\<exists>t. (nid E ` set (a # as), t) \<in> known s \<and> f s' t)"
  proof (intro exI conjI)
    show "iter m cp E s (?skip1\<lparr>s_ticks := s_ticks s + 1\<rparr>)" using ne body t by (simp add: iter_def)
    show "sinv m E n (?skip1\<lparr>s_ticks := s_ticks s + 1\<rparr>) as (tried @ [a]) cur"
      unfolding sinv_ticks by (rule sinv_skip [OF inv a])
  qed (use k in \<open>simp_all add: known_def\<close>)
  show ?thesis
  proof (cases ok)
    case False
    then have "?skip" using skip tryCall_eq [OF wf inv a st] st by (simp add: goes_def)
    then show ?thesis ..
  next
    case True
    then have g: "goes m E (s_state s) a s'" using st by (simp add: goes_def)
    from sinv_lift [OF wf inv a g] obtain h' b' where
      lf: "lift (s_heap s) a = Inr h'" and bs: "bs_set (s_linearized s) (toUint (e_id (E ! a))) = Inr b'"
      and ld: "load h' (Some (length E)) = Inr (the (h' (length E)))" and el: "elems b' = nid E ` set (a # as)"
      by blast
    let ?ce = "\<lparr>linearized = b', ce_state = s'\<rparr>"
    have len: "length b' = length (newBitset n)"
      using set_elems [of "nid E a" "s_linearized s"] toUint_nid [OF wf al] sinvD(9) [OF inv] bs by auto
    have scan: "cacheContains m (s_cache s) ?ce =
        Inr (\<exists>ce \<in> set (s_cache s (bs_hash b')). nid E ` set (a # as) = elems (linearized ce) \<and> f s' (ce_state ce))" (is "_ = Inr ?known")
      unfolding cacheContains_def eq using sinvD(11) [OF inv] len el
      by (subst cacheScan_spec) simp_all
    show ?thesis
    proof (cases ?known)
      case True
      then obtain t where "(nid E ` set (a # as), t) \<in> known s" "f s' t" by (fastforce simp: known_def)
      moreover have "goes m E (s_state s) a s'' \<Longrightarrow> s'' = s'" for s'' using st by (simp add: goes_def)
      ultimately have k: "\<forall>s'. goes m E (s_state s) a s' \<longrightarrow> (\<exists>t. (nid E ` set (a # as), t) \<in> known s \<and> f s' t)"
        by blast
      have "cacheContains m (s_cache s) ?ce = Inr True" unfolding scan using True by simp
      then have "tryCall m (length E) s a (the (s_heap s a)) = Inr ?skip1"
        using tryCall_eq [OF wf inv a st] \<open>ok\<close> bs by simp
      then show ?thesis using skip k by blast
    next
      case False
      let ?s1 = "s\<lparr>s_heap := h', s_entry := n_next (the (h' (length E))), s_linearized := b',
         s_cache := (s_cache s)(bs_hash b' := s_cache s (bs_hash b') @ [?ce]), s_calls := s_calls s @ [(a, s_state s)], s_state := s'\<rparr>"
      have "cacheContains m (s_cache s) ?ce = Inr False" unfolding scan using False by simp
      then have "tryCall m (length E) s a (the (s_heap s a)) = Inr ?s1"
        using tryCall_eq [OF wf inv a st] \<open>ok\<close> bs lf ld by simp
      then have it: "iter m cp E s (?s1\<lparr>s_ticks := s_ticks s + 1\<rparr>)" using ne body by (simp add: iter_def)
      have si: "sinv m E n ?s1 (a # as) [] (rem E (nid E ` set (a # as)))"
        using sinv_lift [OF wf inv a g, of "bs_hash b'"] lf bs by simp
      have "known ?s1 = insert (nid E ` set (a # as), s') (known s)"
        using known_add [of ?s1 s "bs_hash b'" ?ce] el by simp
      then have ?lift
      proof (intro exI conjI)
        show "iter m cp E s (?s1\<lparr>s_ticks := s_ticks s + 1\<rparr>)" by (rule it)
        show "sinv m E n (?s1\<lparr>s_ticks := s_ticks s + 1\<rparr>) (a # as) [] (rem E (nid E ` set (a # as)))"
          unfolding sinv_ticks by (rule si)
      qed (use g in \<open>simp_all add: known_def\<close>)
      then show ?thesis ..
    qed
  qed
qed

lemma undo_next:
  assumes wf: "wf_entries E n" and inv: "sinv m E n s (a # as) tried (b # cur)" and b: "\<not> callAt E b"
  shows "\<exists>s1 tried' cur'. iter m cp E s s1 \<and> rem E (nid E ` set as) = tried' @ a # cur'
    \<and> sinv m E n s1 as (tried' @ [a]) cur' \<and> known s1 = known s \<and> s_state s1 = snd (last (s_calls s))
    \<and> s_calls s1 = butlast (s_calls s)"
proof -
  from sinv_undo [OF wf inv, of cp] obtain s' tried' cur' where s': "undoCall cp s = Inr s'"
    "rem E (nid E ` set as) = tried' @ a # cur'" "sinv m E n s' as (tried' @ [a]) cur'" "s_cache s' = s_cache s"
    "s_state s' = snd (last (s_calls s))" "s_calls s' = butlast (s_calls s)"
    by blast
  have bl: "b < length E" using sinv_less [OF inv] by simp
  have ne: "length E \<in> dom (s_heap s) \<and> n_next (the (s_heap s (length E))) \<noteq> None"
    using sinv_head [OF inv] sinvD(5) [OF inv] by (cases tried) simp_all
  have "s_calls s \<noteq> []" using sinvD(1) [OF inv] by auto
  then have "checkBody m cp False (length E) s = Inr (Continue s')"
    using sinvD(4) [OF inv] sinv_node [OF inv bl] b s'(1) by (simp add: checkBody_def)
  then have "iter m cp E s (s'\<lparr>s_ticks := s_ticks s + 1\<rparr>)" using ne by (simp add: iter_def)
  moreover have "sinv m E n (s'\<lparr>s_ticks := s_ticks s + 1\<rparr>) as (tried' @ [a]) cur'"
    unfolding sinv_ticks by (rule s'(3))
  ultimately show ?thesis
    using s' by (intro exI [of _ "s'\<lparr>s_ticks := s_ticks s + 1\<rparr>"] exI [of _ tried'] exI [of _ cur']) (simp add: known_def)
qed

section \<open>The search\<close>

text \<open>
  Exploring from a state: either the search gets to the end, with everything linearized, or it gets
  to the first return without having changed the stack, none of the calls it tried leads to a
  linearization, and what it added to the cache leads to none either.
\<close>

definition dead :: "('s, 'v) Model \<Rightarrow> 'v entry list \<Rightarrow> nat set \<times> 's \<Rightarrow> bool" where
  "dead m E x \<longleftrightarrow> \<not> alive m E (fst x) (snd x)"

definition fresh :: "('s, 'v) Model \<Rightarrow> 'v entry list \<Rightarrow> ('s, 'v) search \<Rightarrow> nat list \<Rightarrow> bool" where
  "fresh m E s as \<longleftrightarrow> (\<forall>x \<in> known s. fst x \<subseteq> nid E ` set as \<or> dead m E x)"

definition found :: "('s, 'v) Model \<Rightarrow> bool \<Rightarrow> 'v entry list \<Rightarrow> nat \<Rightarrow> ('s, 'v) search \<Rightarrow> bool" where
  "found m cp E n s \<longleftrightarrow> (\<exists>s' as. (iter m cp E)\<^sup>*\<^sup>* s s' \<and> sinv m E n s' as [] [])"

definition leads :: "('s, 'v) Model \<Rightarrow> 'v entry list \<Rightarrow> nat list \<Rightarrow> 's \<Rightarrow> nat \<Rightarrow> bool" where
  "leads m E as s a \<longleftrightarrow> (\<exists>s'. goes m E s a s' \<and> alive m E (nid E ` set (a # as)) s')"

definition failed :: "('s, 'v) Model \<Rightarrow> bool \<Rightarrow> 'v entry list \<Rightarrow> nat \<Rightarrow> ('s, 'v) search \<Rightarrow> nat list \<Rightarrow> nat list \<Rightarrow> nat list \<Rightarrow> bool" where
  "failed m cp E n s as tried cur \<longleftrightarrow>
     (\<exists>s'. (iter m cp E)\<^sup>*\<^sup>* s s' \<and> sinv m E n s' as (tried @ takeWhile (callAt E) cur) (dropWhile (callAt E) cur)
        \<and> s_state s' = s_state s \<and> s_calls s' = s_calls s \<and> (\<forall>x \<in> known s'. x \<in> known s \<or> dead m E x)
        \<and> (\<forall>a \<in> set (takeWhile (callAt E) cur). \<not> leads m E as (s_state s) a))"

lemma found_step: "iter m cp E s s1 \<Longrightarrow> found m cp E n s1 \<Longrightarrow> found m cp E n s"
  unfolding found_def by (meson converse_rtranclp_into_rtranclp)

lemma found_steps: "(iter m cp E)\<^sup>*\<^sup>* s s1 \<Longrightarrow> found m cp E n s1 \<Longrightarrow> found m cp E n s"
  unfolding found_def by (meson rtranclp_trans)

lemma failed_first:
  assumes "(iter m cp E)\<^sup>*\<^sup>* s s1" "failed m cp E n s1 as (tried @ [a]) cur" "callAt E a" "\<not> leads m E as (s_state s) a"
    and "s_state s1 = s_state s" "s_calls s1 = s_calls s" "\<forall>x \<in> known s1. x \<in> known s \<or> dead m E x"
  shows "failed m cp E n s as tried (a # cur)"
proof -
  obtain s' where s': "(iter m cp E)\<^sup>*\<^sup>* s1 s'"
    "sinv m E n s' as (tried @ [a] @ takeWhile (callAt E) cur) (dropWhile (callAt E) cur)"
    "s_state s' = s_state s" "s_calls s' = s_calls s" "\<forall>x \<in> known s'. x \<in> known s1 \<or> dead m E x"
    "\<forall>a \<in> set (takeWhile (callAt E) cur). \<not> leads m E as (s_state s) a"
    using assms(2,5,6) unfolding failed_def by auto
  show ?thesis
    unfolding failed_def
    using rtranclp_trans [OF assms(1) s'(1)] s' assms(3,4,7) by (intro exI [of _ s']) auto
qed

text \<open>What is left, when it is not empty, contains a return.\<close>

lemma rem_has_return:
  assumes "wf_entries E n" "rem E S \<noteq> []"
  shows "dropWhile (callAt E) (rem E S) \<noteq> []"
proof -
  obtain a where a: "a \<in> set (rem E S)" using assms(2) by (cases "rem E S") auto
  have "\<exists>b \<in> set (rem E S). \<not> callAt E b"
  proof (cases "callAt E a")
    case True
    then have "\<not> callAt E (partner E a)"
      using a partner_props(3) [OF assms(1), of a] by (simp add: callAt_def rem_facts)
    then show ?thesis using partner_rem(1) [OF assms(1) a True] by blast
  qed (use a in blast)
  then show ?thesis by simp
qed

lemma not_alive:
  assumes "wf_entries E n" "rem E (nid E ` set as) \<noteq> []"
    and "\<forall>a \<in> set (takeWhile (callAt E) (rem E (nid E ` set as))). \<not> leads m E as s a"
  shows "\<not> alive m E (nid E ` set as) s"
  using assms alive_step [OF assms(1), of m "nid E ` set as" s] unfolding leads_def by simp

lemma failed_here:
  assumes "sinv m E n s as tried cur" "takeWhile (callAt E) cur = []"
  shows "failed m cp E n s as tried cur"
proof -
  have "dropWhile (callAt E) cur = cur" using assms(2) by (metis append_Nil takeWhile_dropWhile_id)
  then show ?thesis
    unfolding failed_def using assms by (intro exI [of _ s]) simp
qed

text \<open>A call that was lifted, explored without success and undone.\<close>

lemma lifted_failed:
  assumes wf: "wf_entries E n" and inv: "sinv m E n s as tried (a # cur)"
    and s1: "iter m cp E s s1" "goes m E (s_state s) a s'" "s_state s1 = s'"
      "s_calls s1 = s_calls s @ [(a, s_state s)]" "known s1 = insert (nid E ` set (a # as), s') (known s)"
    and fl: "failed m cp E n s1 (a # as) [] (rem E (nid E ` set (a # as)))" and ne: "rem E (nid E ` set (a # as)) \<noteq> []"
  shows "\<exists>s3. (iter m cp E)\<^sup>*\<^sup>* s s3 \<and> sinv m E n s3 as (tried @ [a]) cur \<and> s_state s3 = s_state s \<and> s_calls s3 = s_calls s
    \<and> (\<forall>x \<in> known s3. x \<in> known s \<or> dead m E x) \<and> \<not> leads m E as (s_state s) a"
proof -
  let ?r = "rem E (nid E ` set (a # as))"
  obtain s2 where s2: "(iter m cp E)\<^sup>*\<^sup>* s1 s2" "sinv m E n s2 (a # as) (takeWhile (callAt E) ?r) (dropWhile (callAt E) ?r)"
    "s_calls s2 = s_calls s1" "\<forall>x \<in> known s2. x \<in> known s1 \<or> dead m E x"
    "\<forall>b \<in> set (takeWhile (callAt E) ?r). \<not> leads m E (a # as) s' b"
    using fl s1(3) unfolding failed_def by auto
  have na: "\<not> alive m E (nid E ` set (a # as)) s'" by (rule not_alive [OF wf ne s2(5)])
  obtain b bs where b: "dropWhile (callAt E) ?r = b # bs" using rem_has_return [OF wf ne] by (cases "dropWhile (callAt E) ?r") auto
  then have "\<not> callAt E b" by (metis hd_dropWhile list.sel(1) list.distinct(1))
  from undo_next [OF wf s2(2) [unfolded b] this, of cp] obtain s3 tried' cur' where s3: "iter m cp E s2 s3"
    "rem E (nid E ` set as) = tried' @ a # cur'" "sinv m E n s3 as (tried' @ [a]) cur'" "known s3 = known s2"
    "s_state s3 = snd (last (s_calls s2))" "s_calls s3 = butlast (s_calls s2)"
    by blast
  have "distinct (tried @ a # cur)" using rem_facts(2) [of E "nid E ` set as"] sinvD(2) [OF inv] by simp
  then have "tried' = tried \<and> cur' = cur"
    using s3(2) sinvD(2) [OF inv] append_Cons_eq_iff [of a tried cur tried' cur'] by auto
  moreover have "(iter m cp E)\<^sup>*\<^sup>* s s3"
    using s1(1) s2(1) s3(1) by (meson converse_rtranclp_into_rtranclp rtranclp.rtrancl_into_rtrancl)
  moreover have "\<not> leads m E as (s_state s) a"
    using na s1(2) by (auto simp: leads_def goes_def)
  moreover have "\<forall>x \<in> known s3. x \<in> known s \<or> dead m E x"
    using s2(4) s3(4) s1(5) na by (auto simp: dead_def)
  ultimately show ?thesis
    using s3 s2(3) s1(4) by (intro exI [of _ s3]) simp
qed

lemma fresh_keep:
  "fresh m E s as \<Longrightarrow> \<forall>x \<in> known s'. x \<in> known s \<or> dead m E x \<Longrightarrow> fresh m E s' as"
  unfolding fresh_def by blast

lemma explore:
  assumes wf: "wf_entries E n" and tot: "total_on m E" and eq: "m_Equal m = Some f"
    and cong: "\<forall>S s t. f s t \<longrightarrow> alive m E S s \<longrightarrow> alive m E S t"
  shows "sinv m E n s as tried cur \<Longrightarrow> fresh m E s as \<Longrightarrow> found m cp E n s \<or> failed m cp E n s as tried cur"
proof (induction "length (rem E (nid E ` set as))" arbitrary: s as tried cur rule: less_induct)
  case (less as)
  show ?case
    using less.prems
  proof (induction cur arbitrary: s tried)
    case (Cons a cur)
    show ?case
    proof (cases "callAt E a")
      case True
      let ?as = "a # as"
      have na: "nid E a \<notin> nid E ` set as"
        using rem_facts(1) [of a E "nid E ` set as"] sinvD(2) [OF Cons.prems(1)] by simp
      from try_next [OF wf tot eq Cons.prems(1) True, of cp] show ?thesis
      proof (elim disjE exE conjE)
        fix s1
        assume s1: "iter m cp E s s1" "sinv m E n s1 as (tried @ [a]) cur" "s_state s1 = s_state s" "s_calls s1 = s_calls s"
          "known s1 = known s" "\<forall>s'. goes m E (s_state s) a s' \<longrightarrow> (\<exists>t. (nid E ` set ?as, t) \<in> known s \<and> f s' t)"
        have "\<not> leads m E as (s_state s) a"
          using s1(6) Cons.prems(2) na cong unfolding leads_def fresh_def dead_def by fastforce
        moreover have "found m cp E n s1 \<or> failed m cp E n s1 as (tried @ [a]) cur"
          using s1 Cons.prems(2) by (intro Cons.IH) (simp_all add: fresh_def)
        ultimately show ?thesis
          using found_step [OF s1(1)] failed_first [OF r_into_rtranclp [of "iter m cp E", OF s1(1)] _ True] s1 by auto
      next
        fix s1 s'
        assume s1: "iter m cp E s s1" "goes m E (s_state s) a s'" "sinv m E n s1 ?as [] (rem E (nid E ` set ?as))"
          "s_state s1 = s'" "s_calls s1 = s_calls s @ [(a, s_state s)]" "known s1 = insert (nid E ` set ?as, s') (known s)"
        have "length (rem E (nid E ` set ?as)) < length (rem E (nid E ` set as))"
          using rem_split [OF wf sinvD(2,3) [OF Cons.prems(1)] True] sinvD(2) [OF Cons.prems(1)] by auto
        moreover have "fresh m E s1 ?as"
          using Cons.prems(2) s1(6) unfolding fresh_def by auto
        ultimately have "found m cp E n s1 \<or> failed m cp E n s1 ?as [] (rem E (nid E ` set ?as))"
          using less.hyps [OF _ s1(3)] by blast
        then show ?thesis
        proof
          assume fl: "failed m cp E n s1 ?as [] (rem E (nid E ` set ?as))"
          show ?thesis
          proof (cases "rem E (nid E ` set ?as) = []")
            case True
            then have "found m cp E n s1" using s1(3) by (auto simp: found_def)
            then show ?thesis using found_step [OF s1(1)] by blast
          next
            case False
            from lifted_failed [OF wf Cons.prems(1) s1(1,2,4,5,6) fl False] obtain s3 where
              s3: "(iter m cp E)\<^sup>*\<^sup>* s s3" "sinv m E n s3 as (tried @ [a]) cur" "s_state s3 = s_state s" "s_calls s3 = s_calls s"
              "\<forall>x \<in> known s3. x \<in> known s \<or> dead m E x" "\<not> leads m E as (s_state s) a"
              by blast
            then show ?thesis
              using Cons.IH [OF s3(2) fresh_keep [OF Cons.prems(2) s3(5)]] found_steps [OF s3(1)]
                failed_first [OF s3(1) _ \<open>callAt E a\<close> s3(6,3,4,5)] by blast
          qed
        qed (use found_step [OF s1(1)] in blast)
      qed
    next
      case False
      then show ?thesis using failed_here [OF Cons.prems(1)] by simp
    qed
  qed (simp add: failed_here)
qed

section \<open>The result\<close>

lemma iter_sinv:
  assumes wf: "wf_entries E n" and tot: "total_on m E" and eq: "m_Equal m = Some f"
    and inv: "sinv m E n s as tried cur" and it: "iter m cp E s s'"
  shows "\<exists>as' tried' cur'. sinv m E n s' as' tried' cur'"
proof -
  have det: "s1 = s'" if "iter m cp E s s1" for s1 using that it by (auto simp: iter_def)
  show ?thesis
  proof (cases cur)
    case Nil
    have "tried = []"
    proof (rule ccontr)
      assume "tried \<noteq> []"
      then have "dropWhile (callAt E) tried \<noteq> []" using rem_has_return [OF wf] sinvD(2) [OF inv] Nil by force
      then show False using sinvD(3) [OF inv] by simp
    qed
    then show ?thesis using it sinv_head [OF inv] Nil by (simp add: iter_def)
  next
    case (Cons a cur')
    show ?thesis
    proof (cases "callAt E a")
      case True
      then show ?thesis
        using try_next [OF wf tot eq inv [unfolded Cons] True, of cp] det by blast
    next
      case False
      show ?thesis
      proof (cases as)
        case Nil
        then have "checkBody m cp False (length E) s = Inr (Return False (s_longest s))"
          using sinvD(1,4) [OF inv] sinv_node [OF inv, of a] sinv_less [OF inv, of a] Cons False by (simp add: checkBody_def)
        then show ?thesis using it by (simp add: iter_def)
      next
        case as: (Cons b as')
        then show ?thesis
          using undo_next [OF wf inv [unfolded Cons as] False, of cp] det by blast
      qed
    qed
  qed
qed

lemma loop_iter:
  assumes "iter m cp E s s'"
  shows "checkLoop m cp kill n (length E) s =
    (if kill (s_ticks s) then Some (Inr (False, s_longest s)) else checkLoop m cp kill n (length E) s')"
  using assms by (subst checkLoop.simps) (auto simp: iter_def load_Some checkBody_def)

definition longest_ok :: "('s, 'v) Model \<Rightarrow> 'v entry list \<Rightarrow> nat \<Rightarrow> longest \<Rightarrow> bool" where
  "longest_ok m E n l \<longleftrightarrow> length l = n \<and> (\<forall>k seq. Some (k, seq) \<in> set l \<longrightarrow> partial_lin m E seq)"

lemma sinv_longest: "sinv m E n s as tried cur \<Longrightarrow> longest_ok m E n (s_longest s)"
  by (simp add: sinv_def longest_ok_def)

lemma loop_iters:
  assumes wf: "wf_entries E n" and tot: "total_on m E" and eq: "m_Equal m = Some f"
  shows "(iter m cp E)\<^sup>*\<^sup>* s s' \<Longrightarrow> sinv m E n s as tried cur \<Longrightarrow>
    checkLoop m cp kill n (length E) s = checkLoop m cp kill n (length E) s'
    \<or> ((\<exists>k. kill k) \<and> (\<exists>l. longest_ok m E n l \<and> checkLoop m cp kill n (length E) s = Some (Inr (False, l))))"
proof (induction arbitrary: as tried cur rule: converse_rtranclp_induct)
  case (step s s1)
  obtain as' tried' cur' where "sinv m E n s1 as' tried' cur'"
    using iter_sinv [OF wf tot eq step.prems step.hyps(1)] by blast
  then show ?case
    using step.IH loop_iter [OF step.hyps(1), of kill n] sinv_longest [OF step.prems] by metis
qed simp

lemma loop_end:
  assumes wf: "wf_entries E n" and inv: "sinv m E n s as [] []"
  shows "\<exists>l. longest_ok m E n l \<and> checkLoop m cp kill n (length E) s = Some (Inr (True, l))" "lin m E (m_Init m)"
proof -
  have h: "load (s_heap s) (Some (length E)) = Inr (the (s_heap s (length E)))" "n_next (the (s_heap s (length E))) = None"
    using sinv_head [OF inv] by simp_all
  then have "checkLoop m cp kill n (length E) s = Some (Inr (True, replicate n (Some (s_ticks s, map (\<lambda>c. e_id (E ! fst c)) (s_calls s)))))"
    by (subst checkLoop.simps) (simp add: checkEnd_def sinv_ids [OF wf inv])
  moreover have "longest_ok m E n (replicate n (Some (s_ticks s, map (\<lambda>c. e_id (E ! fst c)) (s_calls s))))"
    using sinv_partial [OF inv] by (simp add: longest_ok_def)
  ultimately show "\<exists>l. longest_ok m E n l \<and> checkLoop m cp kill n (length E) s = Some (Inr (True, l))" by blast
  have "nid E ` fst ` set (s_calls s) = nid E ` set as" using sinvD(1) [OF inv] by (metis set_map set_rev)
  then have "alive m E ({} \<union> nid E ` fst ` set (s_calls s)) (s_state s)"
    using sinvD(2) [OF inv] by (simp add: alive_def lin_Nil)
  then have "alive m E {} (m_Init m)" using legal_alive [OF wf sinvD(10) [OF inv]] by blast
  then show "lin m E (m_Init m)" by (simp add: alive_def rem_def map_nth)
qed

lemma loop_fail:
  assumes inv: "sinv m E n s [] tried (b # cur)" and b: "\<not> callAt E b"
  shows "checkLoop m cp kill n (length E) s = Some (Inr (False, s_longest s))"
proof -
  have bl: "b < length E" using sinv_less [OF inv] by simp
  have "n_next (the (s_heap s (length E))) \<noteq> None" "load (s_heap s) (Some (length E)) = Inr (the (s_heap s (length E)))"
    using sinv_head [OF inv] by (cases tried; simp)+
  moreover have "checkBody m cp k (length E) s = Inr (Return False (s_longest s))" for k
    using sinvD(1,4) [OF inv] sinv_node [OF inv bl] b by (simp add: checkBody_def)
  ultimately show ?thesis by (subst checkLoop.simps) auto
qed

lemma checkSingle_correct:
  assumes wf: "wf_entries E n" and tot: "total_on m E" and eqo: "equal_ok m"
  shows "\<exists>b l. checkSingle m E cp kill = Some (Inr (b, l)) \<and> longest_ok m E n l
    \<and> (b \<longrightarrow> lin m E (m_Init m)) \<and> ((\<forall>k. \<not> kill k) \<longrightarrow> b = lin m E (m_Init m))"
proof -
  obtain f where eq: "m_Equal m = Some f"
    and sim: "\<And>s t i out s'. f s t \<Longrightarrow> step_ok m s i out s' \<Longrightarrow> \<exists>t'. step_ok m t i out t' \<and> f s' t'"
    using eqo unfolding equal_ok_def by blast
  have cong: "\<forall>S s t. f s t \<longrightarrow> alive m E S s \<longrightarrow> alive m E S t"
    using lin_equal [of m _ _ f] sim unfolding alive_def by blast
  obtain h h' where h: "makeLinkedEntries E = Inr (h, hd_ptr [0..<length E] None)"
    "nodeLength h (hd_ptr [0..<length E] None) 0 = Some (Inr (2 * n))"
    "insertBefore (h(length E \<mapsto> headNode)) (length E) (hd_ptr [0..<length E] None) = Inr h'"
    "seg h' None (length E # [0..<length E]) None" "static_nodes h' E {0..<length E}"
    using head_links [OF wf] by blast
  let ?s = "startSearch m h' (hd_ptr [0..<length E] None) n"
  have rem0: "rem E {} = [0..<length E]" by (simp add: rem_def)
  have inv: "sinv m E n ?s [] [] [0..<length E]"
    using h(4,5) rem0 by (simp add: sinv_def startSearch_def elems_new)
  have start: "checkSingle m E cp kill = checkLoop m cp kill n (length E) ?s"
    using h(1,2,3) by (simp add: checkSingle_def Let_def)
  have "fresh m E ?s []" by (simp add: fresh_def known_def startSearch_def)
  then have "found m cp E n ?s \<or> failed m cp E n ?s [] [] [0..<length E]"
    using explore [OF wf tot eq cong inv] by blast
  then show ?thesis
  proof
    assume "found m cp E n ?s"
    then obtain s' as where s': "(iter m cp E)\<^sup>*\<^sup>* ?s s'" "sinv m E n s' as [] []" by (auto simp: found_def)
    then show ?thesis
      using loop_iters [OF wf tot eq s'(1) inv, of kill] loop_end [OF wf s'(2)] start by metis
  next
    assume "failed m cp E n ?s [] [] [0..<length E]"
    then obtain s' where s': "(iter m cp E)\<^sup>*\<^sup>* ?s s'"
      "sinv m E n s' [] (takeWhile (callAt E) [0..<length E]) (dropWhile (callAt E) [0..<length E])"
      "\<forall>a \<in> set (takeWhile (callAt E) [0..<length E]). \<not> leads m E [] (m_Init m) a"
      by (auto simp: failed_def startSearch_def)
    show ?thesis
    proof (cases "E = []")
      case True
      then show ?thesis
        using loop_end(1) [OF wf, of m ?s "[]" cp kill] loop_end(2) [OF wf, of m ?s "[]"] inv start by auto
    next
      case False
      then have ne: "rem E {} \<noteq> []" by (simp add: rem0)
      then obtain b bs where b: "dropWhile (callAt E) [0..<length E] = b # bs"
        using rem_has_return [OF wf, of "{}"] rem0 by (cases "dropWhile (callAt E) [0..<length E]") auto
      then have "\<not> callAt E b" by (metis hd_dropWhile list.sel(1) list.distinct(1))
      then have "checkLoop m cp kill n (length E) s' = Some (Inr (False, s_longest s'))"
        using loop_fail s'(2) b by metis
      moreover have "\<not> alive m E {} (m_Init m)"
        using not_alive [OF wf, of "[]" m "m_Init m"] ne s'(3) rem0 by simp
      then have "\<not> lin m E (m_Init m)" by (simp add: alive_def rem0 map_nth)
      ultimately show ?thesis
        using loop_iters [OF wf tot eq s'(1) inv, of kill] sinv_longest [OF s'(2)] start by auto
    qed
  qed
qed

end
