(* ===== verification/PorcLin.thy ===== *)
theory PorcLin
  imports PorcCheck
begin

text \<open>
  Linearizability: the operations of a history have an order that the model accepts and in which no
  operation comes before one that had returned when it was called. The reference of the search is
  this, for the entries that \<open>makeEntries\<close> makes of a history.
\<close>

section \<open>Orders\<close>

fun accepts :: "('s, 'v) Model \<Rightarrow> 's \<Rightarrow> ('v \<times> 'v) list \<Rightarrow> bool" where
  "accepts m s [] = True"
| "accepts m s ((i, out) # ops) =
     (case m_Step m s i out of Inl e \<Rightarrow> False | Inr (ok, s') \<Rightarrow> ok \<and> accepts m s' ops)"

definition callOf :: "'v entry list \<Rightarrow> nat \<Rightarrow> nat" where
  "callOf E i = (THE a. a < length E \<and> callAt E a \<and> nid E a = i)"

definition returnOf :: "'v entry list \<Rightarrow> nat \<Rightarrow> nat" where
  "returnOf E i = partner E (callOf E i)"

definition opOf :: "'v entry list \<Rightarrow> nat \<Rightarrow> 'v \<times> 'v" where
  "opOf E i = (e_value (E ! callOf E i), e_value (E ! returnOf E i))"

text \<open>An order of the operations with ids outside \<open>S\<close>, from the state \<open>s\<close>.\<close>

definition order_of :: "('s, 'v) Model \<Rightarrow> 'v entry list \<Rightarrow> nat \<Rightarrow> nat set \<Rightarrow> 's \<Rightarrow> nat list \<Rightarrow> bool" where
  "order_of m E n S s order \<longleftrightarrow> distinct order \<and> set order = {..<n} - S
     \<and> sorted_wrt (\<lambda>i j. \<not> returnOf E j < callOf E i) order \<and> accepts m s (map (opOf E) order)"

lemma callOf_eq:
  assumes "wf_entries E n" "a < length E" "callAt E a"
  shows "callOf E (nid E a) = a"
  unfolding callOf_def
proof (rule the_equality)
  fix b
  assume "b < length E \<and> callAt E b \<and> nid E b = nid E a"
  then show "b = a"
    using assms nid_eq [OF assms(1), of b a] wf_inj [OF assms(1), of b a] by (simp add: callAt_def)
qed (use assms in simp)

text \<open>Every id has a call: there are as many calls as returns, and no two calls of an id.\<close>

lemma call_exists:
  assumes wf: "wf_entries E n" and i: "i < n"
  shows "\<exists>a < length E. callAt E a \<and> nid E a = i"
proof -
  let ?C = "{a. a < length E \<and> callAt E a}" and ?R = "{a. a < length E \<and> \<not> callAt E a}"
  have inj: "inj_on (nid E) ?C" "inj_on (nid E) ?R"
    using wf_inj [OF wf] nid_eq [OF wf] by (auto simp: inj_on_def callAt_def)
  have sub: "nid E ` ?C \<subseteq> {..<n}" "nid E ` ?R \<subseteq> {..<n}" using nid_less [OF wf] by auto
  have "card ?C \<le> n" "card ?R \<le> n"
    using card_mono [OF _ sub(1)] card_mono [OF _ sub(2)] card_image [OF inj(1)] card_image [OF inj(2)] by auto
  moreover have "?C \<union> ?R = {..<2 * n}" using wf by (auto simp: wf_entries_def)
  then have "card ?C + card ?R = 2 * n"
    using card_Un_disjoint [of ?C ?R] by (metis (no_types, lifting) card_lessThan disjoint_iff finite_Un finite_lessThan mem_Collect_eq)
  ultimately have "card (nid E ` ?C) = n" using card_image [OF inj(1)] by simp
  then have "nid E ` ?C = {..<n}" using sub(1) by (intro card_subset_eq) simp_all
  then show ?thesis using i by (metis (mono_tags, lifting) imageE lessThan_iff mem_Collect_eq)
qed

lemma callOf_props:
  assumes "wf_entries E n" "i < n"
  shows "callOf E i < length E" "callAt E (callOf E i)" "nid E (callOf E i) = i"
    "callOf E i < returnOf E i" "returnOf E i < length E" "\<not> callAt E (returnOf E i)" "nid E (returnOf E i) = i"
proof -
  obtain a where a: "a < length E" "callAt E a" "nid E a = i" using call_exists [OF assms] by blast
  then have c: "callOf E i = a" using callOf_eq [OF assms(1) a(1,2)] by simp
  show "callOf E i < length E" "callAt E (callOf E i)" "nid E (callOf E i) = i" using a c by simp_all
  show "callOf E i < returnOf E i" "returnOf E i < length E" "\<not> callAt E (returnOf E i)" "nid E (returnOf E i) = i"
    using a partner_props [OF assms(1) a(1)] by (simp_all add: c returnOf_def callAt_def nid_def)
qed

lemma takeWhile_sorted:
  assumes "sorted xs" "distinct xs"
  shows "a \<in> set (takeWhile P xs) \<longleftrightarrow> a \<in> set xs \<and> (\<forall>b \<in> set xs. b \<le> a \<longrightarrow> P b)"
  using assms
proof (induction xs)
  case (Cons x xs)
  then show ?case by auto
qed simp

text \<open>The calls that can be executed next: those that no outstanding return precedes.\<close>

lemma next_calls:
  assumes wf: "wf_entries E n"
  shows "a \<in> set (takeWhile (callAt E) (rem E S)) \<longleftrightarrow>
    (\<exists>i < n. i \<notin> S \<and> a = callOf E i \<and> (\<forall>j < n. j \<notin> S \<longrightarrow> \<not> returnOf E j < callOf E i))"
proof -
  have s: "sorted (rem E S)" by (simp add: rem_def sorted_wrt_filter)
  have tw: "a \<in> set (takeWhile (callAt E) (rem E S)) \<longleftrightarrow> a \<in> set (rem E S) \<and> (\<forall>b \<in> set (rem E S). b \<le> a \<longrightarrow> callAt E b)"
    by (rule takeWhile_sorted [OF s rem_facts(2)])
  show ?thesis
  proof
    assume "a \<in> set (takeWhile (callAt E) (rem E S))"
    then have a: "a < length E" "nid E a \<notin> S" "callAt E a" and b: "\<forall>b. b < length E \<longrightarrow> nid E b \<notin> S \<longrightarrow> b \<le> a \<longrightarrow> callAt E b"
      using tw by (auto simp: rem_facts)
    have "\<not> returnOf E j < callOf E (nid E a)" if "j < n" "j \<notin> S" for j
      using callOf_props(5-7) [OF wf that(1)] that(2) b callOf_eq [OF wf a(1,3)] by force
    then show "\<exists>i < n. i \<notin> S \<and> a = callOf E i \<and> (\<forall>j < n. j \<notin> S \<longrightarrow> \<not> returnOf E j < callOf E i)"
      using a callOf_eq [OF wf a(1,3)] nid_less [OF wf a(1)] by (intro exI [of _ "nid E a"]) auto
  next
    assume "\<exists>i < n. i \<notin> S \<and> a = callOf E i \<and> (\<forall>j < n. j \<notin> S \<longrightarrow> \<not> returnOf E j < callOf E i)"
    then obtain i where i: "i < n" "i \<notin> S" "a = callOf E i" "\<forall>j < n. j \<notin> S \<longrightarrow> \<not> returnOf E j < callOf E i" by blast
    note p = callOf_props [OF wf i(1)]
    have "callAt E b" if b: "b < length E" "nid E b \<notin> S" "b \<le> a" for b
    proof (rule ccontr)
      assume nc: "\<not> callAt E b"
      have j: "nid E b < n" using nid_less [OF wf b(1)] .
      have "returnOf E (nid E b) = b"
        using callOf_props [OF wf j] wf_inj [OF wf _ b(1)] nid_eq [OF wf _ b(1)] nc by (simp add: callAt_def)
      then show False using i(3,4) j b nc p(2) by (metis le_neq_implies_less)
    qed
    then show "a \<in> set (takeWhile (callAt E) (rem E S))"
      using tw i p by (auto simp: rem_facts)
  qed
qed

lemma goes_op:
  assumes "wf_entries E n" "i < n"
  shows "goes m E s (callOf E i) s' \<longleftrightarrow> m_Step m s (fst (opOf E i)) (snd (opOf E i)) = Inr (True, s')"
  by (simp add: goes_def opOf_def returnOf_def)

lemma accepts_Cons: "accepts m s (op # ops) \<longleftrightarrow> (\<exists>s'. m_Step m s (fst op) (snd op) = Inr (True, s') \<and> accepts m s' ops)"
  by (cases op) (auto split: sum.split)

lemma alive_order:
  assumes wf: "wf_entries E n"
  shows "S \<subseteq> {..<n} \<Longrightarrow> alive m E S s \<longleftrightarrow> (\<exists>order. order_of m E n S s order)"
proof (induction "card ({..<n} - S)" arbitrary: S s rule: less_induct)
  case less
  have step: "alive m E (insert i S) s' \<longleftrightarrow> (\<exists>order. order_of m E n (insert i S) s' order)" if "i < n" "i \<notin> S" for i s'
  proof (rule less.hyps)
    show "card ({..<n} - insert i S) < card ({..<n} - S)" using that by (intro psubset_card_mono) auto
  qed (use that less.prems in auto)
  have ids: "set order = {..<n} - S \<longleftrightarrow> i < n \<and> i \<notin> S \<and> set rest = {..<n} - insert i S"
    if "order = i # rest" "distinct order" for order i rest
    using that by auto
  have "rem E S = [] \<longleftrightarrow> {..<n} - S = {}"
    using call_exists [OF wf] nid_less [OF wf] by (fastforce simp: rem_def filter_empty_conv)
  then have empty: "rem E S = [] \<longleftrightarrow> order_of m E n S s []" by (auto simp: order_of_def)
  have cons: "order_of m E n S s (i # rest) \<longleftrightarrow> i < n \<and> i \<notin> S \<and> (\<forall>j < n. j \<notin> S \<longrightarrow> \<not> returnOf E j < callOf E i)
      \<and> (\<exists>s'. goes m E s (callOf E i) s' \<and> order_of m E n (insert i S) s' rest)" (is "_ \<longleftrightarrow> ?r") for i rest
  proof
    assume o: "order_of m E n S s (i # rest)"
    then have i: "i < n" "i \<notin> S" "set rest = {..<n} - insert i S" using ids by (auto simp: order_of_def)
    moreover have "\<not> returnOf E j < callOf E i" if "j < n" "j \<notin> S" for j
      using o that i callOf_props(4) [OF wf i(1)] by (cases "j = i") (auto simp: order_of_def)
    moreover obtain s' where "m_Step m s (fst (opOf E i)) (snd (opOf E i)) = Inr (True, s')" "accepts m s' (map (opOf E) rest)"
      using o by (auto simp: order_of_def accepts_Cons)
    ultimately show ?r
      using o goes_op [OF wf i(1), of m s s'] by (auto simp: order_of_def)
  next
    assume ?r
    then show "order_of m E n S s (i # rest)"
      using goes_op [OF wf, of i m s] by (auto simp: order_of_def accepts_Cons)
  qed
  have "(\<exists>order. order_of m E n S s order) \<longleftrightarrow> order_of m E n S s [] \<or> (\<exists>i rest. order_of m E n S s (i # rest))"
    by (metis list.exhaust)
  also have "\<dots> \<longleftrightarrow> rem E S = [] \<or> (\<exists>i < n. i \<notin> S \<and> (\<forall>j < n. j \<notin> S \<longrightarrow> \<not> returnOf E j < callOf E i)
      \<and> (\<exists>s'. goes m E s (callOf E i) s' \<and> alive m E (insert i S) s'))"
    unfolding empty cons using step by metis
  also have "\<dots> \<longleftrightarrow> alive m E S s"
    unfolding alive_step [OF wf, of m S s] Bex_def next_calls [OF wf] using callOf_props(3) [OF wf] by metis
  finally show ?case ..
qed

lemma lin_order: "wf_entries E n \<Longrightarrow> lin m E s \<longleftrightarrow> (\<exists>order. order_of m E n {} s order)"
  using alive_order [of E n "{}" m s] by (simp add: alive_def rem_def map_nth)

section \<open>Histories of operations\<close>

definition linearizable :: "('s, 'v) Model \<Rightarrow> 'v Operation list \<Rightarrow> bool" where
  "linearizable m h \<longleftrightarrow> (\<exists>order. distinct order \<and> set order = {..<length h}
     \<and> sorted_wrt (\<lambda>i j. \<not> o_Return (h ! j) < o_Call (h ! i)) order
     \<and> accepts m (m_Init m) (map (\<lambda>i. (o_Input (h ! i), o_Output (h ! i))) order))"

definition complete :: "'v Operation list \<Rightarrow> bool" where
  "complete h \<longleftrightarrow> (\<forall>op \<in> set h. o_Call op \<le> o_Return op) \<and> int (length h) \<le> 2 ^ 63"

text \<open>What \<open>sort.Sort\<close> promises: a permutation in which no element is less than an earlier one.\<close>

definition sorts :: "('v entry list \<Rightarrow> 'v entry list) \<Rightarrow> bool" where
  "sorts f \<longleftrightarrow> (\<forall>xs. mset (f xs) = mset xs \<and> sorted_wrt (\<lambda>a b. \<not> Less b a) (f xs))"

lemma entriesFrom_mem:
  "e \<in> set (entriesFrom k h) \<longleftrightarrow> (\<exists>i < length h.
     e = \<lparr>e_kind = callEntry, e_value = o_Input (h ! i), e_id = k + int i, e_time = o_Call (h ! i), e_clientId = o_ClientId (h ! i)\<rparr>
     \<or> e = \<lparr>e_kind = returnEntry, e_value = o_Output (h ! i), e_id = k + int i, e_time = o_Return (h ! i), e_clientId = o_ClientId (h ! i)\<rparr>)"
proof (induction h arbitrary: k)
  case (Cons op h)
  then show ?case
    by (auto simp: Ex_less_Suc2 algebra_simps)
qed simp

lemma entriesFrom_length: "length (entriesFrom k h) = 2 * length h"
  by (induction h arbitrary: k) simp_all

lemma entriesFrom_distinct: "distinct (map (\<lambda>e. (e_kind e, e_id e)) (entriesFrom k h))"
proof (induction h arbitrary: k)
  case (Cons op h)
  have "k < e_id e" if "e \<in> set (entriesFrom (k + 1) h)" for e
    using that unfolding entriesFrom_mem by (elim exE conjE disjE) simp_all
  then show ?case using Cons by fastforce
qed simp

lemma makeEntries_facts:
  assumes "sorts f"
  shows "mset (makeEntries f h) = mset (entriesFrom 0 h)" "sorted_wrt (\<lambda>a b. \<not> Less b a) (makeEntries f h)"
    "set (makeEntries f h) = set (entriesFrom 0 h)" "length (makeEntries f h) = 2 * length h"
    "distinct (map (\<lambda>e. (e_kind e, e_id e)) (makeEntries f h))"
proof -
  show m: "mset (makeEntries f h) = mset (entriesFrom 0 h)" and "sorted_wrt (\<lambda>a b. \<not> Less b a) (makeEntries f h)"
    using assms by (simp_all add: sorts_def makeEntries_def)
  show "set (makeEntries f h) = set (entriesFrom 0 h)" using m by (rule mset_eq_setD)
  show "length (makeEntries f h) = 2 * length h" using mset_eq_length [OF m] by (simp add: entriesFrom_length)
  have "mset (map (\<lambda>e. (e_kind e, e_id e)) (makeEntries f h)) = mset (map (\<lambda>e. (e_kind e, e_id e)) (entriesFrom 0 h))"
    using m by simp
  then show "distinct (map (\<lambda>e. (e_kind e, e_id e)) (makeEntries f h))"
    using mset_eq_imp_distinct_iff entriesFrom_distinct by blast
qed

lemma makeEntries_at:
  assumes "sorts f" "a < length (makeEntries f h)"
  shows "nid (makeEntries f h) a < length h" "e_id (makeEntries f h ! a) = int (nid (makeEntries f h) a)"
    "e_value (makeEntries f h ! a) = (if callAt (makeEntries f h) a then o_Input (h ! nid (makeEntries f h) a) else o_Output (h ! nid (makeEntries f h) a))"
    "e_time (makeEntries f h ! a) = (if callAt (makeEntries f h) a then o_Call (h ! nid (makeEntries f h) a) else o_Return (h ! nid (makeEntries f h) a))"
  using nth_mem [OF assms(2)] unfolding makeEntries_facts(3) [OF assms(1)] entriesFrom_mem
  by (auto simp: nid_def callAt_def is_call_def)

lemma call_less_return:
  assumes "e_time c \<le> e_time r" "is_call c" "\<not> is_call r"
  shows "Less c r" "\<not> Less r c"
  using assms by (cases "e_kind r"; auto simp: Less_def is_call_def)+

lemma makeEntries_wf:
  assumes f: "sorts f" and h: "complete h"
  shows "wf_entries (makeEntries f h) (length h)"
proof -
  let ?E = "makeEntries f h"
  note e = makeEntries_facts [OF f, of h]
  have ids: "0 \<le> e_id x \<and> e_id x < int (length h)" if "x \<in> set ?E" for x
    using that by (auto simp: e(3) entriesFrom_mem)
  have "\<exists>b < length ?E. a < b \<and> \<not> is_call (?E ! b) \<and> e_id (?E ! b) = e_id (?E ! a)"
    if a: "a < length ?E" "is_call (?E ! a)" for a
  proof -
    let ?i = "nid ?E a"
    note at = makeEntries_at [OF f a(1)]
    let ?r = "\<lparr>e_kind = returnEntry, e_value = o_Output (h ! ?i), e_id = int ?i, e_time = o_Return (h ! ?i), e_clientId = o_ClientId (h ! ?i)\<rparr>"
    have "?r \<in> set ?E" using at(1) unfolding e(3) entriesFrom_mem by (intro exI [of _ ?i]) simp
    then obtain b where b: "b < length ?E" "?E ! b = ?r" by (metis in_set_conv_nth)
    have "o_Call (h ! ?i) \<le> o_Return (h ! ?i)" using h at(1) by (simp add: complete_def)
    then have l: "Less (?E ! a) (?E ! b)"
      using at(4) a(2) b(2) call_less_return(1) [of "?E ! a" "?E ! b"] by (simp add: callAt_def is_call_def)
    have "\<not> b < a" using l sorted_wrt_nth_less [OF e(2), of b a] a(1) by blast
    moreover have "b \<noteq> a" using a(2) b(2) by (auto simp: is_call_def)
    ultimately show ?thesis using b at(2) by (intro exI [of _ b]) (simp add: is_call_def)
  qed
  then show ?thesis
    using e h ids by (simp add: wf_entries_def complete_def)
qed

lemma makeEntries_order:
  assumes f: "sorts f" and h: "complete h" and i: "i < length h" and j: "j < length h"
  shows "returnOf (makeEntries f h) j < callOf (makeEntries f h) i \<longleftrightarrow> o_Return (h ! j) < o_Call (h ! i)"
    and "opOf (makeEntries f h) i = (o_Input (h ! i), o_Output (h ! i))"
proof -
  let ?E = "makeEntries f h"
  note wf = makeEntries_wf [OF f h]
  note ci = callOf_props [OF wf i] and cj = callOf_props [OF wf j]
  let ?c = "?E ! callOf ?E i" and ?r = "?E ! returnOf ?E j"
  have t: "e_time ?c = o_Call (h ! i)" "e_time ?r = o_Return (h ! j)" "is_call ?c" "\<not> is_call ?r"
    using makeEntries_at(4) [OF f ci(1)] makeEntries_at(4) [OF f cj(5)] ci cj by (simp_all add: callAt_def)
  show "returnOf ?E j < callOf ?E i \<longleftrightarrow> o_Return (h ! j) < o_Call (h ! i)"
  proof
    assume "returnOf ?E j < callOf ?E i"
    then have "\<not> Less ?c ?r" using sorted_wrt_nth_less [OF makeEntries_facts(2) [OF f]] ci(1) by blast
    then show "o_Return (h ! j) < o_Call (h ! i)" using call_less_return(1) [of ?c ?r] t by force
  next
    assume "o_Return (h ! j) < o_Call (h ! i)"
    then have "Less ?r ?c" using t by (simp add: Less_def)
    then have "\<not> callOf ?E i < returnOf ?E j" using sorted_wrt_nth_less [OF makeEntries_facts(2) [OF f]] cj(5) by blast
    moreover have "callOf ?E i \<noteq> returnOf ?E j" using ci(2) cj(6) by metis
    ultimately show "returnOf ?E j < callOf ?E i" by simp
  qed
  show "opOf ?E i = (o_Input (h ! i), o_Output (h ! i))"
    using makeEntries_at(3) [OF f ci(1)] makeEntries_at(3) [OF f ci(5)] ci by (simp add: opOf_def)
qed

lemma lin_linearizable:
  assumes "sorts f" "complete h"
  shows "lin m (makeEntries f h) (m_Init m) \<longleftrightarrow> linearizable m h"
proof -
  let ?E = "makeEntries f h"
  note wf = makeEntries_wf [OF assms]
  have "order_of m ?E (length h) {} (m_Init m) order \<longleftrightarrow> distinct order \<and> set order = {..<length h}
     \<and> sorted_wrt (\<lambda>i j. \<not> o_Return (h ! j) < o_Call (h ! i)) order
     \<and> accepts m (m_Init m) (map (\<lambda>i. (o_Input (h ! i), o_Output (h ! i))) order)" for order
  proof (cases "set order = {..<length h}")
    case True
    then have sw: "sorted_wrt (\<lambda>i j. \<not> returnOf ?E j < callOf ?E i) order \<longleftrightarrow> sorted_wrt (\<lambda>i j. \<not> o_Return (h ! j) < o_Call (h ! i)) order"
      using makeEntries_order(1) [OF assms] by (intro iffI; elim sorted_wrt_mono_rel [rotated]) auto
    have mp: "map (opOf ?E) order = map (\<lambda>i. (o_Input (h ! i), o_Output (h ! i))) order"
      using True makeEntries_order(2) [OF assms] by auto
    show ?thesis unfolding order_of_def sw mp using True by simp
  qed (simp add: order_of_def)
  then show ?thesis
    unfolding lin_order [OF wf] linearizable_def by blast
qed

end
