(* ===== verification/PorcSpec.thy ===== *)
theory PorcSpec
  imports PorcLin
begin

text \<open>
  The whole check: the goroutines of the partitions, the loop that collects their results, and the
  exported functions, for any model that keeps what the checker asks of it.
\<close>

section \<open>Collecting the results\<close>

lemma selectLoop_all:
  assumes "\<forall>i \<in> set is. run i = Some (Inr (res i, l i))" "received + length is = n" "is \<noteq> []"
  shows "selectLoop run ci timeout n ok received (map Arrived is) = Some (Inr (ok \<and> (\<forall>i \<in> set is. res i), False))"
  using assms
proof (induction "is" arbitrary: ok received)
  case (Cons i "is")
  show ?case
  proof (cases "is = []")
    case False
    then show ?thesis
      using Cons.prems Cons.IH [of "received + 1" "ok \<and> res i"] by auto
  qed (use Cons.prems in auto)
qed simp

text \<open>What a result says, whenever the loop ends.\<close>

lemma selectLoop_mono:
  "selectLoop run ci timeout n ok received as = Some (Inr (True, timedOut)) \<Longrightarrow> ok"
proof (induction as arbitrary: ok received)
  case (Cons a as)
  show ?case
  proof (cases a)
    case (Arrived i)
    then show ?thesis
      using Cons.prems by (auto dest!: Cons.IH split: option.splits sum.splits if_splits)
  qed (use Cons.prems in \<open>auto split: if_splits\<close>)
qed simp

lemma selectLoop_illegal:
  assumes "\<forall>i. Arrived i \<in> set as \<longrightarrow> run i = Some (Inr (res i, l i))"
  shows "selectLoop run ci timeout n ok received as = Some (Inr (False, timedOut)) \<Longrightarrow> ok \<Longrightarrow> \<exists>i. Arrived i \<in> set as \<and> \<not> res i"
  using assms
proof (induction as arbitrary: ok received)
  case (Cons a as)
  show ?case
  proof (cases a)
    case (Arrived i)
    show ?thesis
    proof (cases "res i")
      case True
      then show ?thesis
        using Cons.prems Cons.IH [of ok "received + 1"] Arrived by (auto split: if_splits)
    qed (use Arrived in auto)
  qed (use Cons.prems in \<open>auto split: if_splits\<close>)
qed simp

lemma selectLoop_ok:
  assumes "\<forall>i. Arrived i \<in> set as \<longrightarrow> run i = Some (Inr (res i, l i))" and "distinct as"
  shows "selectLoop run ci timeout n ok received as = Some (Inr (True, False)) \<Longrightarrow>
    \<exists>is. Arrived ` set is \<subseteq> set as \<and> distinct is \<and> received + length is \<ge> n \<and> (\<forall>i \<in> set is. res i)"
  using assms
proof (induction as arbitrary: ok received)
  case (Cons a as)
  show ?case
  proof (cases a)
    case (Arrived i)
    then have run: "run i = Some (Inr (res i, l i))" using Cons.prems by simp
    show ?thesis
    proof (cases "received + 1 \<ge> n")
      case True
      then show ?thesis using Cons.prems run Arrived by (intro exI [of _ "[i]"]) (auto split: if_splits)
    next
      case False
      then have sel: "selectLoop run ci timeout n (ok \<and> res i) (received + 1) as = Some (Inr (True, False))"
        using Cons.prems run Arrived by (auto split: if_splits)
      obtain "is" where i: "Arrived ` set is \<subseteq> set as" "distinct is" "received + 1 + length is \<ge> n" "\<forall>i \<in> set is. res i"
        using Cons.IH [OF sel] Cons.prems by auto
      moreover have "res i" using selectLoop_mono [OF sel] by simp
      ultimately show ?thesis using Cons.prems Arrived by (intro exI [of _ "i # is"]) auto
    qed
  qed (use Cons.prems in \<open>auto split: if_splits\<close>)
qed simp

lemma allPartials_all:
  "\<forall>i \<in> set is. run i = Some (Inr (b i, l i)) \<Longrightarrow> allPartials run is = Some (Inr (map (\<lambda>i. uniquePartials {} (l i)) is))"
  by (induction "is") simp_all

lemma uniquePartials_sub: "seq \<in> set (uniquePartials seen l) \<Longrightarrow> \<exists>k. Some (k, seq) \<in> set l"
  by (induction seen l rule: uniquePartials.induct) (auto split: if_splits)

section \<open>Models that can be checked\<close>

text \<open>
  What the checker asks of a model: steps that do not panic on the operations it is meant for, equal
  states that allow the same steps, and a partition of such histories into histories of such
  operations. \<open>fits\<close> says which operations these are.
\<close>

definition subrun :: "('s, 'v) Model \<Rightarrow> 'v env \<Rightarrow> 'v Operation list list \<Rightarrow> bool \<Rightarrow> nat \<Rightarrow> (bool \<times> longest) res option" where
  "subrun m env ps cp i = checkSingle (fillDefault m) (map (makeEntries (sorter env)) ps ! i) cp (kills env i)"

definition verdict :: "('s, 'v) Model \<Rightarrow> 'v env \<Rightarrow> 'v Operation list list \<Rightarrow> bool \<Rightarrow> nat \<Rightarrow> bool \<times> longest" where
  "verdict m env ps cp i = (case subrun m env ps cp i of Some (Inr (b, l)) \<Rightarrow> (b, l) | _ \<Rightarrow> (False, []))"

locale checked_model =
  fixes m :: "('s, 'v) Model" and fits :: "'v Operation \<Rightarrow> bool" and part :: "'v Operation list \<Rightarrow> 'v Operation list list"
  assumes partition: "\<forall>op \<in> set h. fits op \<Longrightarrow> the (m_Partition (fillDefault m)) h = Inr (part h)"
    and part_fits: "p \<in> set (part h) \<Longrightarrow> set p \<subseteq> set h \<and> length p \<le> length h"
    and steps: "fits op \<Longrightarrow> \<exists>b s'. m_Step m s (o_Input op) (o_Output op) = Inr (b, s')"
    and equal: "equal_ok (fillDefault m)"
begin

lemma fill_same: "m_Step (fillDefault m) = m_Step m" "m_Init (fillDefault m) = m_Init m"
  "\<exists>f. m_Partition (fillDefault m) = Some f"
  by (auto simp: fillDefault_def Let_def)

lemma accepts_same: "accepts (fillDefault m) s ops = accepts m s ops"
  by (induction ops arbitrary: s) (auto simp: fill_same split: sum.split)

lemma linearizable_same: "linearizable (fillDefault m) h = linearizable m h"
  by (simp add: linearizable_def accepts_same fill_same)

lemma entries_total:
  assumes "sorts f" "complete h" "\<forall>op \<in> set h. fits op"
  shows "total_on (fillDefault m) (makeEntries f h)"
proof -
  let ?E = "makeEntries f h"
  note wf = makeEntries_wf [OF assms(1,2)]
  have "\<exists>b s'. m_Step m s (e_value (?E ! a)) (e_value (?E ! partner ?E a)) = Inr (b, s')" if a: "a < length ?E" "callAt ?E a" for s a
  proof -
    have i: "nid ?E a < length h" using makeEntries_at(1) [OF assms(1) a(1)] .
    have "opOf ?E (nid ?E a) = (e_value (?E ! a), e_value (?E ! partner ?E a))"
      using callOf_eq [OF wf a] by (simp add: opOf_def returnOf_def)
    then have "e_value (?E ! a) = o_Input (h ! nid ?E a)" "e_value (?E ! partner ?E a) = o_Output (h ! nid ?E a)"
      using makeEntries_order(2) [OF assms(1,2) i i] by simp_all
    then show ?thesis using steps assms(3) i by simp
  qed
  then show ?thesis by (simp add: total_on_def fill_same)
qed

lemma part_checked:
  assumes "sorts f" "complete h" "\<forall>op \<in> set h. fits op"
  shows "\<exists>b l. checkSingle (fillDefault m) (makeEntries f h) cp kill = Some (Inr (b, l))
    \<and> longest_ok (fillDefault m) (makeEntries f h) (length h) l
    \<and> (b \<longrightarrow> linearizable m h) \<and> ((\<forall>k. \<not> kill k) \<longrightarrow> b = linearizable m h)"
  using checkSingle_correct [OF makeEntries_wf [OF assms(1,2)] entries_total [OF assms] equal, of cp kill]
  unfolding lin_linearizable [OF assms(1,2)] linearizable_same .

text \<open>The history of every partition is complete when the history is.\<close>

lemma part_complete:
  assumes "complete h" "\<forall>op \<in> set h. fits op" "p \<in> set (part h)"
  shows "complete p" "\<forall>op \<in> set p. fits op"
  using assms part_fits [OF assms(3)] by (auto simp: complete_def)

lemma subrun_verdict:
  assumes "sorts (sorter env)" "complete h" "\<forall>op \<in> set h. fits op" "i < length (part h)"
  shows "subrun m env (part h) cp i = Some (Inr (fst (verdict m env (part h) cp i), snd (verdict m env (part h) cp i)))"
    and "fst (verdict m env (part h) cp i) \<Longrightarrow> linearizable m (part h ! i)"
    and "\<forall>k. \<not> kills env i k \<Longrightarrow> fst (verdict m env (part h) cp i) = linearizable m (part h ! i)"
    and "longest_ok (fillDefault m) (makeEntries (sorter env) (part h ! i)) (length (part h ! i)) (snd (verdict m env (part h) cp i))"
proof -
  have p: "complete (part h ! i)" "\<forall>op \<in> set (part h ! i). fits op"
    using part_complete [OF assms(2,3) nth_mem [OF assms(4)]] by blast+
  from part_checked [OF assms(1) p, of cp "kills env i"]
  obtain b l where bl: "subrun m env (part h) cp i = Some (Inr (b, l))" "b \<longrightarrow> linearizable m (part h ! i)"
    "(\<forall>k. \<not> kills env i k) \<longrightarrow> b = linearizable m (part h ! i)"
    "longest_ok (fillDefault m) (makeEntries (sorter env) (part h ! i)) (length (part h ! i)) l"
    using assms(4) unfolding subrun_def by auto
  then have "verdict m env (part h) cp i = (b, l)" by (simp add: verdict_def)
  then show "subrun m env (part h) cp i = Some (Inr (fst (verdict m env (part h) cp i), snd (verdict m env (part h) cp i)))"
    "fst (verdict m env (part h) cp i) \<Longrightarrow> linearizable m (part h ! i)"
    "\<forall>k. \<not> kills env i k \<Longrightarrow> fst (verdict m env (part h) cp i) = linearizable m (part h ! i)"
    "longest_ok (fillDefault m) (makeEntries (sorter env) (part h ! i)) (length (part h ! i)) (snd (verdict m env (part h) cp i))"
    using bl by simp_all
qed

lemma check_unfold:
  assumes "\<forall>op \<in> set h. fits op"
  shows "checkOperations env m h cp timeout =
    (case selectLoop (subrun m env (part h) cp) cp timeout (length (part h)) True 0 (arrivals env) of None \<Rightarrow> None
     | Some (Inl e) \<Rightarrow> Some (Inl e)
     | Some (Inr (ok, timedOut)) \<Rightarrow>
       (let result = (if \<not> ok then Illegal else if timedOut then Unknown else Ok) in
        if cp
        then (case allPartials (subrun m env (part h) cp) [0..<length (part h)] of None \<Rightarrow> None | Some (Inl e) \<Rightarrow> Some (Inl e)
              | Some (Inr partials) \<Rightarrow> Some (Inr (result, \<lparr>li_history = map (makeEntries (sorter env)) (part h), partialLinearizations = partials\<rparr>)))
        else Some (Inr (result, \<lparr>li_history = [], partialLinearizations = []\<rparr>))))"
proof -
  obtain f where f: "m_Partition (fillDefault m) = Some f" "f h = Inr (part h)"
    using partition [OF assms] fill_same(3) by auto
  have s: "subrun m env (part h) cp = (\<lambda>i. checkSingle (fillDefault m) (map (makeEntries (sorter env)) (part h) ! i) cp (kills env i))"
    by (simp add: subrun_def fun_eq_iff)
  show ?thesis
    unfolding checkOperations_def checkParallel_def Let_def s length_map
    by (simp add: f)
qed

text \<open>With no timeout and no goroutine killed, the check returns and is exact.\<close>

lemma check_exact:
  assumes env: "sorts (sorter env)" "\<forall>i k. \<not> kills env i k" and h: "complete h" "\<forall>op \<in> set h. fits op"
    and arr: "arrivals env = map Arrived is" "distinct is" "set is = {..<length (part h)}" and ne: "part h \<noteq> []"
  shows "CheckOperations env m h = Some (Inr (\<forall>p \<in> set (part h). linearizable m p))"
proof -
  let ?run = "subrun m env (part h) False" and ?n = "length (part h)"
  have run: "\<forall>i \<in> set is. ?run i = Some (Inr (fst (verdict m env (part h) False i), snd (verdict m env (part h) False i)))"
    using subrun_verdict(1) [OF env(1) h] arr(3) by auto
  have res: "fst (verdict m env (part h) False i) = linearizable m (part h ! i)" if "i \<in> set is" for i
    using subrun_verdict(3) [OF env(1) h] env(2) that arr(3) by auto
  have "length is = ?n" using distinct_card [OF arr(2)] arr(3) by simp
  then have "selectLoop ?run False 0 ?n True 0 (map Arrived is) = Some (Inr (\<forall>i \<in> set is. linearizable m (part h ! i), False))"
    using selectLoop_all [OF run, of 0 ?n False 0 True] ne res by (cases "is = []") simp_all
  moreover have "(\<forall>i \<in> set is. linearizable m (part h ! i)) \<longleftrightarrow> (\<forall>p \<in> set (part h). linearizable m p)"
    unfolding arr(3) by (auto simp: all_set_conv_all_nth)
  ultimately show ?thesis
    using arr(1) by (simp add: CheckOperations_def resultOf_def check_unfold [OF h(2)])
qed

text \<open>
  With a timeout, and whatever is killed after it: \<open>Ok\<close> and \<open>Illegal\<close> are right. The goroutines that
  have sent a result before were not killed.
\<close>

lemma check_timeout:
  assumes env: "sorts (sorter env)" and h: "complete h" "\<forall>op \<in> set h. fits op"
    and arr: "distinct (arrivals env)" "\<forall>i. Arrived i \<in> set (arrivals env) \<longrightarrow> i < length (part h) \<and> (\<forall>k. \<not> kills env i k)"
    and res: "CheckOperationsTimeout env m h timeout = Some (Inr r)"
  shows "r = Ok \<Longrightarrow> \<forall>p \<in> set (part h). linearizable m p" "r = Illegal \<Longrightarrow> \<exists>p \<in> set (part h). \<not> linearizable m p"
proof -
  let ?run = "subrun m env (part h) False" and ?n = "length (part h)" and ?v = "verdict m env (part h) False"
  have run: "\<forall>i. Arrived i \<in> set (arrivals env) \<longrightarrow> ?run i = Some (Inr (fst (?v i), snd (?v i)))"
    using subrun_verdict(1) [OF env h] arr(2) by blast
  have v: "fst (?v i) = linearizable m (part h ! i)" "i < ?n" if "Arrived i \<in> set (arrivals env)" for i
    using subrun_verdict(3) [OF env h] arr(2) that by blast+
  obtain ok timedOut where sel: "selectLoop ?run False timeout ?n True 0 (arrivals env) = Some (Inr (ok, timedOut))"
    and r: "r = (if \<not> ok then Illegal else if timedOut then Unknown else Ok)"
    using res by (auto simp: CheckOperationsTimeout_def resultOf_def check_unfold [OF h(2)] Let_def split: option.splits sum.splits)
  show "\<forall>p \<in> set (part h). linearizable m p" if "r = Ok"
  proof -
    have "ok" "\<not> timedOut" using r that by (auto split: if_splits)
    then obtain "is" where i: "Arrived ` set is \<subseteq> set (arrivals env)" "distinct is" "length is \<ge> ?n" "\<forall>i \<in> set is. fst (?v i)"
      using selectLoop_ok [OF run arr(1)] sel by force
    have sub: "set is \<subseteq> {..<?n}" using i(1) v(2) by auto
    have "card (set is) = ?n"
      using distinct_card [OF i(2)] i(3) card_mono [OF _ sub] by simp
    then have "set is = {..<?n}" using sub by (intro card_subset_eq) simp_all
    then show ?thesis using i v(1) by (auto simp: all_set_conv_all_nth)
  qed
  show "\<exists>p \<in> set (part h). \<not> linearizable m p" if "r = Illegal"
  proof -
    have "\<not> ok" using r that by (auto split: if_splits)
    then obtain i where "Arrived i \<in> set (arrivals env)" "\<not> fst (?v i)"
      using selectLoop_illegal [OF run] sel by force
    then show ?thesis using v [of i] by (metis nth_mem)
  qed
qed

text \<open>The partial linearizations of a verbose check are partial linearizations.\<close>

lemma check_partials:
  assumes env: "sorts (sorter env)" and h: "complete h" "\<forall>op \<in> set h. fits op"
    and res: "CheckOperationsVerbose env m h timeout = Some (Inr (r, info))"
  shows "length (partialLinearizations info) = length (part h)"
    "i < length (part h) \<Longrightarrow> seq \<in> set (partialLinearizations info ! i) \<Longrightarrow>
       partial_lin (fillDefault m) (makeEntries (sorter env) (part h ! i)) seq"
proof -
  let ?run = "subrun m env (part h) True" and ?n = "length (part h)"
  have "\<forall>i \<in> set [0..<?n]. ?run i = Some (Inr (fst (verdict m env (part h) True i), snd (verdict m env (part h) True i)))"
    using subrun_verdict(1) [OF env h] by simp
  then have p: "allPartials ?run [0..<?n] = Some (Inr (map (\<lambda>i. uniquePartials {} (snd (verdict m env (part h) True i))) [0..<?n]))"
    by (rule allPartials_all)
  have info: "partialLinearizations info = map (\<lambda>i. uniquePartials {} (snd (verdict m env (part h) True i))) [0..<?n]"
    using res p by (auto simp: CheckOperationsVerbose_def check_unfold [OF h(2)] Let_def split: option.splits sum.splits)
  then show "length (partialLinearizations info) = ?n" by simp
  assume i: "i < ?n" and "seq \<in> set (partialLinearizations info ! i)"
  then have "\<exists>k. Some (k, seq) \<in> set (snd (verdict m env (part h) True i))"
    using info uniquePartials_sub by simp
  then show "partial_lin (fillDefault m) (makeEntries (sorter env) (part h ! i)) seq"
    using subrun_verdict(4) [OF env h i, of True] by (auto simp: longest_ok_def)
qed

end

end
