(* ===== verification/KvCheck.thy ===== *)
theory KvCheck
  imports PorcSpec "HOL-Library.List_Lexorder" "HOL-Library.Char_ord"
begin

text \<open>
  The model of a key/value store that the tests check histories against (\<open>models/kv.go\<close>). It
  describes one key, and its partition splits a history by keys. The check of a history with it
  decides whether the history is linearizable as one of a store of all keys.
\<close>

section \<open>The model\<close>

record KvInput =
  ki_Op :: "8 word"
  ki_Key :: string
  ki_Value :: string

record KvOutput =
  ko_Value :: string

datatype kv_value = KvIn KvInput | KvOut KvOutput

fun putOp :: "'v Operation \<Rightarrow> string \<Rightarrow> (string \<times> 'v Operation list) list \<Rightarrow> (string \<times> 'v Operation list) list" where
  "putOp v key [] = [(key, [v])]"
| "putOp v key ((k, ops) # rest) = (if k = key then (k, ops @ [v]) # rest else (k, ops) # putOp v key rest)"

definition KvPartition :: "kv_value Operation list \<Rightarrow> kv_value Operation list list res" where
  "KvPartition history =
     and_then (fold_res (\<lambda>m v. case o_Input v of KvIn inp \<Rightarrow> Inr (putOp v (ki_Key inp) m) | KvOut out \<Rightarrow> Inl TypePanic) [] history) (\<lambda>m.
       let keys = sort (map fst m)
       in Inr (map (\<lambda>k. case map_of m k of None \<Rightarrow> [] | Some ops \<Rightarrow> ops) keys))"

definition KvStep :: "string \<Rightarrow> kv_value \<Rightarrow> kv_value \<Rightarrow> (bool \<times> string) res" where
  "KvStep state input output =
     (case (input, output) of
        (KvIn inp, KvOut out) \<Rightarrow>
          if ki_Op inp = 0 then Inr (ko_Value out = state, state)
          else if ki_Op inp = 1 then Inr (True, ki_Value inp)
          else Inr (True, state @ ki_Value inp)
      | _ \<Rightarrow> Inl TypePanic)"

definition KvModel :: "(string, kv_value) Model" where
  "KvModel = \<lparr>m_Partition = Some KvPartition, m_PartitionEvent = None, m_Init = [], m_Step = KvStep, m_Equal = None\<rparr>"

section \<open>The partition\<close>

definition kv_fits :: "kv_value Operation \<Rightarrow> bool" where
  "kv_fits op \<longleftrightarrow> (case (o_Input op, o_Output op) of (KvIn inp, KvOut out) \<Rightarrow> True | _ \<Rightarrow> False)"

definition kv_key :: "kv_value Operation \<Rightarrow> string" where
  "kv_key op = (case o_Input op of KvIn inp \<Rightarrow> ki_Key inp | KvOut out \<Rightarrow> [])"

definition kv_part :: "kv_value Operation list \<Rightarrow> kv_value Operation list list" where
  "kv_part h = map (\<lambda>k. filter (\<lambda>op. kv_key op = k) h) (sort (remdups (map kv_key h)))"

lemma putOp_facts:
  "map_of (putOp v key m) = (map_of m)(key \<mapsto> (case map_of m key of None \<Rightarrow> [] | Some ops \<Rightarrow> ops) @ [v])"
  "set (map fst (putOp v key m)) = insert key (set (map fst m))"
  "distinct (map fst m) \<Longrightarrow> distinct (map fst (putOp v key m))"
  by (induction v key m rule: putOp.induct) (auto simp: fun_eq_iff)

lemma fold_putOp:
  assumes "\<forall>op \<in> set h. kv_fits op"
  shows "\<exists>m. fold_res (\<lambda>m v. case o_Input v of KvIn inp \<Rightarrow> Inr (putOp v (ki_Key inp) m) | KvOut out \<Rightarrow> Inl TypePanic) [] h = Inr m
    \<and> distinct (map fst m) \<and> set (map fst m) = kv_key ` set h
    \<and> (\<forall>k. (case map_of m k of None \<Rightarrow> [] | Some ops \<Rightarrow> ops) = filter (\<lambda>op. kv_key op = k) h)"
  using assms
proof (induction h rule: rev_induct)
  case (snoc v h)
  then obtain m where m: "fold_res (\<lambda>m v. case o_Input v of KvIn inp \<Rightarrow> Inr (putOp v (ki_Key inp) m) | KvOut out \<Rightarrow> Inl TypePanic) [] h = Inr m"
    "distinct (map fst m)" "set (map fst m) = kv_key ` set h"
    "\<forall>k. (case map_of m k of None \<Rightarrow> [] | Some ops \<Rightarrow> ops) = filter (\<lambda>op. kv_key op = k) h"
    by auto
  obtain inp where inp: "o_Input v = KvIn inp" using snoc.prems by (auto simp: kv_fits_def split: kv_value.splits)
  then have k: "kv_key v = ki_Key inp" by (simp add: kv_key_def)
  show ?case
    using m inp k putOp_facts(2) [of v "ki_Key inp" m] putOp_facts(3) [OF m(2), of v "ki_Key inp"]
    by (intro exI [of _ "putOp v (ki_Key inp) m"]) (auto simp: fold_res_snoc putOp_facts(1))
qed simp

lemma KvPartition_part:
  assumes "\<forall>op \<in> set h. kv_fits op"
  shows "KvPartition h = Inr (kv_part h)"
proof -
  obtain m where m: "fold_res (\<lambda>m v. case o_Input v of KvIn inp \<Rightarrow> Inr (putOp v (ki_Key inp) m) | KvOut out \<Rightarrow> Inl TypePanic) [] h = Inr m"
    "distinct (map fst m)" "set (map fst m) = kv_key ` set h"
    "\<forall>k. (case map_of m k of None \<Rightarrow> [] | Some ops \<Rightarrow> ops) = filter (\<lambda>op. kv_key op = k) h"
    using fold_putOp [OF assms] by blast
  have "sort (map fst m) = sort (remdups (map kv_key h))"
    using m(2,3) by (intro sorted_distinct_set_unique) simp_all
  then show ?thesis
    using m by (simp add: KvPartition_def kv_part_def)
qed

interpretation kvm: checked_model KvModel kv_fits kv_part
proof
  show "the (m_Partition (fillDefault KvModel)) h = Inr (kv_part h)" if "\<forall>op \<in> set h. kv_fits op" for h
    using KvPartition_part [OF that] by (simp add: fillDefault_def KvModel_def)
  show "set p \<subseteq> set h \<and> length p \<le> length h" if "p \<in> set (kv_part h)" for p h
    using that by (auto simp: kv_part_def)
  show "\<exists>b s'. m_Step KvModel s (o_Input op) (o_Output op) = Inr (b, s')" if "kv_fits op" for op s
    using that by (auto simp: KvModel_def KvStep_def kv_fits_def split: kv_value.splits)
  show "equal_ok (fillDefault KvModel)"
    by (auto simp: equal_ok_def fillDefault_def KvModel_def ShallowEqual_def)
qed

section \<open>The store of all keys\<close>

definition KvMapStep :: "(string \<Rightarrow> string) \<Rightarrow> kv_value \<Rightarrow> kv_value \<Rightarrow> (bool \<times> (string \<Rightarrow> string)) res" where
  "KvMapStep store input output =
     (case input of
        KvIn inp \<Rightarrow> and_then (KvStep (store (ki_Key inp)) input output) (\<lambda>(ok, v). Inr (ok, store(ki_Key inp := v)))
      | KvOut out \<Rightarrow> Inl TypePanic)"

definition KvMap :: "(string \<Rightarrow> string, kv_value) Model" where
  "KvMap = \<lparr>m_Partition = None, m_PartitionEvent = None, m_Init = (\<lambda>k. []), m_Step = KvMapStep, m_Equal = None\<rparr>"

definition io :: "'v Operation \<Rightarrow> 'v \<times> 'v" where
  "io op = (o_Input op, o_Output op)"

lemma mset_labels: "mset xs = mset (map fst Z) \<Longrightarrow> \<exists>Z'. mset Z' = mset Z \<and> map fst Z' = xs"
proof (induction xs arbitrary: Z)
  case (Cons x xs)
  then have "x \<in> set (map fst Z)" by (metis list.set_intros(1) mset_eq_setD)
  then obtain i where i: "(x, i) \<in> set Z" by auto
  then have z: "mset Z = add_mset (x, i) (mset (remove1 (x, i) Z))" by simp
  then have "mset (map fst Z) = add_mset x (mset (map fst (remove1 (x, i) Z)))" by (simp del: mset_remove1)
  then have "mset xs = mset (map fst (remove1 (x, i) Z))" using Cons.prems by (simp del: mset_remove1 mset_map)
  then obtain Z' where "mset Z' = mset (remove1 (x, i) Z)" "map fst Z' = xs" using Cons.IH by blast
  then show ?case using z by (intro exI [of _ "(x, i) # Z'"]) (simp del: mset_remove1)
qed simp

lemma mset_order:
  assumes "mset ops = mset h"
  shows "\<exists>order. mset order = mset [0..<length h] \<and> map ((!) h) order = ops"
proof -
  let ?Z = "zip h [0..<length h]"
  obtain Z where Z: "mset Z = mset ?Z" "map fst Z = ops"
    using mset_labels [of ops ?Z] assms by auto
  have "h ! snd z = fst z" if "z \<in> set Z" for z
    using that mset_eq_setD [OF Z(1)] by (auto simp: set_zip)
  then have "map ((!) h) (map snd Z) = ops" using Z(2) by auto
  moreover have "mset (map snd Z) = mset (map snd ?Z)" using Z(1) by (metis mset_map)
  ultimately show ?thesis by (intro exI [of _ "map snd Z"]) simp
qed

text \<open>A linearization as a list of operations instead of a list of their numbers.\<close>

lemma linearizable_mset:
  "linearizable m h \<longleftrightarrow> (\<exists>ops. mset ops = mset h \<and> sorted_wrt (\<lambda>x y. \<not> o_Return y < o_Call x) ops
     \<and> accepts m (m_Init m) (map io ops))"
proof
  assume "linearizable m h"
  then obtain order where o: "distinct order" "set order = {..<length h}"
    "sorted_wrt (\<lambda>i j. \<not> o_Return (h ! j) < o_Call (h ! i)) order"
    "accepts m (m_Init m) (map (\<lambda>i. (o_Input (h ! i), o_Output (h ! i))) order)"
    by (auto simp: linearizable_def)
  have "mset order = mset [0..<length h]"
    using set_eq_iff_mset_eq_distinct [OF o(1) distinct_upt [of 0 "length h"]] o(2) by (simp add: atLeast0LessThan)
  then have "mset (map ((!) h) order) = mset (map ((!) h) [0..<length h])" by simp
  then have "mset (map ((!) h) order) = mset h" by (simp only: map_nth)
  then show "\<exists>ops. mset ops = mset h \<and> sorted_wrt (\<lambda>x y. \<not> o_Return y < o_Call x) ops \<and> accepts m (m_Init m) (map io ops)"
    using o by (intro exI [of _ "map ((!) h) order"]) (simp add: sorted_wrt_map io_def comp_def)
next
  assume "\<exists>ops. mset ops = mset h \<and> sorted_wrt (\<lambda>x y. \<not> o_Return y < o_Call x) ops \<and> accepts m (m_Init m) (map io ops)"
  then obtain ops where ops: "mset ops = mset h" "sorted_wrt (\<lambda>x y. \<not> o_Return y < o_Call x) ops" "accepts m (m_Init m) (map io ops)"
    by blast
  obtain order where o: "mset order = mset [0..<length h]" "map ((!) h) order = ops"
    using mset_order [OF ops(1)] by blast
  have "distinct order" using mset_eq_imp_distinct_iff [OF o(1)] by simp
  moreover have "set order = {..<length h}" using mset_eq_setD [OF o(1)] by (simp add: atLeast0LessThan)
  moreover have "sorted_wrt (\<lambda>i j. \<not> o_Return (h ! j) < o_Call (h ! i)) order"
    using ops(2) unfolding o(2) [symmetric] by (simp only: sorted_wrt_map)
  moreover have e: "map (\<lambda>i. (o_Input (h ! i), o_Output (h ! i))) order = map io ops"
    unfolding o(2) [symmetric] by (simp add: io_def comp_def)
  have "accepts m (m_Init m) (map (\<lambda>i. (o_Input (h ! i), o_Output (h ! i))) order)"
    unfolding e by (rule ops(3))
  ultimately show "linearizable m h"
    unfolding linearizable_def by blast
qed

section \<open>Locality\<close>

text \<open>Orders of the operations on each key merge into one order, since one of the first operations of
  the keys is not preceded by any other operation: that of the key with the earliest return.\<close>

lemma merge_orders:
  assumes "\<forall>k. mset (L k) = filter_mset (\<lambda>x. key x = k) M" "\<forall>k. sorted_wrt (\<lambda>x y. \<not> o_Return y < o_Call x) (L k)"
    "\<forall>x \<in># M. o_Call x \<le> o_Return x"
  shows "\<exists>ops. mset ops = M \<and> sorted_wrt (\<lambda>x y. \<not> o_Return y < o_Call x) ops \<and> (\<forall>k. filter (\<lambda>x. key x = k) ops = L k)"
  using assms
proof (induction "size M" arbitrary: M L)
  case 0
  then show ?case by (intro exI [of _ "[]"]) simp
next
  case (Suc n)
  then have "set_mset M \<noteq> {}" by auto
  then obtain y where y: "y \<in># M" "\<forall>x \<in># M. o_Return y \<le> o_Return x"
    using ex_min_if_finite [of "o_Return ` set_mset M"] by (metis (no_types, lifting) finite_imageI finite_set_mset image_iff image_is_empty linorder_not_less)
  let ?k = "key y"
  have sL: "set (L k) = {a \<in> set_mset M. key a = k}" for k
    using arg_cong [OF spec [OF Suc.prems(1), of k], of set_mset] by simp
  then have "y \<in> set (L ?k)" using y(1) by simp
  then obtain x xs where L: "L ?k = x # xs" by (cases "L ?k") auto
  have "x \<in> set (L ?k)" using L by simp
  then have x: "x \<in># M" "key x = ?k" using sL by simp_all
  have "o_Call x \<le> o_Return y"
  proof (cases "x = y")
    case False
    then have "y \<in> set xs" using \<open>y \<in> set (L ?k)\<close> L by simp
    then show ?thesis using Suc.prems(2) L by (metis linorder_not_less sorted_wrt.simps(2))
  qed (use Suc.prems(3) y(1) in simp)
  then have first: "\<forall>z \<in># M. \<not> o_Return z < o_Call x" using y(2) by fastforce
  have "\<exists>ops. mset ops = M - {#x#} \<and> sorted_wrt (\<lambda>x y. \<not> o_Return y < o_Call x) ops \<and> (\<forall>k. filter (\<lambda>x. key x = k) ops = (L(?k := xs)) k)"
  proof (rule Suc.hyps(1))
    show "n = size (M - {#x#})" using Suc.hyps(2) x(1) by (simp add: size_Diff_singleton)
    show "\<forall>k. mset ((L(?k := xs)) k) = filter_mset (\<lambda>x. key x = k) (M - {#x#})"
    proof
      fix k
      have "mset (L k) = filter_mset (\<lambda>x. key x = k) M" using Suc.prems(1) by simp
      then show "mset ((L(?k := xs)) k) = filter_mset (\<lambda>x. key x = k) (M - {#x#})"
        using L x by (cases "k = ?k") (auto simp: filter_diff_mset dest: sym)
    qed
    show "\<forall>k. sorted_wrt (\<lambda>x y. \<not> o_Return y < o_Call x) ((L(?k := xs)) k)"
      using Suc.prems(2) L by (metis (mono_tags, lifting) fun_upd_apply sorted_wrt.simps(2))
    show "\<forall>x \<in># M - {#x#}. o_Call x \<le> o_Return x" using Suc.prems(3) by (meson in_diffD)
  qed
  then obtain ops where ops: "mset ops = M - {#x#}" "sorted_wrt (\<lambda>x y. \<not> o_Return y < o_Call x) ops"
    "\<forall>k. filter (\<lambda>x. key x = k) ops = (L(?k := xs)) k" by blast
  have "\<forall>z \<in> set ops. \<not> o_Return z < o_Call x" using first ops(1) by (metis in_diffD set_mset_mset)
  then show ?case
    using ops x L by (intro exI [of _ "x # ops"]) auto
qed

lemma KvMapStep_key:
  assumes "kv_fits op"
  shows "KvMapStep store (o_Input op) (o_Output op) = Inr (ok, store') \<longleftrightarrow>
    (\<exists>v. KvStep (store (kv_key op)) (o_Input op) (o_Output op) = Inr (ok, v) \<and> store' = store(kv_key op := v))"
  using assms by (auto simp: KvMapStep_def kv_fits_def kv_key_def split: kv_value.splits)

lemma accepts_keys:
  assumes "\<forall>op \<in> set ops. kv_fits op"
  shows "accepts KvMap store (map io ops) \<longleftrightarrow> (\<forall>k. accepts KvModel (store k) (map io (filter (\<lambda>op. kv_key op = k) ops)))"
  using assms
proof (induction ops arbitrary: store)
  case (Cons op ops)
  then have fit: "kv_fits op" by simp
  obtain ok v where v: "KvStep (store (kv_key op)) (o_Input op) (o_Output op) = Inr (ok, v)"
    using kvm.steps [OF fit, of "store (kv_key op)"] by (auto simp: KvModel_def)
  have "accepts KvMap store (map io (op # ops)) \<longleftrightarrow> ok \<and> accepts KvMap (store(kv_key op := v)) (map io ops)"
    using KvMapStep_key [OF fit, of store True] v by (auto simp: accepts_Cons io_def KvMap_def)
  also have "\<dots> \<longleftrightarrow> ok \<and> (\<forall>k. accepts KvModel ((store(kv_key op := v)) k) (map io (filter (\<lambda>op. kv_key op = k) ops)))"
    using Cons by simp
  also have "\<dots> \<longleftrightarrow> (\<forall>k. accepts KvModel (store k) (map io (filter (\<lambda>op. kv_key op = k) (op # ops))))"
    using v by (auto simp: accepts_Cons io_def KvModel_def)
  finally show ?case .
qed simp

lemma kv_locality:
  assumes "complete h" "\<forall>op \<in> set h. kv_fits op"
  shows "linearizable KvMap h \<longleftrightarrow> (\<forall>p \<in> set (kv_part h). linearizable KvModel p)"
proof -
  let ?R = "\<lambda>x y. \<not> o_Return y < o_Call x" and ?f = "\<lambda>k. filter (\<lambda>op. kv_key op = k)"
  have init: "m_Init KvMap = (\<lambda>k. [])" "m_Init KvModel = []" by (simp_all add: KvMap_def KvModel_def)
  have keys: "(\<forall>p \<in> set (kv_part h). linearizable KvModel p) \<longleftrightarrow> (\<forall>k. linearizable KvModel (?f k h))"
  proof -
    have "linearizable KvModel (?f k h)" if "k \<notin> set (map kv_key h)" for k
    proof -
      have "?f k h = []" using that by (auto simp: filter_empty_conv)
      then show ?thesis by (simp add: linearizable_def)
    qed
    then have "(\<forall>k \<in> set (map kv_key h). linearizable KvModel (?f k h)) \<longleftrightarrow> (\<forall>k. linearizable KvModel (?f k h))"
      by blast
    then show ?thesis by (simp add: kv_part_def)
  qed
  have fits: "\<forall>op \<in> set ops. kv_fits op" if "mset ops = mset h" for ops
    using assms(2) mset_eq_setD [OF that] by simp
  show ?thesis
    unfolding keys
  proof
    assume "linearizable KvMap h"
    then obtain ops where ops: "mset ops = mset h" "sorted_wrt ?R ops" "accepts KvMap (\<lambda>k. []) (map io ops)"
      unfolding linearizable_mset init by blast
    show "\<forall>k. linearizable KvModel (?f k h)"
      unfolding linearizable_mset init
      using ops accepts_keys [OF fits [OF ops(1)]] by (metis mset_filter sorted_wrt_filter)
  next
    assume "\<forall>k. linearizable KvModel (?f k h)"
    then have "\<forall>k. \<exists>ops. mset ops = mset (?f k h) \<and> sorted_wrt ?R ops \<and> accepts KvModel [] (map io ops)"
      unfolding linearizable_mset init by blast
    then obtain L where L: "\<forall>k. mset (L k) = mset (?f k h)" "\<forall>k. sorted_wrt ?R (L k)" "\<forall>k. accepts KvModel [] (map io (L k))"
      by metis
    obtain ops where ops: "mset ops = mset h" "sorted_wrt ?R ops" "\<forall>k. ?f k ops = L k"
      using merge_orders [of L kv_key "mset h"] L assms(1) by (auto simp: complete_def)
    then have "accepts KvMap (\<lambda>k. []) (map io ops)"
      using accepts_keys [OF fits [OF ops(1)]] L(3) by simp
    then show "linearizable KvMap h"
      unfolding linearizable_mset init using ops by blast
  qed
qed

end
