(* ===== verification/KvCheckSpec.thy ===== *)
theory KvCheckSpec
  imports KvCheck
begin

text \<open>
  The properties of the linearizability checker: a check of a key/value history decides whether it
  is linearizable, the search of one partition ends and is exact for every model, the results of a
  check with a timeout can be trusted, and a history without operations is never answered.
\<close>

section \<open>A history\<close>

text \<open>
  A get that returns what an overlapping put writes, with a get of another key; the same get, when it
  returns before the put is called. The sorting is by time, calls before returns.
\<close>

definition kv_op :: "int \<Rightarrow> int \<Rightarrow> 8 word \<Rightarrow> string \<Rightarrow> string \<Rightarrow> string \<Rightarrow> kv_value Operation" where
  "kv_op call return op key value output =
     \<lparr>o_ClientId = 0, o_Input = KvIn \<lparr>ki_Op = op, ki_Key = key, ki_Value = value\<rparr>, o_Call = call,
      o_Output = KvOut \<lparr>ko_Value = output\<rparr>, o_Return = return\<rparr>"

definition good_history :: "kv_value Operation list" where
  "good_history = [kv_op 0 10 0 ''x'' [] ''a'', kv_op 5 15 1 ''x'' ''a'' [], kv_op 1 2 0 ''y'' [] []]"

definition bad_history :: "kv_value Operation list" where
  "bad_history = [kv_op 0 4 0 ''x'' [] ''a'', kv_op 5 15 1 ''x'' ''a'' []]"

definition by_time :: "'v entry list \<Rightarrow> 'v entry list" where
  "by_time = sort_key (\<lambda>e. 2 * e_time e + (if e_kind e = returnEntry then 1 else 0))"

definition quiet_env :: "arrival list \<Rightarrow> kv_value env" where
  "quiet_env arr = \<lparr>sorter = by_time, kills = (\<lambda>i k. False), arrivals = arr\<rparr>"

lemma by_time_sorts: "sorts (by_time :: 'v entry list \<Rightarrow> 'v entry list)"
proof -
  let ?key = "\<lambda>e :: 'v entry. 2 * e_time e + (if e_kind e = returnEntry then 1 else 0)"
  have less: "Less b a \<Longrightarrow> ?key b < ?key a" for a b :: "'v entry"
    by (auto simp: Less_def split: if_splits)
  have "sorted (map ?key (by_time xs))" for xs :: "'v entry list"
    by (simp add: by_time_def)
  then have "sorted_wrt (\<lambda>a b. ?key a \<le> ?key b) (by_time xs)" for xs :: "'v entry list"
    unfolding sorted_map .
  then have "sorted_wrt (\<lambda>a b. \<not> Less b a) (by_time xs)" for xs :: "'v entry list"
    by (rule sorted_wrt_mono_rel [rotated]) (use less in force)
  then show ?thesis by (simp add: sorts_def by_time_def)
qed

lemma history_facts:
  "complete good_history" "\<forall>op \<in> set good_history. kv_fits op" "good_history \<noteq> []"
  "complete bad_history" "\<forall>op \<in> set bad_history. kv_fits op" "bad_history \<noteq> []"
  by (simp_all add: good_history_def bad_history_def kv_op_def complete_def kv_fits_def)

lemma kv_parts: "length (kv_part good_history) = 2" "length (kv_part bad_history) = 1"
  by code_simp+

section \<open>The check of a history\<close>

text \<open>C18: Without a timeout the check of a non-empty history of complete key/value operations returns, in
  whatever order the searches of the keys finish, and it returns true exactly when the history is
  linearizable: there is an order of all its operations that a store of all keys accepts, in which
  no operation comes before one that had returned before it was called.\<close>

theorem check_decides:
  assumes "sorts (sorter env)" and "\<forall>i k. \<not> kills env i k" and "complete h" and "\<forall>op \<in> set h. kv_fits op" and "h \<noteq> []"
    and "arrivals env = map Arrived order" and "distinct order" and "set order = {..<length (kv_part h)}"
  shows "CheckOperations env KvModel h = Some (Inr (linearizable KvMap h))"
proof -
  have "sort (remdups (map kv_key h)) \<noteq> []"
    using assms(5) by (metis length_0_conv length_sort map_is_Nil_conv remdups_eq_nil_iff)
  then have "kv_part h \<noteq> []" by (simp add: kv_part_def)
  then show ?thesis
    using kvm.check_exact [OF assms(1-4,6-8)] kv_locality [OF assms(3,4)] by simp
qed

theorem check_decides_witness:
  "CheckOperations (quiet_env [Arrived 1, Arrived 0]) KvModel good_history = Some (Inr True) \<and> linearizable KvMap good_history
   \<and> CheckOperations (quiet_env [Arrived 0]) KvModel bad_history = Some (Inr False) \<and> \<not> linearizable KvMap bad_history"
proof -
  have "CheckOperations (quiet_env [Arrived 1, Arrived 0]) KvModel good_history = Some (Inr True)"
    "CheckOperations (quiet_env [Arrived 0]) KvModel bad_history = Some (Inr False)"
    by code_simp+
  moreover have "CheckOperations (quiet_env [Arrived 1, Arrived 0]) KvModel good_history = Some (Inr (linearizable KvMap good_history))"
    by (rule check_decides [where order = "[1, 0]"]) (auto simp: quiet_env_def by_time_sorts history_facts kv_parts)
  moreover have "CheckOperations (quiet_env [Arrived 0]) KvModel bad_history = Some (Inr (linearizable KvMap bad_history))"
    by (rule check_decides [where order = "[0]"]) (auto simp: quiet_env_def by_time_sorts history_facts kv_parts)
  ultimately show ?thesis by simp
qed

text \<open>With a timeout, whatever the goroutines that have not answered do: the result Ok means that the history is
  linearizable, and Illegal that it is not. Only Unknown says nothing.\<close>

theorem timeout_verdict:
  assumes "sorts (sorter env)" and "complete h" and "\<forall>op \<in> set h. kv_fits op" and "distinct (arrivals env)"
    and "\<forall>i. Arrived i \<in> set (arrivals env) \<longrightarrow> i < length (kv_part h) \<and> (\<forall>k. \<not> kills env i k)"
    and "CheckOperationsTimeout env KvModel h timeout = Some (Inr r)"
  shows "r = (if linearizable KvMap h then Ok else Illegal) \<or> r = Unknown"
  using kvm.check_timeout [OF assms] kv_locality [OF assms(2,3)] by (cases r) auto

theorem timeout_verdict_witness:
  "CheckOperationsTimeout (quiet_env [Arrived 0, Timeout]) KvModel good_history 1 = Some (Inr Unknown)
   \<and> CheckOperationsTimeout (quiet_env [Arrived 0, Arrived 1]) KvModel good_history 1 = Some (Inr Ok) \<and> linearizable KvMap good_history"
proof -
  have r: "CheckOperationsTimeout (quiet_env [Arrived 0, Timeout]) KvModel good_history 1 = Some (Inr Unknown)"
    "CheckOperationsTimeout (quiet_env [Arrived 0, Arrived 1]) KvModel good_history 1 = Some (Inr Ok)"
    by code_simp+
  have "Ok = (if linearizable KvMap good_history then Ok else Illegal) \<or> Ok = Unknown"
    by (rule timeout_verdict [OF _ _ _ _ _ r(2)]) (auto simp: quiet_env_def by_time_sorts history_facts kv_parts)
  then show ?thesis using r by (simp split: if_splits)
qed

text \<open>The check of a history without operations never returns: it has no partition, so no goroutine is started, and
  the loop waits for a result that nobody sends. With a timeout the result is Unknown.\<close>

theorem empty_history_blocks:
  "CheckOperations (quiet_env []) KvModel [] = None \<and> linearizable KvMap []
   \<and> CheckOperationsTimeout (quiet_env [Timeout]) KvModel [] 1 = Some (Inr Unknown)"
  by (simp add: linearizable_def quiet_env_def CheckOperations_def CheckOperationsTimeout_def resultOf_def checkOperations_def
      checkParallel_def fillDefault_def KvModel_def KvPartition_def Let_def)

text \<open>The partial linearizations that a verbose check reports are partial linearizations of the histories of the keys:
  sequences of operations that the model accepts one after the other, each one called before any
  operation that is not in the sequence yet has returned.\<close>

theorem partials_are_legal:
  assumes "sorts (sorter env)" and "complete h" and "\<forall>op \<in> set h. kv_fits op"
    and "CheckOperationsVerbose env KvModel h timeout = Some (Inr (r, info))" and "i < length (kv_part h)"
    and "ids \<in> set (partialLinearizations info ! i)"
  shows "partial_lin (fillDefault KvModel) (makeEntries (sorter env) (kv_part h ! i)) ids"
  by (rule kvm.check_partials(2) [OF assms])

theorem partials_are_legal_witness:
  "partial_lin (fillDefault KvModel) (makeEntries by_time (kv_part good_history ! 0)) [1, 0]"
proof -
  have "case CheckOperationsVerbose (quiet_env [Arrived 0, Arrived 1]) KvModel good_history 0 of
      Some (Inr (r, info)) \<Rightarrow> [1, 0] \<in> set (partialLinearizations info ! 0) | _ \<Rightarrow> False"
    by code_simp
  then obtain r info where "CheckOperationsVerbose (quiet_env [Arrived 0, Arrived 1]) KvModel good_history 0 = Some (Inr (r, info))"
    "[1, 0] \<in> set (partialLinearizations info ! 0)"
    by (auto split: option.splits sum.splits)
  then have "partial_lin (fillDefault KvModel) (makeEntries (sorter (quiet_env [Arrived 0, Arrived 1])) (kv_part good_history ! 0)) [1, 0]"
    by (intro partials_are_legal) (auto simp: quiet_env_def by_time_sorts history_facts kv_parts)
  then show ?thesis by (simp add: quiet_env_def)
qed

section \<open>The search and its bit sets\<close>

text \<open>C19: For every model whose steps do not panic on the history and whose comparison of states is sound, the
  search of one partition ends, and its result is whether the history is linearizable; when it is
  stopped from outside it may say no, but never yes without reason.\<close>

theorem search_exact:
  assumes "sorts f" and "complete h" and "total_on m (makeEntries f h)" and "equal_ok m"
  shows "\<exists>b l. checkSingle m (makeEntries f h) computePartial kill = Some (Inr (b, l))
    \<and> (b \<longrightarrow> linearizable m h) \<and> ((\<forall>k. \<not> kill k) \<longrightarrow> b = linearizable m h)"
  using checkSingle_correct [OF makeEntries_wf [OF assms(1,2)] assms(3,4)]
  unfolding lin_linearizable [OF assms(1,2)] by blast

theorem search_exact_witness:
  "\<exists>b l. checkSingle (fillDefault KvModel) (makeEntries by_time bad_history) True (\<lambda>k. False) = Some (Inr (b, l))
    \<and> b = linearizable (fillDefault KvModel) bad_history"
proof -
  have "total_on (fillDefault KvModel) (makeEntries by_time bad_history)"
    using kvm.entries_total [OF by_time_sorts history_facts(4,5)] .
  then show ?thesis
    using search_exact [OF by_time_sorts history_facts(4) _ kvm.equal, of True "\<lambda>k. False"] by blast
qed

text \<open>C20: Bit sets are sets: in a set made for \<open>n\<close> positions, every position below \<open>n\<close> can be set, cleared and
  read without an index out of range, with the effect of inserting, deleting and testing; two sets
  of the same length are equal exactly when they have the same elements, and the number of elements
  is that of the ones.\<close>

theorem bitset_is_set:
  assumes "pos < n" and "length b = length (newBitset n)" and "length b2 = length b"
  shows "elems (newBitset n) = {}
    \<and> (\<exists>b'. bs_set b pos = Inr b' \<and> elems b' = insert pos (elems b) \<and> length b' = length b)
    \<and> (\<exists>b'. bs_clear b pos = Inr b' \<and> elems b' = elems b - {pos} \<and> length b' = length b)
    \<and> bs_get b pos = Inr (pos \<in> elems b) \<and> equals b b2 = (elems b = elems b2) \<and> popcnt b = card (elems b)"
proof -
  have "pos div 64 < length b" using length_new [OF assms(1)] assms(2) by simp
  then show ?thesis
    using elems_new [of n] set_elems [of pos b] clear_elems [of pos b] get_elems [of pos b] equals_elems [of b b2] popcnt_card [of b] assms(3)
    by simp
qed

theorem bitset_is_set_witness:
  "\<exists>b'. bs_set (newBitset 70) 65 = Inr b' \<and> elems b' = {65} \<and> length b' = 2"
  using bitset_is_set [of 65 70 "newBitset 70" "newBitset 70"] elems_new [of 70] by (auto simp: newBitset_def)

end
