(* ===== verification/PorcView.thy ===== *)
theory PorcView
  imports KvCheckSpec
begin

text \<open>
  The data of the page that shows the result of a check (\<open>porcupine/visualization.go\<close>, without the
  text of the page itself), and the functions that describe operations and states for it
  (\<open>models/kv.go\<close>, \<open>porcupine/model.go\<close>).

  The functions that describe values are the record \<open>describe\<close>; they may panic. A value that is not
  in a Go map is a nil \<open>interface{}\<close>: the first thing that the functions of a model do with it is a type
  assertion, which fails. What \<open>sort.Slice\<close> does to partial linearizations of equal length is not
  specified, so the sorting is an argument.
\<close>

section \<open>The data\<close>

record historyElement =
  he_ClientId :: int
  he_Start :: int
  he_End :: int
  he_Description :: string

record linearizationStep =
  ls_Index :: int
  StateDescription :: string

record partitionVisualizationData =
  pv_History :: "historyElement list"
  pv_PartialLinearizations :: "linearizationStep list list"
  Largest :: "int \<rightharpoonup> int"

record ('s, 'v) describe =
  DescribeOperation :: "'v \<Rightarrow> 'v \<Rightarrow> string res"
  DescribeState :: "'s \<Rightarrow> string res"

definition KvDescribeOperation :: "kv_value \<Rightarrow> kv_value \<Rightarrow> string res" where
  "KvDescribeOperation input output =
     (case (input, output) of
        (KvIn inp, KvOut out) \<Rightarrow>
          Inr (if ki_Op inp = 0 then ''get('' @ [CHR 0x27] @ ki_Key inp @ [CHR 0x27] @ '') -> '' @ [CHR 0x27] @ ko_Value out @ [CHR 0x27]
               else if ki_Op inp = 1 then ''put('' @ [CHR 0x27] @ ki_Key inp @ [CHR 0x27] @ '', '' @ [CHR 0x27] @ ki_Value inp @ [CHR 0x27] @ '')''
               else if ki_Op inp = 2 then ''append('' @ [CHR 0x27] @ ki_Key inp @ [CHR 0x27] @ '', '' @ [CHR 0x27] @ ki_Value inp @ [CHR 0x27] @ '')''
               else ''<invalid>'')
      | _ \<Rightarrow> Inl TypePanic)"

text \<open>\<open>DefaultDescribeState\<close> prints the state, which is a string here.\<close>

definition KvDescribe :: "(string, kv_value) describe" where
  "KvDescribe = \<lparr>DescribeOperation = KvDescribeOperation, DescribeState = (\<lambda>state. Inr state)\<rparr>"

section \<open>The history of a partition\<close>

definition valueAt :: "(int \<rightharpoonup> 'v) \<Rightarrow> int \<Rightarrow> 'v res" where
  "valueAt m k = (case m k of None \<Rightarrow> Inl TypePanic | Some v \<Rightarrow> Inr v)"

definition zeroElement :: historyElement where
  "zeroElement = \<lparr>he_ClientId = 0, he_Start = 0, he_End = 0, he_Description = []\<rparr>"

type_synonym 'v visited = "historyElement list \<times> (int \<rightharpoonup> 'v) \<times> (int \<rightharpoonup> 'v)"

definition visitEntry :: "('s, 'v) describe \<Rightarrow> 'v visited \<Rightarrow> 'v entry \<Rightarrow> 'v visited res" where
  "visitEntry desc seen elem =
     (let (history, callValue, returnValue) = seen
      in and_then (index_res history (e_id elem)) (\<lambda>x.
           case e_kind elem of
             callEntry \<Rightarrow>
               and_then (update_res history (e_id elem) (x\<lparr>he_ClientId := e_clientId elem, he_Start := e_time elem\<rparr>)) (\<lambda>history1.
                 Inr (history1, callValue(e_id elem \<mapsto> e_value elem), returnValue))
           | returnEntry \<Rightarrow>
               and_then (valueAt callValue (e_id elem)) (\<lambda>c.
               and_then (DescribeOperation desc c (e_value elem)) (\<lambda>d.
               and_then (update_res history (e_id elem) (x\<lparr>he_End := e_time elem, he_Description := d\<rparr>)) (\<lambda>history1.
                 Inr (history1, callValue, returnValue(e_id elem \<mapsto> e_value elem)))))))"

definition visitHistory :: "('s, 'v) describe \<Rightarrow> 'v entry list \<Rightarrow> 'v visited res" where
  "visitHistory desc entries =
     fold_res (visitEntry desc) (replicate (length entries div 2) zeroElement, Map.empty, Map.empty) entries"

section \<open>The partial linearizations of a partition\<close>

text \<open>The maps \<open>largestSize\<close> and \<open>largestIndex\<close>; a missing size is zero.\<close>

type_synonym largest = "(int \<rightharpoonup> nat) \<times> (int \<rightharpoonup> int)"

definition noteLargest :: "largest \<Rightarrow> int \<Rightarrow> int \<Rightarrow> nat \<Rightarrow> largest" where
  "noteLargest lg histId i len =
     (if (case fst lg histId of None \<Rightarrow> 0 | Some k \<Rightarrow> k) < len
      then ((fst lg)(histId \<mapsto> len), (snd lg)(histId \<mapsto> i)) else lg)"

fun linearize ::
  "('s, 'v) Model \<Rightarrow> ('s, 'v) describe \<Rightarrow> (int \<rightharpoonup> 'v) \<Rightarrow> (int \<rightharpoonup> 'v) \<Rightarrow> int \<Rightarrow> nat \<Rightarrow> 's \<Rightarrow> largest \<Rightarrow> int list \<Rightarrow>
   (linearizationStep list \<times> largest) res" where
  "linearize model desc callValue returnValue i len state lg [] = Inr ([], lg)"
| "linearize model desc callValue returnValue i len state lg (histId # partial) =
     and_then (valueAt callValue histId) (\<lambda>c.
     and_then (valueAt returnValue histId) (\<lambda>r.
     and_then (m_Step model state c r) (\<lambda>(ok, state1).
       if \<not> ok then Inl ExplicitPanic
       else and_then (DescribeState desc state1) (\<lambda>stateDesc.
            and_then (linearize model desc callValue returnValue i len state1 (noteLargest lg histId i len) partial) (\<lambda>(steps, lg1).
              Inr (\<lparr>ls_Index = histId, StateDescription = stateDesc\<rparr> # steps, lg1))))))"

fun linearizeAll ::
  "('s, 'v) Model \<Rightarrow> ('s, 'v) describe \<Rightarrow> (int \<rightharpoonup> 'v) \<Rightarrow> (int \<rightharpoonup> 'v) \<Rightarrow> int \<Rightarrow> largest \<Rightarrow> int list list \<Rightarrow>
   (linearizationStep list list \<times> largest) res" where
  "linearizeAll model desc callValue returnValue i lg [] = Inr ([], lg)"
| "linearizeAll model desc callValue returnValue i lg (partial # partials) =
     and_then (linearize model desc callValue returnValue i (length partial) (m_Init model) lg partial) (\<lambda>(linearization, lg1).
     and_then (linearizeAll model desc callValue returnValue (i + 1) lg1 partials) (\<lambda>(linearizations, lg2).
       Inr (linearization # linearizations, lg2)))"

definition viewPartition ::
  "(int list list \<Rightarrow> int list list) \<Rightarrow> ('s, 'v) Model \<Rightarrow> ('s, 'v) describe \<Rightarrow> 'v entry list \<Rightarrow> int list list \<Rightarrow>
   partitionVisualizationData res" where
  "viewPartition byLength model desc entries partials =
     and_then (visitHistory desc entries) (\<lambda>(history, callValue, returnValue).
     and_then (linearizeAll model desc callValue returnValue 0 (Map.empty, Map.empty) (byLength partials)) (\<lambda>(linearizations, lg).
       Inr \<lparr>pv_History = history, pv_PartialLinearizations = linearizations, Largest = snd lg\<rparr>))"

definition computeVisualizationData ::
  "(int list list \<Rightarrow> int list list) \<Rightarrow> ('s, 'v) Model \<Rightarrow> ('s, 'v) describe \<Rightarrow> 'v linearizationInfo \<Rightarrow>
   partitionVisualizationData list res" where
  "computeVisualizationData byLength model desc info =
     fold_res (\<lambda>data partition.
       and_then (nth_res (partialLinearizations info) partition) (\<lambda>partials.
       and_then (viewPartition byLength (fillDefault model) desc (li_history info ! partition) partials) (\<lambda>d. Inr (data @ [d]))))
       [] [0..<length (li_history info)]"

section \<open>What the history shows\<close>

definition seen :: "entryKind \<Rightarrow> 'v entry list \<Rightarrow> nat \<Rightarrow> bool" where
  "seen k L j \<longleftrightarrow> (\<exists>e \<in> set L. e_kind e = k \<and> e_id e = int j)"

lemma seen_snoc: "seen k (L @ [e]) j \<longleftrightarrow> seen k L j \<or> (e_kind e = k \<and> e_id e = int j)"
  by (auto simp: seen_def)

definition shownOp :: "('v Operation \<Rightarrow> string) \<Rightarrow> 'v Operation \<Rightarrow> historyElement" where
  "shownOp dsc op = \<lparr>he_ClientId = o_ClientId op, he_Start = o_Call op, he_End = o_Return op, he_Description = dsc op\<rparr>"

definition shownSoFar :: "('v Operation \<Rightarrow> string) \<Rightarrow> 'v Operation list \<Rightarrow> 'v entry list \<Rightarrow> nat \<Rightarrow> historyElement" where
  "shownSoFar dsc ops L j =
     \<lparr>he_ClientId = (if seen callEntry L j then o_ClientId (ops ! j) else 0),
      he_Start = (if seen callEntry L j then o_Call (ops ! j) else 0),
      he_End = (if seen returnEntry L j then o_Return (ops ! j) else 0),
      he_Description = (if seen returnEntry L j then dsc (ops ! j) else [])\<rparr>"

definition valuesSoFar :: "entryKind \<Rightarrow> ('v Operation \<Rightarrow> 'v) \<Rightarrow> 'v Operation list \<Rightarrow> 'v entry list \<Rightarrow> int \<Rightarrow> 'v option" where
  "valuesSoFar k val ops L i =
     (if 0 \<le> i \<and> nat i < length ops \<and> seen k L (nat i) then Some (val (ops ! nat i)) else None)"

definition visitedSoFar :: "('v Operation \<Rightarrow> string) \<Rightarrow> 'v Operation list \<Rightarrow> 'v entry list \<Rightarrow> 'v visited" where
  "visitedSoFar dsc ops L = (map (shownSoFar dsc ops L) [0..<length ops],
     valuesSoFar callEntry o_Input ops L, valuesSoFar returnEntry o_Output ops L)"

definition entryOf :: "'v Operation list \<Rightarrow> entryKind \<Rightarrow> nat \<Rightarrow> 'v entry" where
  "entryOf ops k j = (case k of
     callEntry \<Rightarrow> \<lparr>e_kind = callEntry, e_value = o_Input (ops ! j), e_id = int j, e_time = o_Call (ops ! j), e_clientId = o_ClientId (ops ! j)\<rparr>
   | returnEntry \<Rightarrow> \<lparr>e_kind = returnEntry, e_value = o_Output (ops ! j), e_id = int j, e_time = o_Return (ops ! j), e_clientId = o_ClientId (ops ! j)\<rparr>)"

lemma entryOf_simps [simp]: "e_kind (entryOf ops k j) = k" "e_id (entryOf ops k j) = int j"
  by (cases k; simp add: entryOf_def)+

lemma map_shown_update:
  assumes "j < length ops" and "shownSoFar dsc ops (L @ [e]) j = x" and "e_id e = int j"
  shows "(map (shownSoFar dsc ops L) [0..<length ops])[j := x] = map (shownSoFar dsc ops (L @ [e])) [0..<length ops]"
  using assms by (intro nth_equalityI) (auto simp: nth_list_update shownSoFar_def seen_snoc)

lemma valuesSoFar_snoc:
  assumes "j < length ops"
  shows "valuesSoFar k val ops (L @ [entryOf ops k j]) = (valuesSoFar k val ops L)(int j \<mapsto> val (ops ! j))"
    "k' \<noteq> k \<Longrightarrow> valuesSoFar k' val ops (L @ [entryOf ops k j]) = valuesSoFar k' val ops L"
  using assms by (auto simp: valuesSoFar_def seen_snoc fun_eq_iff)

lemma visitEntry_next:
  assumes "j < length ops" and "k = returnEntry \<longrightarrow> seen callEntry L j"
    and "DescribeOperation desc (o_Input (ops ! j)) (o_Output (ops ! j)) = Inr (dsc (ops ! j))"
  shows "visitEntry desc (visitedSoFar dsc ops L) (entryOf ops k j) = Inr (visitedSoFar dsc ops (L @ [entryOf ops k j]))"
proof (cases k)
  case callEntry
  let ?e = "entryOf ops callEntry j" and ?x = "shownSoFar dsc ops L j"
  have "shownSoFar dsc ops (L @ [?e]) j = ?x\<lparr>he_ClientId := e_clientId ?e, he_Start := e_time ?e\<rparr>"
    by (simp add: shownSoFar_def seen_snoc entryOf_def)
  note map_shown_update [OF assms(1) this]
  then show ?thesis
    using assms(1) callEntry valuesSoFar_snoc(1) [OF assms(1), where k = callEntry and val = o_Input and L = L] valuesSoFar_snoc(2) [OF assms(1), where k' = returnEntry and k = callEntry and val = o_Output and L = L]
    by (simp add: visitEntry_def visitedSoFar_def index_res_def update_res_def) (simp add: entryOf_def)
next
  case returnEntry
  let ?e = "entryOf ops returnEntry j" and ?x = "shownSoFar dsc ops L j"
  have "shownSoFar dsc ops (L @ [?e]) j = ?x\<lparr>he_End := e_time ?e, he_Description := dsc (ops ! j)\<rparr>"
    by (simp add: shownSoFar_def seen_snoc entryOf_def)
  note u = map_shown_update [OF assms(1) this]
  have "valuesSoFar callEntry o_Input ops L (int j) = Some (o_Input (ops ! j))"
    using assms(1,2) returnEntry by (simp add: valuesSoFar_def)
  moreover have "e_value ?e = o_Output (ops ! j)" by (simp add: entryOf_def)
  ultimately show ?thesis
    using u assms(1,3) returnEntry valuesSoFar_snoc(1) [OF assms(1), where k = returnEntry and val = o_Output and L = L] valuesSoFar_snoc(2) [OF assms(1), where k' = callEntry and k = returnEntry and val = o_Input and L = L]
    by (simp add: visitEntry_def visitedSoFar_def index_res_def update_res_def valueAt_def)
qed

lemma makeEntries_entryOf:
  assumes "sorts f" and "a < length (makeEntries f ops)"
  obtains j where "j < length ops" "makeEntries f ops ! a = entryOf ops (e_kind (makeEntries f ops ! a)) j"
proof -
  have "makeEntries f ops ! a \<in> set (entriesFrom 0 ops)"
    using nth_mem [OF assms(2)] makeEntries_facts(3) [OF assms(1)] by simp
  then show ?thesis
    unfolding entriesFrom_mem by (auto simp: entryOf_def intro: that)
qed

lemma return_after_call:
  assumes wf: "wf_entries E n" and k: "k < length E" "e_kind (E ! k) = returnEntry" and "e_id (E ! k) = int j" "j < n"
  shows "seen callEntry (take k E) j"
proof -
  let ?a = "callOf E j"
  note c = callOf_props [OF wf assms(5)]
  have "e_id (E ! ?a) = int j"
    using c(3) wf nth_mem [OF c(1)] by (auto simp: nid_def wf_entries_def)
  then have "partner E ?a = k"
    using partner_eq [OF wf k(1), of ?a] k(2) assms(4) by (simp add: not_call)
  then have "?a < k" using c(4) by (simp add: returnOf_def)
  then have "E ! ?a \<in> set (take k E)" using c(1) by (metis in_set_conv_nth length_take min_less_iff_conj nth_take)
  moreover have "e_kind (E ! ?a) = callEntry" using c(2) by (simp add: callAt_def is_call_def)
  ultimately show ?thesis using \<open>e_id (E ! ?a) = int j\<close> by (auto simp: seen_def)
qed

lemma all_seen:
  assumes wf: "wf_entries E n" and "j < n"
  shows "seen callEntry E j" "seen returnEntry E j"
proof -
  note c = callOf_props [OF wf assms(2)]
  have "e_id (E ! callOf E j) = int j" "e_id (E ! returnOf E j) = int j"
    using c(3,7) wf nth_mem [OF c(1)] nth_mem [OF c(5)] by (auto simp: nid_def wf_entries_def)
  then show "seen callEntry E j" "seen returnEntry E j"
    using c nth_mem [OF c(1)] nth_mem [OF c(5)] by (auto simp: seen_def callAt_def is_call_def not_call [unfolded is_call_def])
qed

definition opValues :: "('v Operation \<Rightarrow> 'v) \<Rightarrow> 'v Operation list \<Rightarrow> int \<Rightarrow> 'v option" where
  "opValues val ops i = (if 0 \<le> i \<and> nat i < length ops then Some (val (ops ! nat i)) else None)"

lemma valueAt_op [simp]: "x < length ops \<Longrightarrow> valueAt (opValues val ops) (int x) = Inr (val (ops ! x))"
  by (simp add: valueAt_def opValues_def)

lemma visitHistory_shows:
  assumes f: "sorts f" and c: "complete ops"
    and d: "\<forall>op \<in> set ops. DescribeOperation desc (o_Input op) (o_Output op) = Inr (dsc op)"
  shows "visitHistory desc (makeEntries f ops) = Inr (map (shownOp dsc) ops, opValues o_Input ops, opValues o_Output ops)"
proof -
  let ?E = "makeEntries f ops"
  note wf = makeEntries_wf [OF f c]
  have len: "length ?E div 2 = length ops" using makeEntries_facts(4) [OF f] by simp
  have "fold_res (visitEntry desc) (visitedSoFar dsc ops []) (take k ?E) = Inr (visitedSoFar dsc ops (take k ?E))" if "k \<le> length ?E" for k
    using that
  proof (induction k)
    case (Suc k)
    then have k: "k < length ?E" by simp
    obtain j where j: "j < length ops" "?E ! k = entryOf ops (e_kind (?E ! k)) j" using makeEntries_entryOf [OF f k] .
    have "visitEntry desc (visitedSoFar dsc ops (take k ?E)) (?E ! k) = Inr (visitedSoFar dsc ops (take k ?E @ [?E ! k]))"
      using visitEntry_next [OF j(1), of "e_kind (?E ! k)" "take k ?E" desc dsc] j d return_after_call [OF wf k] by (metis entryOf_simps(2) nth_mem)
    then show ?case
      using Suc k by (simp add: take_Suc_conv_app_nth fold_res_snoc)
  qed simp
  from this [of "length ?E"]
  have "fold_res (visitEntry desc) (visitedSoFar dsc ops []) ?E = Inr (visitedSoFar dsc ops ?E)" by simp
  moreover have "visitedSoFar dsc ops [] = (replicate (length ops) zeroElement, Map.empty, Map.empty)"
    by (auto simp: visitedSoFar_def shownSoFar_def valuesSoFar_def seen_def zeroElement_def intro!: nth_equalityI)
  moreover have "visitedSoFar dsc ops ?E = (map (shownOp dsc) ops, opValues o_Input ops, opValues o_Output ops)"
    using all_seen [OF wf]
    by (auto simp: visitedSoFar_def shownSoFar_def valuesSoFar_def opValues_def shownOp_def fun_eq_iff intro!: nth_equalityI)
  ultimately show ?thesis by (simp add: visitHistory_def len)
qed

section \<open>What the linearizations show\<close>

lemma linearize_accepted:
  assumes "accepts m s (map (\<lambda>i. (o_Input (ops ! i), o_Output (ops ! i))) is)" and "set is \<subseteq> {..<length ops}"
    and "\<And>st. \<exists>d. DescribeState desc st = Inr d"
  shows "\<exists>steps. linearize m desc (opValues o_Input ops) (opValues o_Output ops) i len s lg (map int is) =
      Inr (steps, foldl (\<lambda>lg k. noteLargest lg k i len) lg (map int is)) \<and> map ls_Index steps = map int is"
  using assms(1,2)
proof (induction "is" arbitrary: s lg)
  case (Cons x "is")
  then obtain s' where "m_Step m s (o_Input (ops ! x)) (o_Output (ops ! x)) = Inr (True, s')"
    "accepts m s' (map (\<lambda>i. (o_Input (ops ! i), o_Output (ops ! i))) is)"
    by (auto split: sum.splits)
  moreover obtain d where "DescribeState desc s' = Inr d" using assms(3) by blast
  moreover from calculation obtain steps where
    "linearize m desc (opValues o_Input ops) (opValues o_Output ops) i len s' (noteLargest lg (int x) i len) (map int is) =
      Inr (steps, foldl (\<lambda>lg k. noteLargest lg k i len) (noteLargest lg (int x) i len) (map int is))" "map ls_Index steps = map int is"
    using Cons.IH [of s' "noteLargest lg (int x) i len"] Cons.prems(2) by auto
  ultimately show ?case
    using Cons.prems(2) by (intro exI [of _ "\<lparr>ls_Index = int x, StateDescription = d\<rparr> # steps"]) simp
qed simp

lemma partial_accepts:
  assumes f: "sorts f" and c: "complete ops" and "partial_lin m (makeEntries f ops) ids"
  shows "\<exists>is. ids = map int is \<and> set is \<subseteq> {..<length ops} \<and> accepts m (m_Init m) (map (\<lambda>i. (o_Input (ops ! i), o_Output (ops ! i))) is)"
proof -
  let ?E = "makeEntries f ops"
  note wf = makeEntries_wf [OF f c]
  have "\<exists>is. map (\<lambda>c. e_id (?E ! fst c)) cs = map int is \<and> set is \<subseteq> {..<length ops} \<and> accepts m s (map (\<lambda>i. (o_Input (ops ! i), o_Output (ops ! i))) is)"
    if "legal m ?E s S cs s'" for s S cs s'
    using that
  proof (induction cs arbitrary: s S)
    case (Cons x cs)
    obtain a st where x: "x = (a, st)" by (cases x)
    then obtain t where a: "a \<in> set (takeWhile (callAt ?E) (rem ?E S))" and g: "goes m ?E s a t" and l: "legal m ?E t (insert (nid ?E a) S) cs s'"
      using Cons.prems by auto
    have al: "a < length ?E" "callAt ?E a" using set_takeWhileD [OF a] by (auto simp: rem_def)
    note at = makeEntries_at [OF f al(1)]
    have "opOf ?E (nid ?E a) = (e_value (?E ! a), e_value (?E ! partner ?E a))"
      using callOf_eq [OF wf al] by (simp add: opOf_def returnOf_def)
    then have "m_Step m s (o_Input (ops ! nid ?E a)) (o_Output (ops ! nid ?E a)) = Inr (True, t)"
      using makeEntries_order(2) [OF f c at(1) at(1)] g by (simp add: goes_def)
    moreover obtain "is" where "map (\<lambda>c. e_id (?E ! fst c)) cs = map int is" "set is \<subseteq> {..<length ops}"
      "accepts m t (map (\<lambda>i. (o_Input (ops ! i), o_Output (ops ! i))) is)"
      using Cons.IH [OF l] by blast
    ultimately show ?case
      using at(1,2) x by (intro exI [of _ "nid ?E a # is"]) simp
  qed simp
  then show ?thesis using assms(3) unfolding partial_lin_def by blast
qed

text \<open>\<open>Largest\<close> of an operation: the place of a longest partial linearization that has it.\<close>

definition largest_ok :: "int list list \<Rightarrow> (int \<rightharpoonup> int) \<Rightarrow> bool" where
  "largest_ok ps big \<longleftrightarrow> (\<forall>h. case big h of
     None \<Rightarrow> \<forall>p \<in> set ps. h \<notin> set p
   | Some j \<Rightarrow> 0 \<le> j \<and> nat j < length ps \<and> h \<in> set (ps ! nat j) \<and> (\<forall>p \<in> set ps. h \<in> set p \<longrightarrow> length p \<le> length (ps ! nat j)))"

definition sizes_ok :: "int list list \<Rightarrow> largest \<Rightarrow> bool" where
  "sizes_ok ps lg \<longleftrightarrow> (\<forall>h. fst lg h = map_option (\<lambda>j. length (ps ! nat j)) (snd lg h))"

lemma note_fold:
  "foldl (\<lambda>lg k. noteLargest lg k i len) lg ids =
     (\<lambda>h. if h \<in> set ids \<and> (case fst lg h of None \<Rightarrow> 0 | Some k \<Rightarrow> k) < len then Some len else fst lg h,
      \<lambda>h. if h \<in> set ids \<and> (case fst lg h of None \<Rightarrow> 0 | Some k \<Rightarrow> k) < len then Some i else snd lg h)"
proof (induction ids arbitrary: lg)
  case (Cons x ids)
  show ?case unfolding foldl.simps Cons.IH by (auto simp: noteLargest_def fun_eq_iff split: option.splits)
qed simp

lemma largest_next:
  assumes "largest_ok ps (snd lg)" and "sizes_ok ps lg"
  shows "largest_ok (ps @ [p]) (snd (foldl (\<lambda>lg k. noteLargest lg k (int (length ps)) (length p)) lg p))"
    and "sizes_ok (ps @ [p]) (foldl (\<lambda>lg k. noteLargest lg k (int (length ps)) (length p)) lg p)"
proof -
  have old: "(case snd lg h of None \<Rightarrow> \<forall>p \<in> set ps. h \<notin> set p
      | Some j \<Rightarrow> 0 \<le> j \<and> nat j < length ps \<and> h \<in> set (ps ! nat j) \<and> (\<forall>p \<in> set ps. h \<in> set p \<longrightarrow> length p \<le> length (ps ! nat j)))
    \<and> fst lg h = map_option (\<lambda>j. length (ps ! nat j)) (snd lg h)" for h
    using assms unfolding largest_ok_def sizes_ok_def by blast
  show "largest_ok (ps @ [p]) (snd (foldl (\<lambda>lg k. noteLargest lg k (int (length ps)) (length p)) lg p))"
    unfolding largest_ok_def note_fold
  proof
    fix h
    show "case snd (\<lambda>h. if h \<in> set p \<and> (case fst lg h of None \<Rightarrow> 0 | Some k \<Rightarrow> k) < length p then Some (length p) else fst lg h,
        \<lambda>h. if h \<in> set p \<and> (case fst lg h of None \<Rightarrow> 0 | Some k \<Rightarrow> k) < length p then Some (int (length ps)) else snd lg h) h of
        None \<Rightarrow> \<forall>q \<in> set (ps @ [p]). h \<notin> set q
      | Some j \<Rightarrow> 0 \<le> j \<and> nat j < length (ps @ [p]) \<and> h \<in> set ((ps @ [p]) ! nat j)
          \<and> (\<forall>q \<in> set (ps @ [p]). h \<in> set q \<longrightarrow> length q \<le> length ((ps @ [p]) ! nat j))"
      using old [of h] by (cases "snd lg h") (fastforce simp: nth_append split: if_splits)+
  qed
  show "sizes_ok (ps @ [p]) (foldl (\<lambda>lg k. noteLargest lg k (int (length ps)) (length p)) lg p)"
    unfolding sizes_ok_def note_fold
  proof
    fix h
    show "fst (\<lambda>h. if h \<in> set p \<and> (case fst lg h of None \<Rightarrow> 0 | Some k \<Rightarrow> k) < length p then Some (length p) else fst lg h,
        \<lambda>h. if h \<in> set p \<and> (case fst lg h of None \<Rightarrow> 0 | Some k \<Rightarrow> k) < length p then Some (int (length ps)) else snd lg h) h =
      map_option (\<lambda>j. length ((ps @ [p]) ! nat j)) (snd (\<lambda>h. if h \<in> set p \<and> (case fst lg h of None \<Rightarrow> 0 | Some k \<Rightarrow> k) < length p then Some (length p) else fst lg h,
        \<lambda>h. if h \<in> set p \<and> (case fst lg h of None \<Rightarrow> 0 | Some k \<Rightarrow> k) < length p then Some (int (length ps)) else snd lg h) h)"
      using old [of h] by (cases "snd lg h") (auto simp: nth_append split: if_splits)
  qed
qed

lemma linearizeAll_accepted:
  assumes "\<forall>p \<in> set ps. \<exists>is. p = map int is \<and> set is \<subseteq> {..<length ops}
      \<and> accepts m (m_Init m) (map (\<lambda>i. (o_Input (ops ! i), o_Output (ops ! i))) is)"
    and d: "\<And>st. \<exists>d. DescribeState desc st = Inr d"
    and "largest_ok before (snd lg)" and "sizes_ok before lg"
  shows "\<exists>lins lg'. linearizeAll m desc (opValues o_Input ops) (opValues o_Output ops) (int (length before)) lg ps = Inr (lins, lg')
    \<and> map (map ls_Index) lins = ps \<and> largest_ok (before @ ps) (snd lg')"
  using assms(1,3,4)
proof (induction ps arbitrary: before lg)
  case (Cons p ps)
  obtain "is" where p: "p = map int is" "set is \<subseteq> {..<length ops}" "accepts m (m_Init m) (map (\<lambda>i. (o_Input (ops ! i), o_Output (ops ! i))) is)"
    using Cons.prems(1) by auto
  let ?lg = "foldl (\<lambda>lg k. noteLargest lg k (int (length before)) (length p)) lg p"
  obtain steps where s: "linearize m desc (opValues o_Input ops) (opValues o_Output ops) (int (length before)) (length p) (m_Init m) lg p = Inr (steps, ?lg)"
    "map ls_Index steps = p"
    using linearize_accepted [OF p(3,2) d] p(1) by blast
  obtain lins lg' where "linearizeAll m desc (opValues o_Input ops) (opValues o_Output ops) (int (length (before @ [p]))) ?lg ps = Inr (lins, lg')"
    "map (map ls_Index) lins = ps" "largest_ok ((before @ [p]) @ ps) (snd lg')"
    using Cons.IH [OF _ largest_next [OF Cons.prems(2,3)], of p] Cons.prems(1) by (meson list.set_intros(2))
  then show ?case using s by (simp add: add.commute)
qed simp

section \<open>The page of a check\<close>

definition sorts_by_length :: "(int list list \<Rightarrow> int list list) \<Rightarrow> bool" where
  "sorts_by_length f \<longleftrightarrow> (\<forall>xs. mset (f xs) = mset xs \<and> sorted_wrt (\<lambda>a b. length a \<ge> length b) (f xs))"

lemma viewPartition_shows:
  assumes f: "sorts f" and c: "complete ops"
    and d: "\<forall>op \<in> set ops. DescribeOperation desc (o_Input op) (o_Output op) = Inr (dsc op)" "\<And>st. \<exists>d. DescribeState desc st = Inr d"
    and p: "\<forall>ids \<in> set ps. partial_lin m (makeEntries f ops) ids" and b: "sorts_by_length byLength"
  shows "\<exists>v. viewPartition byLength m desc (makeEntries f ops) ps = Inr v \<and> pv_History v = map (shownOp dsc) ops
    \<and> map (map ls_Index) (pv_PartialLinearizations v) = byLength ps \<and> largest_ok (byLength ps) (Largest v)"
proof -
  have "set (byLength ps) = set ps" using b unfolding sorts_by_length_def by (metis set_mset_mset)
  then have a: "\<forall>q \<in> set (byLength ps). \<exists>is. q = map int is \<and> set is \<subseteq> {..<length ops}
      \<and> accepts m (m_Init m) (map (\<lambda>i. (o_Input (ops ! i), o_Output (ops ! i))) is)"
    using p partial_accepts [OF f c] by blast
  obtain lins lg where "linearizeAll m desc (opValues o_Input ops) (opValues o_Output ops) 0 (Map.empty, Map.empty) (byLength ps) = Inr (lins, lg)"
    "map (map ls_Index) lins = byLength ps" "largest_ok (byLength ps) (snd lg)"
    using linearizeAll_accepted [OF a d(2), of "[]" "(Map.empty, Map.empty)"] by (auto simp: largest_ok_def sizes_ok_def)
  then show ?thesis
    using visitHistory_shows [OF f c d(1)] by (simp add: viewPartition_def)
qed

lemma fold_collect:
  assumes "\<forall>x \<in> set xs. \<exists>y. g x = Inr y \<and> Q x y"
  shows "\<exists>ys. fold_res (\<lambda>acc x. and_then (g x) (\<lambda>y. Inr (acc @ [y]))) acc xs = Inr (acc @ ys) \<and> list_all2 Q xs ys"
  using assms
proof (induction xs arbitrary: acc)
  case (Cons x xs)
  then obtain y where y: "g x = Inr y" "Q x y" by auto
  obtain ys where "fold_res (\<lambda>acc x. and_then (g x) (\<lambda>y. Inr (acc @ [y]))) (acc @ [y]) xs = Inr ((acc @ [y]) @ ys)" "list_all2 Q xs ys"
    using Cons.IH [of "acc @ [y]"] Cons.prems by auto
  then show ?case using y by (intro exI [of _ "y # ys"]) simp
qed simp

definition kv_shown :: "kv_value Operation \<Rightarrow> string" where
  "kv_shown op = (case KvDescribeOperation (o_Input op) (o_Output op) of Inr d \<Rightarrow> d | Inl e \<Rightarrow> [])"

lemma kv_shown_fits: "kv_fits op \<Longrightarrow> KvDescribeOperation (o_Input op) (o_Output op) = Inr (kv_shown op)"
  by (auto simp: kv_fits_def kv_shown_def KvDescribeOperation_def split: kv_value.splits)

text \<open>C37: The page of a verbose check of a complete key/value history can always be computed: the panic about a partial
  linearization that the model rejects does not happen. Its data has for every key the operations of
  the key with their clients, times and descriptions, the partial linearizations from the longest to
  the shortest, and for every operation the place of a longest partial linearization that has it.\<close>

theorem view_of_check:
  assumes "sorts (sorter env)" and "complete h" and "\<forall>op \<in> set h. kv_fits op" and "sorts_by_length byLength"
    and "CheckOperationsVerbose env KvModel h timeout = Some (Inr (r, info))"
  shows "\<exists>data. computeVisualizationData byLength KvModel KvDescribe info = Inr data
    \<and> list_all2 (\<lambda>i v. pv_History v = map (shownOp kv_shown) (kv_part h ! i)
        \<and> map (map ls_Index) (pv_PartialLinearizations v) = byLength (partialLinearizations info ! i)
        \<and> largest_ok (byLength (partialLinearizations info ! i)) (Largest v)) [0..<length (kv_part h)] data"
proof -
  let ?n = "length (kv_part h)"
  have len: "length (partialLinearizations info) = ?n" and legal: "\<And>i seq. i < ?n \<Longrightarrow> seq \<in> set (partialLinearizations info ! i) \<Longrightarrow>
      partial_lin (fillDefault KvModel) (makeEntries (sorter env) (kv_part h ! i)) seq"
    using kvm.check_partials [OF assms(1-3,5)] by blast+
  have hist: "li_history info = map (makeEntries (sorter env)) (kv_part h)"
    using assms(5) by (auto simp: CheckOperationsVerbose_def kvm.check_unfold [OF assms(3)] Let_def split: option.splits sum.splits)
  let ?g = "\<lambda>i. and_then (nth_res (partialLinearizations info) i) (\<lambda>partials.
      viewPartition byLength (fillDefault KvModel) KvDescribe (li_history info ! i) partials)"
  let ?Q = "\<lambda>i v. pv_History v = map (shownOp kv_shown) (kv_part h ! i)
      \<and> map (map ls_Index) (pv_PartialLinearizations v) = byLength (partialLinearizations info ! i)
      \<and> largest_ok (byLength (partialLinearizations info ! i)) (Largest v)"
  have "\<exists>v. ?g i = Inr v \<and> ?Q i v" if i: "i \<in> set [0..<?n]" for i
  proof -
    have p: "complete (kv_part h ! i)" "\<forall>op \<in> set (kv_part h ! i). kv_fits op"
      using kvm.part_complete [OF assms(2,3), of "kv_part h ! i"] i by simp_all
    then have "\<forall>op \<in> set (kv_part h ! i). DescribeOperation KvDescribe (o_Input op) (o_Output op) = Inr (kv_shown op)"
      by (simp add: KvDescribe_def kv_shown_fits)
    from viewPartition_shows [OF assms(1) p(1) this _ _ assms(4), of "partialLinearizations info ! i" "fillDefault KvModel"]
    show ?thesis using i len legal by (auto simp: hist KvDescribe_def)
  qed
  then obtain data where "fold_res (\<lambda>acc x. and_then (?g x) (\<lambda>y. Inr (acc @ [y]))) [] [0..<?n] = Inr ([] @ data)" "list_all2 ?Q [0..<?n] data"
    using fold_collect [of "[0..<?n]" ?g ?Q "[]"] by blast
  then show ?thesis
    by (simp add: computeVisualizationData_def hist and_then_assoc)
qed

definition longest_first :: "int list list \<Rightarrow> int list list" where
  "longest_first = sort_key (\<lambda>p. - int (length p))"

lemma longest_first_sorts: "sorts_by_length longest_first"
proof -
  have "sorted (map (\<lambda>p. - int (length p)) (longest_first xs))" for xs by (simp add: longest_first_def)
  then show ?thesis by (simp add: sorts_by_length_def longest_first_def sorted_map)
qed

theorem view_of_check_witness:
  "\<exists>r info data v. CheckOperationsVerbose (quiet_env [Arrived 0]) KvModel bad_history 0 = Some (Inr (r, info))
    \<and> computeVisualizationData longest_first KvModel KvDescribe info = Inr data \<and> data = [v]
    \<and> pv_History v = map (shownOp kv_shown) (kv_part bad_history ! 0) \<and> largest_ok (longest_first (partialLinearizations info ! 0)) (Largest v)"
proof -
  have "case CheckOperationsVerbose (quiet_env [Arrived 0]) KvModel bad_history 0 of Some (Inr (r, info)) \<Rightarrow> True | _ \<Rightarrow> False"
    by code_simp
  then obtain r info where v: "CheckOperationsVerbose (quiet_env [Arrived 0]) KvModel bad_history 0 = Some (Inr (r, info))"
    by (auto split: option.splits sum.splits)
  show ?thesis
    using view_of_check [OF _ history_facts(4,5) longest_first_sorts v] v
    by (auto simp: kv_parts list_all2_Cons1 quiet_env_def by_time_sorts)
qed

end
