(* ===== verification/LabRpcNet.thy ===== *)
theory LabRpcNet
  imports LabRpc
begin

text \<open>
  A network with its users as a step relation: programs make calls, the goroutine of each request
  takes its steps, handlers run, and a test harness makes ends, connects and disables them, starts
  servers and deletes them, at any time. The invariant ties an answer to the run of its handler.
\<close>

section \<open>The system\<close>

text \<open>
  The handler goroutine of a request. \<open>runs\<close> records, for the theorems, where the handler ran, whether
  that server was at that time still the one registered under the name the request was sent to,
  and what the handler returned.
\<close>

datatype 'n handler = NotStarted | Running "'n route" | Returned replyMsg | Taken

record ('n, 't) request =
  msg :: "('n, 't) reqMsg"
  stage :: "'n stage"
  handler :: "'n handler"
  runs :: "(pointer \<times> bool \<times> replyMsg) list"

text \<open>
  \<open>serving\<close>: the goroutine of \<open>MakeNetwork\<close> still receives requests. \<open>used\<close>: the servers that have been
  registered. \<open>world\<close> is the state of the program behind the services.
\<close>

record ('n, 'r, 't, 'v, 'w) system =
  net :: "'n Network"
  serving :: bool
  heap :: "('r, 't, 'v, 'w) Server list"
  used :: "pointer set"
  world :: 'w
  requests :: "('n, 't) request list"

definition start :: "'w \<Rightarrow> ('n, 'r, 't, 'v, 'w) system" where
  "start w = \<lparr>net = MakeNetwork, serving = True, heap = [], used = {}, world = w, requests = []\<rparr>"

definition newRequest :: "('n, 't) reqMsg \<Rightarrow> ('n, 't) request" where
  "newRequest m = \<lparr>msg = m, stage = Sent, handler = NotStarted, runs = []\<rparr>"

definition registered :: "'n Network \<Rightarrow> 'n route \<Rightarrow> bool" where
  "registered rn rt \<longleftrightarrow> serverOf rn (servername rt) = Some (server rt)"

text \<open>The goroutine of one request: its next step changes the network (the counters) and the request.\<close>

inductive reqstep :: "'n Network \<Rightarrow> ('n, 't) request \<Rightarrow> 'n Network \<Rightarrow> ('n, 't) request \<Rightarrow> bool" where
  read: "stage q = Sent \<Longrightarrow> reqstep rn q rn (q\<lparr>stage := processReq_read rn (msg q)\<rparr>)"
| drop: "stage q = Accepted rt \<Longrightarrow> processReq_send rt rand = Answered rep \<Longrightarrow> reqstep rn q rn (q\<lparr>stage := Answered rep\<rparr>)"
| send: "stage q = Accepted rt \<Longrightarrow> processReq_send rt rand = Waiting rt' \<Longrightarrow>
    reqstep rn q rn (q\<lparr>stage := Waiting rt', handler := Running rt'\<rparr>)"
| poll: "stage q = Waiting rt \<Longrightarrow> reqstep rn q rn (q\<lparr>stage := processReq_poll rn (msg q) rt\<rparr>)"
| receive: "stage q = Waiting rt \<Longrightarrow> handler q = Returned rep \<Longrightarrow>
    reqstep rn q rn (q\<lparr>stage := Replied rt rep, handler := Taken\<rparr>)"
| finish: "stage q = Replied rt rep \<Longrightarrow> processReq_finish rn (msg q) rt (Some rep) rand1 rand2 = (rn', st) \<Longrightarrow>
    reqstep rn q rn' (q\<lparr>stage := st\<rparr>)"
| give_up: "stage q = GaveUp rt \<Longrightarrow> processReq_finish rn (msg q) rt None rand1 rand2 = (rn', st) \<Longrightarrow>
    reqstep rn q rn' (q\<lparr>stage := st\<rparr>)"
| late: "stage q = Late rep \<Longrightarrow> processReq_late rn rep = (rn', st) \<Longrightarrow> reqstep rn q rn' (q\<lparr>stage := st\<rparr>)"

text \<open>What the harness does to the network. A server is registered once: each start of a test server makes a new one.\<close>

inductive netop :: "pointer set \<Rightarrow> 'n Network \<Rightarrow> pointer set \<Rightarrow> 'n Network \<Rightarrow> bool" where
  make_end: "MakeEnd rn e = Inr rn' \<Longrightarrow> netop u rn u rn'"
| connect: "netop u rn u (Connect rn e sname)"
| enable: "netop u rn u (Enable rn e yes)"
| set_reliable: "netop u rn u (Reliable rn yes)"
| set_reordering: "netop u rn u (LongReordering rn yes)"
| set_delays: "netop u rn u (LongDelays rn yes)"
| cleanup: "Cleanup rn = Inr rn' \<Longrightarrow> netop u rn u rn'"
| add_server: "p \<notin> u \<Longrightarrow> netop u rn (insert p u) (AddServer rn sname p)"
| delete_server: "netop u rn u (DeleteServer rn sname)"

inductive nstep :: "('t, 'v) codec \<Rightarrow> ('n, 'r, 't, 'v, 'w) system \<Rightarrow> ('n, 'r, 't, 'v, 'w) system \<Rightarrow> bool" for codec where
  call: "serving s \<Longrightarrow> Call_request codec e meth args = Inr m \<Longrightarrow>
    nstep codec s (s\<lparr>net := accept (net s) m, requests := requests s @ [newRequest m]\<rparr>)"
| goroutine: "i < length (requests s) \<Longrightarrow> reqstep (net s) (requests s ! i) rn q \<Longrightarrow>
    nstep codec s (s\<lparr>net := rn, requests := (requests s)[i := q]\<rparr>)"
| handle: "i < length (requests s) \<Longrightarrow> handler (requests s ! i) = Running rt \<Longrightarrow> server rt < length (heap s) \<Longrightarrow>
    Server_dispatch codec (heap s ! server rt) (msg (requests s ! i)) (world s) = Inr (rs, w, rep) \<Longrightarrow>
    nstep codec s (s\<lparr>heap := (heap s)[server rt := rs], world := w,
      requests := (requests s)[i := (requests s ! i)\<lparr>handler := Returned rep,
        runs := runs (requests s ! i) @ [(server rt, registered (net s) rt, rep)]\<rparr>]\<rparr>)"
| harness: "netop (used s) (net s) u rn \<Longrightarrow> u \<subseteq> used s \<union> {..<length (heap s)} \<Longrightarrow> nstep codec s (s\<lparr>net := rn, used := u\<rparr>)"
| stop: "closed (net s) \<Longrightarrow> nstep codec s (s\<lparr>serving := False\<rparr>)"
| make_server: "nstep codec s (s\<lparr>heap := heap s @ [MakeServer]\<rparr>)"
| add_service: "p < length (heap s) \<Longrightarrow> nstep codec s (s\<lparr>heap := (heap s)[p := AddService (heap s ! p) svc]\<rparr>)"
| program: "nstep codec s (s\<lparr>world := w\<rparr>)"

section \<open>The invariant of a request\<close>

text \<open>A handler that ran when its server was no longer registered: the server never comes back.\<close>

definition ran_on :: "'n Network \<Rightarrow> 'n route \<Rightarrow> replyMsg \<Rightarrow> (pointer \<times> bool \<times> replyMsg) list \<Rightarrow> bool" where
  "ran_on rn rt rep rs \<longleftrightarrow> (\<exists>l. rs = [(server rt, l, rep)] \<and> (l \<or> \<not> registered rn rt))"

fun stage_ok :: "pointer set \<Rightarrow> 'n Network \<Rightarrow> 'n handler \<Rightarrow> (pointer \<times> bool \<times> replyMsg) list \<Rightarrow> 'n stage \<Rightarrow> bool" where
  "stage_ok u rn h rs Sent \<longleftrightarrow> h = NotStarted"
| "stage_ok u rn h rs (Accepted rt) \<longleftrightarrow> h = NotStarted \<and> server rt \<in> u"
| "stage_ok u rn h rs (Waiting rt) \<longleftrightarrow> server rt \<in> u \<and> (h = Running rt \<or> (\<exists>rep. h = Returned rep \<and> ran_on rn rt rep rs))"
| "stage_ok u rn h rs (Replied rt rep) \<longleftrightarrow> server rt \<in> u \<and> h = Taken \<and> ran_on rn rt rep rs"
| "stage_ok u rn h rs (GaveUp rt) \<longleftrightarrow> True"
| "stage_ok u rn h rs (Late rep) \<longleftrightarrow> rep_ok rep \<longrightarrow> (\<exists>p. rs = [(p, True, rep)])"
| "stage_ok u rn h rs (Answered rep) \<longleftrightarrow> rep_ok rep \<longrightarrow> (\<exists>p. rs = [(p, True, rep)])"

definition handler_ok :: "pointer set \<Rightarrow> 'n handler \<Rightarrow> (pointer \<times> bool \<times> replyMsg) list \<Rightarrow> bool" where
  "handler_ok u h rs \<longleftrightarrow>
     (case h of NotStarted \<Rightarrow> rs = [] | Running rt \<Rightarrow> rs = [] \<and> server rt \<in> u | _ \<Rightarrow> length rs = 1)"

definition request_ok :: "pointer set \<Rightarrow> 'n Network \<Rightarrow> ('n, 't) request \<Rightarrow> bool" where
  "request_ok u rn q \<longleftrightarrow> stage_ok u rn (handler q) (runs q) (stage q) \<and> handler_ok u (handler q) (runs q)"

text \<open>What the network knows of servers only shrinks, but for new servers.\<close>

definition servers_later :: "pointer set \<Rightarrow> 'n Network \<Rightarrow> 'n Network \<Rightarrow> bool" where
  "servers_later u rn rn' \<longleftrightarrow> (\<forall>sname p. p \<in> u \<and> serverOf rn' sname = Some p \<longrightarrow> serverOf rn sname = Some p)"

definition servers_used :: "pointer set \<Rightarrow> 'n Network \<Rightarrow> bool" where
  "servers_used u rn \<longleftrightarrow> (\<forall>sname p. serverOf rn sname = Some p \<longrightarrow> p \<in> u)"

lemma serverOf_cong: "servers rn' = servers rn \<Longrightarrow> serverOf rn' = serverOf rn"
  by (rule ext) (simp add: serverOf_def)

lemma netop_servers:
  assumes "netop u rn u' rn'" and "servers_used u rn"
  shows "servers_later u rn rn' \<and> servers_used u' rn' \<and> u \<subseteq> u' \<and> total_count rn' = total_count rn"
  using assms
proof induction
  case (make_end rn e rn' u)
  then have "servers rn' = servers rn" "total_count rn' = total_count rn" by (auto simp: MakeEnd_def split: if_splits)
  then show ?case using make_end(2) serverOf_cong [of rn' rn] by (simp add: servers_later_def servers_used_def)
next
  case (cleanup rn rn' u)
  then have "servers rn' = servers rn" "total_count rn' = total_count rn" by (auto simp: Cleanup_def split: if_splits)
  then show ?case using cleanup(2) serverOf_cong [of rn' rn] by (simp add: servers_later_def servers_used_def)
qed (auto simp: servers_later_def servers_used_def serverOf_def Connect_def Enable_def Reliable_def LongReordering_def
    LongDelays_def AddServer_def DeleteServer_def split: if_splits)

lemma ran_on_later: "ran_on rn rt rep rs \<Longrightarrow> servers_later u rn rn' \<Longrightarrow> server rt \<in> u \<Longrightarrow> ran_on rn' rt rep rs"
  unfolding ran_on_def servers_later_def registered_def by blast

lemma request_ok_later:
  assumes "request_ok u rn q" and "servers_later u rn rn'" and "u \<subseteq> u'"
  shows "request_ok u' rn' q"
proof -
  have "handler_ok u' (handler q) (runs q)"
    using assms(1,3) by (auto simp: request_ok_def handler_ok_def split: handler.splits)
  moreover have "stage_ok u' rn' (handler q) (runs q) (stage q)"
    using assms ran_on_later [OF _ assms(2)] by (cases "stage q") (auto simp: request_ok_def)
  ultimately show ?thesis by (simp add: request_ok_def)
qed

lemma reqstep_counters:
  assumes "reqstep rn q rn' q'"
  shows "serverOf rn' = serverOf rn" and "total_count rn' = total_count rn" and "runs q' = runs q"
  using assms
  by (induction, auto simp: processReq_finish_def processReq_late_def addBytes_def serverOf_def fun_eq_iff Let_def
      split: if_splits)

lemma processReq_read_cases:
  assumes "servers_used u rn"
  shows "processReq_read rn m = Late noReply \<or> (\<exists>rt. processReq_read rn m = Accepted rt \<and> server rt \<in> u)"
  using assms
  by (auto simp: processReq_read_def readEndnameInfo_def servers_used_def Let_def split: option.splits)

lemma processReq_finish_ok:
  assumes "processReq_finish rn m rt (Some rep) r1 r2 = (rn', st)" and "ran_on rn rt rep rs"
  shows "stage_ok u rn h rs st"
proof (cases "isServerDead rn (endname m) (servername rt) (server rt)")
  case False
  then have "registered rn rt" by (simp add: isServerDead_def registered_def split: if_splits)
  then show ?thesis
    using assms by (auto simp: processReq_finish_def ran_on_def noReply_def Let_def split: if_splits)
qed (use assms in \<open>auto simp: processReq_finish_def noReply_def Let_def\<close>)

lemma reqstep_ok:
  assumes "reqstep rn q rn' q'" and "request_ok u rn q" and "servers_used u rn"
  shows "request_ok u rn q'"
  using assms
proof induction
  case (read q rn)
  then show ?case
    using processReq_read_cases [OF read(3), of "msg q"] by (auto simp: request_ok_def handler_ok_def noReply_def)
next
  case (drop q rt rand rep rn)
  then show ?case
    by (auto simp: request_ok_def processReq_send_def noReply_def split: if_splits)
next
  case (send q rt rand rt' rn)
  then show ?case
    by (auto simp: request_ok_def handler_ok_def processReq_send_def split: if_splits)
next
  case (poll q rt rn)
  then show ?case
    by (auto simp: request_ok_def processReq_poll_def)
next
  case (finish q rt rep rn rand1 rand2 rn' st)
  then show ?case
    using processReq_finish_ok [OF finish(2), of "runs q" u "handler q"] by (auto simp: request_ok_def)
next
  case (give_up q rt rn rand1 rand2 rn' st)
  then show ?case
    by (auto simp: request_ok_def processReq_finish_def noReply_def Let_def)
qed (auto simp: request_ok_def handler_ok_def processReq_late_def)

lemma handle_ok:
  assumes "request_ok u rn q" and "handler q = Running rt"
  shows "request_ok u rn (q\<lparr>handler := Returned rep, runs := runs q @ [(server rt, registered rn rt, rep)]\<rparr>)"
  using assms by (cases "stage q") (auto simp: request_ok_def handler_ok_def ran_on_def)

section \<open>The invariant of the system\<close>

definition runs_at :: "pointer \<Rightarrow> ('n, 't) request list \<Rightarrow> nat" where
  "runs_at p qs = length (filter (\<lambda>r. fst r = p) (concat (map runs qs)))"

definition system_ok :: "('n, 'r, 't, 'v, 'w) system \<Rightarrow> bool" where
  "system_ok s \<longleftrightarrow> servers_used (used s) (net s) \<and> list_all (request_ok (used s) (net s)) (requests s)"

definition counts_ok :: "('n, 'r, 't, 'v, 'w) system \<Rightarrow> bool" where
  "counts_ok s \<longleftrightarrow> total_count (net s) = of_nat (length (requests s))
     \<and> (\<forall>r \<in> set (concat (map runs (requests s))). fst r < length (heap s))
     \<and> (\<forall>p < length (heap s). rpcs (heap s ! p) = int (runs_at p (requests s)))"

lemma servers_later_same: "serverOf rn' = serverOf rn \<Longrightarrow> servers_later u rn rn'"
  by (simp add: servers_later_def)

lemma requests_later:
  "list_all (request_ok u rn) qs \<Longrightarrow> servers_later u rn rn' \<Longrightarrow> u \<subseteq> u' \<Longrightarrow> list_all (request_ok u' rn') qs"
  using request_ok_later by (fastforce simp: list_all_iff)

lemma list_all_update: "list_all P xs \<Longrightarrow> P x \<Longrightarrow> list_all P (xs[i := x])"
  using set_update_subset_insert [of xs i x] by (auto simp: list_all_iff)

lemma nstep_ok:
  assumes "nstep codec s s'" and "system_ok s"
  shows "system_ok s'"
  using assms(1)
proof cases
  case (call e meth args m)
  have "serverOf (accept (net s) m) = serverOf (net s)" by (rule serverOf_cong) (simp add: accept_def)
  then have "list_all (request_ok (used s) (accept (net s) m)) (requests s)" "servers_used (used s) (accept (net s) m)"
    using assms(2) requests_later [OF _ servers_later_same, of "used s" "net s" "requests s" "accept (net s) m" "used s"]
    by (simp_all add: system_ok_def servers_used_def)
  then show ?thesis
    using call by (simp add: system_ok_def newRequest_def request_ok_def handler_ok_def)
next
  case (goroutine i rn q)
  have "request_ok (used s) (net s) q"
    using reqstep_ok [OF goroutine(3)] assms(2) goroutine(2) by (simp add: system_ok_def list_all_length)
  then have "list_all (request_ok (used s) (net s)) ((requests s)[i := q])"
    using assms(2) by (simp add: system_ok_def list_all_update)
  then have "list_all (request_ok (used s) rn) ((requests s)[i := q])"
    using requests_later servers_later_same [OF reqstep_counters(1) [OF goroutine(3)]] by blast
  then show ?thesis
    using goroutine(1) assms(2) reqstep_counters(1) [OF goroutine(3)] by (simp add: system_ok_def servers_used_def)
next
  case (handle i rt rs w rep)
  have "request_ok (used s) (net s) (requests s ! i)"
    using assms(2) handle(2) by (simp add: system_ok_def list_all_length)
  from handle_ok [OF this handle(3)] show ?thesis
    using assms(2) handle(1) by (simp add: system_ok_def list_all_update)
next
  case (harness u rn)
  then show ?thesis
    using assms(2) netop_servers [OF harness(2)] requests_later by (auto simp: system_ok_def)
qed (use assms(2) in \<open>simp_all add: system_ok_def\<close>)

lemma reach_ok: "(nstep codec)\<^sup>*\<^sup>* (start w) s \<Longrightarrow> system_ok s"
proof (induction rule: rtranclp_induct)
  case base
  show ?case by (simp add: system_ok_def start_def MakeNetwork_def servers_used_def serverOf_def)
qed (rule nstep_ok)

lemma runs_update_same: "i < length qs \<Longrightarrow> runs q = runs (qs ! i) \<Longrightarrow> map runs (qs[i := q]) = map runs qs"
  by (simp add: map_update list_update_same_conv)

lemma runs_at_update:
  assumes "i < length qs" and "runs q = runs (qs ! i) @ [r]"
  shows "runs_at p (qs[i := q]) = runs_at p qs + (if fst r = p then 1 else 0)"
    and "set (concat (map runs (qs[i := q]))) = insert r (set (concat (map runs qs)))"
proof -
  obtain us x vs where qs: "qs = us @ x # vs" "length us = i"
    using assms(1) by (metis id_take_nth_drop length_take less_or_eq_imp_le min.absorb2)
  then show "runs_at p (qs[i := q]) = runs_at p qs + (if fst r = p then 1 else 0)"
    using assms(2) by (auto simp: runs_at_def)
  show "set (concat (map runs (qs[i := q]))) = insert r (set (concat (map runs qs)))"
    using qs assms(2) by auto
qed

lemma Server_dispatch_count: "Server_dispatch codec rs m w = Inr (rs', w', rep) \<Longrightarrow> rpcs rs' = rpcs rs + 1"
  by (auto simp: Server_dispatch_def Let_def split: option.splits)

lemma runs_at_none: "\<forall>r \<in> set (concat (map runs qs)). fst r < n \<Longrightarrow> runs_at n qs = 0"
  by (auto simp: runs_at_def filter_empty_conv)

lemma nstep_counts:
  assumes "nstep codec s s'" and "counts_ok s" and "servers_used (used s) (net s)"
  shows "counts_ok s'"
  using assms(1)
proof cases
  case (call e meth args m)
  then show ?thesis
    using assms(2) by (simp add: counts_ok_def accept_def newRequest_def runs_at_def)
next
  case (goroutine i rn q)
  have "map runs ((requests s)[i := q]) = map runs (requests s)"
    using runs_update_same goroutine(2) reqstep_counters(3) [OF goroutine(3)] by blast
  then show ?thesis
    using assms(2) reqstep_counters(2) [OF goroutine(3)] goroutine(1) by (simp only: counts_ok_def runs_at_def) simp
next
  case (handle i rt rs w rep)
  let ?q = "(requests s ! i)\<lparr>handler := Returned rep, runs := runs (requests s ! i) @ [(server rt, registered (net s) rt, rep)]\<rparr>"
  have u: "runs ?q = runs (requests s ! i) @ [(server rt, registered (net s) rt, rep)]" by simp
  show ?thesis
    unfolding handle(1) counts_ok_def
    using assms(2) handle(4) Server_dispatch_count [OF handle(5)] runs_at_update [OF handle(2) u]
    by (simp add: counts_ok_def nth_list_update)
next
  case (harness u rn)
  then show ?thesis
    using assms(2) netop_servers [OF harness(2) assms(3)] by (simp add: counts_ok_def)
next
  case make_server
  then show ?thesis
    using assms(2) runs_at_none [of "requests s" "length (heap s)"]
    by (auto simp: counts_ok_def nth_append MakeServer_def less_Suc_eq)
next
  case (add_service p svc)
  then show ?thesis
    using assms(2) by (auto simp: counts_ok_def nth_list_update AddService_def)
qed (use assms(2) in \<open>simp_all add: counts_ok_def\<close>)

lemma reach_counts: "(nstep codec)\<^sup>*\<^sup>* (start w) s \<Longrightarrow> counts_ok s"
proof (induction rule: rtranclp_induct)
  case base
  show ?case by (simp add: counts_ok_def start_def MakeNetwork_def)
next
  case (step s s')
  then show ?case
    using nstep_counts [OF step(2,3)] reach_ok [OF step(1)] by (simp add: system_ok_def)
qed

end
