(* ===== verification/LabRpcSpec.thy ===== *)
theory LabRpcSpec
  imports LabRpcNet
begin

text \<open>
  The properties of the simulated network: a request is executed at most once and a positive answer
  is that of its execution, on a server that was not deleted; calls on a working connection
  deliver argument and reply; a lost request and a lost reply look the same; the counters.
\<close>

section \<open>The name of a method\<close>

lemma lastDot_none: "CHR ''.'' \<notin> set m \<Longrightarrow> lastDot m = None"
  by (induction m) auto

lemma lastDot_append: "CHR ''.'' \<notin> set m \<Longrightarrow> lastDot (sv @ CHR ''.'' # m) = Some (length sv)"
  by (induction sv) (simp_all add: lastDot_none)

lemma splitMeth_append [simp]: "CHR ''.'' \<notin> set m \<Longrightarrow> splitMeth (sv @ CHR ''.'' # m) = Inr (sv, m)"
  by (simp add: splitMeth_def lastDot_append)

section \<open>Carrying one request\<close>

text \<open>An end that is enabled and connected to a server, and what \<open>encoding/gob\<close> promises.\<close>

definition linked :: "('n, 'r, 't, 'v, 'w) system \<Rightarrow> 'n \<Rightarrow> 'n \<Rightarrow> pointer \<Rightarrow> bool" where
  "linked s e sname p \<longleftrightarrow> serving s \<and> isEnabled (net s) e \<and> connections (net s) e = Some (Some sname)
     \<and> serverOf (net s) sname = Some p \<and> p < length (heap s)"

definition codec_ok :: "('t, 'v) codec \<Rightarrow> bool" where
  "codec_ok codec \<longleftrightarrow> (\<forall>v bs. encode codec v = (bs, True) \<longrightarrow> decode codec (zero_of codec (typeOf codec v)) bs = (v, True))"

definition routeOf :: "'n Network \<Rightarrow> 'n \<Rightarrow> pointer \<Rightarrow> 'n route" where
  "routeOf rn sname p = \<lparr>servername = sname, server = p, was_reliable = reliable rn, longreordering = longReordering rn\<rparr>"

lemma last_step:
  assumes "reqstep (net s) q rn q'" and "requests s = qs @ [q]"
  shows "nstep codec s (s\<lparr>net := rn, requests := qs @ [q']\<rparr>)"
  using nstep.goroutine [of "length qs" s rn q' codec] assms by simp

lemma accept_same:
  "serverOf (accept rn m) = serverOf rn" "isEnabled (accept rn m) = isEnabled rn" "reliable (accept rn m) = reliable rn"
  "longReordering (accept rn m) = longReordering rn" "connections (accept rn m) = connections rn"
  by (auto simp: accept_def serverOf_def isEnabled_def fun_eq_iff)

lemma call_accepted:
  assumes "linked s (endname m) sname p" and "Call_request codec (endname m) meth args = Inr m"
  shows "(nstep codec)\<^sup>*\<^sup>* s (s\<lparr>net := accept (net s) m,
    requests := requests s @ [(newRequest m)\<lparr>stage := Accepted (routeOf (net s) sname p)\<rparr>]\<rparr>)"
proof -
  let ?s = "s\<lparr>net := accept (net s) m, requests := requests s @ [newRequest m]\<rparr>"
  have "nstep codec s ?s"
    using assms by (intro nstep.call) (simp_all add: linked_def)
  moreover have "processReq_read (net ?s) m = Accepted (routeOf (net s) sname p)"
    using assms(1) by (simp add: processReq_read_def readEndnameInfo_def linked_def routeOf_def accept_same)
  then have "reqstep (net ?s) (newRequest m) (net ?s) ((newRequest m)\<lparr>stage := Accepted (routeOf (net s) sname p)\<rparr>)"
    using reqstep.read [of "newRequest m" "net ?s"] by (simp add: newRequest_def)
  from last_step [OF this, of "requests s" codec]
  have "nstep codec ?s (s\<lparr>net := accept (net s) m,
      requests := requests s @ [(newRequest m)\<lparr>stage := Accepted (routeOf (net s) sname p)\<rparr>]\<rparr>)" by simp
  ultimately show ?thesis by (meson r_into_rtranclp rtranclp.rtrancl_into_rtrancl)
qed

text \<open>The request when its handler has run and the answer is to be sent.\<close>

definition replied :: "('n, 't) reqMsg \<Rightarrow> 'n route \<Rightarrow> replyMsg \<Rightarrow> ('n, 't) request" where
  "replied m rt rep = \<lparr>msg = m, stage = Replied rt rep, handler = Taken, runs = [(server rt, True, rep)]\<rparr>"

lemma accepted_replied:
  assumes "linked s (endname m) sname p" and "Server_dispatch codec (heap s ! p) m (world s) = Inr (rs, w, rep)"
    and rt: "rt = routeOf (net s) sname p"
  shows "(nstep codec)\<^sup>*\<^sup>* (s\<lparr>net := accept (net s) m, requests := requests s @ [(newRequest m)\<lparr>stage := Accepted rt\<rparr>]\<rparr>)
    (s\<lparr>net := accept (net s) m, heap := (heap s)[p := rs], world := w, requests := requests s @ [replied m rt rep]\<rparr>)"
proof -
  let ?q0 = "(newRequest m)\<lparr>stage := Accepted rt\<rparr>"
  let ?q1 = "?q0\<lparr>stage := Waiting rt, handler := Running rt\<rparr>"
  let ?q2 = "?q1\<lparr>handler := Returned rep, runs := [(server rt, True, rep)]\<rparr>"
  let ?rn = "accept (net s) m"
  let ?s0 = "s\<lparr>net := ?rn, requests := requests s @ [?q0]\<rparr>"
  let ?s1 = "s\<lparr>net := ?rn, requests := requests s @ [?q1]\<rparr>"
  let ?s2 = "s\<lparr>net := ?rn, heap := (heap s)[p := rs], world := w, requests := requests s @ [?q2]\<rparr>"
  have "reqstep ?rn ?q0 ?rn ?q1"
    by (rule reqstep.send [where rt = rt and rand = 100]) (simp_all add: processReq_send_def)
  then have 1: "nstep codec ?s0 ?s1" using last_step [of ?s0 ?q0 ?rn ?q1 "requests s" codec] by simp
  have "server rt = p" "registered ?rn rt" "p < length (heap s)"
    using assms(1) rt by (simp_all add: routeOf_def linked_def registered_def accept_same)
  then have 2: "nstep codec ?s1 ?s2"
    using nstep.handle [of "length (requests s)" ?s1 rt codec rs w rep] assms(2) by (simp add: newRequest_def)
  have "reqstep ?rn ?q2 ?rn (replied m rt rep)"
    using reqstep.receive [of ?q2 rt rep ?rn] by (simp add: newRequest_def replied_def)
  then have "nstep codec ?s2 (?s2\<lparr>net := ?rn, requests := requests s @ [replied m rt rep]\<rparr>)"
    by (intro last_step [where q = ?q2]) simp_all
  then have 3: "nstep codec ?s2 (s\<lparr>net := ?rn, heap := (heap s)[p := rs], world := w, requests := requests s @ [replied m rt rep]\<rparr>)"
    by (cases s) simp
  from 1 2 3 show ?thesis by (meson converse_rtranclp_into_rtranclp r_into_rtranclp)
qed

lemma replied_finish:
  assumes "processReq_finish rn m rt (Some rep) r1 r2 = (rn', st)"
  shows "nstep codec (s\<lparr>net := rn, heap := h, world := w, requests := qs @ [replied m rt rep]\<rparr>)
    (s\<lparr>net := rn', heap := h, world := w, requests := qs @ [(replied m rt rep)\<lparr>stage := st\<rparr>]\<rparr>)"
proof -
  have "reqstep rn (replied m rt rep) rn' ((replied m rt rep)\<lparr>stage := st\<rparr>)"
    by (rule reqstep.finish [where rt = rt and rep = rep and ?rand1.0 = r1 and ?rand2.0 = r2]) (use assms in \<open>simp_all add: replied_def\<close>)
  then have "nstep codec (s\<lparr>heap := h, world := w, net := rn, requests := qs @ [replied m rt rep]\<rparr>)
      (s\<lparr>heap := h, world := w, net := rn', requests := qs @ [(replied m rt rep)\<lparr>stage := st\<rparr>]\<rparr>)"
    using last_step [of "s\<lparr>heap := h, world := w, net := rn, requests := qs @ [replied m rt rep]\<rparr>"] by simp
  then show ?thesis by (cases s) simp
qed

lemma linked_alive:
  assumes "linked s (endname m) sname p" and "rt = routeOf (net s) sname p"
  shows "\<not> isServerDead (accept (net s) m) (endname m) (servername rt) (server rt)"
  using assms by (simp add: isServerDead_def linked_def routeOf_def accept_same)

lemma call_finished:
  assumes "linked s (endname m) sname p" and "Call_request codec (endname m) meth args = Inr m"
    and "Server_dispatch codec (heap s ! p) m (world s) = Inr (rs, w, rep)" and rt: "rt = routeOf (net s) sname p"
    and "processReq_finish (accept (net s) m) m rt (Some rep) r1 r2 = (rn, st)"
  shows "(nstep codec)\<^sup>*\<^sup>* s (s\<lparr>net := rn, heap := (heap s)[p := rs], world := w,
    requests := requests s @ [(replied m rt rep)\<lparr>stage := st\<rparr>]\<rparr>)"
  using call_accepted [OF assms(1,2)] accepted_replied [OF assms(1,3,4)]
    replied_finish [OF assms(5), where codec = codec and s = s and h = "(heap s)[p := rs]" and w = w and qs = "requests s"] rt
  by (meson rtranclp.rtrancl_into_rtrancl rtranclp_trans)

section \<open>Calls that succeed\<close>

lemma dispatch_method:
  assumes "services rs sv = Some svc" and "methods svc meth = Some method" and "CHR ''.'' \<notin> set meth"
    and "svcMeth m = sv @ CHR ''.'' # meth" and "decode codec (zero_of codec (argsType m)) (req_args m) = (args, b)"
    and "Func method (rcvr svc) args (zero_of codec (replyType method)) w = (w', v)"
  shows "Server_dispatch codec rs m w =
    Inr (rs\<lparr>rpcs := rpcs rs + 1\<rparr>, w', \<lparr>rep_ok = True, rep_reply = fst (encode codec v)\<rparr>)"
  using assms by (simp add: Server_dispatch_def Service_dispatch_def)


section \<open>A small network\<close>

text \<open>One end, named 0, and one server, named 1, whose method counts its calls and returns its argument.\<close>

definition plain :: "(unit, byte list) codec" where
  "plain = \<lparr>typeOf = (\<lambda>v. ()), zero_of = (\<lambda>t. []), encode = (\<lambda>v. (v, True)), decode = (\<lambda>old bs. (bs, True))\<rparr>"

definition echo :: "(unit, unit, byte list, nat) Method" where
  "echo = \<lparr>method_Name = ''Echo'', PkgPath = [], NumIn = 3, In2_isPtr = True, NumOut = 0, replyType = (),
     Func = (\<lambda>r args reply w. (w + 1, args))\<rparr>"

definition echo_server :: "(unit, unit, byte list, nat) Server" where
  "echo_server = AddService MakeServer (MakeService ''S'' [echo] ())"

definition demo :: "(nat, unit, unit, byte list, nat) system" where
  "demo = (start 0)\<lparr>heap := [echo_server], used := {0},
     net := Enable (Connect (MakeNetwork\<lparr>ends := {0}, enabled := [0 \<mapsto> False], connections := [0 \<mapsto> None], servers := [1 \<mapsto> Some 0]\<rparr>) 0 1) 0 True\<rparr>"

lemma harness_step:
  assumes "netop (used s) (net s) u rn" and "u \<subseteq> used s \<union> {..<length (heap s)}" and "s' = s\<lparr>net := rn, used := u\<rparr>"
  shows "nstep codec s s'"
  using nstep.harness [OF assms(1,2)] assms(3) by simp

lemma demo_reach: "(nstep plain)\<^sup>*\<^sup>* (start 0) demo"
proof -
  let ?n0 = "MakeNetwork :: nat Network"
  let ?n1 = "AddServer ?n0 1 0"
  let ?n2 = "?n1\<lparr>ends := {0}, enabled := [0 \<mapsto> False], connections := [0 \<mapsto> None]\<rparr>"
  let ?s0 = "start 0 :: (nat, unit, unit, byte list, nat) system"
  let ?s1 = "?s0\<lparr>heap := [MakeServer]\<rparr>" and ?s2 = "?s0\<lparr>heap := [echo_server]\<rparr>"
  have "nstep plain ?s0 ?s1" using nstep.make_server [of plain ?s0] by (simp add: start_def)
  moreover have "nstep plain ?s1 ?s2"
    using nstep.add_service [of 0 ?s1 plain "MakeService ''S'' [echo] ()"] by (simp add: echo_server_def)
  moreover have "nstep plain ?s2 (?s2\<lparr>net := ?n1, used := {0}\<rparr>)"
    by (rule harness_step [OF netop.add_server [of 0, where sname = 1]]) (auto simp: start_def)
  moreover have "nstep plain (?s2\<lparr>net := ?n1, used := {0}\<rparr>) (?s2\<lparr>net := ?n2, used := {0}\<rparr>)"
    by (rule harness_step [OF netop.make_end [where e = 0 and rn' = ?n2]]) (auto simp: start_def MakeEnd_def MakeNetwork_def AddServer_def)
  moreover have "nstep plain (?s2\<lparr>net := ?n2, used := {0}\<rparr>) (?s2\<lparr>net := Connect ?n2 0 1, used := {0}\<rparr>)"
    by (rule harness_step [OF netop.connect [where e = 0 and sname = 1]]) (auto simp: start_def)
  moreover have "nstep plain (?s2\<lparr>net := Connect ?n2 0 1, used := {0}\<rparr>) (?s2\<lparr>net := Enable (Connect ?n2 0 1) 0 True, used := {0}\<rparr>)"
    by (rule harness_step [OF netop.enable [where e = 0 and yes = True]]) (auto simp: start_def)
  moreover have "?s2\<lparr>net := Enable (Connect ?n2 0 1) 0 True, used := {0}\<rparr> = demo"
    by (simp add: demo_def start_def AddServer_def Enable_def Connect_def MakeNetwork_def)
  ultimately show ?thesis
    by (metis (no_types, lifting) converse_rtranclp_into_rtranclp rtranclp.rtrancl_refl)
qed

lemma demo_linked: "linked demo 0 1 0" "reliable (net demo)" "\<not> longReordering (net demo)" "world demo = 0" "requests demo = []"
  by (simp_all add: linked_def demo_def start_def Enable_def Connect_def MakeNetwork_def isEnabled_def serverOf_def)

lemma demo_service:
  "services (heap demo ! 0) ''S'' = Some (MakeService ''S'' [echo] ())"
  "methods (MakeService ''S'' [echo] ()) ''Echo'' = Some echo" "codec_ok plain"
  by (simp_all add: demo_def echo_server_def AddService_def MakeService_def suitable_def echo_def codec_ok_def plain_def)

lemma demo_request:
  "Call_request plain e meth args = Inr \<lparr>endname = e, svcMeth = meth, argsType = (), req_args = args\<rparr>"
  by (simp add: Call_request_def plain_def)


section \<open>At most once\<close>

text \<open>C31: Whatever calls are made and whatever the harness does meanwhile, no request is executed twice; and a
  caller that gets a positive answer gets what the handler of its request returned, from a server that
  was still registered when the handler ran: after \<open>DeleteServer\<close>, or when a new server has taken the
  name, nothing that the old one does is acknowledged.\<close>

theorem at_most_once:
  assumes "(nstep codec)\<^sup>*\<^sup>* (start w) s" and "q \<in> set (requests s)"
  shows "length (runs q) \<le> 1 \<and> (\<forall>rep. stage q = Answered rep \<and> rep_ok rep \<longrightarrow> (\<exists>p. runs q = [(p, True, rep)]))"
proof -
  have "request_ok (used s) (net s) q"
    using reach_ok [OF assms(1)] assms(2) by (simp add: system_ok_def list_all_iff)
  then show ?thesis
    by (auto simp: request_ok_def handler_ok_def split: handler.splits)
qed

lemma demo_answered:
  "\<exists>s q rep. (nstep plain)\<^sup>*\<^sup>* demo s \<and> requests s = [q] \<and> stage q = Answered rep \<and> rep_ok rep"
proof -
  let ?m = "\<lparr>endname = 0, svcMeth = ''S.Echo'', argsType = (), req_args = [7]\<rparr> :: (nat, unit) reqMsg"
  let ?rt = "routeOf (net demo) 1 0" and ?rep = "\<lparr>rep_ok = True, rep_reply = [7]\<rparr>"
  have l: "linked demo (endname ?m) 1 0" and c: "Call_request plain (endname ?m) ''S.Echo'' [7] = Inr ?m"
    using demo_linked(1) by (simp_all add: demo_request)
  have "Server_dispatch plain (heap demo ! 0) ?m (world demo) = Inr ((heap demo ! 0)\<lparr>rpcs := rpcs (heap demo ! 0) + 1\<rparr>, 1, ?rep)"
    using dispatch_method [OF demo_service(1,2), of ?m plain "[7]" True 0 1 "[7]"] by (simp add: demo_linked echo_def plain_def)
  moreover have "processReq_finish (accept (net demo) ?m) ?m ?rt (Some ?rep) 0 0 = (addBytes (accept (net demo) ?m) ?rep, Answered ?rep)"
    using linked_alive [OF l refl] demo_linked(2,3) by (simp add: processReq_finish_def routeOf_def Let_def)
  ultimately have "(nstep plain)\<^sup>*\<^sup>* demo (demo\<lparr>net := addBytes (accept (net demo) ?m) ?rep,
      heap := (heap demo)[0 := (heap demo ! 0)\<lparr>rpcs := rpcs (heap demo ! 0) + 1\<rparr>], world := 1,
      requests := requests demo @ [(replied ?m ?rt ?rep)\<lparr>stage := Answered ?rep\<rparr>]\<rparr>)"
    using call_finished [OF l c] by simp
  then show ?thesis
    by (intro exI conjI) (assumption | simp add: demo_linked)+
qed

theorem at_most_once_witness:
  "\<exists>(s :: (nat, unit, unit, byte list, nat) system) q p rep. (nstep plain)\<^sup>*\<^sup>* (start 0) s \<and> requests s = [q] \<and> stage q = Answered rep \<and> runs q = [(p, True, rep)]"
proof -
  obtain s q rep where s: "(nstep plain)\<^sup>*\<^sup>* demo s" "requests s = [q]" "stage q = Answered rep" "rep_ok rep"
    using demo_answered by blast
  have "(nstep plain)\<^sup>*\<^sup>* (start 0) s" using demo_reach s(1) by (rule rtranclp_trans)
  moreover from this obtain p where "runs q = [(p, True, rep)]"
    using at_most_once [of plain 0 s q] s by auto
  ultimately show ?thesis using s by blast
qed

section \<open>Counters\<close>

text \<open>The counters are exact up to their width: \<open>GetCount\<close> of a registered server is the number of handlers that ran
  on it, and \<open>GetTotalCount\<close> is the number of requests, as a signed number of 32 bits, which becomes
  negative at two to the power of 31 requests.\<close>

theorem counts_exact:
  assumes "(nstep codec)\<^sup>*\<^sup>* (start w) s" and "serverOf (net s) sname = Some p" and "p < length (heap s)"
  shows "GetCount (heap s) (net s) sname = Inr (int (length (filter (\<lambda>r. fst r = p) (concat (map runs (requests s))))))
    \<and> GetTotalCount (net s) = (int (length (requests s)) + 2 ^ 31) mod 2 ^ 32 - 2 ^ 31"
proof -
  have "rpcs (heap s ! p) = int (runs_at p (requests s))" "total_count (net s) = of_nat (length (requests s))"
    using reach_counts [OF assms(1)] assms(3) by (simp_all add: counts_ok_def)
  moreover have "sint (of_nat n :: 32 word) = (int n + 2 ^ 31) mod 2 ^ 32 - 2 ^ 31" for n
    using signed_take_bit_eq_take_bit_shift [of 31 "int n"] by (simp add: take_bit_eq_mod signed_of_nat)
  ultimately show ?thesis
    using assms(2,3) by (simp add: GetCount_def Server_GetCount_def GetTotalCount_def runs_at_def)
qed

theorem counts_exact_witness:
  "GetCount (heap demo) (net demo) 1 = Inr 0 \<and> GetTotalCount (net demo) = 0"
  using counts_exact [OF demo_reach, of 1 0] demo_linked by (simp add: linked_def)

section \<open>Lost messages\<close>

text \<open>On an unreliable network a failed call says nothing about its execution: the same call on the same
  state can fail with the handler never run and the program unchanged, and with the handler
  run and its effect in place. The services' detection of repeated requests is there for this.\<close>

theorem failed_call_ambiguous:
  assumes "linked s e sname p" and "\<not> reliable (net s)" and "Call_request codec e meth args = Inr m"
    and "Server_dispatch codec (heap s ! p) m (world s) = Inr (rs, w, rep)"
  shows "\<exists>s1 q1 s2 q2. (nstep codec)\<^sup>*\<^sup>* s s1 \<and> requests s1 = requests s @ [q1] \<and> stage q1 = Answered noReply \<and> runs q1 = [] \<and> world s1 = world s
    \<and> (nstep codec)\<^sup>*\<^sup>* s s2 \<and> requests s2 = requests s @ [q2] \<and> stage q2 = Answered noReply \<and> runs q2 = [(p, True, rep)] \<and> world s2 = w"
proof -
  let ?rt = "routeOf (net s) sname p" and ?rn = "accept (net s) m"
  let ?q = "(newRequest m)\<lparr>stage := Accepted ?rt\<rparr>"
  have m: "endname m = e" using assms(3) by (auto simp: Call_request_def split: prod.splits bool.splits)
  have l: "linked s (endname m) sname p" and c: "Call_request codec (endname m) meth args = Inr m"
    using assms(1,3) m by simp_all
  have "reqstep ?rn ?q ?rn (?q\<lparr>stage := Answered noReply\<rparr>)"
    by (rule reqstep.drop [where rt = ?rt and rand = 0]) (use assms(2) in \<open>simp_all add: processReq_send_def routeOf_def\<close>)
  then have "nstep codec (s\<lparr>net := ?rn, requests := requests s @ [?q]\<rparr>) (s\<lparr>net := ?rn, requests := requests s @ [?q\<lparr>stage := Answered noReply\<rparr>]\<rparr>)"
    using last_step [of "s\<lparr>net := ?rn, requests := requests s @ [?q]\<rparr>" ?q] by simp
  then have 1: "(nstep codec)\<^sup>*\<^sup>* s (s\<lparr>net := ?rn, requests := requests s @ [?q\<lparr>stage := Answered noReply\<rparr>]\<rparr>)"
    using call_accepted [OF l c] by (rule rtranclp.rtrancl_into_rtrancl [rotated])
  have "processReq_finish ?rn m ?rt (Some rep) 0 0 = (?rn, Answered noReply)"
    using linked_alive [OF l refl] assms(2) by (simp add: processReq_finish_def routeOf_def Let_def)
  note 2 = call_finished [OF l c assms(4) refl this]
  have "runs (?q\<lparr>stage := Answered noReply\<rparr>) = []" "runs ((replied m ?rt rep)\<lparr>stage := Answered noReply\<rparr>) = [(p, True, rep)]"
    by (simp_all add: newRequest_def replied_def routeOf_def)
  then show ?thesis
    using 1 2 by (intro exI conjI) (assumption | simp)+
qed

definition lossy :: "(nat, unit, unit, byte list, nat) system" where
  "lossy = demo\<lparr>net := Reliable (net demo) False\<rparr>"

theorem failed_call_ambiguous_witness:
  "\<exists>s1 q1 s2 q2. (nstep plain)\<^sup>*\<^sup>* lossy s1 \<and> requests s1 = [q1] \<and> stage q1 = Answered noReply \<and> runs q1 = [] \<and> world s1 = 0
    \<and> (nstep plain)\<^sup>*\<^sup>* lossy s2 \<and> requests s2 = [q2] \<and> stage q2 = Answered noReply \<and> length (runs q2) = 1 \<and> world s2 = 1"
proof -
  let ?m = "\<lparr>endname = 0, svcMeth = ''S.Echo'', argsType = (), req_args = [7]\<rparr> :: (nat, unit) reqMsg"
  have l: "linked lossy 0 1 0" "\<not> reliable (net lossy)" "heap lossy = heap demo" "world lossy = 0" "requests lossy = []"
    using demo_linked by (auto simp: linked_def lossy_def Reliable_def isEnabled_def serverOf_def)
  have "Server_dispatch plain (heap lossy ! 0) ?m (world lossy) =
      Inr ((heap demo ! 0)\<lparr>rpcs := rpcs (heap demo ! 0) + 1\<rparr>, 1, \<lparr>rep_ok = True, rep_reply = [7]\<rparr>)"
    using dispatch_method [OF demo_service(1,2), of ?m plain "[7]" True 0 1 "[7]"] by (simp add: l echo_def plain_def)
  from failed_call_ambiguous [OF l(1,2) demo_request this] show ?thesis
    by (simp only: l append_Nil) (metis One_nat_def length_Cons list.size(3))
qed

end
