(* ===== verification/LabGob.thy ===== *)
theory LabGob
  imports Prelude GoStrings
begin

text \<open>
  The wrapper around \<open>encoding/gob\<close> (\<open>labgob/labgob.go\<close>) that every message and every saved state goes through. It checks
  the types of what is encoded for fields that gob leaves out, and warns of decoding into variables
  that are not zero.

  A \<open>reflect.Type\<close> is an identity of type \<open>'t\<close>, and what reflection says of it an argument \<open>typeKind\<close>: types may be
  recursive. A \<open>reflect.Value\<close> is a tree. The package variables \<open>checked\<close> and \<open>errorCount\<close> are the state.
  \<open>unicode.IsUpper\<close> and the encoder of gob are arguments. Printed lines are kept in \<open>printed\<close>.
\<close>

section \<open>Types\<close>

datatype 't Kind = Struct "(string \<times> 't) list" | Slice 't | Array 't | Ptr 't | MapOf 't 't | OtherKind

datatype report = LowerCaseField string | NonDefault string

record 't gob_state =
  checked :: "'t set"
  errorCount :: int
  printed :: "report list"

definition firstRune :: "string \<Rightarrow> nat" where
  "firstRune s = (if s = [] then 0xFFFD else fst (decodeRune s))"

text \<open>
  What a call of \<open>checkType\<close> has still to visit: types, and the fields of structures with their names. Elements of
  a map come before its keys.
\<close>

type_synonym 't visits = "(string option \<times> 't) list"

fun parts :: "'t Kind \<Rightarrow> 't visits" where
  "parts (Struct fs) = map (\<lambda>(name, t). (Some name, t)) fs"
| "parts (Slice t) = [(None, t)]"
| "parts (Array t) = [(None, t)]"
| "parts (Ptr t) = [(None, t)]"
| "parts (MapOf key elem) = [(None, elem), (None, key)]"
| "parts OtherKind = []"

definition badField :: "(nat \<Rightarrow> bool) \<Rightarrow> string option \<Rightarrow> bool" where
  "badField isUpper name = (case name of None \<Rightarrow> False | Some s \<Rightarrow> \<not> isUpper (firstRune s))"

definition complain :: "(nat \<Rightarrow> bool) \<Rightarrow> string option \<Rightarrow> 't gob_state \<Rightarrow> 't gob_state" where
  "complain isUpper name st =
     (if badField isUpper name
      then st\<lparr>printed := printed st @ [LowerCaseField (the name)], errorCount := errorCount st + 1\<rparr> else st)"

text \<open>
  The recursion of \<open>checkType\<close> with its stack: the parts of a type are visited before what its callers have left.
\<close>

partial_function (option) checkVisits ::
  "('t \<Rightarrow> 't Kind) \<Rightarrow> (nat \<Rightarrow> bool) \<Rightarrow> 't visits \<Rightarrow> 't gob_state \<Rightarrow> 't gob_state option" where
  "checkVisits typeKind isUpper todo st =
     (case todo of [] \<Rightarrow> Some st
      | (name, t) # rest \<Rightarrow>
          let st1 = complain isUpper name st
          in if t \<in> checked st1 then checkVisits typeKind isUpper rest st1
             else checkVisits typeKind isUpper (parts (typeKind t) @ rest) (st1\<lparr>checked := insert t (checked st1)\<rparr>))"

declare checkVisits.simps [code]

definition checkType :: "('t \<Rightarrow> 't Kind) \<Rightarrow> (nat \<Rightarrow> bool) \<Rightarrow> 't \<Rightarrow> 't gob_state \<Rightarrow> 't gob_state option" where
  "checkType typeKind isUpper t st = checkVisits typeKind isUpper [(None, t)] st"

section \<open>Values\<close>

text \<open>A scalar is a boolean, number or string with the name of its type; it is zero or not.\<close>

datatype gvalue = GStruct "(string \<times> gvalue) list" | GPtr "gvalue option" | GScalar string bool | GOther

definition warnDefault :: "string \<Rightarrow> string \<Rightarrow> 't gob_state \<Rightarrow> 't gob_state" where
  "warnDefault tname name st =
     (let what = (if name = [] then tname else name);
          st1 = (if errorCount st < 1 then st\<lparr>printed := printed st @ [NonDefault what]\<rparr> else st)
      in st1\<lparr>errorCount := errorCount st1 + 1\<rparr>)"

fun checkDefault1 :: "gvalue \<Rightarrow> nat \<Rightarrow> string \<Rightarrow> 't gob_state \<Rightarrow> 't gob_state"
  and checkFields :: "(string \<times> gvalue) list \<Rightarrow> nat \<Rightarrow> string \<Rightarrow> 't gob_state \<Rightarrow> 't gob_state" where
  "checkDefault1 v depth name st =
     (if depth > 3 then st
      else case v of
        GStruct fs \<Rightarrow> checkFields fs depth name st
      | GPtr None \<Rightarrow> st
      | GPtr (Some p) \<Rightarrow> checkDefault1 p (depth + 1) name st
      | GScalar tname zero \<Rightarrow> if zero then st else warnDefault tname name st
      | GOther \<Rightarrow> st)"
| "checkFields [] depth name st = st"
| "checkFields ((fname, v) # fs) depth name st =
     checkFields fs depth name
       (checkDefault1 v (depth + 1) (if name \<noteq> [] then name @ ''.'' @ fname else fname) st)"

definition checkDefault :: "gvalue option \<Rightarrow> 't gob_state \<Rightarrow> 't gob_state" where
  "checkDefault value st = (case value of None \<Rightarrow> st | Some v \<Rightarrow> checkDefault1 v 1 [] st)"

section \<open>Encoding and decoding\<close>

text \<open>
  A variable is what is behind the pointer that is passed: its type, its value as a tree, and the value
  \<open>'v\<close> that gob encodes or decodes.
\<close>

record ('t, 'v) variable =
  var_type :: 't
  var_tree :: "gvalue option"
  var_value :: 'v

definition checkValue :: "('t \<Rightarrow> 't Kind) \<Rightarrow> (nat \<Rightarrow> bool) \<Rightarrow> ('t, 'v) variable \<Rightarrow> 't gob_state \<Rightarrow> 't gob_state option" where
  "checkValue typeKind isUpper x st = checkType typeKind isUpper (var_type x) st"

definition Encode ::
  "('t \<Rightarrow> 't Kind) \<Rightarrow> (nat \<Rightarrow> bool) \<Rightarrow> ('v \<Rightarrow> 'b) \<Rightarrow> ('t, 'v) variable \<Rightarrow> 't gob_state \<Rightarrow> ('t gob_state \<times> 'b) option" where
  "Encode typeKind isUpper gobEncode e st = map_option (\<lambda>st1. (st1, gobEncode (var_value e))) (checkValue typeKind isUpper e st)"

definition Decode ::
  "('t \<Rightarrow> 't Kind) \<Rightarrow> (nat \<Rightarrow> bool) \<Rightarrow> ('v \<Rightarrow> 'b \<Rightarrow> 'v) \<Rightarrow> ('t, 'v) variable \<Rightarrow> 'b \<Rightarrow> 't gob_state \<Rightarrow> ('t gob_state \<times> 'v) option" where
  "Decode typeKind isUpper gobDecode e bs st =
     map_option (\<lambda>st1. (checkDefault (var_tree e) st1, gobDecode (var_value e) bs)) (checkValue typeKind isUpper e st)"

definition Register ::
  "('t \<Rightarrow> 't Kind) \<Rightarrow> (nat \<Rightarrow> bool) \<Rightarrow> ('r \<Rightarrow> ('t, 'v) variable \<Rightarrow> 'r) \<Rightarrow> ('t, 'v) variable \<Rightarrow> 't gob_state \<Rightarrow> 'r \<Rightarrow> ('t gob_state \<times> 'r) option" where
  "Register typeKind isUpper gobRegister x st registry =
     map_option (\<lambda>st1. (st1, gobRegister registry x)) (checkValue typeKind isUpper x st)"

section \<open>What the check of types does\<close>

definition succs :: "('t \<Rightarrow> 't Kind) \<Rightarrow> 't \<Rightarrow> 't set" where
  "succs typeKind t = snd ` set (parts (typeKind t))"

text \<open>The types that are reached from a set of types without passing through types checked before.\<close>

inductive_set fresh :: "('t \<Rightarrow> 't Kind) \<Rightarrow> 't set \<Rightarrow> 't set \<Rightarrow> 't set" for typeKind C S where
  fresh_start: "t \<in> S \<Longrightarrow> t \<notin> C \<Longrightarrow> t \<in> fresh typeKind C S"
| fresh_next: "u \<in> fresh typeKind C S \<Longrightarrow> t \<in> succs typeKind u \<Longrightarrow> t \<notin> C \<Longrightarrow> t \<in> fresh typeKind C S"

lemma fresh_old: "t \<in> fresh typeKind C S \<Longrightarrow> t \<notin> C"
  by (induction rule: fresh.induct) auto

lemma fresh_skip: "t \<in> C \<Longrightarrow> fresh typeKind C (insert t S) = fresh typeKind C S"
proof (intro set_eqI iffI)
  show "x \<in> fresh typeKind C S" if "t \<in> C" "x \<in> fresh typeKind C (insert t S)" for x
    using that(2,1) by (induction rule: fresh.induct) (auto intro: fresh.intros)
  show "x \<in> fresh typeKind C (insert t S)" if "x \<in> fresh typeKind C S" for x
    using that by (induction rule: fresh.induct) (auto intro: fresh.intros)
qed

lemma fresh_visit:
  assumes "t \<notin> C"
  shows "fresh typeKind C (insert t S) = insert t (fresh typeKind (insert t C) (succs typeKind t \<union> S))"
proof (intro set_eqI iffI)
  show "x \<in> insert t (fresh typeKind (insert t C) (succs typeKind t \<union> S))" if "x \<in> fresh typeKind C (insert t S)" for x
    using that
  proof (induction rule: fresh.induct)
    case (fresh_next u x)
    then show ?case by (cases "x = t"; cases "u = t") (auto intro: fresh.intros)
  qed (auto intro: fresh.intros)
  have "x \<in> fresh typeKind C (insert t S)" if "x \<in> fresh typeKind (insert t C) (succs typeKind t \<union> S)" for x
    using that
  proof (induction rule: fresh.induct)
    case (fresh_start x)
    then show ?case using assms by (metis Un_iff fresh.intros insert_iff)
  qed (auto intro: fresh.intros)
  then show "x \<in> fresh typeKind C (insert t S)" if "x \<in> insert t (fresh typeKind (insert t C) (succs typeKind t \<union> S))" for x
    using that assms by (auto intro: fresh.intros)
qed

lemma fresh_sub: "fresh typeKind C S \<subseteq> U" if "S \<subseteq> U" "\<forall>t \<in> U. succs typeKind t \<subseteq> U"
proof
  show "t \<in> U" if "t \<in> fresh typeKind C S" for t
    using that \<open>S \<subseteq> U\<close> \<open>\<forall>t \<in> U. succs typeKind t \<subseteq> U\<close> by induction auto
qed

definition badNames :: "(nat \<Rightarrow> bool) \<Rightarrow> 't visits \<Rightarrow> nat" where
  "badNames isUpper vs = length (filter (\<lambda>v. badField isUpper (fst v)) vs)"

lemma complain_simps [simp]:
  "checked (complain isUpper name st) = checked st"
  "errorCount (complain isUpper name st) = errorCount st + (if badField isUpper name then 1 else 0)"
  by (simp_all add: complain_def)

lemma checkVisits_result:
  assumes "finite U" and "\<forall>t \<in> U. succs typeKind t \<subseteq> U" and "snd ` set todo \<subseteq> U"
  shows "\<exists>st'. checkVisits typeKind isUpper todo st = Some st'
    \<and> checked st' = checked st \<union> fresh typeKind (checked st) (snd ` set todo)
    \<and> errorCount st' = errorCount st + int (badNames isUpper todo)
        + (\<Sum>t \<in> fresh typeKind (checked st) (snd ` set todo). int (badNames isUpper (parts (typeKind t))))"
  using assms(3)
proof (induction "card (U - checked st)" arbitrary: todo st rule: less_induct)
  case less
  note outer = less.hyps
  show ?case
    using less.prems outer
  proof (induction todo arbitrary: st)
    case Nil
    have "fresh typeKind (checked st) {} = {}"
      using fresh_sub [of "{}" "{}" typeKind "checked st"] by simp
    then show ?case by (subst checkVisits.simps) (simp add: badNames_def)
  next
    case (Cons v rest)
    obtain name t where v: "v = (name, t)" by (cases v)
    let ?st1 = "complain isUpper name st"
    have U: "t \<in> U" "snd ` set rest \<subseteq> U" using Cons.prems(1) v by auto
    show ?case
    proof (cases "t \<in> checked st")
      case True
      have "\<exists>st'. checkVisits typeKind isUpper rest ?st1 = Some st'
          \<and> checked st' = checked ?st1 \<union> fresh typeKind (checked ?st1) (snd ` set rest)
          \<and> errorCount st' = errorCount ?st1 + int (badNames isUpper rest)
              + (\<Sum>t \<in> fresh typeKind (checked ?st1) (snd ` set rest). int (badNames isUpper (parts (typeKind t))))"
        using Cons.IH [OF U(2), of ?st1] Cons.prems(2) by simp
      then show ?thesis
        using True v by (subst checkVisits.simps) (auto simp: fresh_skip badNames_def)
    next
      case False
      let ?st2 = "?st1\<lparr>checked := insert t (checked ?st1)\<rparr>" and ?todo = "parts (typeKind t) @ rest"
      have "U - checked ?st2 \<subset> U - checked st" using False U(1) by auto
      then have "card (U - checked ?st2) < card (U - checked st)"
        using assms(1) by (simp add: psubset_card_mono)
      moreover have s: "snd ` set ?todo = succs typeKind t \<union> snd ` set rest" by (simp add: succs_def image_Un)
      then have "snd ` set ?todo \<subseteq> U" using U assms(2) by simp
      ultimately have r: "\<exists>st'. checkVisits typeKind isUpper ?todo ?st2 = Some st'
          \<and> checked st' = checked ?st2 \<union> fresh typeKind (checked ?st2) (snd ` set ?todo)
          \<and> errorCount st' = errorCount ?st2 + int (badNames isUpper ?todo)
              + (\<Sum>t \<in> fresh typeKind (checked ?st2) (snd ` set ?todo). int (badNames isUpper (parts (typeKind t))))"
        by (rule Cons.prems(2))
      let ?F = "fresh typeKind (insert t (checked st)) (succs typeKind t \<union> snd ` set rest)"
      have F: "fresh typeKind (checked st) (snd ` set (v # rest)) = insert t ?F"
        using fresh_visit [OF False, of typeKind "snd ` set rest"] v by simp
      have "finite ?F"
        using finite_subset [OF fresh_sub [of "succs typeKind t \<union> snd ` set rest" U typeKind] assms(1)] U assms(2) by simp
      moreover have "t \<notin> ?F" using fresh_old [of t typeKind] by blast
      moreover obtain st' where st': "checkVisits typeKind isUpper ?todo ?st2 = Some st'" "checked st' = insert t (checked st) \<union> ?F"
        "errorCount st' = errorCount ?st1 + int (badNames isUpper ?todo) + (\<Sum>t \<in> ?F. int (badNames isUpper (parts (typeKind t))))"
        using r unfolding s by auto
      moreover have "checkVisits typeKind isUpper (v # rest) st = checkVisits typeKind isUpper ?todo ?st2"
        using False by (subst checkVisits.simps) (simp add: v)
      ultimately show ?thesis
        unfolding F by (intro exI [of _ st'] conjI) (simp_all add: v badNames_def)
    qed
  qed
qed

text \<open>C38: The check of a type ends, also for recursive types: when finitely many types can be reached from a type, its
  check returns, has checked exactly these and those checked before, and has counted every field with
  a lower-case name of the newly checked types once.\<close>

theorem checkType_exact:
  assumes "finite (fresh typeKind {} {t})"
  shows "\<exists>st'. checkType typeKind isUpper t st = Some st'
    \<and> checked st' = checked st \<union> fresh typeKind (checked st) {t}
    \<and> errorCount st' = errorCount st
        + (\<Sum>u \<in> fresh typeKind (checked st) {t}. int (length (filter (\<lambda>v. badField isUpper (fst v)) (parts (typeKind u)))))"
proof -
  have "\<forall>u \<in> fresh typeKind {} {t}. succs typeKind u \<subseteq> fresh typeKind {} {t}"
    by (auto intro: fresh_next)
  moreover have "snd ` set [(None, t)] \<subseteq> fresh typeKind {} {t}" by (auto intro: fresh_start)
  ultimately show ?thesis
    using checkVisits_result [OF assms, of typeKind "[(None, t)]" isUpper st]
    by (simp add: checkType_def badNames_def badField_def)
qed

text \<open>A list node: a structure with a field in capital letters and a pointer to the next node in a lower-case field.\<close>

datatype ex_type = TNode | TNodePtr | TInt

fun ex_kind :: "ex_type \<Rightarrow> ex_type Kind" where
  "ex_kind TNode = Struct [(''Value'', TInt), (''next'', TNodePtr)]"
| "ex_kind TNodePtr = Ptr TNode"
| "ex_kind TInt = OtherKind"

definition ascii_upper :: "nat \<Rightarrow> bool" where
  "ascii_upper r \<longleftrightarrow> between 65 90 r"

theorem checkType_exact_witness:
  "\<exists>st'. checkType ex_kind ascii_upper TNodePtr \<lparr>checked = {}, errorCount = 0, printed = []\<rparr> = Some st'
    \<and> checked st' = {TNodePtr, TNode, TInt} \<and> errorCount st' = 1"
proof -
  have U: "fresh ex_kind {} {TNodePtr} = {TNodePtr, TNode, TInt}"
  proof
    show "fresh ex_kind {} {TNodePtr} \<subseteq> {TNodePtr, TNode, TInt}"
      by (rule fresh_sub) (auto simp: succs_def)
    have "TNodePtr \<in> fresh ex_kind {} {TNodePtr}" by (rule fresh_start) simp_all
    moreover from this have "TNode \<in> fresh ex_kind {} {TNodePtr}" by (rule fresh_next) (simp_all add: succs_def)
    moreover from this have "TInt \<in> fresh ex_kind {} {TNodePtr}" by (rule fresh_next) (simp_all add: succs_def)
    ultimately show "{TNodePtr, TNode, TInt} \<subseteq> fresh ex_kind {} {TNodePtr}" by simp
  qed
  have "badField ascii_upper (Some ''next'')" "\<not> badField ascii_upper (Some ''Value'')" "\<not> badField ascii_upper None" by code_simp+
  then show ?thesis
    using checkType_exact [of ex_kind TNodePtr ascii_upper "\<lparr>checked = {}, errorCount = 0, printed = []\<rparr>"] U by simp
qed

section \<open>What the check of values does\<close>

text \<open>The scalars that are not zero, down to a depth.\<close>

fun dirty :: "nat \<Rightarrow> gvalue \<Rightarrow> nat" where
  "dirty 0 v = 0"
| "dirty (Suc d) (GStruct fs) = sum_list (map (\<lambda>(n, v). dirty d v) fs)"
| "dirty (Suc d) (GPtr (Some v)) = dirty d v"
| "dirty (Suc d) (GScalar tname zero) = (if zero then 0 else 1)"
| "dirty (Suc d) v = 0"

lemma warnDefault_count [simp]: "errorCount (warnDefault tname name st) = errorCount st + 1"
  by (simp add: warnDefault_def Let_def)

lemma checkDefault_counts:
  "errorCount (checkDefault1 v depth name st) = errorCount st + int (dirty (4 - depth) v)"
  "depth \<le> 3 \<Longrightarrow> errorCount (checkFields fs depth name st) = errorCount st + int (sum_list (map (\<lambda>(n, v). dirty (3 - depth) v) fs))"
proof (induction v depth name st and fs depth name st rule: checkDefault1_checkFields.induct)
  case (1 v depth name st)
  show ?case
  proof (cases "depth > 3")
    case False
    then have d: "4 - depth = Suc (3 - depth)" by simp
    show ?thesis
    proof (cases v)
      case (GPtr p)
      then show ?thesis using 1 False d by (cases p) auto
    qed (use 1 False d in auto)
  qed simp
qed auto

text \<open>Decoding warns of a variable that is not zero exactly when it has a scalar that is not zero within three levels of
  pointers and structures: what is deeper goes unnoticed, and the error count grows by the number of
  such scalars.\<close>

theorem checkDefault_depth:
  "errorCount (checkDefault (Some v) st) = errorCount st + int (dirty 3 v)
    \<and> dirty 3 (GPtr (Some (GStruct [(''A'', GStruct [(''B'', GScalar ''int'' False)])]))) = 0"
  by (simp add: checkDefault_def checkDefault_counts numeral_3_eq_3 del: checkDefault1.simps)

end
