(* ===== verification/Spec2Isabelle.thy ===== *)
theory Spec2Isabelle
  imports RaftClusterSpec RaftHarnessSpec KvRaftSpec KvClerk KvHarness CtrlHarness ShardKVSpec ShardKVClerk SkvHarnessSpec MapReduceApps PorcView LabRpcSpec LabGob
begin

text \<open>
  \<^bold>\<open>Verification of the MIT 6.824 laboratories\<close>

  The repository (\<open>src/\<close>) is a Go solution of the laboratories of a course on distributed
  systems. Its parts build on one another:

  \<^item> \<open>raft\<close> replicates a log of commands among the peers of a group;
  \<^item> \<open>kvraft\<close>, \<open>shardctrler\<close> and \<open>shardkv\<close> are services: each server hands the requests of
    its clients to its Raft peer with \<open>Start\<close> and executes the commands that the peer delivers
    on the apply channel, in its \<open>applyLoop\<close>;
  \<^item> \<open>shardkv\<close> is many such groups; the controller \<open>shardctrler\<close> assigns shards to them, and the
    groups hand shards to one another when the assignment changes;
  \<^item> clerks are the clients of the services;
  \<^item> \<open>mr\<close> is a MapReduce library, a coordinator and workers that share files, with applications under
    \<open>mrapps\<close> and a sequential program that the tests compare with;
  \<^item> \<open>porcupine\<close> checks recorded histories of a service for linearizability, with the model of the key/value
    service in \<open>models\<close>, and makes a page of the result;
  \<^item> \<open>labrpc\<close> is the simulated network on which everything but \<open>mr\<close> runs, \<open>labgob\<close> its encoding, and the files
    \<open>config.go\<close> are the test harnesses that start, stop, cut off and check servers on that network.

  \<^bold>\<open>How the code is modelled.\<close> A Go function is a HOL function of the same name on explicit states.
  A struct is a record; a method that can end the process (\<open>log.Fatal\<close>), panic, or loop for
  ever returns \<open>Inl\<close> of a \<open>fault\<close> (theory \<open>Prelude\<close>). A definition covers one critical section,
  that is the code between taking and releasing the lock, so goroutines interleave at the same
  points as in the program. Sleeping, logging and the choice of time-outs are left out: every
  next step that the locks allow is possible. A call over the network is an argument of the
  definition that makes it (clerks, shard transfer), or the message is an argument of the handler
  (Raft); the network itself is a model of its own (\<open>LabRpc\<close>). Encoded data are lists of the encoded values. Go maps that are iterated over are
  association lists with distinct keys, other maps are HOL maps.

  \<^bold>\<open>Theories.\<close>

  \<^item> \<open>Prelude\<close>: faults, indexing, folds that can fail, majorities and the locale
    \<open>quorum_system\<close> (interpreted on majorities).
  \<^item> \<open>RaftLog\<close> (\<open>raft/RaftState.go\<close>, \<open>raft/persister.go\<close>, the log part of \<open>raft/raft.go\<close>): the state
    of a peer, access to the log by absolute index behind a snapshot, \<open>persist\<close> and \<open>readPersist\<close>,
    \<open>Make\<close>. \<open>RaftRpc\<close>: the handlers \<open>RequestVote\<close>, \<open>AppendEntries\<close>, \<open>InstallSnapshot\<close>, and \<open>Snapshot\<close>.
    \<open>RaftPeer\<close>: elections, \<open>Start\<close>, the senders and what they do with replies, the commit loop
    \<open>tryIncrementCommitIndex\<close> and the apply loop.
  \<^item> \<open>RaftRpcSpec\<close>: voting once per term across restarts, when votes are granted, what
    \<open>AppendEntries\<close> makes of a log (merge, log matching, committed entries kept), snapshots, and
    recovery. \<open>RaftPeerSpec\<close>: commit by majority, truthful requests, agreement after replication,
    progress of retries, order of the apply loop.
  \<^item> \<open>RaftCluster\<close>, \<open>RaftClusterSpec\<close>: a group as a step relation over the critical sections, the
    invariant of elections, and election safety. It holds under two guards that the code lacks;
    without each of them a violation is proved.
  \<^item> \<open>Service\<close>: wait channels and the three locales that the services share. \<open>sessions\<close>: a machine
    that skips repeated requests has the data of the first occurrences. \<open>replica\<close>: a server that
    executes delivered commands is a replay of a prefix of the log. \<open>snapshot_replica\<close> extends it by
    snapshots. Their interpretations are \<open>kvs\<close>, \<open>kvr\<close> (key/value), \<open>scs\<close>, \<open>scr\<close> (controller) and
    \<open>skr\<close> (sharded service).
  \<^item> \<open>KvRaft\<close> (\<open>kvraft/server.go\<close>, \<open>common.go\<close>) and \<open>KvRaftSpec\<close>: the service refines a map, replicas
    agree, requests take effect exactly once, reads are reads at a place of the log. \<open>KvClerk\<close>
    (\<open>kvraft/client.go\<close>): calls return once a server answers.
  \<^item> \<open>ShardCtrler\<close> (\<open>shardctrler/server.go\<close>, \<open>common.go\<close>), \<open>ShardBalance\<close> (\<open>rebalanceShard\<close>: the
    loops end, the result is balanced, assigns every shard and does not depend on map order),
    \<open>ShardCtrlerSpec\<close> (histories of configurations) and \<open>ShardClerk\<close> (\<open>shardctrler/client.go\<close>).
  \<^item> \<open>ShardKV\<close> (\<open>shardkv/server.go\<close>, \<open>server_shard_transfer.go\<close>, \<open>common.go\<close>), \<open>ShardKVInv\<close> (the replicated
    machine, the invariant \<open>placed\<close> on the shards of a server, and what stays within one
    configuration), \<open>ShardKVSpec\<close> (agreement, ownership, handing over of shards, following of
    configurations, and where the protocol fails), \<open>ShardKVClerk\<close> (\<open>shardkv/client.go\<close>).
  \<^item> \<open>MapReduce\<close> (\<open>mr/coordinator.go\<close>, \<open>worker.go\<close>, \<open>rpc.go\<close>, \<open>main/mrsequential.go\<close>): assignment, reports, timers, the
    tasks of a worker and the sequential program. \<open>MapReduceOut\<close>: what a job computes.
    \<open>MapReduceJob\<close>: a job as a step relation over requests, lost replies, timeouts and deaths of workers; its flag
    \<open>careful\<close> leaves out that a worker can be seen between truncating and writing a file, which is shown to lose lines. \<open>MapReduceInv\<close>: the invariant of a job. \<open>MapReduceSpec\<close>: a
    finished job has the output of the sequential program, tasks are leased to one worker, buckets are
    in range. \<open>GoStrings\<close>: the functions of \<open>strings\<close>, \<open>strconv\<close> and \<open>utf8\<close> that are used. \<open>MapReduceApps\<close>
    (\<open>mrapps/wc.go\<close>, \<open>indexer.go\<close>, \<open>nocrash.go\<close>, \<open>early_exit.go\<close>): what the jobs of the applications compute.
  \<^item> \<open>Bitset\<close> (\<open>porcupine/bitset.go\<close>, 64-bit words), \<open>Porcupine\<close> (\<open>porcupine/checker.go\<close>, \<open>model.go\<close>, \<open>porcupine.go\<close>: entries, the
    linked list as a heap, the search with its cache, partitions in parallel), \<open>PorcLin\<close> (linearizability of the entries of a history, the
    reference), \<open>PorcHeap\<close> (\<open>lift\<close> and \<open>unlift\<close> on the heap), \<open>PorcSearch\<close> and \<open>PorcCheck\<close> (the search ends and is exact),
    \<open>PorcSpec\<close> (the whole check, with the locale \<open>checked_model\<close> of a model that keeps what the checker asks of it),
    \<open>KvCheck\<close> (\<open>models/kv.go\<close>, with the interpretation \<open>kvm\<close>), \<open>KvCheckSpec\<close> (the check decides linearizability), \<open>PorcView\<close>
    (\<open>porcupine/visualization.go\<close>: the data of the page).
  \<^item> \<open>LabRpc\<close> (\<open>labrpc/labrpc.go\<close>), \<open>LabRpcNet\<close> (the goroutines of requests, handlers and users of a network as a step relation, and
    its invariant), \<open>LabRpcSpec\<close> (calls are delivered, executed at most once, counted exactly, and a failed call may or
    may not have been executed). \<open>LabGob\<close> (\<open>labgob/labgob.go\<close>): the checks of types and values.
  \<^item> \<open>RaftHarness\<close> (\<open>raft/config.go\<close>) and \<open>RaftHarnessSpec\<close>: which ends are enabled, which runs the readers of the apply channels
    accept, restarts. \<open>ServiceHarness\<close> (\<open>kvraft/config.go\<close>, of which \<open>shardctrler/config.go\<close> is a copy), \<open>ServiceHarnessSpec\<close> (the
    invariant of its ends and what a partition does), \<open>ServiceRuns\<close> (stopped and started servers, the locale
    \<open>hosted\<close> of a service that keeps the persister it is given, dividing the servers), \<open>KvHarness\<close> and \<open>CtrlHarness\<close> (the two services,
    with the interpretations \<open>kvh\<close> and \<open>sch\<close>). \<open>SkvHarness\<close> (\<open>shardkv/config.go\<close>) and \<open>SkvHarnessSpec\<close>: names of servers,
    joining groups, sizes of groups.

  \<^bold>\<open>Loops and bounds.\<close> Loops that always end are recursive functions with a measure. Loops that may
  not are \<open>partial_function (option)\<close>: the loop of a join in \<open>rebalanceShard\<close>, the search of the checker and the check
  of a type, which are proved to return, and the retry loops of the clerks, which are proved to return when a
  server answers. No fuel is used. \<open>int\<close> of Go is HOL's \<open>int\<close> for counters that start near zero and grow by one per
  event; values whose bits matter (bit sets, hashes, bytes, the counters of the network) are words.

  \<^bold>\<open>Where the code falls short.\<close> Some theorems state behaviour that the code does not intend; they are
  named where they stand: two leaders in one term, a second vote after a snapshot, the apply loop
  racing with \<open>InstallSnapshot\<close>, an acknowledged write that is lost, a join lost after an abandoned
  query, a move that panics, a shard deleted by a late \<open>Leave\<close>, an append executed twice after a
  move, transfers that stop, a MapReduce job that never ends or loses lines, a check of an empty history that never returns,
  warnings of \<open>labgob\<close> that stop at a depth of three, partitions of an even number of servers, and
  a sharded harness that works for groups of three only.

  \<^bold>\<open>Not modelled.\<close> The tests themselves and the parts of the harnesses that measure real time (\<open>one\<close> of the Raft harness, which
  retries for ten seconds, \<open>checkTimeout\<close>, \<open>end\<close>) or print; debug output (\<open>raft/util.go\<close>); the HTML and JavaScript text in
  \<open>porcupine/visualization.go\<close> and the writing of the file; the command line programs under \<open>main/\<close> that parse arguments, load
  plug-ins and start processes, most of which belong to packages that are not in the repository; the applications under \<open>mrapps\<close> that
  exit at random, count files or signal processes (\<open>crash\<close>, \<open>jobcount\<close>, \<open>mtiming\<close>, \<open>rtiming\<close>), since what they do is an effect on the
  operating system; the socket server of the MapReduce coordinator. \<open>encoding/gob\<close>, reflection and random numbers are arguments. Locks,
  channels and goroutines appear as the boundaries of atomic steps, not as objects: a deadlock of the lock order is not in the model.
\<close>

end
